(* ===== verification/Prelude.thy ===== *)
theory Prelude
  imports Main "HOL-Library.Word" "HOL-Library.Multiset" "HOL-Library.Sublist"
begin

text \<open>
  Shared vocabulary of the development: machine integers and saturating arithmetic as the
  Rust standard library defines them, strings and the \<open>str\<close> methods the sources use, and
  list lemmas used by several components.

  A Rust string is modelled as a HOL \<open>string\<close> whose characters are the code points up to
  \<open>U+00FF\<close>; \<open>char::is_whitespace\<close> is the \<open>White_Space\<close> property on that range.
  \<open>str::len\<close>, which counts UTF-8 bytes, is \<open>utf8_len\<close>.
\<close>

section \<open>Proof automation\<close>

named_theorems rust_str
named_theorems wf_intros

section \<open>Machine integers\<close>

type_synonym u8 = "8 word"

definition u64_max :: nat where
  "u64_max = 2 ^ 64 - 1"

definition i64_max :: int where
  "i64_max = 2 ^ 63 - 1"

definition i64_min :: int where
  "i64_min = - (2 ^ 63)"

definition sat_add_u64 :: "nat \<Rightarrow> nat \<Rightarrow> nat" where
  "sat_add_u64 a b = min (a + b) u64_max"

lemma sat_add_u64_bound: "sat_add_u64 a b \<le> u64_max"
  by (simp add: sat_add_u64_def)

lemma sat_add_u64_exact: "a + b \<le> u64_max \<Longrightarrow> sat_add_u64 a b = a + b"
  by (simp add: sat_add_u64_def)

lemma sat_add_u64_mono: "a \<le> u64_max \<Longrightarrow> a \<le> sat_add_u64 a b"
  by (simp add: sat_add_u64_def)

section \<open>Strings\<close>

definition LF :: char where "LF = CHR 0x0A"
definition CR :: char where "CR = CHR 0x0D"

definition is_ws :: "char \<Rightarrow> bool" where
  "is_ws c \<longleftrightarrow> (let n = (of_char c :: nat) in (9 \<le> n \<and> n \<le> 13) \<or> n = 32 \<or> n = 133 \<or> n = 160)"

definition trim_start :: "string \<Rightarrow> string" where
  "trim_start s = dropWhile is_ws s"

definition trim_end :: "string \<Rightarrow> string" where
  "trim_end s = rev (dropWhile is_ws (rev s))"

definition trim :: "string \<Rightarrow> string" where
  "trim s = trim_end (trim_start s)"

definition utf8_len :: "string \<Rightarrow> nat" where
  "utf8_len s = sum_list (map (\<lambda>c. if (of_char c :: nat) < 128 then 1 else 2) s)"

fun strip_prefix :: "string \<Rightarrow> string \<Rightarrow> string option" where
  "strip_prefix [] s = Some s"
| "strip_prefix (p # ps) [] = None"
| "strip_prefix (p # ps) (c # cs) = (if p = c then strip_prefix ps cs else None)"

definition starts_with :: "string \<Rightarrow> string \<Rightarrow> bool" where
  "starts_with s p = (strip_prefix p s \<noteq> None)"

definition strip_suffix :: "string \<Rightarrow> string \<Rightarrow> string option" where
  "strip_suffix q s = map_option rev (strip_prefix (rev q) (rev s))"

definition ends_with :: "string \<Rightarrow> string \<Rightarrow> bool" where
  "ends_with s q = (strip_suffix q s \<noteq> None)"

text \<open>\<open>str::find\<close> of a string pattern: the index of the first occurrence.\<close>

fun find_str :: "string \<Rightarrow> string \<Rightarrow> nat option" where
  "find_str p [] = (if p = [] then Some 0 else None)"
| "find_str p (c # cs) =
     (if starts_with (c # cs) p then Some 0 else map_option Suc (find_str p cs))"

definition contains_str :: "string \<Rightarrow> string \<Rightarrow> bool" where
  "contains_str s p = (find_str p s \<noteq> None)"

definition contains_any :: "string \<Rightarrow> string \<Rightarrow> bool" where
  "contains_any s cs = list_ex (\<lambda>c. c \<in> set cs) s"

fun join :: "string \<Rightarrow> string list \<Rightarrow> string" where
  "join sep [] = []"
| "join sep [x] = x"
| "join sep (x # y # ys) = x @ sep @ join sep (y # ys)"

text \<open>The two replacements by which line endings are normalised.\<close>

fun replace_crlf :: "string \<Rightarrow> string" where
  "replace_crlf [] = []"
| "replace_crlf [c] = [c]"
| "replace_crlf (c # d # cs) =
     (if c = CR \<and> d = LF then LF # replace_crlf cs else c # replace_crlf (d # cs))"

definition replace_cr :: "string \<Rightarrow> string" where
  "replace_cr s = map (\<lambda>c. if c = CR then LF else c) s"

text \<open>
  \<open>str::lines\<close>: pieces ended by a line feed, an optional carriage return before the feed
  dropped, and a last piece only when it is not empty.
\<close>

definition drop_cr :: "string \<Rightarrow> string" where
  "drop_cr l = (if l \<noteq> [] \<and> last l = CR then butlast l else l)"

fun lines_acc :: "string \<Rightarrow> string \<Rightarrow> string list" where
  "lines_acc acc [] = (if acc = [] then [] else [rev acc])"
| "lines_acc acc (c # cs) =
     (if c = LF then drop_cr (rev acc) # lines_acc [] cs else lines_acc (c # acc) cs)"

definition rust_lines :: "string \<Rightarrow> string list" where
  "rust_lines s = lines_acc [] s"

fun words_acc :: "string \<Rightarrow> string \<Rightarrow> string list" where
  "words_acc acc [] = (if acc = [] then [] else [rev acc])"
| "words_acc acc (c # cs) =
     (if is_ws c then (if acc = [] then words_acc [] cs else rev acc # words_acc [] cs)
      else words_acc (c # acc) cs)"

definition split_whitespace :: "string \<Rightarrow> string list" where
  "split_whitespace s = words_acc [] s"

definition ascii_lower :: "char \<Rightarrow> char" where
  "ascii_lower c =
     (let n = (of_char c :: nat) in if 65 \<le> n \<and> n \<le> 90 then char_of (n + 32) else c)"

definition to_ascii_lowercase :: "string \<Rightarrow> string" where
  "to_ascii_lowercase s = map ascii_lower s"

definition is_ascii_digit :: "char \<Rightarrow> bool" where
  "is_ascii_digit c \<longleftrightarrow> (let n = (of_char c :: nat) in 48 \<le> n \<and> n \<le> 57)"

definition is_ascii_alpha :: "char \<Rightarrow> bool" where
  "is_ascii_alpha c \<longleftrightarrow>
     (let n = (of_char c :: nat) in (65 \<le> n \<and> n \<le> 90) \<or> (97 \<le> n \<and> n \<le> 122))"

text \<open>Decimal numerals (\<open>{}\<close> of an unsigned integer).\<close>

fun decimal :: "nat \<Rightarrow> string" where
  "decimal n = (if n < 10 then [char_of (48 + n)] else decimal (n div 10) @ [char_of (48 + n mod 10)])"

declare decimal.simps [simp del]

text \<open>\<open>&xs[a..b]\<close>; out of range is a panic (\<open>None\<close>).\<close>

definition slice :: "nat \<Rightarrow> nat \<Rightarrow> 'a list \<Rightarrow> 'a list option" where
  "slice a b xs = (if a \<le> b \<and> b \<le> length xs then Some (take (b - a) (drop a xs)) else None)"

text \<open>\<open>trim_start_matches\<close> of a non-empty string pattern: every leading copy is removed.\<close>

function trim_start_matches :: "string \<Rightarrow> string \<Rightarrow> string" where
  "trim_start_matches p s =
     (if p = [] then s
      else case strip_prefix p s of None \<Rightarrow> s | Some r \<Rightarrow> trim_start_matches p r)"
  by pat_completeness auto

text \<open>\<open>xs.get(i)\<close>, and \<open>split\<close> at a character.\<close>

definition get_at :: "nat \<Rightarrow> 'a list \<Rightarrow> 'a option" where
  "get_at i xs = (if i < length xs then Some (xs ! i) else None)"

fun split_char :: "char \<Rightarrow> string \<Rightarrow> string list" where
  "split_char d [] = [[]]"
| "split_char d (c # cs) =
     (if c = d then [] # split_char d cs
      else (case split_char d cs of [] \<Rightarrow> [[c]] | w # ws \<Rightarrow> (c # w) # ws))"

subsection \<open>Facts about the string functions\<close>

lemma strip_prefix_Some [rust_str]: "strip_prefix p s = Some r \<longleftrightarrow> s = p @ r"
  by (induction p s rule: strip_prefix.induct) auto

termination trim_start_matches
  by (relation "measure (length \<circ> snd)") (auto simp: strip_prefix_Some)

declare trim_start_matches.simps [simp del]

lemma strip_prefix_append [simp]: "strip_prefix p (p @ r) = Some r"
  by (simp add: strip_prefix_Some)

lemma starts_with_iff [rust_str]: "starts_with s p \<longleftrightarrow> prefix p s"
  by (auto simp: starts_with_def prefix_def strip_prefix_Some)

lemma starts_with_append [simp]: "starts_with (p @ r) p"
  by (simp add: starts_with_def)

lemma starts_with_refl [simp]: "starts_with s s"
  using starts_with_append [of s "[]"] by simp

lemma strip_suffix_Some [rust_str]: "strip_suffix q s = Some r \<longleftrightarrow> s = r @ q"
proof -
  have "strip_suffix q s = Some r \<longleftrightarrow> rev s = rev q @ rev r"
    by (auto simp: strip_suffix_def strip_prefix_Some rev_swap)
  also have "\<dots> \<longleftrightarrow> s = r @ q" by (metis rev_append rev_rev_ident)
  finally show ?thesis .
qed

lemma ends_with_iff [rust_str]: "ends_with s q \<longleftrightarrow> suffix q s"
  by (auto simp: ends_with_def suffix_def strip_suffix_Some)

lemma find_str_Some:
  "find_str p s = Some i \<Longrightarrow> i \<le> length s \<and> prefix p (drop i s)"
proof (induction p s arbitrary: i rule: find_str.induct)
  case (1 p)
  then show ?case by (auto split: if_splits)
next
  case (2 p c cs)
  then show ?case by (auto simp: starts_with_iff split: if_splits)
qed

lemma find_str_None: "find_str p s = None \<Longrightarrow> \<not> sublist p s"
proof (induction p s rule: find_str.induct)
  case (1 p)
  then show ?case by (auto split: if_splits)
next
  case (2 p c cs)
  then show ?case by (auto simp: sublist_Cons_right starts_with_iff split: if_splits)
qed

lemma contains_str_iff [rust_str]: "contains_str s p \<longleftrightarrow> sublist p s"
proof
  assume "contains_str s p"
  then obtain i where "find_str p s = Some i" by (auto simp: contains_str_def)
  then have "prefix p (drop i s)" using find_str_Some by blast
  then show "sublist p s" by (meson prefix_imp_sublist sublist_drop sublist_order.order_trans)
qed (use find_str_None in \<open>auto simp: contains_str_def\<close>)

lemma set_join: "set (join sep xs) \<subseteq> set sep \<union> (\<Union>x\<in>set xs. set x)"
  by (induction sep xs rule: join.induct) auto

lemma trim_start_set: "set (trim_start s) \<subseteq> set s"
  by (auto simp: trim_start_def dest: set_dropWhileD)

lemma trim_set: "set (trim s) \<subseteq> set s"
  using trim_start_set by (force simp: trim_def trim_end_def dest: set_dropWhileD)

lemma dropWhile_dropWhile [simp]: "dropWhile P (dropWhile P xs) = dropWhile P xs"
  by (induction xs) auto

lemma trim_end_prefix: "prefix (trim_end s) s"
proof -
  have "rev s = takeWhile is_ws (rev s) @ dropWhile is_ws (rev s)" by simp
  then have "s = trim_end s @ rev (takeWhile is_ws (rev s))"
    unfolding trim_end_def by (metis rev_append rev_rev_ident)
  then show ?thesis by (metis prefixI)
qed

lemma trim_sublist: "sublist (trim s) s"
proof -
  have "suffix (trim_start s) s" by (simp add: trim_start_def suffix_dropWhile)
  then show ?thesis
    using trim_end_prefix [of "trim_start s"]
    by (metis trim_def prefix_imp_sublist suffix_imp_sublist sublist_order.order_trans)
qed

lemma trim_start_id: "s = [] \<or> \<not> is_ws (hd s) \<Longrightarrow> trim_start s = s"
  by (cases s) (auto simp: trim_start_def)

lemma trim_end_idem [simp]: "trim_end (trim_end s) = trim_end s"
  by (simp add: trim_end_def)

lemma trim_hd: "trim s = [] \<or> \<not> is_ws (hd (trim s))"
proof (cases "trim s = []")
  case False
  have pre: "prefix (trim s) (trim_start s)"
    by (simp add: trim_def trim_end_prefix)
  with False have "trim_start s \<noteq> []" by auto
  moreover from pre False have "hd (trim s) = hd (trim_start s)"
    by (auto simp: prefix_def)
  ultimately show ?thesis by (metis hd_dropWhile trim_start_def)
qed simp

lemma trim_idem [simp]: "trim (trim s) = trim s"
  using trim_start_id [OF trim_hd [of s]] by (simp add: trim_def)

lemma trim_blank: "trim s = [] \<Longrightarrow> c \<in> set s \<Longrightarrow> is_ws c"
proof (rule ccontr)
  assume blank: "trim s = []" and c: "c \<in> set s" "\<not> is_ws c"
  then have "c \<in> set (trim_start s)"
    by (metis Un_iff set_append set_takeWhileD takeWhile_dropWhile_id trim_start_def)
  then have "c \<in> set (trim s)"
    using c(2) by (metis Un_iff set_append set_rev set_takeWhileD takeWhile_dropWhile_id trim_def trim_end_def)
  with blank show False by simp
qed

section \<open>Lists\<close>

text \<open>The last \<open>n\<close> elements.\<close>

definition last_n :: "nat \<Rightarrow> 'a list \<Rightarrow> 'a list" where
  "last_n n xs = drop (length xs - n) xs"

lemma length_last_n [simp]: "length (last_n n xs) = min n (length xs)"
  by (simp add: last_n_def)

lemma last_n_all: "length xs \<le> n \<Longrightarrow> last_n n xs = xs"
  by (simp add: last_n_def)

lemma last_n_append_long: "n \<le> length ys \<Longrightarrow> last_n n (xs @ ys) = last_n n ys"
  by (simp add: last_n_def)

lemma last_n_append_last_n: "last_n n (last_n n xs @ ys) = last_n n (xs @ ys)"
proof (cases "length xs \<le> n")
  case True
  then show ?thesis by (simp add: last_n_all)
next
  case False
  then show ?thesis by (simp add: last_n_def add.commute)
qed

lemma drop_take_drop: "n \<le> b \<Longrightarrow> drop n (take b xs) @ drop b xs = drop n xs"
proof -
  assume "n \<le> b"
  then have "drop b xs = drop (b - n) (drop n xs)" by simp
  then show ?thesis by (simp only: drop_take append_take_drop_id)
qed

lemma find_SomeD: "find P xs = Some x \<Longrightarrow> x \<in> set xs \<and> P x"
  by (induction xs) (auto split: if_splits)

section \<open>Invariants of operation sequences\<close>

text \<open>
  The interface shared by the stateful components: an operation keeps a condition on the state
  unless it is one of the operations that may end it. A sequence without such operations then
  keeps the condition.
\<close>

locale guarded_invariant =
  fixes next_state :: "'s \<Rightarrow> 'o \<Rightarrow> 's"
    and holds :: "'s \<Rightarrow> bool"
    and ends :: "'o \<Rightarrow> bool"
  assumes kept: "\<lbrakk>holds s; \<not> ends x\<rbrakk> \<Longrightarrow> holds (next_state s x)"
begin

lemma kept_by_all: "\<lbrakk>holds s; \<forall>x\<in>set xs. \<not> ends x\<rbrakk> \<Longrightarrow> holds (foldl next_state s xs)"
  by (induction xs arbitrary: s) (auto intro: kept)

end

section \<open>Association lists\<close>

text \<open>A small \<open>HashMap\<close> whose emptiness and values the code looks at.\<close>

definition al_insert :: "'k \<Rightarrow> 'v \<Rightarrow> ('k \<times> 'v) list \<Rightarrow> ('k \<times> 'v) list" where
  "al_insert k v xs = (k, v) # filter (\<lambda>p. fst p \<noteq> k) xs"

definition al_remove :: "'k \<Rightarrow> ('k \<times> 'v) list \<Rightarrow> ('k \<times> 'v) list" where
  "al_remove k xs = filter (\<lambda>p. fst p \<noteq> k) xs"

lemma map_of_al_remove [simp]: "map_of (al_remove k xs) = (map_of xs)(k := None)"
  unfolding al_remove_def by (induction xs) (auto simp: fun_eq_iff)

lemma map_of_al_insert [simp]: "map_of (al_insert k v xs) = (map_of xs)(k \<mapsto> v)"
  using map_of_al_remove [of k xs] by (simp add: al_insert_def al_remove_def)

lemma keys_al_insert [simp]: "fst ` set (al_insert k v xs) = insert k (fst ` set xs)"
  by (auto simp: al_insert_def)

end
