(* ===== verification/Head_Tail_Buffer.thy ===== *)
theory Head_Tail_Buffer
  imports Prelude
begin

text \<open>
  The bounded output buffer of a running command
  (\<open>crates/core/src/tools/unified_exec/buffer.rs\<close>): the first \<open>head_limit\<close> bytes are kept
  verbatim, later bytes go to a ring of \<open>tail_limit\<close> bytes. Slicing and
  \<open>copy_from_slice\<close> panic out of range; a panic is \<open>None\<close>.
  The specification is the whole byte history \<open>h\<close>: the buffer holds its first
  \<open>head_limit\<close> bytes and the last \<open>tail_limit\<close> bytes of the rest.
\<close>

section \<open>The buffer and its operations\<close>

record head_tail_buffer =
  head :: "u8 list"
  tail :: "u8 list"
  tail_start :: nat
  tail_len :: nat
  total :: nat
  dropped :: bool
  head_limit :: nat
  tail_limit :: nat

definition HEAD_LIMIT :: nat where "HEAD_LIMIT = 512 * 1024"
definition TAIL_LIMIT :: nat where "TAIL_LIMIT = 512 * 1024"

definition with_limits :: "nat \<Rightarrow> nat \<Rightarrow> head_tail_buffer" where
  "with_limits hl tlim =
     \<lparr>head = [], tail = [], tail_start = 0, tail_len = 0, total = 0, dropped = False,
      head_limit = hl, tail_limit = tlim\<rparr>"

definition new_buffer :: head_tail_buffer where
  "new_buffer = with_limits HEAD_LIMIT TAIL_LIMIT"

text \<open>\<open>dst[at..at + src.len()].copy_from_slice(src)\<close>.\<close>

definition copy_at :: "nat \<Rightarrow> 'a list \<Rightarrow> 'a list \<Rightarrow> 'a list option" where
  "copy_at i src dst =
     (if i + length src \<le> length dst then Some (take i dst @ src @ drop (i + length src) dst)
      else None)"

function push_tail :: "head_tail_buffer \<Rightarrow> u8 list \<Rightarrow> head_tail_buffer option" where
  "push_tail b bytes =
     (if bytes = [] \<or> tail_limit b = 0 then Some b
      else if tail_limit b \<le> length bytes then
        Some (b\<lparr>tail := drop (length bytes - tail_limit b) bytes, tail_start := 0,
                tail_len := tail_limit b\<rparr>)
      else if length (tail b) < tail_limit b then
        (let available = tail_limit b - length (tail b);
             n = min (length bytes) available;
             b' = b\<lparr>tail := tail b @ take n bytes, tail_len := tail_len b + n\<rparr>
         in if n = length bytes then Some b' else push_tail b' (drop n bytes))
      else if tail_limit b < tail_start b then None
      else
        (let first = min (length bytes) (tail_limit b - tail_start b)
         in case copy_at (tail_start b) (take first bytes) (tail b) of
              None \<Rightarrow> None
            | Some t1 \<Rightarrow>
                (case (if first < length bytes then copy_at 0 (drop first bytes) t1
                       else Some t1) of
                   None \<Rightarrow> None
                 | Some t2 \<Rightarrow>
                     Some (b\<lparr>tail := t2,
                             tail_start := (tail_start b + length bytes) mod tail_limit b,
                             tail_len := tail_limit b\<rparr>))))"
  by pat_completeness auto
termination
  by (relation "measure (\<lambda>(b, bytes). length bytes)") auto

declare push_tail.simps [simp del]

definition ht_push :: "head_tail_buffer \<Rightarrow> u8 list \<Rightarrow> head_tail_buffer option" where
  "ht_push b bytes =
     (if bytes = [] then Some b
      else
        (let b1 = b\<lparr>total := total b + length bytes\<rparr>
         in if length (head b1) < head_limit b1 then
              (let space = head_limit b1 - length (head b1);
                   n = min (length bytes) space;
                   b2 = b1\<lparr>head := head b1 @ take n bytes\<rparr>
               in if n < length bytes
                  then push_tail (b2\<lparr>dropped := True\<rparr>) (drop n bytes)
                  else Some b2)
            else push_tail (b1\<lparr>dropped := True\<rparr>) bytes))"

definition extend_with_tail :: "head_tail_buffer \<Rightarrow> u8 list" where
  "extend_with_tail b =
     (if tail_len b = 0 then []
      else if tail_len b < tail_limit b \<or> tail_start b = 0 then take (tail_len b) (tail b)
      else drop (tail_start b) (tail b) @ take (tail_start b) (tail b))"

definition collect_bytes :: "head_tail_buffer \<Rightarrow> u8 list" where
  "collect_bytes b = head b @ extend_with_tail b"

definition drain_collect_bytes :: "head_tail_buffer \<Rightarrow> u8 list \<times> head_tail_buffer" where
  "drain_collect_bytes b =
     (collect_bytes b,
      b\<lparr>head := [], tail := [], tail_start := 0, tail_len := 0, total := 0, dropped := False\<rparr>)"

definition truncated :: "head_tail_buffer \<Rightarrow> bool" where
  "truncated b = dropped b"

text \<open>
  \<open>collect\<close> decodes the head and each contiguous part of the ring on its own
  (\<open>String::from_utf8_lossy\<close>, the parameter \<open>lossy\<close>).
\<close>

definition push_tail_lossy :: "(u8 list \<Rightarrow> string) \<Rightarrow> head_tail_buffer \<Rightarrow> string" where
  "push_tail_lossy lossy b =
     (if tail_len b = 0 then []
      else if tail_len b < tail_limit b \<or> tail_start b = 0
           then lossy (take (tail_len b) (tail b))
      else lossy (drop (tail_start b) (tail b)) @ lossy (take (tail_start b) (tail b)))"

definition collect :: "(u8 list \<Rightarrow> string) \<Rightarrow> head_tail_buffer \<Rightarrow> string" where
  "collect lossy b = lossy (head b) @ push_tail_lossy lossy b"

section \<open>Representation invariant and abstraction\<close>

definition ring_ok :: "head_tail_buffer \<Rightarrow> bool" where
  "ring_ok b \<longleftrightarrow>
     tail_len b = length (tail b) \<and> length (tail b) \<le> tail_limit b \<and>
     (if length (tail b) < tail_limit b \<or> tail_limit b = 0 then tail_start b = 0
      else tail_start b < tail_limit b)"

text \<open>The bytes of the ring, oldest first.\<close>

definition ring :: "head_tail_buffer \<Rightarrow> u8 list" where
  "ring b = drop (tail_start b) (tail b) @ take (tail_start b) (tail b)"

text \<open>The buffer represents the byte history \<open>h\<close>.\<close>

definition represents :: "head_tail_buffer \<Rightarrow> u8 list \<Rightarrow> bool" where
  "represents b h \<longleftrightarrow>
     ring_ok b \<and> head b = take (head_limit b) h \<and>
     ring b = last_n (tail_limit b) (drop (head_limit b) h) \<and>
     total b = length h \<and> (dropped b \<longleftrightarrow> head_limit b < length h)"

lemma extend_with_tail_ring: "ring_ok b \<Longrightarrow> extend_with_tail b = ring b"
  by (auto simp: extend_with_tail_def ring_def ring_ok_def)

lemma represents_new: "represents (with_limits hl tlim) []"
  by (auto simp: represents_def with_limits_def ring_ok_def ring_def last_n_def)

section \<open>The ring keeps the newest bytes\<close>

lemma copy_at_Some:
  "i + length src \<le> length dst \<Longrightarrow>
   copy_at i src dst = Some (take i dst @ src @ drop (i + length src) dst)"
  by (simp add: copy_at_def)

lemma drop_append_exact: "n = length xs \<Longrightarrow> drop n (xs @ ys) = ys"
  by simp

text \<open>The wrap-around write, on lists: \<open>s\<close> is the ring's start, \<open>k\<close> bytes arrive.\<close>

lemma wrap_inside:
  assumes "s + length bs \<le> length t" "length bs < length t"
  shows "last_n (length t) ((drop s t @ take s t) @ bs) = drop (s + length bs) t @ take s t @ bs"
  using assms by (simp add: last_n_def add.commute)

lemma wrap_around:
  assumes "length t < s + length bs" "s < length t" "length bs < length t"
  shows "last_n (length t) ((drop s t @ take s t) @ bs) = drop (s + length bs - length t) (take s t) @ bs"
  using assms by (simp add: last_n_def add.commute)

lemma wrap_write:
  fixes t bs :: "'a list"
  assumes s: "s < length t" and k: "length bs < length t"
  defines "f \<equiv> min (length bs) (length t - s)"
  defines "t1 \<equiv> take s t @ take f bs @ drop (s + f) t"
  defines "t2 \<equiv> (if f < length bs then drop f bs @ drop (length bs - f) t1 else t1)"
  defines "s' \<equiv> (s + length bs) mod length t"
  shows "drop s' t2 @ take s' t2 = last_n (length t) ((drop s t @ take s t) @ bs)"
proof -
  consider "s + length bs < length t" | "s + length bs = length t" | "length t < s + length bs"
    by linarith
  then show ?thesis
  proof cases
    case 1
    then have f: "f = length bs" and s': "s' = s + length bs" by (auto simp: f_def s'_def)
    have t2: "t2 = (take s t @ bs) @ drop (s + length bs) t" by (simp add: t2_def t1_def f)
    have l: "length (take s t @ bs) = s'" using s s' by simp
    show ?thesis unfolding t2 using l 1 s k
      by (subst wrap_inside) (auto simp: s')
  next
    case 2
    then have f: "f = length bs" and s': "s' = 0" by (auto simp: f_def s'_def)
    have t2: "t2 = take s t @ bs" using 2 by (simp add: t2_def t1_def f)
    show ?thesis unfolding t2 s' using 2 k by (subst wrap_inside) auto
  next
    case 3
    then have f: "f = length t - s" using s by (simp add: f_def)
    have "s + length bs - length t < length t" using s k by linarith
    then have s': "s' = s + length bs - length t" using 3 by (simp add: s'_def le_mod_geq)
    have lt: "f < length bs" using 3 f s by linarith
    have t1: "t1 = take s t @ take f bs" using s by (simp add: t1_def f)
    have "s' < s" using s' k 3 by linarith
    then have t2: "t2 = drop f bs @ drop s' (take s t) @ take f bs"
      using lt s f s' by (simp add: t2_def t1 add.commute)
    have l: "length (drop f bs) = s'" using f s' s by simp
    have "drop s' t2 @ take s' t2 = (drop s' (take s t) @ take f bs) @ drop f bs"
      unfolding t2 using l by simp
    then show ?thesis using wrap_around [OF 3 s k] s' by simp
  qed
qed

lemma push_tail_correct:
  assumes "ring_ok b"
  shows "\<exists>b'. push_tail b bytes = Some b' \<and> ring_ok b' \<and>
              ring b' = last_n (tail_limit b) (ring b @ bytes) \<and>
              head b' = head b \<and> total b' = total b \<and> dropped b' = dropped b \<and>
              head_limit b' = head_limit b \<and> tail_limit b' = tail_limit b"
  using assms
proof (induction b bytes rule: push_tail.induct)
  case (1 b bytes)
  note ok = "1.prems"
  have len: "length (tail b) \<le> tail_limit b" "length (ring b) = length (tail b)"
    using ok by (auto simp: ring_ok_def ring_def)
  consider "bytes = [] \<or> tail_limit b = 0"
    | "bytes \<noteq> []" "tail_limit b \<noteq> 0" "tail_limit b \<le> length bytes"
    | "bytes \<noteq> []" "length bytes < tail_limit b" "length (tail b) < tail_limit b"
    | "bytes \<noteq> []" "length bytes < tail_limit b" "length (tail b) = tail_limit b"
    using len by linarith
  then show ?case
  proof cases
    case 1
    then show ?thesis using ok len
      by (auto simp: push_tail.simps [of b bytes] last_n_def)
  next
    case 2
    then show ?thesis
      by (simp add: push_tail.simps [of b bytes] ring_ok_def ring_def last_n_append_long)
         (simp add: last_n_def)
  next
    case 3
    define n where "n = min (length bytes) (tail_limit b - length (tail b))"
    define b1 where "b1 = b\<lparr>tail := tail b @ take n bytes, tail_len := tail_len b + n\<rparr>"
    have start: "tail_start b = 0" using ok 3 by (simp add: ring_ok_def)
    have ok1: "ring_ok b1" and ring1: "ring b1 = ring b @ take n bytes"
      using ok 3 start by (auto simp: ring_ok_def ring_def b1_def n_def)
    have eq: "push_tail b bytes =
        (if n = length bytes then Some b1 else push_tail b1 (drop n bytes))"
      using 3 by (simp add: push_tail.simps [of b bytes] n_def b1_def Let_def)
    show ?thesis
    proof (cases "n = length bytes")
      case True
      then have "length (ring b @ bytes) \<le> tail_limit b"
        using 3 len by (auto simp: n_def)
      then show ?thesis using True eq ok1 ring1 by (simp add: last_n_all b1_def)
    next
      case False
      have "\<exists>b'. push_tail b1 (drop n bytes) = Some b' \<and> ring_ok b' \<and>
              ring b' = last_n (tail_limit b1) (ring b1 @ drop n bytes) \<and>
              head b' = head b1 \<and> total b' = total b1 \<and> dropped b' = dropped b1 \<and>
              head_limit b' = head_limit b1 \<and> tail_limit b' = tail_limit b1"
        using "1.IH" [OF _ _ _ refl n_def b1_def] 3 False ok1 by simp
      then show ?thesis using False eq ring1 by (simp add: b1_def)
    qed
  next
    case 4
    define f where "f = min (length bytes) (tail_limit b - tail_start b)"
    have s: "tail_start b < tail_limit b" using ok 4 by (auto simp: ring_ok_def split: if_splits)
    define t1 where "t1 = take (tail_start b) (tail b) @ take f bytes @
      drop (tail_start b + f) (tail b)"
    define t2 where "t2 = (if f < length bytes then drop f bytes @ drop (length bytes - f) t1
      else t1)"
    have lt1: "length t1 = tail_limit b" using s 4 by (auto simp: t1_def f_def)
    have c1: "copy_at (tail_start b) (take f bytes) (tail b) = Some t1"
      using s 4 by (auto simp: copy_at_def t1_def f_def)
    have c2: "(if f < length bytes then copy_at 0 (drop f bytes) t1 else Some t1) = Some t2"
      using 4 lt1 by (auto simp: copy_at_def t2_def)
    have lt2: "length t2 = tail_limit b" using lt1 4 by (auto simp: t2_def)
    have eq: "push_tail b bytes = Some (b\<lparr>tail := t2,
        tail_start := (tail_start b + length bytes) mod tail_limit b,
        tail_len := tail_limit b\<rparr>)"
      using 4 s c1 c2 by (simp add: push_tail.simps [of b bytes] f_def [symmetric] Let_def)
    have "drop ((tail_start b + length bytes) mod tail_limit b) t2 @
          take ((tail_start b + length bytes) mod tail_limit b) t2 =
          last_n (tail_limit b) (ring b @ bytes)"
      using wrap_write [of "tail_start b" "tail b" bytes, unfolded 4(3), folded f_def,
          folded t1_def, folded t2_def] s 4
      by (simp add: ring_def)
    then show ?thesis using eq lt2 s by (simp add: ring_ok_def ring_def)
  qed
qed

section \<open>Every push keeps the representation\<close>

lemma ht_push_represents:
  assumes "represents b h"
  shows "\<exists>b'. ht_push b bytes = Some b' \<and> represents b' (h @ bytes) \<and>
              head_limit b' = head_limit b \<and> tail_limit b' = tail_limit b"
proof (cases "bytes = []")
  case True
  then show ?thesis using assms by (simp add: ht_push_def)
next
  case False
  note rep = assms [unfolded represents_def]
  show ?thesis
  proof (cases "length h < head_limit b")
    case True
    define n where "n = min (length bytes) (head_limit b - length h)"
    define b2 where "b2 = b\<lparr>total := total b + length bytes, head := head b @ take n bytes\<rparr>"
    have empty_ring: "ring b = []" using rep True by (simp add: last_n_def)
    have step: "ht_push b bytes =
      (if n < length bytes then push_tail (b2\<lparr>dropped := True\<rparr>) (drop n bytes) else Some b2)"
      using False True rep by (simp add: ht_push_def b2_def n_def Let_def min_def)
    show ?thesis
    proof (cases "n < length bytes")
      case long: True
      let ?b3 = "b2\<lparr>dropped := True\<rparr>"
      have tail: "tail b = []" using empty_ring by (cases "tail_start b") (simp_all add: ring_def)
      have ok3: "ring_ok ?b3" and r3: "ring ?b3 = []"
        using rep tail by (auto simp: ring_ok_def ring_def b2_def)
      from push_tail_correct [OF ok3, of "drop n bytes"] obtain b' where
        b': "push_tail ?b3 (drop n bytes) = Some b'" "ring_ok b'"
          "ring b' = last_n (tail_limit b) (drop n bytes)" "head b' = head b2"
          "total b' = total b2" "dropped b'" "head_limit b' = head_limit b"
          "tail_limit b' = tail_limit b"
        using r3 by (auto simp: b2_def)
      have "represents b' (h @ bytes)"
        using b' rep True long by (auto simp: represents_def b2_def n_def)
      then show ?thesis using step long b' by simp
    next
      case short: False
      have tail: "tail b = []" using empty_ring by (cases "tail_start b") (simp_all add: ring_def)
      have "represents b2 (h @ bytes)"
        using rep True short tail
        by (auto simp: represents_def b2_def n_def ring_ok_def ring_def last_n_def split: if_splits)
      then show ?thesis using step short by (simp add: b2_def)
    qed
  next
    case full: False
    let ?b1 = "b\<lparr>total := total b + length bytes, dropped := True\<rparr>"
    have step: "ht_push b bytes = push_tail ?b1 bytes"
      using False full rep by (simp add: ht_push_def Let_def)
    have "ring_ok ?b1" "ring ?b1 = ring b"
      using rep by (simp_all add: ring_ok_def ring_def)
    with push_tail_correct [of ?b1 bytes] obtain b' where
      b': "push_tail ?b1 bytes = Some b'" "ring_ok b'"
        "ring b' = last_n (tail_limit b) (ring b @ bytes)" "head b' = head b"
        "total b' = total b + length bytes" "dropped b'" "head_limit b' = head_limit b"
        "tail_limit b' = tail_limit b"
      by auto
    have "represents b' (h @ bytes)"
      using b' rep full False
      by (auto simp: represents_def last_n_append_last_n) 
    then show ?thesis using step b' by simp
  qed
qed

section \<open>The interface of a byte sink\<close>

text \<open>
  What the readers of a pseudo terminal rely on: pushing a chunk succeeds and appends the
  chunk to the history the sink stands for. \<open>push\<close> returns \<open>None\<close> for a panic.
\<close>

fun push_all :: "('s \<Rightarrow> 'a list \<Rightarrow> 's option) \<Rightarrow> 's \<Rightarrow> 'a list list \<Rightarrow> 's option" where
  "push_all push s [] = Some s"
| "push_all push s (c # cs) =
     (case push s c of None \<Rightarrow> None | Some s' \<Rightarrow> push_all push s' cs)"

locale byte_sink =
  fixes push :: "'s \<Rightarrow> 'a list \<Rightarrow> 's option"
    and stands_for :: "'s \<Rightarrow> 'a list \<Rightarrow> bool"
    and config :: "'s \<Rightarrow> 'c"
  assumes push_ok:
    "stands_for s h \<Longrightarrow> \<exists>s'. push s c = Some s' \<and> stands_for s' (h @ c) \<and> config s' = config s"
begin

lemma push_all_ok:
  "stands_for s h \<Longrightarrow>
   \<exists>s'. push_all push s cs = Some s' \<and> stands_for s' (h @ concat cs) \<and> config s' = config s"
proof (induction cs arbitrary: s h)
  case (Cons c cs)
  from push_ok [OF Cons.prems] obtain s1 where
    s1: "push s c = Some s1" "stands_for s1 (h @ c)" "config s1 = config s" by blast
  from Cons.IH [OF s1(2)] s1 show ?case by auto
qed simp

end

interpretation ht: byte_sink ht_push represents "\<lambda>b. (head_limit b, tail_limit b)"
  by unfold_locales (simp add: ht_push_represents)

lemma push_all_new:
  "\<exists>b. push_all ht_push (with_limits hl tlim) chunks = Some b \<and>
       represents b (concat chunks) \<and> head_limit b = hl \<and> tail_limit b = tlim"
  using ht.push_all_ok [OF represents_new, of hl tlim chunks] by (auto simp: with_limits_def)

section \<open>Properties\<close>

text \<open>
  whatever chunks arrive, in whatever sizes and for whatever limits, no slice of the
  buffer is out of range (no push panics), and what is read back is exactly the first
  \<open>head_limit\<close> bytes of the stream followed by the last \<open>tail_limit\<close> of the remaining ones.
\<close>

theorem buffer_keeps_head_and_tail:
  "\<exists>b. push_all ht_push (with_limits hl tlim) chunks = Some b \<and>
       collect_bytes b = take hl (concat chunks) @ last_n tlim (drop hl (concat chunks)) \<and>
       total b = length (concat chunks)"
proof -
  obtain b where b: "push_all ht_push (with_limits hl tlim) chunks = Some b"
    "represents b (concat chunks)" "head_limit b = hl" "tail_limit b = tlim"
    using push_all_new by blast
  then have "collect_bytes b = take hl (concat chunks) @ last_n tlim (drop hl (concat chunks))"
    by (simp add: collect_bytes_def represents_def extend_with_tail_ring)
  with b show ?thesis by (auto simp: represents_def)
qed

text \<open>
  the retained bytes never exceed the two limits together, and when the stream fits in
  them nothing is lost: the buffer returns the stream unchanged, even though \<open>truncated\<close>
  already reports truncation as soon as the stream is longer than the head.
\<close>

theorem buffer_bounded_and_lossless_when_it_fits:
  "\<exists>b. push_all ht_push (with_limits hl tlim) chunks = Some b \<and>
       length (collect_bytes b) = min (length (concat chunks)) (hl + tlim) \<and>
       (collect_bytes b = concat chunks \<longleftrightarrow> length (concat chunks) \<le> hl + tlim) \<and>
       (truncated b \<longleftrightarrow> hl < length (concat chunks))"
proof -
  let ?h = "concat chunks"
  obtain b where b: "push_all ht_push (with_limits hl tlim) chunks = Some b"
    "represents b ?h" "head_limit b = hl" "tail_limit b = tlim"
    using push_all_new by blast
  have c: "collect_bytes b = take hl ?h @ last_n tlim (drop hl ?h)"
    using b by (simp add: collect_bytes_def represents_def extend_with_tail_ring)
  have l: "length (collect_bytes b) = min (length ?h) (hl + tlim)"
    unfolding c by (simp del: length_concat)
  have "collect_bytes b = ?h" if "length ?h \<le> hl + tlim"
    using that unfolding c by (subst last_n_all) (simp_all del: length_concat)
  moreover have "length ?h \<le> hl + tlim" if "collect_bytes b = ?h"
    using l that by (simp del: length_concat)
  ultimately show ?thesis using b l by (auto simp: represents_def truncated_def simp del: length_concat)
qed

text \<open>
  draining returns the collected bytes and leaves a buffer that behaves as a new one
  with the same limits: it stands for the empty history.
\<close>

theorem drain_resets:
  assumes "represents b h"
  shows "fst (drain_collect_bytes b) = take (head_limit b) h @ last_n (tail_limit b) (drop (head_limit b) h)
    \<and> snd (drain_collect_bytes b) = with_limits (head_limit b) (tail_limit b)"
  using assms
  by (auto simp: drain_collect_bytes_def represents_def collect_bytes_def extend_with_tail_ring
      with_limits_def)

lemma drain_resets_witness:
  "snd (drain_collect_bytes (with_limits 4 4)) = with_limits 4 4"
  using drain_resets [OF represents_new [of 4 4]] by (simp add: with_limits_def)

end
