(* ===== verification/Response_Items.thy ===== *)
theory Response_Items
  imports Prelude
begin

text \<open>
  The conversation data and its three shapes: session messages
  (\<open>crates/protocol/src/conversation.rs\<close>), the flat working items of the history
  (\<open>crates/core/src/response_item.rs\<close>) and provider requests
  (\<open>crates/protocol/src/model.rs\<close>), with the conversions between them and the merge of
  adjacent assistant messages (\<open>crates/core/src/history/mod.rs\<close>).
  A \<open>serde_json::Value\<close> is never looked into: it is the type variable \<open>'j\<close>.
\<close>

section \<open>Data\<close>

datatype role = User | Assistant | System

fun role_as_str :: "role \<Rightarrow> string" where
  "role_as_str User = ''user''"
| "role_as_str Assistant = ''assistant''"
| "role_as_str System = ''system''"

datatype 'j content_block =
    Text string
  | Reasoning string
  | ProviderReasoning string 'j
  | ToolUse string string 'j
  | HostedToolUse string string 'j "'j option" "string option"
  | ToolResult string string bool
  | Image string string

record 'j message =
  m_role :: role
  m_content :: "'j content_block list"

definition message_user :: "string \<Rightarrow> 'j message" where
  "message_user text = \<lparr>m_role = User, m_content = [Text text]\<rparr>"

definition message_assistant_text :: "string \<Rightarrow> 'j message" where
  "message_assistant_text text = \<lparr>m_role = Assistant, m_content = [Text text]\<rparr>"

definition message_system :: "string \<Rightarrow> 'j message" where
  "message_system text = \<lparr>m_role = System, m_content = [Text text]\<rparr>"

fun tool_use_of :: "'j content_block \<Rightarrow> (string \<times> string \<times> 'j) option" where
  "tool_use_of (ToolUse i n v) = Some (i, n, v)"
| "tool_use_of _ = None"

definition message_tool_uses :: "'j message \<Rightarrow> (string \<times> string \<times> 'j) list" where
  "message_tool_uses m = List.map_filter tool_use_of (m_content m)"

datatype 'j request_content =
    RText string
  | RReasoning string
  | RProviderReasoning string 'j
  | RToolUse string string 'j
  | RHostedToolUse string string 'j "'j option" "string option"
  | RToolResult string string "bool option"
  | RImage string string

record 'j request_message =
  r_role :: string
  r_content :: "'j request_content list"

datatype 'j response_item =
    Reason string
  | MessageItem "'j message"
  | ToolCall string string 'j
  | ToolCallOutput string string bool

text \<open>\<open>UserInput\<close>; only the text variant is looked into.\<close>

datatype image_detail = DetailLow | DetailHigh | DetailAuto

datatype user_input =
    UserText string
  | UserImage string "string option" "image_detail option"
  | UserLocalImage string "image_detail option"
  | UserAudio string "string option"
  | UserSkill string
  | UserMention string

datatype input_modality = MText | MImage

section \<open>Classification of items\<close>

fun is_reason :: "'j response_item \<Rightarrow> bool" where
  "is_reason (Reason _) = True"
| "is_reason _ = False"

fun is_message :: "'j response_item \<Rightarrow> bool" where
  "is_message (MessageItem _) = True"
| "is_message _ = False"

fun is_tool_call :: "'j response_item \<Rightarrow> bool" where
  "is_tool_call (ToolCall _ _ _) = True"
| "is_tool_call _ = False"

fun tool_call_id :: "'j response_item \<Rightarrow> string option" where
  "tool_call_id (ToolCall i _ _) = Some i"
| "tool_call_id _ = None"

fun is_tool_call_output :: "'j response_item \<Rightarrow> bool" where
  "is_tool_call_output (ToolCallOutput _ _ _) = True"
| "is_tool_call_output _ = False"

fun tool_call_output_id :: "'j response_item \<Rightarrow> string option" where
  "tool_call_output_id (ToolCallOutput i _ _) = Some i"
| "tool_call_output_id _ = None"

section \<open>Conversions\<close>

definition err_flag :: "bool \<Rightarrow> bool option" where
  "err_flag e = (if e then Some True else None)"

fun to_request_content :: "'j content_block \<Rightarrow> 'j request_content" where
  "to_request_content (Text t) = RText t"
| "to_request_content (Reasoning t) = RReasoning t"
| "to_request_content (ProviderReasoning p v) = RProviderReasoning p v"
| "to_request_content (ToolUse i n v) = RToolUse i n v"
| "to_request_content (HostedToolUse i n v out st) = RHostedToolUse i n v out st"
| "to_request_content (ToolResult i c e) = RToolResult i c (err_flag e)"
| "to_request_content (Image m d) = RImage m d"

definition to_request_message :: "'j message \<Rightarrow> 'j request_message" where
  "to_request_message m =
     \<lparr>r_role = role_as_str (m_role m), r_content = map to_request_content (m_content m)\<rparr>"

text \<open>\<open>From<ContentBlock> for ResponseItem\<close>, without a message's role.\<close>

fun item_from_block :: "'j content_block \<Rightarrow> 'j response_item" where
  "item_from_block (Text t) = MessageItem \<lparr>m_role = Assistant, m_content = [Text t]\<rparr>"
| "item_from_block (ProviderReasoning p v) =
     MessageItem \<lparr>m_role = Assistant, m_content = [ProviderReasoning p v]\<rparr>"
| "item_from_block (Reasoning t) = Reason t"
| "item_from_block (ToolUse i n v) = ToolCall i n v"
| "item_from_block (HostedToolUse i n v out st) =
     MessageItem \<lparr>m_role = Assistant, m_content = [HostedToolUse i n v out st]\<rparr>"
| "item_from_block (ToolResult i c e) = ToolCallOutput i c e"
| "item_from_block (Image m d) = MessageItem \<lparr>m_role = User, m_content = [Image m d]\<rparr>"

fun item_to_request :: "'j response_item \<Rightarrow> 'j request_message" where
  "item_to_request (Reason t) = \<lparr>r_role = role_as_str Assistant, r_content = [RReasoning t]\<rparr>"
| "item_to_request (MessageItem m) = to_request_message m"
| "item_to_request (ToolCall i n v) =
     \<lparr>r_role = role_as_str Assistant, r_content = [RToolUse i n v]\<rparr>"
| "item_to_request (ToolCallOutput i c e) =
     \<lparr>r_role = role_as_str User, r_content = [RToolResult i c (err_flag e)]\<rparr>"

text \<open>The body of the splitting loop.\<close>

fun split_block :: "role \<Rightarrow> 'j content_block \<Rightarrow> 'j response_item" where
  "split_block r (Text t) = MessageItem \<lparr>m_role = r, m_content = [Text t]\<rparr>"
| "split_block r (Reasoning t) = Reason t"
| "split_block r (ProviderReasoning p v) =
     MessageItem \<lparr>m_role = r, m_content = [ProviderReasoning p v]\<rparr>"
| "split_block r (ToolUse i n v) = ToolCall i n v"
| "split_block r (HostedToolUse i n v out st) =
     MessageItem \<lparr>m_role = r, m_content = [HostedToolUse i n v out st]\<rparr>"
| "split_block r (ToolResult i c e) = ToolCallOutput i c e"
| "split_block r (Image m d) = MessageItem \<lparr>m_role = r, m_content = [Image m d]\<rparr>"

fun keeps_shape :: "'j content_block list \<Rightarrow> bool" where
  "keeps_shape [Text _] = True"
| "keeps_shape [ProviderReasoning _ _] = True"
| "keeps_shape [HostedToolUse _ _ _ _ _] = True"
| "keeps_shape _ = False"

definition message_to_response_items :: "'j message \<Rightarrow> 'j response_item list" where
  "message_to_response_items m =
     (if keeps_shape (m_content m)
      then [MessageItem \<lparr>m_role = m_role m, m_content = m_content m\<rparr>]
      else map (split_block (m_role m)) (m_content m))"

section \<open>Merging adjacent assistant messages\<close>

text \<open>The loop pushes each message or appends its content to the last one pushed.\<close>

definition merge_push :: "'j request_message list \<Rightarrow> 'j request_message \<Rightarrow> 'j request_message list" where
  "merge_push out m =
     (if out \<noteq> [] \<and> r_role (last out) = ''assistant'' \<and> r_role m = ''assistant''
      then butlast out @ [(last out)\<lparr>r_content := r_content (last out) @ r_content m\<rparr>]
      else out @ [m])"

definition merge_consecutive_assistant_messages ::
  "'j request_message list \<Rightarrow> 'j request_message list" where
  "merge_consecutive_assistant_messages ms = foldl merge_push [] ms"

section \<open>Facts about splitting\<close>

lemma role_as_str_inj [simp]: "role_as_str r = role_as_str s \<longleftrightarrow> r = s"
  by (cases r; cases s) simp_all

lemma role_as_str_eq [simp]:
  "role_as_str r = ''assistant'' \<longleftrightarrow> r = Assistant"
  "role_as_str r = ''user'' \<longleftrightarrow> r = User"
  by (cases r; simp)+

text \<open>The single-block shortcut returns what the loop returns.\<close>

lemma message_to_response_items_loop:
  "message_to_response_items m = map (split_block (m_role m)) (m_content m)"
proof (cases "m_content m" rule: keeps_shape.cases)
qed (simp_all add: message_to_response_items_def)

lemma split_block_request_content:
  "r_content (item_to_request (split_block r b)) = [to_request_content b]"
  by (cases b) (simp_all add: to_request_message_def)

lemma split_block_assistant_role:
  "\<not> (\<exists>i c e. b = ToolResult i c e) \<Longrightarrow>
   r_role (item_to_request (split_block Assistant b)) = ''assistant''"
  by (cases b) (simp_all add: to_request_message_def)

section \<open>Facts about merging\<close>

text \<open>The role-tagged content of a request, in order: what the provider reads.\<close>

definition tagged_of :: "'j request_message \<Rightarrow> (string \<times> 'j request_content) list" where
  "tagged_of m = map (Pair (r_role m)) (r_content m)"

definition tagged :: "'j request_message list \<Rightarrow> (string \<times> 'j request_content) list" where
  "tagged ms = concat (map tagged_of ms)"

lemma tagged_simps [simp]:
  "tagged [] = []"
  "tagged (m # ms) = tagged_of m @ tagged ms"
  "tagged (ms @ ns) = tagged ms @ tagged ns"
  by (simp_all add: tagged_def)

text \<open>No two neighbours are both assistant messages.\<close>

fun no_adjacent_assistant :: "'j request_message list \<Rightarrow> bool" where
  "no_adjacent_assistant (m # n # ms) \<longleftrightarrow>
     \<not> (r_role m = ''assistant'' \<and> r_role n = ''assistant'') \<and> no_adjacent_assistant (n # ms)"
| "no_adjacent_assistant _ \<longleftrightarrow> True"

lemma no_adjacent_assistant_snoc:
  "no_adjacent_assistant (ms @ [m]) \<longleftrightarrow>
     no_adjacent_assistant ms \<and>
     \<not> (ms \<noteq> [] \<and> r_role (last ms) = ''assistant'' \<and> r_role m = ''assistant'')"
  by (induction ms rule: no_adjacent_assistant.induct) auto

lemma merge_push_tagged [simp]: "tagged (merge_push out m) = tagged out @ tagged_of m"
proof (cases "out" rule: rev_cases)
  case (snoc out' l)
  then show ?thesis by (auto simp: merge_push_def tagged_of_def)
qed (simp add: merge_push_def)

lemma merge_push_no_adjacent:
  assumes "no_adjacent_assistant out"
  shows "no_adjacent_assistant (merge_push out m)"
proof (cases "out \<noteq> [] \<and> r_role (last out) = ''assistant'' \<and> r_role m = ''assistant''")
  case True
  then obtain out' l where "out = out' @ [l]" by (metis rev_exhaust)
  with True assms show ?thesis by (auto simp: merge_push_def no_adjacent_assistant_snoc)
next
  case False
  then have "merge_push out m = out @ [m]" by (auto simp: merge_push_def)
  with False assms show ?thesis by (auto simp: no_adjacent_assistant_snoc)
qed

lemma merge_fold:
  "tagged (foldl merge_push out ms) = tagged out @ tagged ms \<and>
   (no_adjacent_assistant out \<longrightarrow> no_adjacent_assistant (foldl merge_push out ms))"
proof (induction ms arbitrary: out)
  case (Cons m ms)
  then show ?case using merge_push_no_adjacent [of out m] by simp
qed simp

lemma merge_tagged [simp]: "tagged (merge_consecutive_assistant_messages ms) = tagged ms"
  by (simp add: merge_consecutive_assistant_messages_def merge_fold)

lemma merge_no_adjacent: "no_adjacent_assistant (merge_consecutive_assistant_messages ms)"
  using merge_fold [of "[]" ms] by (simp add: merge_consecutive_assistant_messages_def)

lemma merge_fold_fixed:
  "no_adjacent_assistant (out @ ms) \<Longrightarrow> foldl merge_push out ms = out @ ms"
proof (induction ms arbitrary: out)
  case (Cons m ms)
  have "no_adjacent_assistant ((out @ [m]) @ ms)" using Cons.prems by simp
  moreover have "merge_push out m = out @ [m]"
    using Cons.prems
    by (induction out rule: no_adjacent_assistant.induct) (auto simp: merge_push_def)
  ultimately show ?case using Cons.IH by simp
qed simp

lemma merge_assistant_run:
  "\<lbrakk>\<forall>m\<in>set ms. r_role m = ''assistant''; r_role l = ''assistant''\<rbrakk> \<Longrightarrow>
   foldl merge_push [l] ms = [l\<lparr>r_content := r_content l @ concat (map r_content ms)\<rparr>]"
  by (induction ms arbitrary: l) (auto simp: merge_push_def)

lemma merge_same_role:
  assumes "ms \<noteq> []" "\<forall>m\<in>set ms. r_role m = ''assistant''"
  shows "merge_consecutive_assistant_messages ms =
         [(hd ms)\<lparr>r_content := concat (map r_content ms)\<rparr>]"
  using assms merge_assistant_run [of "List.tl ms" "hd ms"]
  by (cases ms) (auto simp: merge_consecutive_assistant_messages_def merge_push_def)

section \<open>Properties\<close>

text \<open>
  splitting an assistant turn into items and rebuilding the provider request gives back
  the one request message of the turn, block for block: for every non-empty assistant message
  without tool results, whatever mixture of text, reasoning, tool uses and images it has.
\<close>

theorem split_then_merge_roundtrip:
  assumes "m_role m = Assistant" "m_content m \<noteq> []"
    and "\<forall>i c e. ToolResult i c e \<notin> set (m_content m)"
  shows "merge_consecutive_assistant_messages (map item_to_request (message_to_response_items m))
         = [to_request_message m]"
proof -
  let ?ms = "map item_to_request (message_to_response_items m)"
  have ne: "?ms \<noteq> []" using assms(2) by (simp add: message_to_response_items_loop)
  have role: "\<forall>r\<in>set ?ms. r_role r = ''assistant''"
    using assms(1,3) by (auto simp: message_to_response_items_loop intro!: split_block_assistant_role)
  have "concat (map r_content ?ms) = map to_request_content (m_content m)"
    by (simp add: message_to_response_items_loop comp_def split_block_request_content)
  moreover have "r_role (hd ?ms) = ''assistant''" using ne role by (meson hd_in_set)
  ultimately show ?thesis
    using merge_same_role [OF ne role] assms(1) by (simp add: to_request_message_def)
qed

lemma split_then_merge_roundtrip_witness:
  "merge_consecutive_assistant_messages (map item_to_request (message_to_response_items
     \<lparr>m_role = Assistant, m_content = [Reasoning ''hmm'', Text ''hello'', ToolUse ''tu'' ''bash'' (0::nat)]\<rparr>))
   = [\<lparr>r_role = ''assistant'',
      r_content = [RReasoning ''hmm'', RText ''hello'', RToolUse ''tu'' ''bash'' 0]\<rparr>]"
  using split_then_merge_roundtrip
    [of "\<lparr>m_role = Assistant, m_content = [Reasoning ''hmm'', Text ''hello'', ToolUse ''tu'' ''bash'' (0::nat)]\<rparr>"]
  by (simp add: to_request_message_def)

end
