(* ===== verification/History_Normalize.thy ===== *)
theory History_Normalize
  imports Response_Items
begin

text \<open>
  The passes over the flat items of the history: pairing of tool calls with their outputs and
  the modality filter (\<open>crates/core/src/history/normalize.rs\<close>), the removal of harness
  digests before summarisation (\<open>harness_digest_strip.rs\<close>) and the placement of the context
  diff (\<open>context_insertion.rs\<close>).
\<close>

section \<open>Pairing\<close>

fun is_call_for :: "string \<Rightarrow> 'j response_item \<Rightarrow> bool" where
  "is_call_for i (ToolCall j _ _) = (j = i)"
| "is_call_for i _ = False"

fun is_output_for :: "string \<Rightarrow> 'j response_item \<Rightarrow> bool" where
  "is_output_for i (ToolCallOutput j _ _) = (j = i)"
| "is_output_for i _ = False"

text \<open>\<open>iter().position(p)\<close>.\<close>

fun position :: "('a \<Rightarrow> bool) \<Rightarrow> 'a list \<Rightarrow> nat option" where
  "position p [] = None"
| "position p (x # xs) = (if p x then Some 0 else map_option Suc (position p xs))"

fun find_pair_index :: "'j response_item list \<Rightarrow> 'j response_item \<Rightarrow> nat option" where
  "find_pair_index items (ToolCall i _ _) = position (is_output_for i) items"
| "find_pair_index items (ToolCallOutput i _ _) = position (is_call_for i) items"
| "find_pair_index items _ = None"

definition remove_at :: "nat \<Rightarrow> 'a list \<Rightarrow> 'a list" where
  "remove_at i xs = take i xs @ drop (Suc i) xs"

text \<open>The removed items and the remaining ones.\<close>

definition remove_paired ::
  "'j response_item list \<Rightarrow> nat \<Rightarrow> 'j response_item list \<times> 'j response_item list" where
  "remove_paired items index =
     (if length items \<le> index then ([], items)
      else
        let removed = items ! index;
            rest = remove_at index items
        in case find_pair_index rest removed of
             None \<Rightarrow> ([removed], rest)
           | Some p \<Rightarrow> ([removed, rest ! p], remove_at p rest))"

definition call_ids :: "'j response_item list \<Rightarrow> string list" where
  "call_ids items = List.map_filter tool_call_id items"

definition output_ids :: "'j response_item list \<Rightarrow> string list" where
  "output_ids items = List.map_filter tool_call_output_id items"

fun item_has_required_tool_pair :: "'j response_item \<Rightarrow> string set \<Rightarrow> string set \<Rightarrow> bool" where
  "item_has_required_tool_pair (ToolCall i _ _) calls outs = (i \<in> outs)"
| "item_has_required_tool_pair (ToolCallOutput i _ _) calls outs = (i \<in> calls)"
| "item_has_required_tool_pair _ calls outs = True"

text \<open>
  The identifier sets are created at the first insertion (\<open>None\<close> before), and each early
  return of the code is a branch.
\<close>

definition opt_set :: "'a list \<Rightarrow> 'a set option" where
  "opt_set xs = (if xs = [] then None else Some (set xs))"

definition pair_tool_call_items :: "'j response_item list \<Rightarrow> 'j response_item list" where
  "pair_tool_call_items items =
     (case opt_set (call_ids items) of
        None \<Rightarrow>
          (if opt_set (output_ids items) \<noteq> None
           then filter (\<lambda>x. \<not> is_tool_call_output x) items else items)
      | Some calls \<Rightarrow>
          (case opt_set (output_ids items) of
             None \<Rightarrow> filter (\<lambda>x. \<not> is_tool_call x) items
           | Some outs \<Rightarrow>
               (if list_all (\<lambda>x. item_has_required_tool_pair x calls outs) items then items
                else
                  let retain_flags = map (\<lambda>x. item_has_required_tool_pair x calls outs) items
                  in map fst (filter snd (zip items retain_flags)))))"

section \<open>Modalities\<close>

fun block_is_not_image :: "'j content_block \<Rightarrow> bool" where
  "block_is_not_image (Image _ _) = False"
| "block_is_not_image _ = True"

fun text_keeps_item :: "'j response_item \<Rightarrow> bool" where
  "text_keeps_item (MessageItem m) = list_all block_is_not_image (m_content m)"
| "text_keeps_item _ = True"

definition text_modality_keeps_all_items :: "'j response_item list \<Rightarrow> bool" where
  "text_modality_keeps_all_items items = list_all text_keeps_item items"

fun keep_block :: "bool \<Rightarrow> bool \<Rightarrow> 'j content_block \<Rightarrow> bool" where
  "keep_block supports_text supports_image (Text _) = supports_text"
| "keep_block supports_text supports_image (Reasoning _) = supports_text"
| "keep_block supports_text supports_image (Image _ _) = supports_image"
| "keep_block supports_text supports_image _ = True"

fun filter_item :: "bool \<Rightarrow> bool \<Rightarrow> 'j response_item \<Rightarrow> 'j response_item option" where
  "filter_item st si (MessageItem m) =
     (let cs = filter (keep_block st si) (m_content m)
      in if cs = [] then None else Some (MessageItem \<lparr>m_role = m_role m, m_content = cs\<rparr>))"
| "filter_item st si other = Some other"

definition filter_by_modality ::
  "'j response_item list \<Rightarrow> input_modality list \<Rightarrow> 'j response_item list" where
  "filter_by_modality items modalities =
     (let supports_text = MText \<in> set modalities;
          supports_image = MImage \<in> set modalities
      in if supports_text \<and> text_modality_keeps_all_items items then items
         else List.map_filter (filter_item supports_text supports_image) items)"

section \<open>Harness digests\<close>

definition HARNESS_DIGEST_MARKER :: string where
  "HARNESS_DIGEST_MARKER = ''[harness-digest]''"
definition HARNESS_STATE_TAG :: string where
  "HARNESS_STATE_TAG = ''<harness_state>''"
definition HARNESS_STATE_END :: string where
  "HARNESS_STATE_END = ''</harness_state>''"
definition HARNESS_DIGEST_HEADING :: string where
  "HARNESS_DIGEST_HEADING = ''## Continual harness''"

text \<open>The loop that removes every marked span.\<close>

function strip_marked_spans :: "string \<Rightarrow> string" where
  "strip_marked_spans s =
     (case find_str HARNESS_DIGEST_MARKER s of
        None \<Rightarrow> s
      | Some start \<Rightarrow>
          (let stop = (case find_str HARNESS_STATE_END (drop start s) of
                         Some rel \<Rightarrow> start + rel + length HARNESS_STATE_END
                       | None \<Rightarrow> length s)
           in strip_marked_spans (take start s @ drop stop s)))"
  by pat_completeness auto
termination
proof (relation "measure length", goal_cases)
  case (2 s start stop)
  have "prefix HARNESS_DIGEST_MARKER (drop start s)" using find_str_Some 2(1) by blast
  then have l: "start < length s"
    by (cases "start < length s") (auto simp: HARNESS_DIGEST_MARKER_def)
  moreover have "start < stop" using 2(2) l by (auto simp: HARNESS_STATE_END_def split: option.split)
  ultimately show ?case by auto
qed simp

definition strip_heading :: "string \<Rightarrow> string" where
  "strip_heading s =
     (case find_str HARNESS_DIGEST_HEADING s of
        None \<Rightarrow> s
      | Some start \<Rightarrow>
          (let rest = drop start s;
               found = (case find_str (LF # ''## '') rest of
                          Some rel \<Rightarrow> Some rel
                        | None \<Rightarrow> find_str (LF # ''# '') rest);
               stop = (case found of Some rel \<Rightarrow> start + rel | None \<Rightarrow> length s)
           in take start s @ drop stop s))"

definition strip_harness_digest_spans :: "string \<Rightarrow> string" where
  "strip_harness_digest_spans text = trim (strip_heading (strip_marked_spans text))"

definition text_is_harness_digest :: "string \<Rightarrow> bool" where
  "text_is_harness_digest text =
     (let trimmed = trim text
      in if trimmed = [] then False
         else if contains_str trimmed HARNESS_DIGEST_MARKER \<or> contains_str trimmed HARNESS_STATE_TAG
              then strip_harness_digest_spans trimmed = []
         else starts_with trimmed HARNESS_DIGEST_HEADING)"

fun strip_block :: "'j content_block \<Rightarrow> 'j content_block option" where
  "strip_block (Text t) =
     (if text_is_harness_digest t then None
      else if contains_str t HARNESS_DIGEST_MARKER \<or> contains_str t HARNESS_STATE_TAG
              \<or> contains_str t HARNESS_DIGEST_HEADING
           then (let stripped = strip_harness_digest_spans t
                 in if stripped = [] then None else Some (Text stripped))
      else Some (Text t))"
| "strip_block other = Some other"

definition map_message_without_digest :: "'j message \<Rightarrow> 'j message option" where
  "map_message_without_digest m =
     (let content = List.map_filter strip_block (m_content m)
      in if content = [] then None else Some \<lparr>m_role = m_role m, m_content = content\<rparr>)"

fun exclude_digest :: "'j response_item \<Rightarrow> 'j response_item option" where
  "exclude_digest (MessageItem m) = map_option MessageItem (map_message_without_digest m)"
| "exclude_digest other = Some other"

definition exclude_harness_digests :: "'j response_item list \<Rightarrow> 'j response_item list" where
  "exclude_harness_digests items = List.map_filter exclude_digest items"

section \<open>Context diffs\<close>

fun is_text_block :: "'j content_block \<Rightarrow> bool" where
  "is_text_block (Text _) = True"
| "is_text_block _ = False"

definition is_user_text_message :: "'j message \<Rightarrow> bool" where
  "is_user_text_message m \<longleftrightarrow> m_role m = User \<and> list_ex is_text_block (m_content m)"

definition insert_context_diff_message :: "'j message list \<Rightarrow> 'j message \<Rightarrow> 'j message list" where
  "insert_context_diff_message ms diff =
     (let insert_at = (if ms \<noteq> [] \<and> is_user_text_message (last ms)
                       then length ms - 1 else length ms)
      in take insert_at ms @ diff # drop insert_at ms)"

section \<open>Facts about pairing\<close>

lemma ids_simps [simp]:
  "call_ids [] = []" "output_ids [] = []"
  "call_ids (xs @ ys) = call_ids xs @ call_ids ys"
  "output_ids (xs @ ys) = output_ids xs @ output_ids ys"
  by (simp_all add: call_ids_def output_ids_def List.map_filter_def)

lemma ids_Cons [simp]:
  "call_ids (x # xs) = (case tool_call_id x of None \<Rightarrow> call_ids xs | Some i \<Rightarrow> i # call_ids xs)"
  "output_ids (x # xs) = (case tool_call_output_id x of None \<Rightarrow> output_ids xs | Some i \<Rightarrow> i # output_ids xs)"
  by (auto simp: call_ids_def output_ids_def List.map_filter_def split: option.split)

lemma filter_by_flags: "map fst (filter snd (zip xs (map P xs))) = filter P xs"
  by (induction xs) auto

lemma no_calls: "call_ids items = [] \<longleftrightarrow> list_all (\<lambda>x. \<not> is_tool_call x) items"
proof (induction items)
  case (Cons x xs)
  then show ?case by (cases x) auto
qed simp

lemma no_outputs: "output_ids items = [] \<longleftrightarrow> list_all (\<lambda>x. \<not> is_tool_call_output x) items"
proof (induction items)
  case (Cons x xs)
  then show ?case by (cases x) auto
qed simp

lemma required_without_outputs:
  "\<not> is_tool_call_output x \<Longrightarrow> item_has_required_tool_pair x calls {} \<longleftrightarrow> \<not> is_tool_call x"
  by (cases x) auto

lemma required_without_calls:
  "\<not> is_tool_call x \<Longrightarrow> item_has_required_tool_pair x {} outs \<longleftrightarrow> \<not> is_tool_call_output x"
  by (cases x) auto

text \<open>The specification: one filter, whatever early return the code takes.\<close>

definition has_pair :: "'j response_item list \<Rightarrow> 'j response_item \<Rightarrow> bool" where
  "has_pair items x = item_has_required_tool_pair x (set (call_ids items)) (set (output_ids items))"

lemma has_pair_fun:
  "has_pair items = (\<lambda>x. item_has_required_tool_pair x (set (call_ids items)) (set (output_ids items)))"
  by (simp add: has_pair_def fun_eq_iff)

lemma pair_tool_call_items_filter: "pair_tool_call_items items = filter (has_pair items) items"
proof (cases "call_ids items = []")
  case True
  then have c: "\<And>x. x \<in> set items \<Longrightarrow> \<not> is_tool_call x" by (auto simp: no_calls list_all_iff)
  have f: "filter (has_pair items) items = filter (\<lambda>x. \<not> is_tool_call_output x) items"
    using True c required_without_calls by (intro filter_cong) (auto simp: has_pair_def)
  show ?thesis
  proof (cases "output_ids items = []")
    case o: True
    then have "filter (\<lambda>x. \<not> is_tool_call_output x) items = items"
      by (auto simp: no_outputs list_all_iff)
    then show ?thesis using True o f by (simp add: pair_tool_call_items_def opt_set_def)
  next
    case False
    then show ?thesis using True f by (simp add: pair_tool_call_items_def opt_set_def)
  qed
next
  case calls: False
  show ?thesis
  proof (cases "output_ids items = []")
    case True
    then have "\<And>x. x \<in> set items \<Longrightarrow> \<not> is_tool_call_output x" by (auto simp: no_outputs list_all_iff)
    then have "filter (has_pair items) items = filter (\<lambda>x. \<not> is_tool_call x) items"
      using True required_without_outputs by (intro filter_cong) (auto simp: has_pair_def)
    then show ?thesis using calls True by (simp add: pair_tool_call_items_def opt_set_def)
  next
    case False
    then show ?thesis using calls
      by (auto simp: pair_tool_call_items_def opt_set_def has_pair_fun filter_by_flags Let_def
          list_all_iff filter_id_conv)
  qed
qed

lemma call_ids_filter_has_pair:
  "call_ids (filter (\<lambda>x. item_has_required_tool_pair x C D) items) = filter (\<lambda>i. i \<in> D) (call_ids items)"
  "output_ids (filter (\<lambda>x. item_has_required_tool_pair x C D) items) = filter (\<lambda>i. i \<in> C) (output_ids items)"
proof (induction items)
  case (Cons x xs)
  { case 1 show ?case using Cons by (cases x) auto }
  { case 2 show ?case using Cons by (cases x) auto }
qed simp_all

lemma pair_ids:
  "call_ids (pair_tool_call_items items) = filter (\<lambda>i. i \<in> set (output_ids items)) (call_ids items)"
  "output_ids (pair_tool_call_items items) = filter (\<lambda>i. i \<in> set (call_ids items)) (output_ids items)"
  by (simp_all add: pair_tool_call_items_filter has_pair_fun call_ids_filter_has_pair)

lemma remove_at_split:
  "i < length xs \<Longrightarrow> xs = take i xs @ xs ! i # drop (Suc i) xs"
  by (simp add: id_take_nth_drop)

lemma position_Some:
  "position p xs = Some i \<Longrightarrow> i < length xs \<and> p (xs ! i)"
  by (induction xs arbitrary: i) (auto split: if_splits)

lemma position_None: "position p xs = None \<longleftrightarrow> (\<forall>x\<in>set xs. \<not> p x)"
  by (induction xs) auto

lemma mset_remove_at: "i < length xs \<Longrightarrow> mset xs = add_mset (xs ! i) (mset (remove_at i xs))"
  using remove_at_split [of i xs] unfolding remove_at_def
  by (metis mset_append mset.simps(2) union_mset_add_mset_right)

text \<open>Identifiers as multisets: they do not depend on the order of the items.\<close>

lemma mset_ids:
  "mset (call_ids xs) =
     image_mset (the \<circ> tool_call_id) (filter_mset (\<lambda>x. tool_call_id x \<noteq> None) (mset xs))"
  "mset (output_ids xs) =
     image_mset (the \<circ> tool_call_output_id)
       (filter_mset (\<lambda>x. tool_call_output_id x \<noteq> None) (mset xs))"
  by (simp_all add: call_ids_def output_ids_def List.map_filter_def)

text \<open>A list that is properly paired: one call and one output for every identifier.\<close>

definition well_paired :: "'j response_item list \<Rightarrow> bool" where
  "well_paired xs \<longleftrightarrow>
     distinct (call_ids xs) \<and> distinct (output_ids xs) \<and> set (call_ids xs) = set (output_ids xs)"

lemma well_paired_mset: "mset xs = mset ys \<Longrightarrow> well_paired xs \<longleftrightarrow> well_paired ys"
proof -
  assume "mset xs = mset ys"
  then have "mset (call_ids xs) = mset (call_ids ys)" "mset (output_ids xs) = mset (output_ids ys)"
    by (simp_all only: mset_ids)
  note e = this
  show ?thesis
    unfolding well_paired_def mset_eq_imp_distinct_iff [OF e(1)] mset_eq_imp_distinct_iff [OF e(2)]
      mset_eq_setD [OF e(1)] mset_eq_setD [OF e(2)] ..
qed

lemma ids_mem:
  "i \<in> set (call_ids xs) \<longleftrightarrow> (\<exists>x\<in>set xs. is_call_for i x)"
  "i \<in> set (output_ids xs) \<longleftrightarrow> (\<exists>x\<in>set xs. is_output_for i x)"
proof (induction xs)
  case (Cons x xs)
  { case 1 show ?case using Cons by (cases x) auto }
  { case 2 show ?case using Cons by (cases x) auto }
qed simp_all

lemma is_output_for_iff: "is_output_for i x \<longleftrightarrow> tool_call_output_id x = Some i"
  and is_call_for_iff: "is_call_for i x \<longleftrightarrow> tool_call_id x = Some i"
  by (cases x; simp)+

lemma position_ids:
  "position (is_output_for i) xs = None \<longleftrightarrow> i \<notin> set (output_ids xs)"
  "position (is_call_for i) xs = None \<longleftrightarrow> i \<notin> set (call_ids xs)"
  by (simp_all add: position_None ids_mem)

lemma id_in_ids:
  "\<lbrakk>x \<in> set xs; tool_call_id x = Some i\<rbrakk> \<Longrightarrow> i \<in> set (call_ids xs)"
  "\<lbrakk>x \<in> set xs; tool_call_output_id x = Some i\<rbrakk> \<Longrightarrow> i \<in> set (output_ids xs)"
  by (auto simp: ids_mem is_output_for_iff is_call_for_iff)

lemma call_xor_output: "tool_call_id x = Some i \<Longrightarrow> tool_call_output_id x = None"
  by (cases x) auto

text \<open>What \<open>remove_paired\<close> takes out and what it leaves.\<close>

lemma remove_paired_mset:
  "mset (fst (remove_paired xs k)) + mset (snd (remove_paired xs k)) = mset xs"
proof (cases "k < length xs")
  case True
  let ?rest = "remove_at k xs"
  show ?thesis
  proof (cases "find_pair_index ?rest (xs ! k)")
    case None
    then show ?thesis using True mset_remove_at [OF True] by (simp add: remove_paired_def)
  next
    case (Some p)
    then have "p < length ?rest"
      by (cases "xs ! k") (auto dest: position_Some)
    then show ?thesis using True Some mset_remove_at [OF True] mset_remove_at [of p ?rest]
      by (simp add: remove_paired_def Let_def)
  qed
qed (simp add: remove_paired_def)

lemma well_paired_drop_both:
  assumes "well_paired (x # y # ys)"
    "tool_call_id x = Some i \<and> tool_call_output_id y = Some i \<or>
     tool_call_output_id x = Some i \<and> tool_call_id y = Some i"
  shows "well_paired ys"
  using assms call_xor_output [of x i] call_xor_output [of y i]
  by (cases x; cases y) (auto simp: well_paired_def insert_ident)

section \<open>Facts about the digest filter\<close>

declare strip_marked_spans.simps [simp del]

lemma strip_marked_spans_free: "\<not> sublist HARNESS_DIGEST_MARKER (strip_marked_spans s)"
proof (induction s rule: strip_marked_spans.induct)
  case (1 s)
  show ?case
  proof (cases "find_str HARNESS_DIGEST_MARKER s")
    case None
    then show ?thesis using find_str_None by (simp add: strip_marked_spans.simps [of s])
  next
    case (Some start)
    then show ?thesis using "1.IH" [OF Some refl]
      by (subst strip_marked_spans.simps) (simp add: Let_def)
  qed
qed

lemma marker_needs_both:
  assumes "sublist HARNESS_DIGEST_MARKER (a @ b)" "b = [] \<or> hd b = LF"
  shows "sublist HARNESS_DIGEST_MARKER a \<or> sublist HARNESS_DIGEST_MARKER b"
proof (rule ccontr)
  assume no: "\<not> ?thesis"
  with assms(1) obtain u v where uv: "HARNESS_DIGEST_MARKER = u @ v" "suffix u a" "prefix v b"
    by (auto simp: sublist_append)
  have "v \<noteq> []" using uv no by (auto intro: suffix_imp_sublist)
  then have "LF \<in> set v" using uv(3) assms(2) by (cases v; cases b) (auto simp: prefix_Cons)
  then have "LF \<in> set HARNESS_DIGEST_MARKER" by (simp add: uv(1))
  then show False by (simp add: HARNESS_DIGEST_MARKER_def LF_def)
qed

lemma strip_heading_free:
  assumes "\<not> sublist HARNESS_DIGEST_MARKER s"
  shows "\<not> sublist HARNESS_DIGEST_MARKER (strip_heading s)"
proof (cases "find_str HARNESS_DIGEST_HEADING s")
  case None
  then show ?thesis using assms by (simp add: strip_heading_def)
next
  case (Some start)
  define found where "found = (case find_str (LF # ''## '') (drop start s) of
      Some rel \<Rightarrow> Some rel | None \<Rightarrow> find_str (LF # ''# '') (drop start s))"
  define stop where "stop = (case found of Some rel \<Rightarrow> start + rel | None \<Rightarrow> length s)"
  have eq: "strip_heading s = take start s @ drop stop s"
    by (simp add: strip_heading_def Some found_def stop_def Let_def)
  have lf: "drop stop s = [] \<or> hd (drop stop s) = LF"
  proof (cases found)
    case None
    then show ?thesis by (simp add: stop_def)
  next
    case f: (Some rel)
    then have "prefix (LF # ''## '') (drop rel (drop start s)) \<or> prefix (LF # ''# '') (drop rel (drop start s))"
      using find_str_Some by (fastforce simp: found_def split: option.splits)
    then have "prefix [LF] (drop (start + rel) s)"
      by (auto simp: prefix_def add.commute)
    then show ?thesis by (auto simp: stop_def f prefix_def)
  qed
  have "\<not> sublist HARNESS_DIGEST_MARKER (take start s)" "\<not> sublist HARNESS_DIGEST_MARKER (drop stop s)"
    using assms sublist_take sublist_drop by (meson sublist_order.order_trans)+
  then show ?thesis using marker_needs_both [OF _ lf] unfolding eq by blast
qed

lemma strip_spans_free: "\<not> sublist HARNESS_DIGEST_MARKER (strip_harness_digest_spans s)"
  unfolding strip_harness_digest_spans_def
  using strip_heading_free [OF strip_marked_spans_free] trim_sublist
  by (meson sublist_order.order_trans)

lemma strip_block_free:
  "strip_block b = Some (Text t) \<Longrightarrow> \<not> contains_str t HARNESS_DIGEST_MARKER"
proof (cases b)
  case (Text u)
  moreover assume "strip_block b = Some (Text t)"
  ultimately show ?thesis
    using strip_spans_free [of u] by (auto simp: contains_str_iff Let_def split: if_splits)
qed auto

section \<open>Properties\<close>

text \<open>
  pairing keeps exactly the items whose counterpart is somewhere in the history, in their
  order: afterwards the calls and the outputs have the same identifiers, everything else is
  untouched, and pairing again changes nothing.
\<close>

theorem pairing_closed:
  "set (call_ids (pair_tool_call_items xs)) = set (output_ids (pair_tool_call_items xs)) \<and>
   set (call_ids (pair_tool_call_items xs)) = set (call_ids xs) \<inter> set (output_ids xs) \<and>
   filter (\<lambda>x. \<not> is_tool_call x \<and> \<not> is_tool_call_output x) (pair_tool_call_items xs) =
     filter (\<lambda>x. \<not> is_tool_call x \<and> \<not> is_tool_call_output x) xs \<and>
   pair_tool_call_items (pair_tool_call_items xs) = pair_tool_call_items xs"
proof (intro conjI)
  show ids: "set (call_ids (pair_tool_call_items xs)) = set (output_ids (pair_tool_call_items xs))"
    "set (call_ids (pair_tool_call_items xs)) = set (call_ids xs) \<inter> set (output_ids xs)"
    by (auto simp: pair_ids)
  have other: "has_pair xs x" if "\<not> is_tool_call x" "\<not> is_tool_call_output x" for x
    using that by (cases x) (auto simp: has_pair_def)
  show "filter (\<lambda>x. \<not> is_tool_call x \<and> \<not> is_tool_call_output x) (pair_tool_call_items xs) =
     filter (\<lambda>x. \<not> is_tool_call x \<and> \<not> is_tool_call_output x) xs"
    unfolding pair_tool_call_items_filter filter_filter using other by (intro filter_cong) auto
  have "has_pair (pair_tool_call_items xs) x" if "x \<in> set (pair_tool_call_items xs)" for x
  proof -
    have x: "x \<in> set xs" "has_pair xs x" using that by (auto simp: pair_tool_call_items_filter)
    show ?thesis using x id_in_ids [OF x(1)]
      by (cases x rule: response_item.exhaust) (simp_all add: has_pair_def pair_ids)
  qed
  then show "pair_tool_call_items (pair_tool_call_items xs) = pair_tool_call_items xs"
    by (subst pair_tool_call_items_filter) (simp add: filter_id_conv)
qed

text \<open>
  removing an item together with its counterpart never leaves half of a tool exchange: a
  history with one call and one output per identifier still has this shape, and the removed
  and the remaining items together are the original ones.
\<close>

theorem remove_paired_keeps_pairing:
  assumes "well_paired xs"
  shows "well_paired (snd (remove_paired xs k)) \<and>
         mset (fst (remove_paired xs k)) + mset (snd (remove_paired xs k)) = mset xs"
proof -
  have "well_paired (snd (remove_paired xs k))"
  proof (cases "k < length xs")
    case True
    let ?rest = "remove_at k xs"
    have m: "mset xs = mset (xs ! k # ?rest)" using mset_remove_at [OF True] by simp
    have wp: "well_paired (xs ! k # ?rest)" using assms well_paired_mset [OF m] by simp
    show ?thesis
    proof (cases "find_pair_index ?rest (xs ! k)")
      case None
      then have "well_paired ?rest"
        using wp by (cases "xs ! k") (auto simp: position_ids well_paired_def)
      then show ?thesis using True None by (simp add: remove_paired_def)
    next
      case (Some p)
      then have p: "p < length ?rest" by (cases "xs ! k") (auto dest: position_Some)
      have "mset (xs ! k # ?rest) = mset (xs ! k # ?rest ! p # remove_at p ?rest)"
        using mset_remove_at [OF p] by simp
      then have wp2: "well_paired (xs ! k # ?rest ! p # remove_at p ?rest)"
        using wp well_paired_mset by blast
      have "\<exists>i. tool_call_id (xs ! k) = Some i \<and> tool_call_output_id (?rest ! p) = Some i \<or>
          tool_call_output_id (xs ! k) = Some i \<and> tool_call_id (?rest ! p) = Some i"
        using Some by (cases "xs ! k") (auto dest!: position_Some simp: is_output_for_iff is_call_for_iff)
      then have "well_paired (remove_at p ?rest)" using well_paired_drop_both [OF wp2] by blast
      then show ?thesis using True Some by (simp add: remove_paired_def Let_def)
    qed
  qed (use assms in \<open>simp add: remove_paired_def\<close>)
  then show ?thesis using remove_paired_mset by blast
qed

lemma remove_paired_keeps_pairing_witness:
  "remove_paired [Reason ''r'', ToolCall ''a'' ''n'' (0::nat), ToolCallOutput ''a'' ''c'' False] 1
     = ([ToolCall ''a'' ''n'' 0, ToolCallOutput ''a'' ''c'' False], [Reason ''r'']) \<and>
   well_paired (snd (remove_paired [Reason ''r'', ToolCall ''a'' ''n'' (0::nat), ToolCallOutput ''a'' ''c'' False] 1))"
  using remove_paired_keeps_pairing
    [of "[Reason ''r'', ToolCall ''a'' ''n'' (0::nat), ToolCallOutput ''a'' ''c'' False]" 1]
  by (simp add: remove_paired_def remove_at_def well_paired_def)

text \<open>
  no text the summariser is given contains the digest marker, for every history; tool
  calls, outputs and reasoning pass unchanged and in order.
\<close>

theorem summarizer_never_sees_marker:
  "(\<forall>m\<in>set (List.map_filter (\<lambda>x. case x of MessageItem m \<Rightarrow> Some m | _ \<Rightarrow> None)
        (exclude_harness_digests xs)).
      \<forall>t. Text t \<in> set (m_content m) \<longrightarrow> \<not> contains_str t HARNESS_DIGEST_MARKER) \<and>
   filter (\<lambda>x. \<not> is_message x) (exclude_harness_digests xs) = filter (\<lambda>x. \<not> is_message x) xs"
proof
  have block: "\<not> contains_str t HARNESS_DIGEST_MARKER"
    if "map_message_without_digest n = Some m" "Text t \<in> set (m_content m)" for n m t
  proof -
    from that(1) have "m_content m = List.map_filter strip_block (m_content n)"
      by (auto simp: map_message_without_digest_def Let_def split: if_splits)
    with that(2) show ?thesis using strip_block_free by (fastforce simp: List.map_filter_def)
  qed
  have "\<exists>n. map_message_without_digest n = Some m" if "MessageItem m \<in> set (exclude_harness_digests xs)" for m
  proof -
    from that obtain x where "exclude_digest x = Some (MessageItem m)"
      by (fastforce simp: exclude_harness_digests_def List.map_filter_def)
    then show ?thesis by (cases x) auto
  qed
  then show "\<forall>m\<in>set (List.map_filter (\<lambda>x. case x of MessageItem m \<Rightarrow> Some m | _ \<Rightarrow> None)
        (exclude_harness_digests xs)).
      \<forall>t. Text t \<in> set (m_content m) \<longrightarrow> \<not> contains_str t HARNESS_DIGEST_MARKER"
    using block by (fastforce simp: List.map_filter_def split: response_item.splits)
  show "filter (\<lambda>x. \<not> is_message x) (exclude_harness_digests xs) = filter (\<lambda>x. \<not> is_message x) xs"
  proof (induction xs)
    case (Cons x xs)
    have "exclude_digest x = Some x" if "\<not> is_message x" using that by (cases x) auto
    moreover have "is_message y" if "exclude_digest x = Some y" "is_message x" for y
      using that by (cases x) auto
    ultimately show ?case using Cons
      by (auto simp: exclude_harness_digests_def List.map_filter_simps split: option.splits)
  qed (simp add: exclude_harness_digests_def List.map_filter_simps)
qed

end
