(* ===== verification/Request_Normalize.thy ===== *)
theory Request_Normalize
  imports Response_Items
begin

text \<open>
  Grouping the tool results after the assistant message that asked for them
  (\<open>crates/protocol/src/request_normalize.rs\<close>). The queue \<open>previous\<close> is the list of the
  messages not yet handled; a \<open>HashSet\<close> of identifiers is a set.
\<close>

section \<open>The pass\<close>

fun is_tool_result :: "'j request_content \<Rightarrow> bool" where
  "is_tool_result (RToolResult _ _ _) = True"
| "is_tool_result _ = False"

fun tool_use_id_of :: "'j request_content \<Rightarrow> string option" where
  "tool_use_id_of (RToolUse i _ _) = Some i"
| "tool_use_id_of _ = None"

fun tool_result_id_of :: "'j request_content \<Rightarrow> string option" where
  "tool_result_id_of (RToolResult i _ _) = Some i"
| "tool_result_id_of _ = None"

definition results_first :: "'j request_content list \<Rightarrow> 'j request_content list" where
  "results_first cs = filter is_tool_result cs @ filter (\<lambda>c. \<not> is_tool_result c) cs"

definition reorder_user_tool_results :: "'j request_message \<Rightarrow> 'j request_message" where
  "reorder_user_tool_results m =
     (if r_role m \<noteq> ''user'' then m
      else if length (filter is_tool_result (r_content m)) = 0 then m
      else m\<lparr>r_content := results_first (r_content m)\<rparr>)"

definition tool_use_ids :: "'j request_message \<Rightarrow> string set option" where
  "tool_use_ids m =
     (if r_role m \<noteq> ''assistant'' then None
      else let ids = List.map_filter tool_use_id_of (r_content m)
           in if ids = [] then None else Some (set ids))"

definition result_ids :: "'j request_message \<Rightarrow> string set" where
  "result_ids m = set (List.map_filter tool_result_id_of (r_content m))"

text \<open>The scanning loop: identifiers found and messages consumed so far.\<close>

fun scan_followup ::
  "string set \<Rightarrow> string set \<Rightarrow> nat \<Rightarrow> 'j request_message list \<Rightarrow> string set \<times> nat" where
  "scan_followup ids found n [] = (found, n)"
| "scan_followup ids found n (m # ms) =
     (if r_role m \<noteq> ''user'' then (found, n)
      else let found' = found \<union> (result_ids m \<inter> ids)
           in if card found' = card ids then (found', n + 1)
              else scan_followup ids found' (n + 1) ms)"

definition collect_tool_result_followup ::
  "'j request_message list \<Rightarrow> string set \<Rightarrow>
   ('j request_message \<times> 'j request_message list) option" where
  "collect_tool_result_followup ms ids =
     (case scan_followup ids {} 0 ms of (found, consumed) \<Rightarrow>
        if consumed = 0 \<or> card found \<noteq> card ids then None
        else Some (\<lparr>r_role = ''user'',
                    r_content = results_first (concat (map r_content (take consumed ms)))\<rparr>,
                   drop consumed ms))"

lemma collect_shrinks:
  "collect_tool_result_followup ms ids = Some (r, rest) \<Longrightarrow> length rest \<le> length ms"
  by (auto simp: collect_tool_result_followup_def split: prod.splits if_splits)

function normalize_tool_result_messages :: "'j request_message list \<Rightarrow> 'j request_message list" where
  "normalize_tool_result_messages [] = []"
| "normalize_tool_result_messages (m # ms) =
     (let m' = reorder_user_tool_results m
      in case tool_use_ids m' of
           None \<Rightarrow> m' # normalize_tool_result_messages ms
         | Some ids \<Rightarrow>
             (case collect_tool_result_followup ms ids of
                None \<Rightarrow> m' # normalize_tool_result_messages ms
              | Some (r, rest) \<Rightarrow> m' # r # normalize_tool_result_messages rest))"
  by pat_completeness auto
termination
  by (relation "measure length") (auto dest: collect_shrinks simp: le_imp_less_Suc)

section \<open>What is collected\<close>

lemma scan_followup_spec:
  assumes "scan_followup ids found n ms = (found', n')"
  shows "\<exists>k. n' = n + k \<and> k \<le> length ms \<and> (\<forall>m\<in>set (take k ms). r_role m = ''user'') \<and>
             found' = found \<union> (\<Union>m\<in>set (take k ms). result_ids m \<inter> ids) \<and>
             (card found' \<noteq> card ids \<longrightarrow>
                take k ms = takeWhile (\<lambda>m. r_role m = ''user'') ms)"
  using assms
proof (induction ids found n ms rule: scan_followup.induct)
  case (1 ids found n)
  then show ?case by simp
next
  case (2 ids found n m ms)
  let ?f = "found \<union> (result_ids m \<inter> ids)"
  consider "r_role m \<noteq> ''user''" | "r_role m = ''user''" "card ?f = card ids"
    | "r_role m = ''user''" "card ?f \<noteq> card ids" by blast
  then show ?case
  proof cases
    case 1
    then show ?thesis using "2.prems" by (intro exI [of _ 0]) simp
  next
    case c: 2
    have "found' = ?f" "n' = n + 1" using "2.prems" c by (simp_all add: Let_def)
    moreover have "take 1 (m # ms) = [m]" by simp
    ultimately show ?thesis using c by (intro exI [of _ 1]) (simp only: list.set, simp)
  next
    case c: 3
    then have "scan_followup ids ?f (n + 1) ms = (found', n')" using "2.prems" by simp
    have u: "\<not> r_role m \<noteq> ''user''" using c(1) by simp
    from "2.IH" [OF u refl c(2) \<open>scan_followup ids ?f (n + 1) ms = (found', n')\<close>] obtain k where
      k: "n' = n + 1 + k" "k \<le> length ms" "\<forall>m\<in>set (take k ms). r_role m = ''user''"
      "found' = ?f \<union> (\<Union>m\<in>set (take k ms). result_ids m \<inter> ids)"
      "card found' \<noteq> card ids \<longrightarrow> take k ms = takeWhile (\<lambda>m. r_role m = ''user'') ms"
      by (elim exE conjE) blast
    show ?thesis
    proof (intro exI [of _ "Suc k"] conjI)
      show "found' = found \<union> (\<Union>m\<in>set (take (Suc k) (m # ms)). result_ids m \<inter> ids)"
        by (simp only: k(4) take_Suc_Cons list.set UN_insert Un_assoc)
      show "card found' \<noteq> card ids \<longrightarrow>
          take (Suc k) (m # ms) = takeWhile (\<lambda>m. r_role m = ''user'') (m # ms)"
        using k(5) u by simp
    qed (use k(1-3) u in simp_all)
  qed
qed

lemma tool_use_ids_Some:
  "tool_use_ids m = Some ids \<Longrightarrow> finite ids \<and> ids \<noteq> {} \<and> r_role m = ''assistant''"
  by (auto simp: tool_use_ids_def Let_def split: if_splits)

text \<open>The two outcomes of a collection, in terms of the messages it looks at.\<close>

lemma scan_from_start:
  assumes "scan_followup ids {} 0 ms = (found, k)"
  shows "k \<le> length ms" "\<forall>m\<in>set (take k ms). r_role m = ''user''"
    "found = (\<Union>m\<in>set (take k ms). result_ids m) \<inter> ids"
    "card found \<noteq> card ids \<Longrightarrow> take k ms = takeWhile (\<lambda>m. r_role m = ''user'') ms"
  using scan_followup_spec [OF assms] unfolding add_0 by (blast, blast, blast, blast)

text \<open>A successful collection takes a run of user messages that answers every pending call.\<close>

lemma collect_Some:
  assumes "collect_tool_result_followup ms ids = Some (r, rest)" "finite ids"
  obtains us where "ms = us @ rest" "us \<noteq> []" "\<forall>m\<in>set us. r_role m = ''user''"
    "ids \<subseteq> (\<Union>m\<in>set us. result_ids m)"
    "r = \<lparr>r_role = ''user'', r_content = results_first (concat (map r_content us))\<rparr>"
proof -
  obtain found k where scan: "scan_followup ids {} 0 ms = (found, k)"
    by (meson surj_pair)
  note k = scan_from_start [OF scan]
  have "(if k = 0 \<or> card found \<noteq> card ids then None
        else Some (\<lparr>r_role = ''user'', r_content = results_first (concat (map r_content (take k ms)))\<rparr>,
                   drop k ms)) = Some (r, rest)"
    using assms(1) by (simp add: collect_tool_result_followup_def scan)
  then have c: "k \<noteq> 0" "card found = card ids" "rest = drop k ms"
    "r = \<lparr>r_role = ''user'', r_content = results_first (concat (map r_content (take k ms)))\<rparr>"
    by (auto split: if_split_asm)
  have "found \<subseteq> ids" unfolding k(3) by blast
  then have "found = ids" using c(2) assms(2) by (metis card_subset_eq)
  then have "ids \<subseteq> (\<Union>m\<in>set (take k ms). result_ids m)" using k(3) by blast
  moreover have "take k ms \<noteq> []" using c(1) k(1) by auto
  ultimately show thesis using that [of "take k ms"] k(2) c(3,4) by simp
qed

text \<open>A failed one means that the whole run of user messages leaves a call unanswered.\<close>

lemma collect_None:
  assumes "collect_tool_result_followup ms ids = None" "finite ids" "ids \<noteq> {}"
  shows "\<not> ids \<subseteq> (\<Union>m\<in>set (takeWhile (\<lambda>m. r_role m = ''user'') ms). result_ids m)"
proof -
  obtain found k where scan: "scan_followup ids {} 0 ms = (found, k)"
    by (meson surj_pair)
  note k = scan_from_start [OF scan]
  have "k = 0 \<or> card found \<noteq> card ids"
    using assms(1) by (simp add: collect_tool_result_followup_def scan split: if_split_asm)
  moreover have "found = {}" if "k = 0" using k(3) that by simp
  ultimately have "card found \<noteq> card ids" using assms(2,3) by auto
  with k(3,4) show ?thesis by (metis inf.absorb_iff2)
qed

section \<open>Reordering\<close>

abbreviation is_user :: "'j request_message \<Rightarrow> bool" where
  "is_user m \<equiv> r_role m = ''user''"

definition tagged_results :: "'j request_message list \<Rightarrow> (string \<times> 'j request_content) list" where
  "tagged_results ms = filter (\<lambda>p. is_tool_result (snd p)) (tagged ms)"

definition tagged_others :: "'j request_message list \<Rightarrow> (string \<times> 'j request_content) list" where
  "tagged_others ms = filter (\<lambda>p. \<not> is_tool_result (snd p)) (tagged ms)"

lemma tagged_results_simps [simp]:
  "tagged_results [] = []"
  "tagged_results (ms @ ns) = tagged_results ms @ tagged_results ns"
  "tagged_others [] = []"
  "tagged_others (ms @ ns) = tagged_others ms @ tagged_others ns"
  by (simp_all add: tagged_results_def tagged_others_def)

lemma tagged_results_Cons [simp]:
  "tagged_results (m # ms) =
     map (Pair (r_role m)) (filter is_tool_result (r_content m)) @ tagged_results ms"
  "tagged_others (m # ms) =
     map (Pair (r_role m)) (filter (\<lambda>c. \<not> is_tool_result c) (r_content m)) @ tagged_others ms"
  by (simp_all add: tagged_results_def tagged_others_def tagged_of_def filter_map comp_def)

lemma results_first_simps [simp]:
  "filter is_tool_result (results_first cs) = filter is_tool_result cs"
  "filter (\<lambda>c. \<not> is_tool_result c) (results_first cs) = filter (\<lambda>c. \<not> is_tool_result c) cs"
  "results_first (results_first cs) = results_first cs"
  "set (results_first cs) = set cs"
  by (auto simp: results_first_def)

lemma results_first_id: "filter is_tool_result cs = [] \<Longrightarrow> results_first cs = cs"
  by (simp add: results_first_def filter_empty_conv)

lemma reorder_eq:
  "reorder_user_tool_results m =
     (if is_user m then m\<lparr>r_content := results_first (r_content m)\<rparr> else m)"
  by (simp add: reorder_user_tool_results_def results_first_id)

lemma reorder_simps [simp]:
  "r_role (reorder_user_tool_results m) = r_role m"
  "tool_use_ids (reorder_user_tool_results m) = tool_use_ids m"
  "reorder_user_tool_results (reorder_user_tool_results m) = reorder_user_tool_results m"
  "result_ids (reorder_user_tool_results m) = result_ids m"
  by (simp_all add: reorder_eq tool_use_ids_def result_ids_def List.map_filter_def results_first_def)
     (auto simp: comp_def)

lemma reorder_content [simp]:
  "filter is_tool_result (r_content (reorder_user_tool_results m)) =
     filter is_tool_result (r_content m)"
  "filter (\<lambda>c. \<not> is_tool_result c) (r_content (reorder_user_tool_results m)) =
     filter (\<lambda>c. \<not> is_tool_result c) (r_content m)"
  by (simp_all add: reorder_eq)

lemma tagged_user_run:
  assumes "\<forall>m\<in>set us. is_user m"
  shows "tagged us = map (Pair ''user'') (concat (map r_content us))"
  using assms by (induction us) (auto simp: tagged_of_def)

lemma grouped_tagged:
  assumes "\<forall>m\<in>set us. is_user m"
  shows "map (Pair ''user'') (filter is_tool_result (concat (map r_content us))) = tagged_results us"
    and "map (Pair ''user'') (filter (\<lambda>c. \<not> is_tool_result c) (concat (map r_content us))) =
      tagged_others us"
  by (simp_all add: tagged_results_def tagged_others_def tagged_user_run [OF assms] filter_map comp_def)

text \<open>One step of the loop, with what the two branches mean.\<close>

lemma normalize_cases:
  obtains (Plain) "tool_use_ids m = None"
      "normalize_tool_result_messages (m # ms) =
         reorder_user_tool_results m # normalize_tool_result_messages ms"
  | (Unanswered) ids where "tool_use_ids m = Some ids"
      "collect_tool_result_followup ms ids = None"
      "\<not> ids \<subseteq> (\<Union>u\<in>set (takeWhile is_user ms). result_ids u)"
      "normalize_tool_result_messages (m # ms) = m # normalize_tool_result_messages ms"
  | (Answered) ids us rest r where "tool_use_ids m = Some ids" "ms = us @ rest" "us \<noteq> []"
      "\<forall>u\<in>set us. is_user u" "ids \<subseteq> (\<Union>u\<in>set us. result_ids u)"
      "r = \<lparr>r_role = ''user'', r_content = results_first (concat (map r_content us))\<rparr>"
      "collect_tool_result_followup ms ids = Some (r, rest)"
      "normalize_tool_result_messages (m # ms) = m # r # normalize_tool_result_messages rest"
proof (cases "tool_use_ids m")
  case None
  then show thesis using Plain by simp
next
  case (Some ids)
  note i = tool_use_ids_Some [OF Some]
  then have m: "reorder_user_tool_results m = m" by (simp add: reorder_eq)
  show thesis
  proof (cases "collect_tool_result_followup ms ids")
    case None
    have "normalize_tool_result_messages (m # ms) = m # normalize_tool_result_messages ms"
      by (simp add: Some None m)
    then show thesis using Unanswered [OF Some None collect_None [OF None]] i by simp
  next
    case c: (Some p)
    obtain r rest where p: "p = (r, rest)" by fastforce
    have e: "normalize_tool_result_messages (m # ms) = m # r # normalize_tool_result_messages rest"
      by (simp add: Some c p m)
    obtain us where "ms = us @ rest" "us \<noteq> []" "\<forall>m\<in>set us. is_user m"
      "ids \<subseteq> (\<Union>m\<in>set us. result_ids m)"
      "r = \<lparr>r_role = ''user'', r_content = results_first (concat (map r_content us))\<rparr>"
      using collect_Some [OF c [unfolded p]] i by blast
    then show thesis using Answered [OF Some _ _ _ _ _ c [unfolded p] e] by blast
  qed
qed

lemma normalize_steps:
  "tool_use_ids m = None \<Longrightarrow>
   normalize_tool_result_messages (m # ms) =
     reorder_user_tool_results m # normalize_tool_result_messages ms"
  "\<lbrakk>tool_use_ids m = Some ids; collect_tool_result_followup ms ids = None\<rbrakk> \<Longrightarrow>
   normalize_tool_result_messages (m # ms) = m # normalize_tool_result_messages ms"
  "\<lbrakk>tool_use_ids m = Some ids; collect_tool_result_followup ms ids = Some (r, rest)\<rbrakk> \<Longrightarrow>
   normalize_tool_result_messages (m # ms) = m # r # normalize_tool_result_messages rest"
  using tool_use_ids_Some [of m ids] reorder_simps(2) [of m] by (simp_all add: reorder_eq del: reorder_simps)

declare normalize_tool_result_messages.simps(2) [simp del]

lemma collect_None_iff:
  assumes "finite ids" "ids \<noteq> {}"
  shows "collect_tool_result_followup ms ids = None \<longleftrightarrow>
         \<not> ids \<subseteq> (\<Union>m\<in>set (takeWhile is_user ms). result_ids m)"
proof
  assume r: "\<not> ids \<subseteq> (\<Union>m\<in>set (takeWhile is_user ms). result_ids m)"
  show "collect_tool_result_followup ms ids = None"
  proof (rule ccontr)
    assume "collect_tool_result_followup ms ids \<noteq> None"
    then obtain x rest where "collect_tool_result_followup ms ids = Some (x, rest)" by auto
    from collect_Some [OF this assms(1)] obtain us where
      us: "ms = us @ rest" "\<forall>m\<in>set us. is_user m" "ids \<subseteq> (\<Union>m\<in>set us. result_ids m)"
      by metis
    then have "set us \<subseteq> set (takeWhile is_user ms)" by (simp add: takeWhile_append2)
    then show False using r us(3) by blast
  qed
qed (use assms collect_None in blast)

text \<open>A message that already answers every call is taken alone.\<close>

lemma collect_answered:
  assumes "is_user r" "ids \<subseteq> result_ids r" "ids \<noteq> {}" "results_first (r_content r) = r_content r"
  shows "collect_tool_result_followup (r # ms) ids = Some (r, ms)"
proof -
  have "result_ids r \<inter> ids = ids" using assms(2) by blast
  then have "scan_followup ids {} 0 (r # ms) = (ids, 1)" using assms(1) by (simp add: Let_def)
  moreover have "\<lparr>r_role = ''user'', r_content = r_content r\<rparr> = r" using assms(1) by (cases r) simp
  ultimately show ?thesis using assms(4) by (simp add: collect_tool_result_followup_def)
qed

text \<open>Induction over the passes of the loop.\<close>

lemma normalize_induct [case_names Nil Plain Unanswered Answered]:
  assumes "P []"
    and "\<And>m ms. \<lbrakk>tool_use_ids m = None; P ms\<rbrakk> \<Longrightarrow> P (m # ms)"
    and "\<And>m ms ids. \<lbrakk>tool_use_ids m = Some ids; collect_tool_result_followup ms ids = None; P ms\<rbrakk>
           \<Longrightarrow> P (m # ms)"
    and "\<And>m us rest ids r. \<lbrakk>tool_use_ids m = Some ids; us \<noteq> []; \<forall>u\<in>set us. is_user u;
           ids \<subseteq> (\<Union>u\<in>set us. result_ids u);
           r = \<lparr>r_role = ''user'', r_content = results_first (concat (map r_content us))\<rparr>;
           collect_tool_result_followup (us @ rest) ids = Some (r, rest); P rest\<rbrakk>
           \<Longrightarrow> P (m # us @ rest)"
  shows "P ms"
proof (induction ms rule: length_induct)
  case (1 ms)
  show ?case
  proof (cases ms)
    case Nil
    then show ?thesis using assms(1) by simp
  next
    case (Cons m ms')
    have ih: "P ys" if "length ys \<le> length ms'" for ys using 1 that Cons by simp
    show ?thesis unfolding Cons
    proof (cases rule: normalize_cases [of m ms'])
      case Plain
      then show "P (m # ms')" using assms(2) ih by simp
    next
      case (Unanswered ids)
      then show "P (m # ms')" using assms(3) ih by simp
    next
      case (Answered ids us rest r)
      have "P rest" using ih Answered(2) by simp
      then show "P (m # ms')" using assms(4) Answered(1-7) by simp
    qed
  qed
qed

text \<open>A grouped answer has the identifiers of the messages it was made from.\<close>

lemma grouped_result_ids:
  "result_ids \<lparr>r_role = x, r_content = results_first (concat (map r_content us))\<rparr> =
   (\<Union>u\<in>set us. result_ids u)"
  by (auto simp: result_ids_def List.map_filter_def)

section \<open>What the whole pass guarantees\<close>

text \<open>A run of user messages is only reordered message by message.\<close>

lemma normalize_user_run:
  "\<forall>m\<in>set us. is_user m \<Longrightarrow>
   normalize_tool_result_messages (us @ ms) =
   map reorder_user_tool_results us @ normalize_tool_result_messages ms"
  by (induction us) (auto simp: tool_use_ids_def normalize_steps(1))

lemma normalize_non_user_head:
  "ms = [] \<or> \<not> is_user (hd ms) \<Longrightarrow>
   normalize_tool_result_messages ms = [] \<or> \<not> is_user (hd (normalize_tool_result_messages ms))"
proof (cases ms)
  case (Cons m ms')
  moreover assume "ms = [] \<or> \<not> is_user (hd ms)"
  ultimately show ?thesis by (cases rule: normalize_cases [of m ms']) auto
qed simp

lemma takeWhile_normalize:
  "takeWhile is_user (normalize_tool_result_messages ms) =
   map reorder_user_tool_results (takeWhile is_user ms)"
proof -
  let ?us = "takeWhile is_user ms" and ?rest = "dropWhile is_user ms"
  have us: "\<forall>m\<in>set ?us. is_user m" by (auto dest: set_takeWhileD)
  have "normalize_tool_result_messages ms =
      map reorder_user_tool_results ?us @ normalize_tool_result_messages ?rest"
    using normalize_user_run [OF us, of ?rest] by simp
  moreover have "?rest = [] \<or> \<not> is_user (hd ?rest)" using hd_dropWhile [of is_user ms] by blast
  then have "takeWhile is_user (normalize_tool_result_messages ?rest) = []"
    using normalize_non_user_head [of ?rest]
    by (cases "normalize_tool_result_messages ?rest") auto
  moreover have "\<forall>m\<in>set (map reorder_user_tool_results ?us). is_user m" using us by auto
  ultimately show ?thesis by (simp only: takeWhile_append2 append_Nil2 split: prod.split)
qed

lemma normalize_tagged:
  "tagged_results (normalize_tool_result_messages ms) = tagged_results ms \<and>
   tagged_others (normalize_tool_result_messages ms) = tagged_others ms"
proof (induction ms rule: normalize_induct)
  case (Plain m ms)
  then show ?case by (simp add: normalize_steps(1) [OF Plain(1)])
next
  case (Unanswered m ms ids)
  then show ?case by (simp add: normalize_steps(2) [OF Unanswered(1,2)])
next
  case (Answered m us rest ids r)
  then show ?case
    by (simp add: normalize_steps(3) [OF Answered(1,6)] grouped_tagged [OF Answered(3)])
qed simp

text \<open>
  The contract of a pass over the request: it keeps the results in order and all other
  blocks in order. What the builder of a request relies on is the rest of the locale.
\<close>

locale content_pass =
  fixes pass :: "'j request_message list \<Rightarrow> 'j request_message list"
  assumes results_kept: "tagged_results (pass ms) = tagged_results ms"
    and others_kept: "tagged_others (pass ms) = tagged_others ms"
begin

lemma mset_kept: "mset (tagged (pass ms)) = mset (tagged ms)"
proof -
  have split: "mset (tagged ns) = mset (tagged_results ns) + mset (tagged_others ns)"
    for ns :: "'j request_message list"
    by (simp add: tagged_results_def tagged_others_def)
  show ?thesis by (simp only: split results_kept others_kept)
qed

lemma set_kept: "set (tagged (pass ms)) = set (tagged ms)"
  using mset_eq_setD [OF mset_kept] .

end

interpretation mpass: content_pass merge_consecutive_assistant_messages
  by unfold_locales (simp_all add: tagged_results_def tagged_others_def)

interpretation npass: content_pass normalize_tool_result_messages
  by unfold_locales (simp_all add: normalize_tagged)

interpretation request_pass:
  content_pass "\<lambda>ms. normalize_tool_result_messages (merge_consecutive_assistant_messages ms)"
  by unfold_locales
     (simp_all add: npass.results_kept mpass.results_kept npass.others_kept mpass.others_kept)

text \<open>
  C15: normalising a request loses and invents nothing: the tool results keep their order, all
  other blocks keep their order, and every block keeps its role and its multiplicity, for
  every list of messages, also after the merge of adjacent assistant messages.
\<close>

theorem normalize_keeps_content:
  "tagged_results (normalize_tool_result_messages ms) = tagged_results ms \<and>
   tagged_others (normalize_tool_result_messages ms) = tagged_others ms \<and>
   mset (tagged (normalize_tool_result_messages (merge_consecutive_assistant_messages ms))) =
     mset (tagged ms)"
  by (simp only: npass.results_kept npass.others_kept request_pass.mset_kept)

text \<open>Normalisation does not gather the results of a batch that its users did not answer.\<close>

lemma unanswered_stays_unanswered:
  assumes "collect_tool_result_followup ms ids = None" "finite ids" "ids \<noteq> {}"
    and "normalize_tool_result_messages ms = us @ post" "\<forall>u\<in>set us. is_user u"
  shows "\<not> ids \<subseteq> (\<Union>u\<in>set us. result_ids u)"
proof -
  have "set us \<subseteq> set (takeWhile is_user (normalize_tool_result_messages ms))"
    using assms(4,5) by (simp add: takeWhile_append2)
  then have "(\<Union>u\<in>set us. result_ids u) \<subseteq>
      (\<Union>u\<in>set (map reorder_user_tool_results (takeWhile is_user ms)). result_ids u)"
    unfolding takeWhile_normalize by (rule UN_mono) simp
  then have "(\<Union>u\<in>set us. result_ids u) \<subseteq> (\<Union>u\<in>set (takeWhile is_user ms). result_ids u)"
    by simp
  moreover have "\<not> ids \<subseteq> (\<Union>u\<in>set (takeWhile is_user ms). result_ids u)"
    using assms(1-3) by (intro collect_None)
  ultimately show ?thesis by (meson order_trans)
qed

text \<open>
  C13: after normalisation every assistant message whose tool calls are answered somewhere in
  the run of user messages after it is answered completely by the message right after it.
\<close>

theorem normalize_answers_adjacent:
  assumes "normalize_tool_result_messages ms = pre @ [a] @ us @ post"
    and "tool_use_ids a = Some ids" and "\<forall>u\<in>set us. is_user u"
    and "ids \<subseteq> (\<Union>u\<in>set us. result_ids u)"
  shows "us \<noteq> [] \<and> ids \<subseteq> result_ids (hd us)"
proof -
  have ne: "us \<noteq> []" using assms(2,4) tool_use_ids_Some [of a ids] by auto
  have not_user: "\<not> is_user a" using tool_use_ids_Some [OF assms(2)] by simp
  have "normalize_tool_result_messages ms = pre @ [a] @ us @ post \<Longrightarrow> ids \<subseteq> result_ids (hd us)"
  proof (induction ms arbitrary: pre rule: normalize_induct)
    case (Plain m ms)
    have "reorder_user_tool_results m # normalize_tool_result_messages ms = pre @ [a] @ us @ post"
      using Plain.prems by (simp only: normalize_steps(1) [OF Plain(1)])
    then show ?case using assms(2) Plain(1) Plain.IH by (cases pre) auto
  next
    case (Unanswered m ms ids')
    show ?case
    proof (cases pre)
      case Nil
      then have am: "a = m" and n: "normalize_tool_result_messages ms = us @ post"
        using Unanswered.prems by (simp_all add: normalize_steps(2) [OF Unanswered(1,2)])
      have "collect_tool_result_followup ms ids = None"
        using Unanswered(2) assms(2) Unanswered(1) unfolding am by (metis option.inject)
      then have "\<not> ids \<subseteq> (\<Union>u\<in>set us. result_ids u)"
        using n assms(3) tool_use_ids_Some [OF assms(2)] by (elim conjE) (rule unanswered_stays_unanswered)
      then show ?thesis using assms(4) by simp
    next
      case (Cons p pre')
      then show ?thesis using Unanswered.prems Unanswered.IH
        by (simp add: normalize_steps(2) [OF Unanswered(1,2)])
    qed
  next
    case (Answered m vs rest ids' r)
    have n: "m # r # normalize_tool_result_messages rest = pre @ [a] @ us @ post"
      using Answered.prems by (simp only: normalize_steps(3) [OF Answered(1,6)])
    show ?case
    proof (cases pre)
      case Nil
      then have "a = m" "r = hd us" using n ne by (auto simp: Cons_eq_append_conv)
      moreover have "ids' \<subseteq> result_ids r" unfolding Answered(5) grouped_result_ids by (rule Answered(4))
      ultimately show ?thesis using Answered(1) assms(2) by simp
    next
      case (Cons p pre')
      then have "r # normalize_tool_result_messages rest = pre' @ [a] @ us @ post" using n by simp
      moreover have "is_user r" using Answered(5) by simp
      ultimately obtain pre'' where "normalize_tool_result_messages rest = pre'' @ [a] @ us @ post"
        using not_user by (cases pre') auto
      then show ?thesis by (rule Answered.IH)
    qed
  qed simp
  with assms(1) ne show ?thesis by simp
qed

text \<open>
  in a normalised request the tool results of every user message come before its other
  blocks, and normalising it again changes nothing.
\<close>

theorem normalize_idempotent:
  "(\<forall>m\<in>set (normalize_tool_result_messages ms).
      is_user m \<longrightarrow> r_content m = results_first (r_content m)) \<and>
   normalize_tool_result_messages (normalize_tool_result_messages ms) =
     normalize_tool_result_messages ms"
proof (induction ms rule: normalize_induct)
  case (Plain m ms)
  have "is_user m \<longrightarrow> r_content (reorder_user_tool_results m) =
      results_first (r_content (reorder_user_tool_results m))"
    by (simp add: reorder_eq)
  then show ?case using Plain by (simp add: normalize_steps(1))
next
  case (Unanswered m ms ids)
  note i = tool_use_ids_Some [OF Unanswered(1)]
  have "(\<Union>u\<in>set (takeWhile is_user (normalize_tool_result_messages ms)). result_ids u) =
      (\<Union>u\<in>set (takeWhile is_user ms). result_ids u)"
    by (simp add: takeWhile_normalize)
  then have "collect_tool_result_followup (normalize_tool_result_messages ms) ids = None"
    using Unanswered(2) i by (simp add: collect_None_iff)
  then show ?case using Unanswered.IH i
    by (simp add: normalize_steps(2) [OF Unanswered(1,2)] normalize_steps(2) [OF Unanswered(1)])
next
  case (Answered m us rest ids r)
  note i = tool_use_ids_Some [OF Answered(1)]
  have r: "is_user r" "results_first (r_content r) = r_content r" using Answered(5) by simp_all
  moreover have "ids \<subseteq> result_ids r" using Answered(4,5) by (simp add: grouped_result_ids)
  ultimately have "collect_tool_result_followup (r # normalize_tool_result_messages rest) ids =
      Some (r, normalize_tool_result_messages rest)"
    using i by (intro collect_answered) auto
  then have "normalize_tool_result_messages (m # r # normalize_tool_result_messages rest) =
      m # r # normalize_tool_result_messages (normalize_tool_result_messages rest)"
    using normalize_steps(3) Answered(1) by blast
  then show ?case using Answered.IH i r
    by (simp add: normalize_steps(3) [OF Answered(1,6)])
qed simp

lemma normalize_idempotent_witness:
  "results_first (r_content (\<lparr>r_role = ''user'', r_content = [RText ''ctx'']\<rparr> :: nat request_message)) =
     [RText ''ctx'']"
proof -
  have "normalize_tool_result_messages [\<lparr>r_role = ''user'', r_content = [RText ''ctx'']\<rparr> :: nat request_message]
      = [\<lparr>r_role = ''user'', r_content = [RText ''ctx'']\<rparr>]"
    by code_simp
  with normalize_idempotent [of "[\<lparr>r_role = ''user'', r_content = [RText ''ctx'']\<rparr> :: nat request_message]"]
  show ?thesis by simp
qed

text \<open>A request in which a context message stands between a tool call and its result.\<close>

lemma normalize_example:
  "normalize_tool_result_messages
     [\<lparr>r_role = ''assistant'', r_content = [RToolUse ''t'' ''bash'' (0::nat)]\<rparr>,
      \<lparr>r_role = ''user'', r_content = [RText ''ctx'']\<rparr>,
      \<lparr>r_role = ''user'', r_content = [RToolResult ''t'' ''ok'' None]\<rparr>]
   = [\<lparr>r_role = ''assistant'', r_content = [RToolUse ''t'' ''bash'' 0]\<rparr>,
      \<lparr>r_role = ''user'', r_content = [RToolResult ''t'' ''ok'' None, RText ''ctx'']\<rparr>]"
  by code_simp

lemma normalize_answers_adjacent_witness:
  "{''t''} \<subseteq> result_ids (\<lparr>r_role = ''user'', r_content = [RToolResult ''t'' ''ok'' None, RText ''ctx'']\<rparr>
     :: nat request_message)"
proof -
  have "tool_use_ids \<lparr>r_role = ''assistant'', r_content = [RToolUse ''t'' ''bash'' (0::nat)]\<rparr> = Some {''t''}"
    by code_simp
  from normalize_answers_adjacent [of _ "[]" _ "[_]" "[]", simplified, OF normalize_example this]
  show ?thesis by (simp add: result_ids_def List.map_filter_simps)
qed

end
