(* ===== verification/History.thy ===== *)
theory History
  imports History_Normalize Request_Normalize
begin

text \<open>
  The conversation history (\<open>crates/core/src/history/mod.rs\<close>): token counts, the context
  snapshot and its diff, the operations of \<open>History\<close> and the construction of the provider
  request. \<open>usize\<close> is 64 bits wide; an index out of range panics (\<open>None\<close>).
\<close>

section \<open>Token counts\<close>

record token_info =
  input_tokens :: nat
  cached_input_tokens :: nat
  output_tokens :: nat

definition token_info_default :: token_info where
  "token_info_default = \<lparr>input_tokens = 0, cached_input_tokens = 0, output_tokens = 0\<rparr>"

definition token_total :: "token_info \<Rightarrow> nat" where
  "token_total t = sat_add_u64 (sat_add_u64 (input_tokens t) (cached_input_tokens t)) (output_tokens t)"

definition token_accumulate :: "token_info \<Rightarrow> token_info \<Rightarrow> token_info" where
  "token_accumulate t other =
     \<lparr>input_tokens = sat_add_u64 (input_tokens t) (input_tokens other),
      cached_input_tokens = sat_add_u64 (cached_input_tokens t) (cached_input_tokens other),
      output_tokens = sat_add_u64 (output_tokens t) (output_tokens other)\<rparr>"

section \<open>The context snapshot\<close>

record context_view =
  os :: string
  shell :: string
  timezone :: string
  model :: string
  reasoning_effort_selection :: "string option"
  persona :: "string option"
  date :: string
  cwd :: string

text \<open>The \<open>Debug\<close> form of an optional string (\<open>{:?}\<close>): quoted, with Rust's escapes.\<close>

definition hex_digit :: "nat \<Rightarrow> char" where
  "hex_digit n = char_of (if n < 10 then 48 + n else 87 + n)"

definition hex_byte :: "nat \<Rightarrow> string" where
  "hex_byte n = (if n < 16 then [hex_digit n] else [hex_digit (n div 16), hex_digit (n mod 16)])"

definition debug_char :: "char \<Rightarrow> string" where
  "debug_char c =
     (let n = (of_char c :: nat) in
      if n = 0 then [CHR 0x5C, CHR ''0'']
      else if n = 9 then [CHR 0x5C, CHR ''t'']
      else if n = 13 then [CHR 0x5C, CHR ''r'']
      else if n = 10 then [CHR 0x5C, CHR ''n'']
      else if n = 92 \<or> n = 34 then [CHR 0x5C, c]
      else if n < 32 \<or> (127 \<le> n \<and> n \<le> 160) \<or> n = 173
           then [CHR 0x5C] @ ''u{'' @ hex_byte n @ ''}''
      else [c])"

definition debug_str :: "string \<Rightarrow> string" where
  "debug_str s = [CHR 0x22] @ concat (map debug_char s) @ [CHR 0x22]"

fun debug_opt :: "string option \<Rightarrow> string" where
  "debug_opt None = ''None''"
| "debug_opt (Some s) = ''Some('' @ debug_str s @ '')''"

definition to_prompt :: "context_view \<Rightarrow> string" where
  "to_prompt c =
     ''<os>'' @ os c @ ''</os>'' @ [LF] @ ''<shell>'' @ shell c @ ''</shell>'' @ [LF] @
     ''<timezone>'' @ timezone c @ ''</timezone>'' @ [LF] @ ''<model>'' @ model c @ ''</model>'' @ [LF] @
     ''<date>'' @ date c @ ''</date>'' @ [LF] @ ''<cwd>'' @ cwd c @ ''</cwd>'' @
     (case reasoning_effort_selection c of None \<Rightarrow> []
      | Some s \<Rightarrow> [LF] @ ''<reasoning_effort_selection>'' @ s @ ''</reasoning_effort_selection>'') @
     (case persona c of None \<Rightarrow> [] | Some p \<Rightarrow> [LF] @ ''<persona>'' @ p @ ''</persona>'')"

text \<open>One comparison of \<open>diff_since\<close>: the text built so far and the flag \<open>changed\<close>.\<close>

definition diff_field :: "string \<Rightarrow> bool \<Rightarrow> string \<Rightarrow> string \<Rightarrow> string \<times> bool \<Rightarrow> string \<times> bool" where
  "diff_field label differs previous current acc =
     (case acc of (diff, changed) \<Rightarrow>
        if differs
        then ((if changed then diff @ [LF] else diff) @ label @ '': '' @ previous @ '' -> '' @ current, True)
        else (diff, changed))"

definition diff_since :: "context_view \<Rightarrow> context_view \<Rightarrow> string option" where
  "diff_since self previous =
     (let a0 = (''<context_changes>'' @ [LF], False);
          a1 = diff_field ''os'' (os self \<noteq> os previous) (os previous) (os self) a0;
          a2 = diff_field ''shell'' (shell self \<noteq> shell previous) (shell previous) (shell self) a1;
          a3 = diff_field ''timezone'' (timezone self \<noteq> timezone previous)
                 (timezone previous) (timezone self) a2;
          a4 = diff_field ''model'' (model self \<noteq> model previous) (model previous) (model self) a3;
          a5 = diff_field ''reasoning_effort_selection''
                 (reasoning_effort_selection self \<noteq> reasoning_effort_selection previous)
                 (debug_opt (reasoning_effort_selection previous))
                 (debug_opt (reasoning_effort_selection self)) a4;
          a6 = diff_field ''persona'' (persona self \<noteq> persona previous)
                 (debug_opt (persona previous)) (debug_opt (persona self)) a5;
          a7 = diff_field ''date'' (date self \<noteq> date previous) (date previous) (date self) a6;
          a8 = diff_field ''cwd'' (cwd self \<noteq> cwd previous) (cwd previous) (cwd self) a7
      in if \<not> snd a8 then None else Some (fst a8 @ [LF] @ ''</context_changes>''))"

section \<open>Marked fragments\<close>

definition COMPACTION_START :: string where "COMPACTION_START = ''<compaction_summary>''"
definition COMPACTION_END :: string where "COMPACTION_END = ''</compaction_summary>''"

text \<open>
  \<open>ContextualUserFragment::matches_text\<close>; a candidate equal to an ASCII marker has as many
  characters as bytes, so taking characters is the same test.
\<close>

definition matches_markers :: "string \<Rightarrow> string \<Rightarrow> string \<Rightarrow> bool" where
  "matches_markers start_m end_m text =
     (if start_m = [] \<or> end_m = [] then False
      else
        let t1 = trim_start text;
            t2 = trim_end t1
        in to_ascii_lowercase (take (length start_m) t1) = to_ascii_lowercase start_m \<and>
           to_ascii_lowercase (last_n (length end_m) t2) = to_ascii_lowercase end_m)"

definition render_fragment :: "string \<Rightarrow> string \<Rightarrow> string \<Rightarrow> string" where
  "render_fragment start_m end_m body =
     (if start_m = [] \<and> end_m = [] then body else start_m @ body @ end_m)"

definition is_compaction_text :: "string \<Rightarrow> bool" where
  "is_compaction_text t = matches_markers COMPACTION_START COMPACTION_END t"

fun block_is_compaction :: "'j content_block \<Rightarrow> bool" where
  "block_is_compaction (Text t) = is_compaction_text t"
| "block_is_compaction _ = False"

fun is_compaction_item :: "'j response_item \<Rightarrow> bool" where
  "is_compaction_item (MessageItem m) = list_ex block_is_compaction (m_content m)"
| "is_compaction_item _ = False"

section \<open>The history\<close>

record 'j history =
  h_items :: "'j response_item list"
  h_token_info :: token_info
  h_context :: context_view

definition history_new :: "context_view \<Rightarrow> 'j history" where
  "history_new c = \<lparr>h_items = [], h_token_info = token_info_default, h_context = c\<rparr>"

definition history_push :: "'j history \<Rightarrow> 'j response_item \<Rightarrow> 'j history" where
  "history_push h x = h\<lparr>h_items := h_items h @ [x]\<rparr>"

definition history_insert :: "'j history \<Rightarrow> nat \<Rightarrow> 'j response_item \<Rightarrow> 'j history option" where
  "history_insert h i x =
     (if i \<le> length (h_items h)
      then Some (h\<lparr>h_items := take i (h_items h) @ x # drop i (h_items h)\<rparr>) else None)"

definition history_remove :: "'j history \<Rightarrow> nat \<Rightarrow> ('j response_item \<times> 'j history) option" where
  "history_remove h i =
     (if i < length (h_items h)
      then Some (h_items h ! i, h\<lparr>h_items := remove_at i (h_items h)\<rparr>) else None)"

definition replace_items :: "'j history \<Rightarrow> 'j response_item list \<Rightarrow> 'j history" where
  "replace_items h xs = h\<lparr>h_items := xs\<rparr>"

fun is_user_item :: "'j response_item \<Rightarrow> bool" where
  "is_user_item (MessageItem m) = (m_role m = User)"
| "is_user_item _ = False"

text \<open>\<open>iter().rposition(p)\<close>: the last position where \<open>p\<close> holds.\<close>

fun rposition :: "('a \<Rightarrow> bool) \<Rightarrow> 'a list \<Rightarrow> nat option" where
  "rposition p [] = None"
| "rposition p (x # xs) =
     (case rposition p xs of Some i \<Rightarrow> Some (Suc i) | None \<Rightarrow> if p x then Some 0 else None)"

definition remove_tail_user_message :: "'j history \<Rightarrow> bool \<times> 'j history" where
  "remove_tail_user_message h =
     (case rposition is_user_item (h_items h) of
        None \<Rightarrow> (False, h)
      | Some start \<Rightarrow>
          (let truncate_at =
             (if 0 < start \<and> is_compaction_item (h_items h ! (start - 1)) then start - 1 else start)
           in (True, h\<lparr>h_items := take truncate_at (h_items h)\<rparr>)))"

text \<open>The loop of the fast path: a message for every item that is not an unpaired tool item.\<close>

fun fast_keep :: "string set option \<Rightarrow> string set option \<Rightarrow> 'j response_item \<Rightarrow> bool" where
  "fast_keep calls outs (ToolCall i _ _) = (case outs of None \<Rightarrow> False | Some s \<Rightarrow> i \<in> s)"
| "fast_keep calls outs (ToolCallOutput i _ _) = (case calls of None \<Rightarrow> False | Some s \<Rightarrow> i \<in> s)"
| "fast_keep calls outs _ = True"

fun fast_messages ::
  "string set option \<Rightarrow> string set option \<Rightarrow> 'j response_item list \<Rightarrow> 'j request_message list" where
  "fast_messages calls outs [] = []"
| "fast_messages calls outs (x # xs) =
     (if fast_keep calls outs x then item_to_request x # fast_messages calls outs xs
      else fast_messages calls outs xs)"

definition for_prompt_items ::
  "'j response_item list \<Rightarrow> input_modality list \<Rightarrow> 'j request_message list" where
  "for_prompt_items items modalities =
     (if MText \<in> set modalities \<and> text_modality_keeps_all_items items
      then normalize_tool_result_messages (merge_consecutive_assistant_messages
             (fast_messages (opt_set (call_ids items)) (opt_set (output_ids items)) items))
      else normalize_tool_result_messages (merge_consecutive_assistant_messages
             (map item_to_request (pair_tool_call_items (filter_by_modality items modalities)))))"

definition for_prompt :: "'j history \<Rightarrow> input_modality list \<Rightarrow> 'j request_message list" where
  "for_prompt h modalities = for_prompt_items (h_items h) modalities"

definition update_context :: "'j history \<Rightarrow> context_view \<Rightarrow> string option \<times> 'j history" where
  "update_context h new_context =
     (let diff = diff_since (h_context h) new_context in (diff, h\<lparr>h_context := new_context\<rparr>))"

fun prefix_message :: "user_input \<Rightarrow> 'j request_message option" where
  "prefix_message (UserText t) =
     (if trim t \<noteq> [] then Some \<lparr>r_role = role_as_str User, r_content = [RText t]\<rparr> else None)"
| "prefix_message _ = None"

definition prepend_user_inputs ::
  "'j request_message list \<Rightarrow> user_input list \<Rightarrow> 'j request_message list" where
  "prepend_user_inputs ms inputs = List.map_filter prefix_message inputs @ ms"

definition for_prompt_with_prefix ::
  "'j history \<Rightarrow> user_input list \<Rightarrow> input_modality list \<Rightarrow> 'j request_message list" where
  "for_prompt_with_prefix h inputs modalities =
     prepend_user_inputs (for_prompt h modalities) inputs"

section \<open>Facts about the request\<close>

lemma fast_messages_filter:
  "fast_messages calls outs xs = map item_to_request (filter (fast_keep calls outs) xs)"
  by (induction xs) auto

lemma fast_keep_has_pair:
  "x \<in> set xs \<Longrightarrow> fast_keep (opt_set (call_ids xs)) (opt_set (output_ids xs)) x = has_pair xs x"
  by (cases x rule: response_item.exhaust)
     (auto simp: opt_set_def has_pair_def split: option.splits if_splits)

lemma for_prompt_items_reference:
  "for_prompt_items items modalities =
     normalize_tool_result_messages (merge_consecutive_assistant_messages
       (map item_to_request (pair_tool_call_items (filter_by_modality items modalities))))"
proof (cases "MText \<in> set modalities \<and> text_modality_keeps_all_items items")
  case True
  have "filter (fast_keep (opt_set (call_ids items)) (opt_set (output_ids items))) items =
      filter (has_pair items) items"
    by (rule filter_cong) (simp_all add: fast_keep_has_pair)
  moreover have "filter_by_modality items modalities = items"
    using True by (simp add: filter_by_modality_def)
  ultimately show ?thesis using True
    by (simp add: for_prompt_items_def fast_messages_filter pair_tool_call_items_filter)
qed (auto simp: for_prompt_items_def)

lemma normalize_head_role:
  "ms \<noteq> [] \<Longrightarrow> normalize_tool_result_messages ms \<noteq> [] \<and>
   r_role (hd (normalize_tool_result_messages ms)) = r_role (hd ms)"
  by (induction ms rule: normalize_induct) (simp_all add: normalize_steps)

lemma no_adjacent_assistant_Cons:
  "no_adjacent_assistant (m # ms) \<longleftrightarrow>
     no_adjacent_assistant ms \<and>
     \<not> (ms \<noteq> [] \<and> r_role m = ''assistant'' \<and> r_role (hd ms) = ''assistant'')"
  by (cases ms) auto

lemma no_adjacent_assistant_drop:
  "no_adjacent_assistant (us @ ms) \<Longrightarrow> no_adjacent_assistant ms"
  by (induction us) (auto simp: no_adjacent_assistant_Cons)

lemma normalize_no_adjacent:
  "no_adjacent_assistant ms \<Longrightarrow> no_adjacent_assistant (normalize_tool_result_messages ms)"
proof (induction ms rule: normalize_induct)
  case (Plain m ms)
  then show ?case using normalize_head_role [of ms]
    by (cases "ms = []") (auto simp: normalize_steps(1) [OF Plain(1)] no_adjacent_assistant_Cons)
next
  case (Unanswered m ms ids)
  then show ?case using normalize_head_role [of ms]
    unfolding normalize_steps(2) [OF Unanswered(1,2)]
    by (cases "ms = []") (auto simp: no_adjacent_assistant_Cons)
next
  case (Answered m us rest ids r)
  have "no_adjacent_assistant rest"
    using Answered.prems no_adjacent_assistant_drop [of "m # us" rest] by simp
  then have "no_adjacent_assistant (normalize_tool_result_messages rest)" by (rule Answered.IH)
  then show ?case using Answered(5)
    by (simp add: normalize_steps(3) [OF Answered(1,6)] no_adjacent_assistant_Cons)
qed simp

definition no_tool_blocks :: "'j response_item \<Rightarrow> bool" where
  "no_tool_blocks x \<longleftrightarrow>
     (\<forall>m. x = MessageItem m \<longrightarrow>
        (\<forall>c\<in>set (m_content m). tool_use_id_of (to_request_content c) = None \<and>
                              tool_result_id_of (to_request_content c) = None))"

definition used_ids :: "'j request_message list \<Rightarrow> string set" where
  "used_ids ms = {i. \<exists>p\<in>set (tagged ms). tool_use_id_of (snd p) = Some i}"

definition answered_ids :: "'j request_message list \<Rightarrow> string set" where
  "answered_ids ms = {i. \<exists>p\<in>set (tagged ms). tool_result_id_of (snd p) = Some i}"

lemma filter_item_no_tool_blocks:
  "\<lbrakk>filter_item st si x = Some y; no_tool_blocks x\<rbrakk> \<Longrightarrow> no_tool_blocks y"
  by (cases x) (auto simp: no_tool_blocks_def Let_def split: if_splits)

lemma filter_by_modality_no_tool_blocks:
  "\<lbrakk>\<forall>x\<in>set xs. no_tool_blocks x; y \<in> set (filter_by_modality xs ms)\<rbrakk> \<Longrightarrow> no_tool_blocks y"
  using filter_item_no_tool_blocks
  by (fastforce simp: filter_by_modality_def Let_def List.map_filter_def split: if_splits)

lemma ids_of_requests:
  assumes "\<forall>x\<in>set xs. no_tool_blocks x"
  shows "{i. \<exists>p\<in>set (tagged (map item_to_request xs)). tool_use_id_of (snd p) = Some i} = set (call_ids xs)"
    and "{i. \<exists>p\<in>set (tagged (map item_to_request xs)). tool_result_id_of (snd p) = Some i} = set (output_ids xs)"
  using assms
proof (induction xs)
  case (Cons x xs)
  { case 1 then show ?case using Cons.IH(1)
      by (cases x rule: response_item.exhaust)
         (auto simp: tagged_of_def no_tool_blocks_def to_request_message_def) }
  { case 2 then show ?case using Cons.IH(2)
      by (cases x rule: response_item.exhaust)
         (auto simp: tagged_of_def no_tool_blocks_def to_request_message_def) }
qed simp_all

section \<open>Facts about the tail\<close>

lemma rposition_Some:
  "rposition p xs = Some i \<Longrightarrow>
   i < length xs \<and> p (xs ! i) \<and> (\<forall>x\<in>set (drop (Suc i) xs). \<not> p x)"
proof (induction xs arbitrary: i)
  case (Cons x xs)
  have none: "rposition p xs = None \<longleftrightarrow> (\<forall>x\<in>set xs. \<not> p x)"
    by (induction xs) (auto split: option.splits)
  show ?case using Cons none by (auto split: option.splits if_splits)
qed simp

lemma rposition_None: "rposition p xs = None \<longleftrightarrow> (\<forall>x\<in>set xs. \<not> p x)"
  by (induction xs) (auto split: option.splits)

section \<open>Properties\<close>

text \<open>
  C10: the allocation-saving path of \<open>for_prompt\<close> is correct: for every history and every set
  of modalities the request is the one obtained by filtering by modality, pairing the tool
  items, converting, merging and normalising.
\<close>

theorem for_prompt_fast_path:
  "for_prompt h modalities =
     normalize_tool_result_messages (merge_consecutive_assistant_messages
       (map item_to_request (filter (has_pair (filter_by_modality (h_items h) modalities))
         (filter_by_modality (h_items h) modalities))))"
  by (simp add: for_prompt_def for_prompt_items_reference pair_tool_call_items_filter)

text \<open>
  C8: the request never holds two assistant messages in a row and never an orphan: when the
  messages of the history carry no tool blocks of their own, every tool call of the request
  has a result in it and every result its call.
\<close>

theorem for_prompt_no_orphans:
  assumes "\<forall>x\<in>set (h_items h). no_tool_blocks x"
  shows "no_adjacent_assistant (for_prompt h modalities) \<and>
         used_ids (for_prompt h modalities) = answered_ids (for_prompt h modalities)"
proof
  let ?items = "filter_by_modality (h_items h) modalities"
  show "no_adjacent_assistant (for_prompt h modalities)"
    by (simp add: for_prompt_def for_prompt_items_reference merge_no_adjacent normalize_no_adjacent)
  have flat: "\<forall>x\<in>set (pair_tool_call_items ?items). no_tool_blocks x"
    using assms filter_by_modality_no_tool_blocks by (auto simp: pair_tool_call_items_filter)
  have "used_ids (for_prompt h modalities) = set (call_ids (pair_tool_call_items ?items))"
    and "answered_ids (for_prompt h modalities) = set (output_ids (pair_tool_call_items ?items))"
    using ids_of_requests [OF flat]
    by (simp_all add: for_prompt_def for_prompt_items_reference used_ids_def answered_ids_def
        npass.set_kept)
  then show "used_ids (for_prompt h modalities) = answered_ids (for_prompt h modalities)"
    by (auto simp: pair_ids)
qed

text \<open>A history with an unfinished call, whose request has no trace of the call.\<close>

definition example_history :: "nat history" where
  "example_history =
     history_push (history_push (history_new
       \<lparr>os = ''linux'', shell = ''bash'', timezone = ''UTC'', model = ''m'',
        reasoning_effort_selection = None, persona = None, date = ''2025-01-01'', cwd = ''/''\<rparr>)
       (MessageItem \<lparr>m_role = User, m_content = [Text ''hi'']\<rparr>)) (ToolCall ''t'' ''bash'' 0)"

lemma for_prompt_no_orphans_witness:
  "used_ids (for_prompt example_history [MText]) = answered_ids (for_prompt example_history [MText])"
  using for_prompt_no_orphans [of example_history "[MText]"]
  by (simp add: example_history_def history_push_def history_new_def no_tool_blocks_def)

text \<open>
  drawing back the last user message cuts the history right before it (or before the
  compaction summary in front of it): what is left is a prefix, everything from that message
  on is gone, and nothing changes when there is no user message.
\<close>

theorem remove_tail_user_message_cuts:
  "case remove_tail_user_message h of (removed, h') \<Rightarrow>
     (removed \<longleftrightarrow> list_ex is_user_item (h_items h)) \<and> (\<not> removed \<longrightarrow> h' = h) \<and>
     (removed \<longrightarrow> (\<exists>kept summary u rest.
        h_items h = kept @ summary @ u # rest \<and> h_items h' = kept \<and> is_user_item u \<and>
        \<not> list_ex is_user_item rest \<and> length summary \<le> 1 \<and> list_all is_compaction_item summary \<and>
        (summary = [] \<longrightarrow> kept = [] \<or> \<not> is_compaction_item (last kept))))"
proof (cases "rposition is_user_item (h_items h)")
  case None
  then have "\<not> list_ex is_user_item (h_items h)" by (simp add: rposition_None list_ex_iff)
  then show ?thesis by (simp add: remove_tail_user_message_def None)
next
  case (Some start)
  let ?xs = "h_items h"
  note r = rposition_Some [OF Some]
  have ex: "list_ex is_user_item ?xs" using r by (auto simp: list_ex_iff)
  have split: "?xs = take start ?xs @ ?xs ! start # drop (Suc start) ?xs"
    using r by (simp add: id_take_nth_drop)
  show ?thesis
  proof (cases "0 < start \<and> is_compaction_item (?xs ! (start - 1))")
    case True
    then have "take start ?xs = take (start - 1) ?xs @ [?xs ! (start - 1)]"
      using r by (metis Suc_diff_1 less_imp_diff_less take_Suc_conv_app_nth)
    then have "?xs = take (start - 1) ?xs @ [?xs ! (start - 1)] @ ?xs ! start # drop (Suc start) ?xs"
      using split by simp
    then have xs: "?xs = take (start - 1) ?xs @ [?xs ! (start - 1)] @ ?xs ! start # drop (Suc start) ?xs" .
    have rem: "remove_tail_user_message h = (True, h\<lparr>h_items := take (start - 1) ?xs\<rparr>)"
      by (simp only: remove_tail_user_message_def Some option.case True Let_def if_True simp_thms)
    show ?thesis unfolding rem prod.case using ex
      by (intro conjI impI exI [of _ "take (start - 1) ?xs"] exI [of _ "[?xs ! (start - 1)]"]
            exI [of _ "?xs ! start"] exI [of _ "drop (Suc start) ?xs"], simp_all only: xs [symmetric])
         (use True r in \<open>simp_all add: list_ex_iff\<close>)
  next
    case False
    have "take start ?xs = [] \<or> \<not> is_compaction_item (last (take start ?xs))"
      using False r by (cases start) (auto simp: take_Suc_conv_app_nth)
    moreover have rem: "remove_tail_user_message h = (True, h\<lparr>h_items := take start ?xs\<rparr>)"
      by (simp only: remove_tail_user_message_def Some option.case False if_False Let_def)
    moreover have "?xs = take start ?xs @ [] @ ?xs ! start # drop (Suc start) ?xs" using split by simp
    ultimately show ?thesis unfolding rem prod.case using ex r
      by (intro conjI impI exI [of _ "take start ?xs"] exI [of _ "[]"]
            exI [of _ "?xs ! start"] exI [of _ "drop (Suc start) ?xs"])
         (simp_all add: list_ex_iff)
  qed
qed

lemma remove_tail_user_message_cuts_witness:
  "fst (remove_tail_user_message (example_history\<lparr>h_items := [Reason ''r'']\<rparr>)) = False \<and>
   snd (remove_tail_user_message (example_history\<lparr>h_items := [Reason ''r'']\<rparr>)) =
     example_history\<lparr>h_items := [Reason ''r'']\<rparr>"
  using remove_tail_user_message_cuts [of "example_history\<lparr>h_items := [Reason ''r'']\<rparr>"]
  by (auto split: prod.splits)

text \<open>
  a context diff is produced exactly when some field changed, and \<open>update_context\<close>
  installs the new view; but the diff it returns is the one from the new view to the old one,
  since the receiver of \<open>diff_since\<close> is the old view.
\<close>

theorem update_context_reports_change:
  "(fst (update_context h c) = None \<longleftrightarrow> c = h_context h) \<and>
   snd (update_context h c) = h\<lparr>h_context := c\<rparr> \<and>
   fst (update_context h (h_context h\<lparr>model := m\<rparr>)) =
     (if m = model (h_context h) then None
      else Some (''<context_changes>'' @ [LF] @ ''model: '' @ m @ '' -> '' @ model (h_context h) @
                 [LF] @ ''</context_changes>''))"
proof (intro conjI)
  have eq: "diff_since a b = None \<longleftrightarrow> a = b" for a b
    by (cases a; cases b) (simp add: diff_since_def diff_field_def Let_def)
  show "fst (update_context h c) = None \<longleftrightarrow> c = h_context h"
    by (auto simp: update_context_def Let_def eq)
qed (simp_all add: update_context_def diff_since_def diff_field_def Let_def)

end
