(* ===== verification/Compaction.thy ===== *)
theory Compaction
  imports History
begin

text \<open>
  Compaction of the history (\<open>crates/core/src/history/compaction.rs\<close>) and the transaction
  boundaries it respects (\<open>transactions.rs\<close>). The summariser is a parameter: its \<open>k\<close>-th call
  answers \<open>summ k messages\<close>. Cancellation is the answer of the token at the \<open>k\<close>-th turn of the
  loop (\<open>cancelled k\<close>) and during the sleep after it (\<open>sleep_cancelled k\<close>). The serialised
  size of a JSON value and the \<open>f64\<close> comparison of the threshold are parameters as well.
\<close>

section \<open>Transaction boundaries\<close>

fun pending_step :: "string set \<Rightarrow> 'j response_item \<Rightarrow> string set" where
  "pending_step p (ToolCall i _ _) = insert i p"
| "pending_step p (ToolCallOutput i _ _) = p - {i}"
| "pending_step p _ = p"

fun open_batch :: "nat \<Rightarrow> nat option \<Rightarrow> 'j response_item \<Rightarrow> nat option" where
  "open_batch index None (ToolCall _ _ _) = Some index"
| "open_batch index batch _ = batch"

fun boundary_loop ::
  "nat \<Rightarrow> string set \<Rightarrow> nat option \<Rightarrow> nat \<Rightarrow> 'j response_item list \<Rightarrow> nat option \<times> nat" where
  "boundary_loop index pending batch_start boundary [] = (batch_start, boundary)"
| "boundary_loop index pending batch_start boundary (x # xs) =
     (let pending' = pending_step pending x in
      case open_batch index batch_start x of
        None \<Rightarrow> boundary_loop (index + 1) pending' None boundary xs
      | Some start \<Rightarrow>
          boundary_loop (index + 1) pending' (if pending' = {} then None else Some start)
            (if start < boundary \<and> boundary \<le> index then start else boundary) xs)"

definition preserve_boundary :: "'j response_item list \<Rightarrow> nat \<Rightarrow> nat" where
  "preserve_boundary items proposed =
     (case boundary_loop 0 {} None (min proposed (length items)) items of
        (None, boundary) \<Rightarrow> boundary
      | (Some start, boundary) \<Rightarrow> min boundary start)"

fun item_to_message :: "'j response_item \<Rightarrow> 'j message" where
  "item_to_message (MessageItem m) = m"
| "item_to_message (Reason t) = \<lparr>m_role = Assistant, m_content = [Reasoning t]\<rparr>"
| "item_to_message (ToolCall i n v) = \<lparr>m_role = Assistant, m_content = [ToolUse i n v]\<rparr>"
| "item_to_message (ToolCallOutput i c e) = \<lparr>m_role = User, m_content = [ToolResult i c e]\<rparr>"

fun is_tool_result_block :: "'j content_block \<Rightarrow> bool" where
  "is_tool_result_block (ToolResult _ _ _) = True"
| "is_tool_result_block _ = False"

definition group_push :: "'j message list \<Rightarrow> 'j message \<Rightarrow> 'j message list" where
  "group_push out m =
     (if out \<noteq> [] \<and> m_role (last out) = m_role m \<and>
         (m_role m = Assistant \<or>
          (list_all is_tool_result_block (m_content (last out)) \<and>
           list_all is_tool_result_block (m_content m)))
      then butlast out @ [(last out)\<lparr>m_content := m_content (last out) @ m_content m\<rparr>]
      else out @ [m])"

definition response_items_to_messages :: "'j response_item list \<Rightarrow> 'j message list" where
  "response_items_to_messages items = foldl group_push [] (map item_to_message items)"

section \<open>Configuration and errors\<close>

datatype compaction_error =
    SummarizationFailed string
  | ContextTooLong
  | EmptyResponse
  | Canceled
  | NotPossible nat

datatype compaction_kind = Auto | Proactive

datatype 'j compact_action = Replaced "'j response_item list" | Skipped

record 'f token_budget =
  context_window :: nat
  max_output_tokens :: nat
  compact_threshold :: 'f
  auto_compact_token_limit :: "nat option"

definition input_budget :: "'f token_budget \<Rightarrow> nat" where
  "input_budget b = context_window b - max_output_tokens b"

text \<open>\<open>exceeds current budget threshold\<close> is \<open>current as f64 > budget as f64 * threshold\<close>.\<close>

definition budget_should_compact ::
  "(nat \<Rightarrow> nat \<Rightarrow> 'f \<Rightarrow> bool) \<Rightarrow> 'f token_budget \<Rightarrow> nat \<Rightarrow> bool" where
  "budget_should_compact exceeds b current =
     (case auto_compact_token_limit b of
        Some limit \<Rightarrow> current > limit
      | None \<Rightarrow> exceeds current (input_budget b) (compact_threshold b))"

definition should_compact ::
  "(nat \<Rightarrow> nat \<Rightarrow> 'f \<Rightarrow> bool) \<Rightarrow> token_info \<Rightarrow> 'f token_budget \<Rightarrow> bool" where
  "should_compact exceeds t b =
     (if input_tokens t = 0 \<and> cached_input_tokens t = 0 then False
      else budget_should_compact exceeds b
        (sat_add_u64 (sat_add_u64 (input_tokens t) (cached_input_tokens t)) (output_tokens t)))"

section \<open>Token estimates and splits\<close>

definition APPROX_BYTES_PER_TOKEN :: nat where "APPROX_BYTES_PER_TOKEN = 4"

definition approx_tokens_from_byte_count :: "nat \<Rightarrow> nat" where
  "approx_tokens_from_byte_count bytes =
     sat_add_u64 bytes (APPROX_BYTES_PER_TOKEN - 1) div APPROX_BYTES_PER_TOKEN"

definition COMPACT_USER_MESSAGE_MAX_TOKENS :: nat where
  "COMPACT_USER_MESSAGE_MAX_TOKENS = 20000"

fun estimate_text :: "'j content_block \<Rightarrow> string option" where
  "estimate_text (Text t) = Some t"
| "estimate_text (Reasoning t) = Some t"
| "estimate_text _ = None"

text \<open>The loop over the blocks: bytes so far and text blocks so far.\<close>

fun message_bytes :: "nat \<Rightarrow> nat \<Rightarrow> 'j content_block list \<Rightarrow> nat" where
  "message_bytes bytes text_blocks [] = bytes"
| "message_bytes bytes text_blocks (b # bs) =
     (case estimate_text b of
        None \<Rightarrow> message_bytes bytes text_blocks bs
      | Some t \<Rightarrow>
          message_bytes ((if 0 < text_blocks then bytes + 1 else bytes) + utf8_len t)
            (text_blocks + 1) bs)"

fun item_bytes :: "('j \<Rightarrow> nat) \<Rightarrow> 'j response_item \<Rightarrow> nat" where
  "item_bytes json_len (Reason t) = utf8_len t"
| "item_bytes json_len (MessageItem m) = message_bytes 0 0 (m_content m)"
| "item_bytes json_len (ToolCall _ n v) = utf8_len n + 2 + json_len v"
| "item_bytes json_len (ToolCallOutput _ c _) = utf8_len c"

definition estimate_item_tokens :: "('j \<Rightarrow> nat) \<Rightarrow> 'j response_item \<Rightarrow> nat" where
  "estimate_item_tokens json_len x = approx_tokens_from_byte_count (item_bytes json_len x)"

text \<open>\<open>split_loop tokens n budget i used from\<close>: the indices below \<open>i\<close> are still to be visited.\<close>

fun split_loop :: "nat list \<Rightarrow> nat \<Rightarrow> nat \<Rightarrow> nat \<Rightarrow> nat \<Rightarrow> nat" where
  "split_loop tokens budget 0 used from = from"
| "split_loop tokens budget (Suc i) used from =
     (if used + tokens ! i > budget \<and> i + 1 < length tokens then i + 1
      else split_loop tokens budget i (used + tokens ! i) i)"

definition split_by_user_message_budget ::
  "('j \<Rightarrow> nat) \<Rightarrow> 'j response_item list \<Rightarrow> nat \<Rightarrow> 'j response_item list \<times> 'j response_item list" where
  "split_by_user_message_budget json_len items budget =
     (if items = [] then ([], [])
      else
        let from = split_loop (map (estimate_item_tokens json_len) items) budget (length items) 0 0
        in if from = 0 then ([], items) else (take from items, drop from items))"

definition preserve_suffix_from_latest_user_message ::
  "'j response_item list \<Rightarrow> 'j response_item list" where
  "preserve_suffix_from_latest_user_message items =
     (case rposition is_user_item items of None \<Rightarrow> [] | Some i \<Rightarrow> drop i items)"

section \<open>The summariser's request and the summary\<close>

definition SUMMARY_PREFIX :: string where
  "SUMMARY_PREFIX = ''Another language model started to solve this problem and produced a summary of its thinking process. You also have access to the state of the tools that were used by that language model. Use this to build on the work that has already been done and avoid duplicating work. Here is the summary produced by the other language model, use the information in this summary to assist with your own analysis:''"

definition summarizer_request_messages ::
  "string \<Rightarrow> 'j response_item list \<Rightarrow> 'j request_message list" where
  "summarizer_request_messages prompt to_compact =
     normalize_tool_result_messages (merge_consecutive_assistant_messages
       (map item_to_request (exclude_harness_digests to_compact))) @
     [\<lparr>r_role = ''developer'', r_content = [RText (trim prompt)]\<rparr>]"

definition compaction_summary_body :: "string \<Rightarrow> string" where
  "compaction_summary_body summary =
     [LF] @ trim SUMMARY_PREFIX @ [LF] @ trim summary @ [LF]"

definition compaction_summary_item :: "string \<Rightarrow> 'j response_item" where
  "compaction_summary_item summary =
     MessageItem \<lparr>m_role = User,
       m_content = [Text (render_fragment COMPACTION_START COMPACTION_END
                            (compaction_summary_body summary))]\<rparr>"

text \<open>The move of the newest batch out of the prefix, after a context-length error.\<close>

definition shrink :: "'j response_item list \<Rightarrow> nat" where
  "shrink to_compact = preserve_boundary to_compact (length to_compact - 1)"

section \<open>Boundaries are the last safe cut\<close>

definition pending_after :: "'j response_item list \<Rightarrow> string set" where
  "pending_after xs = foldl pending_step {} xs"

lemma pending_after_simps [simp]:
  "pending_after [] = {}"
  "pending_after (xs @ [x]) = pending_step (pending_after xs) x"
  by (simp_all add: pending_after_def)

text \<open>The greatest index up to \<open>n\<close> before which no tool call is left open.\<close>

fun safe_cut :: "'j response_item list \<Rightarrow> nat \<Rightarrow> nat" where
  "safe_cut xs 0 = 0"
| "safe_cut xs (Suc n) = (if pending_after (take (Suc n) xs) = {} then Suc n else safe_cut xs n)"

lemma safe_cut_le: "safe_cut xs n \<le> n"
  by (induction n) auto

lemma safe_cut_mono: "m \<le> n \<Longrightarrow> safe_cut xs m \<le> safe_cut xs n"
proof (induction n)
  case (Suc n)
  then show ?case using safe_cut_le [of xs n] safe_cut_le [of xs m]
    by (cases "m = Suc n") auto
qed simp

lemma safe_cut_safe: "pending_after (take (safe_cut xs n) xs) = {}"
  by (induction n) auto

lemma safe_cut_maximal: "\<lbrakk>safe_cut xs n < j; j \<le> n\<rbrakk> \<Longrightarrow> pending_after (take j xs) \<noteq> {}"
  by (induction n) (auto simp: le_Suc_eq split: if_splits)

lemma safe_cut_fixed: "pending_after (take n xs) = {} \<Longrightarrow> safe_cut xs n = n"
  by (cases n) auto

lemma safe_cut_unsafe: "\<lbrakk>pending_after (take n xs) \<noteq> {}; n = Suc m\<rbrakk> \<Longrightarrow> safe_cut xs n = safe_cut xs m"
  by simp

lemma open_batch_eq [simp]:
  "open_batch n (Some b) x = Some b"
  "open_batch n None x = (if is_tool_call x then Some n else None)"
  by (cases x; simp)+

lemma boundary_loop_step:
  "boundary_loop n p bs b (x # xs) =
     boundary_loop (Suc n) (pending_step p x)
       (case open_batch n bs x of
          None \<Rightarrow> None | Some st \<Rightarrow> if pending_step p x = {} then None else Some st)
       (case open_batch n bs x of None \<Rightarrow> b | Some st \<Rightarrow> if st < b \<and> b \<le> n then st else b) xs"
  by (simp add: Let_def split: option.split)

lemma boundary_loop_invariant:
  assumes "items = pre @ xs" "m \<le> length items"
  shows "boundary_loop (length pre) (pending_after pre)
           (if pending_after pre = {} then None else Some (safe_cut items (length pre)))
           (if m < length pre then safe_cut items m else m) xs =
         (if pending_after items = {} then None else Some (safe_cut items (length items)),
          if m < length items then safe_cut items m else m)"
  using assms(1)
proof (induction xs arbitrary: pre)
  case Nil
  then show ?case by simp
next
  case (Cons x xs)
  let ?n = "length pre" and ?p = "pending_after pre" and ?p' = "pending_step (pending_after pre) x"
  have items: "items = (pre @ [x]) @ xs" using Cons.prems by simp
  have take: "take ?n items = pre" "take (Suc ?n) items = pre @ [x]" using Cons.prems by simp_all
  note ih = Cons.IH [OF items]
  have batch: "(if ?p' = {} then None
        else Some (safe_cut items (Suc ?n))) =
      (case open_batch ?n (if ?p = {} then None else Some (safe_cut items ?n)) x of
         None \<Rightarrow> None | Some start \<Rightarrow> if ?p' = {} then None else Some start)"
    using take safe_cut_fixed [of ?n items] by (cases x rule: response_item.exhaust) auto
  have p': "?p = {} \<Longrightarrow> \<not> is_tool_call x \<Longrightarrow> ?p' = {}"
    by (cases x rule: response_item.exhaust) auto
  have bound: "(case open_batch ?n (if ?p = {} then None else Some (safe_cut items ?n)) x of
        None \<Rightarrow> (if m < ?n then safe_cut items m else m)
      | Some start \<Rightarrow>
          (if start < (if m < ?n then safe_cut items m else m) \<and>
              (if m < ?n then safe_cut items m else m) \<le> ?n
           then start else (if m < ?n then safe_cut items m else m))) =
      (if m < Suc ?n then safe_cut items m else m)"
  proof (cases "m < ?n")
    case True
    have "safe_cut items m \<le> safe_cut items ?n" using True safe_cut_mono [of m ?n items] by simp
    moreover have "safe_cut items m \<le> ?n" using True safe_cut_le [of items m] by simp
    ultimately show ?thesis using True by (cases "?p = {}") simp_all
  next
    case False
    have f: "?p = {} \<Longrightarrow> safe_cut items ?n = ?n" using take safe_cut_fixed [of ?n items] by simp
    have u: "?p \<noteq> {} \<Longrightarrow> safe_cut items ?n < ?n"
      using take safe_cut_safe [of items ?n] safe_cut_le [of items ?n] by (cases "safe_cut items ?n = ?n") auto
    show ?thesis
    proof (cases "m = ?n")
      case True
      then show ?thesis using f u by (cases "?p = {}") simp_all
    next
      case ne: False
      then have "\<not> m \<le> ?n" using False by simp
      then show ?thesis using ne False by (simp split: option.split)
    qed
  qed
  show ?case
    using ih by (simp only: boundary_loop_step batch [symmetric] bound length_append_singleton
        pending_after_simps)
qed

lemma preserve_boundary_safe_cut:
  "preserve_boundary items proposed = safe_cut items (min proposed (length items))"
proof -
  let ?m = "min proposed (length items)"
  have "boundary_loop 0 {} None ?m items =
      (if pending_after items = {} then None else Some (safe_cut items (length items)),
       if ?m < length items then safe_cut items ?m else ?m)"
    using boundary_loop_invariant [of items "[]" items ?m] by simp
  moreover have "safe_cut items ?m \<le> safe_cut items (length items)" by (rule safe_cut_mono) simp
  moreover have "safe_cut items (length items) \<le> length items" by (rule safe_cut_le)
  moreover have "pending_after items = {} \<Longrightarrow> safe_cut items (length items) = length items"
    by (rule safe_cut_fixed) simp
  ultimately show ?thesis by (auto simp: preserve_boundary_def min_def split: if_splits)
qed

lemma preserve_boundary_le: "preserve_boundary items p \<le> min p (length items)"
  unfolding preserve_boundary_safe_cut by (rule safe_cut_le)

lemma shrink_less: "xs \<noteq> [] \<Longrightarrow> shrink xs < length xs"
  using preserve_boundary_le [of xs "length xs - 1"] unfolding shrink_def
  by (cases xs) auto

lemma shrink_less_append: "xs \<noteq> [] \<Longrightarrow> min (length xs) (shrink xs) < length xs"
  using shrink_less [of xs] by simp

section \<open>The compaction loop\<close>

definition MAX_TRANSIENT_RETRIES :: nat where "MAX_TRANSIENT_RETRIES = 5"

type_synonym 'j summarizer = "nat \<Rightarrow> 'j request_message list \<Rightarrow> compaction_error + string"

text \<open>
  One turn of the loop asks the summariser with call number \<open>k\<close>. A context-length error
  shrinks the prefix, any other error uses up a retry, so the loop ends.
\<close>

function compact_loop ::
  "'j summarizer \<Rightarrow> (nat \<Rightarrow> bool) \<Rightarrow> (nat \<Rightarrow> bool) \<Rightarrow> string \<Rightarrow> nat \<Rightarrow> nat \<Rightarrow>
   'j response_item list \<Rightarrow> 'j response_item list \<Rightarrow> compaction_error + 'j compact_action" where
  "compact_loop summ cancelled sleep_cancelled prompt k retries to_compact preserved =
     (if cancelled k then Inl Canceled
      else
        case summ k (summarizer_request_messages prompt to_compact) of
          Inr summary \<Rightarrow>
            (if trim summary = [] then Inl EmptyResponse
             else Inr (Replaced (compaction_summary_item summary # preserved)))
        | Inl e \<Rightarrow>
            (if e = Canceled then Inl Canceled
             else if e = ContextTooLong then
               (if to_compact = [] then Inr Skipped
                else
                  let boundary = shrink to_compact;
                      moved = drop boundary to_compact @ preserved;
                      kept = take boundary to_compact
                  in if kept = [] then Inr Skipped
                     else compact_loop summ cancelled sleep_cancelled prompt (k + 1) retries kept moved)
             else if MAX_TRANSIENT_RETRIES \<le> retries + 1 then Inl e
             else if sleep_cancelled k then Inl Canceled
             else compact_loop summ cancelled sleep_cancelled prompt (k + 1) (retries + 1)
                    to_compact preserved))"
  by pat_completeness auto
termination
  by (relation "measure (\<lambda>(_, _, _, _, _, retries, tc, _). length tc + (MAX_TRANSIENT_RETRIES - retries))")
     (auto dest: shrink_less)

declare compact_loop.simps [simp del]

record 'f compaction_config =
  cfg_budget :: "'f token_budget"
  kind :: compaction_kind

definition compact_history ::
  "(nat \<Rightarrow> nat \<Rightarrow> 'f \<Rightarrow> bool) \<Rightarrow> ('j \<Rightarrow> nat) \<Rightarrow> 'j summarizer \<Rightarrow> (nat \<Rightarrow> bool) \<Rightarrow> (nat \<Rightarrow> bool) \<Rightarrow> string \<Rightarrow>
   'j response_item list \<Rightarrow> token_info \<Rightarrow> 'f compaction_config \<Rightarrow> compaction_error + 'j compact_action" where
  "compact_history exceeds json_len summ cancelled sleep_cancelled prompt items t config =
     (if kind config = Auto \<and> \<not> should_compact exceeds t (cfg_budget config) then Inr Skipped
      else
        let proposed =
              (if kind config = Proactive
               then length items - length (preserve_suffix_from_latest_user_message items)
               else length (fst (split_by_user_message_budget json_len items
                                   COMPACT_USER_MESSAGE_MAX_TOKENS)));
            boundary = preserve_boundary items proposed;
            to_compact = take boundary items;
            preserved = drop boundary items
        in if to_compact = [] then Inr Skipped
           else compact_loop summ cancelled sleep_cancelled prompt 0 0 to_compact preserved)"

section \<open>Facts about the pieces\<close>

lemma pending_after_append:
  "foldl pending_step p (xs @ ys) = foldl pending_step (foldl pending_step p xs) ys"
  by simp

text \<open>An identifier is pending when a call of it has no output behind it.\<close>

lemma pending_iff:
  "i \<in> pending_after xs \<longleftrightarrow>
   (\<exists>pre x post. xs = pre @ x # post \<and> tool_call_id x = Some i \<and>
      (\<forall>y\<in>set post. tool_call_output_id y \<noteq> Some i))"
proof (induction xs rule: rev_induct)
  case (snoc z xs)
  have "(\<exists>pre x post. xs @ [z] = pre @ x # post \<and> tool_call_id x = Some i \<and>
      (\<forall>y\<in>set post. tool_call_output_id y \<noteq> Some i)) \<longleftrightarrow>
    tool_call_id z = Some i \<or>
    (tool_call_output_id z \<noteq> Some i \<and> i \<in> pending_after xs)" (is "?L \<longleftrightarrow> ?R")
  proof
    assume ?L
    then obtain pre x post where "xs @ [z] = pre @ x # post" "tool_call_id x = Some i"
      "\<forall>y\<in>set post. tool_call_output_id y \<noteq> Some i" by blast
    then show ?R using snoc by (cases post rule: rev_cases) auto
  next
    assume r: ?R
    show ?L
    proof (cases "tool_call_id z = Some i")
      case True
      then show ?thesis by (intro exI [of _ xs] exI [of _ z] exI [of _ "[]"]) simp
    next
      case False
      with r snoc obtain pre x post where "xs = pre @ x # post" "tool_call_id x = Some i"
        "\<forall>y\<in>set post. tool_call_output_id y \<noteq> Some i" by blast
      with False r show ?thesis
        by (intro exI [of _ pre] exI [of _ x] exI [of _ "post @ [z]"]) simp
    qed
  qed
  then show ?case by (cases z rule: response_item.exhaust) auto
qed simp

lemma safe_cut_take: "n \<le> b \<Longrightarrow> safe_cut (take b xs) n = safe_cut xs n"
  by (induction n) (simp_all add: min_def)

text \<open>What a successful run of the loop returns: a suffix behind a safe cut.\<close>

lemma compact_loop_replaced:
  assumes "compact_loop summ c sc prompt k r tc p = Inr (Replaced out)"
    "pending_after tc = {}" "tc \<noteq> []"
  shows "\<exists>s n. out = compaction_summary_item s # drop n tc @ p \<and> trim s \<noteq> [] \<and>
    0 < n \<and> n \<le> length tc \<and> pending_after (take n tc) = {} \<and>
    (\<exists>j. summ j (summarizer_request_messages prompt (take n tc)) = Inr s)"
  using assms
proof (induction summ c sc prompt k r tc p rule: compact_loop.induct)
  case (1 summ c sc prompt k r tc p)
  have nc: "\<not> c k" using "1.prems"(1) by (auto simp: compact_loop.simps [of summ c sc prompt k])
  show ?case
  proof (cases "summ k (summarizer_request_messages prompt tc)")
    case (Inr s)
    then have "trim s \<noteq> [] \<and> out = compaction_summary_item s # p"
      using "1.prems"(1) nc by (simp add: compact_loop.simps [of summ c sc prompt k] split: if_splits)
    then show ?thesis using Inr "1.prems"(2,3)
      by (intro exI [of _ s] exI [of _ "length tc"]) auto
  next
    case (Inl e)
    show ?thesis
    proof (cases "e = ContextTooLong")
      case True
      let ?b = "shrink tc"
      have kept: "take ?b tc \<noteq> []"
        using "1.prems"(1) nc Inl True
        by (auto simp: compact_loop.simps [of summ c sc prompt k] Let_def split: if_splits)
      have rec: "compact_loop summ c sc prompt (k + 1) r (take ?b tc) (drop ?b tc @ p) = Inr (Replaced out)"
        using "1.prems"(1) nc Inl True kept
        by (simp add: compact_loop.simps [of summ c sc prompt k] Let_def split: if_splits)
      have safe: "pending_after (take ?b tc) = {}"
        by (simp add: shrink_def preserve_boundary_safe_cut safe_cut_safe)
      have "e \<noteq> Canceled" using True by simp
      from "1.IH"(1) [OF nc Inl this True "1.prems"(3) refl refl refl kept rec safe kept]
      obtain s n where "out = compaction_summary_item s # drop n (take ?b tc) @ drop ?b tc @ p"
        "trim s \<noteq> []" "0 < n" "n \<le> length (take ?b tc)" "pending_after (take n (take ?b tc)) = {}"
        "\<exists>j. summ j (summarizer_request_messages prompt (take n (take ?b tc))) = Inr s"
        by (elim exE conjE) (rule that; assumption | blast)
      moreover from this have "drop n (take ?b tc) @ drop ?b tc = drop n tc"
        by (intro drop_take_drop) simp
      moreover have "take n (take ?b tc) = take n tc" if "n \<le> length (take ?b tc)"
        using that by (auto simp: min_def split: if_splits)
      ultimately show ?thesis
        by - (rule exI [of _ s], rule exI [of _ n], intro conjI, simp_all)
    next
      case False
      then have "compact_loop summ c sc prompt (k + 1) (r + 1) tc p = Inr (Replaced out)" "e \<noteq> Canceled"
        "\<not> MAX_TRANSIENT_RETRIES \<le> r + 1" "\<not> sc k"
        using "1.prems"(1) nc Inl
        by (auto simp: compact_loop.simps [of summ c sc prompt k] split: if_splits)
      then show ?thesis using "1.IH"(2) nc Inl False "1.prems"(2,3) by blast
    qed
  qed
qed

text \<open>The number of calls is bounded: only answers below the bound are looked at.\<close>

lemma compact_loop_bounded:
  assumes "\<forall>j. k \<le> j \<and> j < k + length tc + (MAX_TRANSIENT_RETRIES - r) \<longrightarrow>
             summ j = summ' j \<and> c j = c' j \<and> sc j = sc' j"
    "r < MAX_TRANSIENT_RETRIES"
  shows "compact_loop summ c sc prompt k r tc p = compact_loop summ' c' sc' prompt k r tc p"
  using assms
proof (induction summ c sc prompt k r tc p rule: compact_loop.induct)
  case (1 summ c sc prompt k r tc p)
  have here: "summ k = summ' k" "c k = c' k" "sc k = sc' k" using "1.prems" by auto
  show ?case
  proof (cases "c k")
    case True
    then show ?thesis using here
      by (simp add: compact_loop.simps [of summ c sc prompt k] compact_loop.simps [of summ' c' sc' prompt k])
  next
    case nc: False
    show ?thesis
    proof (cases "summ k (summarizer_request_messages prompt tc)")
      case (Inr s)
      then show ?thesis using here nc
        by (simp add: compact_loop.simps [of summ c sc prompt k] compact_loop.simps [of summ' c' sc' prompt k])
    next
      case (Inl e)
      let ?b = "shrink tc"
      have shrunk: "compact_loop summ c sc prompt (k + 1) r (take ?b tc) (drop ?b tc @ p) =
          compact_loop summ' c' sc' prompt (k + 1) r (take ?b tc) (drop ?b tc @ p)"
        if "e = ContextTooLong" "tc \<noteq> []" "take ?b tc \<noteq> []"
      proof -
        have "length (take ?b tc) < length tc" using shrink_less [OF that(2)] by simp
        then have agree: "\<forall>j. k + 1 \<le> j \<and> j < k + 1 + length (take ?b tc) + (MAX_TRANSIENT_RETRIES - r) \<longrightarrow>
             summ j = summ' j \<and> c j = c' j \<and> sc j = sc' j"
          using "1.prems"(1) by auto
        have "e \<noteq> Canceled" using that(1) by simp
        from "1.IH"(1) [OF nc Inl this that(1,2) refl refl refl that(3) agree "1.prems"(2)]
        show ?thesis .
      qed
      have retried: "compact_loop summ c sc prompt (k + 1) (r + 1) tc p =
          compact_loop summ' c' sc' prompt (k + 1) (r + 1) tc p"
        if "e \<noteq> Canceled" "e \<noteq> ContextTooLong" "\<not> MAX_TRANSIENT_RETRIES \<le> r + 1" "\<not> sc k"
      proof -
        have "\<forall>j. k + 1 \<le> j \<and> j < k + 1 + length tc + (MAX_TRANSIENT_RETRIES - (r + 1)) \<longrightarrow>
             summ j = summ' j \<and> c j = c' j \<and> sc j = sc' j"
          using "1.prems" by auto
        then show ?thesis using "1.IH"(2) [OF nc Inl that] that(3) by simp
      qed
      show ?thesis
        using here nc Inl shrunk retried
        by (simp add: compact_loop.simps [of summ c sc prompt k] compact_loop.simps [of summ' c' sc' prompt k]
            Let_def)
    qed
  qed
qed

text \<open>The tail window of automatic compaction.\<close>

lemma split_loop_spec:
  fixes toks :: "nat list" and budget :: nat
  assumes "i \<le> length toks" "used = sum_list (drop i toks)" "from = (if i = length toks then 0 else i)"
    "used \<le> budget \<or> i = length toks \<or> Suc i = length toks"
  defines "r \<equiv> split_loop toks budget i used from"
  shows "r \<le> length toks \<and> (toks \<noteq> [] \<longrightarrow> r < length toks) \<and>
    (sum_list (drop r toks) \<le> budget \<or> toks = [] \<or> Suc r = length toks) \<and>
    (0 < r \<longrightarrow> budget < sum_list (drop (r - 1) toks))"
  using assms(1-4) unfolding r_def
proof (induction toks budget i used "from" rule: split_loop.induct)
  case (1 toks budget used f)
  then show ?case by auto
next
  case (2 toks budget i used f)
  have d: "drop i toks = toks ! i # drop (Suc i) toks" using "2.prems"(1) by (simp add: Cons_nth_drop_Suc)
  show ?case
  proof (cases "used + toks ! i > budget \<and> i + 1 < length toks")
    case True
    then have r: "split_loop toks budget (Suc i) used f = Suc i" by simp
    have "sum_list (drop i toks) = used + toks ! i" using "2.prems"(2) d by simp
    then show ?thesis unfolding r using True "2.prems"(2,4) by auto
  next
    case False
    then have r: "split_loop toks budget (Suc i) used f = split_loop toks budget i (used + toks ! i) i"
      by (simp only: split_loop.simps if_False)
    have "used + toks ! i \<le> budget \<or> i = length toks \<or> Suc i = length toks" using False "2.prems"(1) by auto
    moreover have "used + toks ! i = sum_list (drop i toks)" using "2.prems"(2) d by simp
    moreover have "i = (if i = length toks then 0 else i)" using "2.prems"(1) by simp
    ultimately show ?thesis unfolding r using "2.IH" [OF False] "2.prems"(1) by simp
  qed
qed

lemma split_loop_start:
  fixes toks :: "nat list" and budget :: nat
  assumes "toks \<noteq> []"
  defines "r \<equiv> split_loop toks budget (length toks) 0 0"
  shows "r < length toks" "sum_list (drop r toks) \<le> budget \<or> Suc r = length toks"
    "0 < r \<Longrightarrow> budget < sum_list (drop (r - 1) toks)"
  using split_loop_spec [of "length toks" toks 0 0 budget] assms by auto

section \<open>Properties\<close>

text \<open>
  C17: the boundary of a compaction is never behind the proposed one and never severs a tool
  exchange: every call before it has its output before it too, unfinished calls stay in the
  preserved suffix, and it is the last index with this property.
\<close>

theorem boundary_never_severs:
  "preserve_boundary items p \<le> min p (length items) \<and>
   (\<forall>k<preserve_boundary items p. \<forall>i n v. items ! k = ToolCall i n v \<longrightarrow>
      (\<exists>j c e. k < j \<and> j < preserve_boundary items p \<and> items ! j = ToolCallOutput i c e)) \<and>
   (\<forall>j. preserve_boundary items p < j \<and> j \<le> min p (length items) \<longrightarrow>
      pending_after (take j items) \<noteq> {})"
proof (intro conjI allI impI)
  let ?b = "preserve_boundary items p"
  show le: "?b \<le> min p (length items)" by (rule preserve_boundary_le)
  show "pending_after (take j items) \<noteq> {}" if "?b < j \<and> j \<le> min p (length items)" for j
    using that safe_cut_maximal unfolding preserve_boundary_safe_cut by blast
  fix k i n v assume k: "k < ?b" and call: "items ! k = ToolCall i n v"
  have "i \<notin> pending_after (take ?b items)"
    unfolding preserve_boundary_safe_cut safe_cut_safe by simp
  moreover have "take ?b items = take k (take ?b items) @ items ! k # drop (Suc k) (take ?b items)"
    using k le id_take_nth_drop [of k "take ?b items"] by simp
  ultimately have "\<exists>y\<in>set (drop (Suc k) (take ?b items)). tool_call_output_id y = Some i"
    using call unfolding pending_iff by (metis tool_call_id.simps(1))
  then obtain y where "y \<in> set (drop (Suc k) (take ?b items))" "tool_call_output_id y = Some i" by blast
  then obtain q c e where "q < ?b - Suc k" "items ! (Suc k + q) = ToolCallOutput i c e"
    using le by (cases y rule: response_item.exhaust) (auto simp: in_set_conv_nth)
  then show "\<exists>j c e. k < j \<and> j < ?b \<and> items ! j = ToolCallOutput i c e"
    by (intro exI [of _ "Suc k + q"]) auto
qed

lemma boundary_never_severs_witness:
  "preserve_boundary [ToolCall ''a'' ''f'' (0 :: nat), ToolCallOutput ''a'' ''ok'' False] 1 = 0"
  using boundary_never_severs
    [of "[ToolCall ''a'' ''f'' (0 :: nat), ToolCallOutput ''a'' ''ok'' False]" 1]
  by (auto simp: le_Suc_eq)


text \<open>
  C38: compaction always returns, and after at most one summariser call per item and five more:
  answers beyond that many calls cannot influence the result, whatever errors occur.
\<close>

theorem compaction_calls_bounded:
  assumes "\<forall>j < length items + MAX_TRANSIENT_RETRIES. summ j = summ' j \<and> c j = c' j \<and> sc j = sc' j"
  shows "compact_history exceeds json_len summ c sc prompt items t config =
         compact_history exceeds json_len summ' c' sc' prompt items t config"
proof -
  have "compact_loop summ c sc prompt 0 0 (take b items) q = compact_loop summ' c' sc' prompt 0 0 (take b items) q"
    for b q
    using assms by (intro compact_loop_bounded) (auto simp: MAX_TRANSIENT_RETRIES_def)
  then show ?thesis unfolding compact_history_def Let_def by (simp only:)
qed

text \<open>
  C39: the tail window of automatic compaction: splitting loses nothing, the preserved items fit
  the token budget unless there is a single one, at least one is preserved, and no larger
  suffix would have fitted.
\<close>

theorem tail_window_fits:
  assumes "items \<noteq> []" "split_by_user_message_budget json_len items budget = (compact, preserve)"
  shows "compact @ preserve = items \<and> preserve \<noteq> [] \<and>
    (sum_list (map (estimate_item_tokens json_len) preserve) \<le> budget \<or> length preserve = 1) \<and>
    (compact \<noteq> [] \<longrightarrow>
       budget < sum_list (map (estimate_item_tokens json_len) (last compact # preserve)))"
proof -
  let ?toks = "map (estimate_item_tokens json_len) items"
  let ?r = "split_loop ?toks budget (length ?toks) 0 0"
  note r = split_loop_start [of ?toks budget]
  have ne: "?toks \<noteq> []" using assms(1) by simp
  have cp: "compact = take ?r items" "preserve = drop ?r items"
    using assms by (auto simp: split_by_user_message_budget_def Let_def split: if_splits)
  have lt: "?r < length items" using r(1) [OF ne] by simp
  have "last compact # preserve = drop (?r - 1) items" if "compact \<noteq> []"
  proof -
    have "0 < ?r" using that cp by auto
    then have "last compact = items ! (?r - 1)" using that lt unfolding cp by (simp add: last_conv_nth)
    moreover have "drop (?r - 1) items = items ! (?r - 1) # drop ?r items"
      using \<open>0 < ?r\<close> lt by (metis Cons_nth_drop_Suc Suc_diff_1 less_imp_diff_less)
    ultimately show ?thesis unfolding cp by simp
  qed
  moreover have "0 < ?r" if "compact \<noteq> []" using that cp by auto
  ultimately show ?thesis using r [OF ne] lt cp by (auto simp: drop_map)
qed


lemma compaction_calls_bounded_witness:
  "compact_history (\<lambda>_ _ (_::nat). False) (\<lambda>_. 0) (\<lambda>_ _. Inl ContextTooLong) (\<lambda>_. False) (\<lambda>_. False) ''p''
     [Reason ''a'' :: nat response_item] token_info_default
     \<lparr>cfg_budget = \<lparr>context_window = 0, max_output_tokens = 0, compact_threshold = 0, auto_compact_token_limit = None\<rparr>,
      kind = Proactive\<rparr> =
   compact_history (\<lambda>_ _ (_::nat). False) (\<lambda>_. 0) (\<lambda>j _. if j < 6 then Inl ContextTooLong else Inr ''x'')
     (\<lambda>_. False) (\<lambda>_. False) ''p'' [Reason ''a''] token_info_default
     \<lparr>cfg_budget = \<lparr>context_window = 0, max_output_tokens = 0, compact_threshold = 0, auto_compact_token_limit = None\<rparr>,
      kind = Proactive\<rparr>"
  by (rule compaction_calls_bounded) (simp add: MAX_TRANSIENT_RETRIES_def)

lemma tail_window_fits_witness:
  "split_by_user_message_budget (\<lambda>_. 0) [Reason ''aaaaaaaa'', Reason ''b'' :: nat response_item] 1 =
     ([Reason ''aaaaaaaa''], [Reason ''b'']) \<and>
   1 < sum_list (map (estimate_item_tokens (\<lambda>_. 0)) [Reason ''aaaaaaaa'', Reason ''b'' :: nat response_item])"
proof -
  have e: "split_by_user_message_budget (\<lambda>_. 0) [Reason ''aaaaaaaa'', Reason ''b'' :: nat response_item] 1 =
     ([Reason ''aaaaaaaa''], [Reason ''b''])"
  proof -
    have "estimate_item_tokens (\<lambda>_. 0) (Reason ''aaaaaaaa'' :: nat response_item) = 2"
      "estimate_item_tokens (\<lambda>_. 0) (Reason ''b'' :: nat response_item) = 1"
      by (simp_all add: estimate_item_tokens_def approx_tokens_from_byte_count_def
          APPROX_BYTES_PER_TOKEN_def sat_add_u64_def u64_max_def utf8_len_def)
    then show ?thesis by (simp add: split_by_user_message_budget_def numeral_2_eq_2)
  qed
  show ?thesis using tail_window_fits [OF _ e] e by simp
qed

end
