(* ===== verification/Patch_Parse.thy ===== *)
theory Patch_Parse
  imports Prelude
begin

text \<open>
  The parser of the \<open>apply_patch\<close> tool (\<open>crates/core/src/tools/apply_patch.rs\<close>). The peekable
  line iterator is the list of the lines not yet consumed, an \<open>anyhow\<close> error is a value of
  \<open>patch_error\<close> with the data of its message.
\<close>

section \<open>Patches\<close>

datatype patch_kind = PAdd | PUpdate | PDelete | PMove

fun patch_kind_as_str :: "patch_kind \<Rightarrow> string" where
  "patch_kind_as_str PAdd = ''add''"
| "patch_kind_as_str PUpdate = ''update''"
| "patch_kind_as_str PDelete = ''delete''"
| "patch_kind_as_str PMove = ''move''"

datatype hunk_line = Context string | Add string | Remove string

record patch_hunk =
  hunk_lines :: "hunk_line list"

record patch_change =
  p_path :: string
  p_move_path :: "string option"
  p_content :: string
  p_hunks :: "patch_hunk list"
  p_kind :: patch_kind

datatype match_mode = Exact | Trimmed | NormalizedWhitespace

datatype patch_error =
    BadStart
  | ExpectedFileHeader string
  | NoOperations
  | MissingEndPatch
  | BadAddLine string
  | LinesBeforeHunk
  | UnsupportedHunkLine string
  | NoHunks
  | AbsolutePath
  | ReadFailed
  | WriteFailed
  | ContextBeyondEof string
  | ContextMismatch string string
  | RemovedBeyondEof string
  | RemoveMismatch string string
  | HunkNotFound
  | PartialHunk match_mode nat nat string string
  | Panic

section \<open>Line classification\<close>

definition BEGIN_PATCH :: string where "BEGIN_PATCH = ''*** Begin Patch''"
definition END_PATCH :: string where "END_PATCH = ''*** End Patch''"
definition END_OF_FILE :: string where "END_OF_FILE = ''*** End of File''"
definition ADD_FILE :: string where "ADD_FILE = ''*** Add File: ''"
definition DELETE_FILE :: string where "DELETE_FILE = ''*** Delete File: ''"
definition UPDATE_FILE :: string where "UPDATE_FILE = ''*** Update File: ''"
definition MOVE_TO :: string where "MOVE_TO = ''*** Move to: ''"
definition STARS :: string where "STARS = ''*** ''"

definition is_file_header_line :: "string \<Rightarrow> bool" where
  "is_file_header_line line \<longleftrightarrow>
     starts_with line ADD_FILE \<or> starts_with line DELETE_FILE \<or> starts_with line UPDATE_FILE"

definition is_hunk_header_line :: "string \<Rightarrow> bool" where
  "is_hunk_header_line line \<longleftrightarrow> line = ''@@'' \<or> starts_with line ''@@ ''"

definition is_git_diff_metadata_line :: "string \<Rightarrow> bool" where
  "is_git_diff_metadata_line line \<longleftrightarrow>
     starts_with line ''diff --git '' \<or> starts_with line ''index '' \<or>
     starts_with line ''--- '' \<or> starts_with line ''+++ ''"

section \<open>Blocks\<close>

fun plus_block :: "string \<Rightarrow> string list \<Rightarrow> patch_error + string \<times> string list" where
  "plus_block content [] = Inr (content, [])"
| "plus_block content (line # lines) =
     (if starts_with line STARS then Inr (content, line # lines)
      else case strip_prefix ''+'' line of
             Some rest \<Rightarrow> plus_block (content @ rest @ [LF]) lines
           | None \<Rightarrow> Inl (BadAddLine line))"

definition collect_plus_block :: "string list \<Rightarrow> patch_error + string \<times> string list" where
  "collect_plus_block lines = plus_block [] lines"

text \<open>A line inside a hunk; the flag says that the line counts as having seen a hunk.\<close>

fun hunk_line_of :: "string \<Rightarrow> patch_error + hunk_line \<times> bool" where
  "hunk_line_of [] = Inr (Context [], False)"
| "hunk_line_of (c # cs) =
     (if c = CHR ''+'' then Inr (Add cs, False)
      else if c = CHR '' '' then Inr (Context cs, False)
      else if c = CHR ''-'' then Inr (Remove cs, True)
      else Inl (UnsupportedHunkLine (c # cs)))"

definition finish_hunks :: "patch_hunk list \<Rightarrow> patch_hunk option \<Rightarrow> patch_hunk list" where
  "finish_hunks hunks current = (case current of None \<Rightarrow> hunks | Some h \<Rightarrow> hunks @ [h])"

fun hunk_block ::
  "patch_hunk list \<Rightarrow> patch_hunk option \<Rightarrow> bool \<Rightarrow> string list \<Rightarrow>
   patch_error + patch_hunk list \<times> bool \<times> string list" where
  "hunk_block hunks current saw [] = Inr (finish_hunks hunks current, saw, [])"
| "hunk_block hunks current saw (line # lines) =
     (if starts_with line STARS \<and> \<not> starts_with line END_OF_FILE
      then Inr (finish_hunks hunks current, saw, line # lines)
      else if line = END_OF_FILE then Inr (finish_hunks hunks current, saw, lines)
      else if current = None \<and> is_git_diff_metadata_line line
           then hunk_block hunks current saw lines
      else if is_hunk_header_line line
           then hunk_block (finish_hunks hunks current) (Some \<lparr>hunk_lines = []\<rparr>) True lines
      else case current of
             None \<Rightarrow> Inl LinesBeforeHunk
           | Some h \<Rightarrow>
               (case hunk_line_of line of
                  Inl e \<Rightarrow> Inl e
                | Inr (hl, seen) \<Rightarrow>
                    hunk_block hunks (Some (h\<lparr>hunk_lines := hunk_lines h @ [hl]\<rparr>)) (saw \<or> seen) lines))"

definition collect_hunk_block :: "string list \<Rightarrow> patch_error + patch_hunk list \<times> string list" where
  "collect_hunk_block lines =
     (case hunk_block [] None False lines of
        Inl e \<Rightarrow> Inl e
      | Inr (hunks, saw, rest) \<Rightarrow>
          (if \<not> saw \<and> list_all (\<lambda>h. hunk_lines h = []) hunks then Inl NoHunks
           else Inr (hunks, rest)))"

lemma plus_block_shrinks: "plus_block c ls = Inr (c', rest) \<Longrightarrow> length rest \<le> length ls"
  by (induction c ls arbitrary: c' rest rule: plus_block.induct)
     (fastforce split: if_splits option.splits)+

lemma hunk_block_shrinks:
  "hunk_block hs cur saw ls = Inr (hs', saw', rest) \<Longrightarrow> length rest \<le> length ls"
proof (induction hs cur saw ls arbitrary: hs' saw' rest rule: hunk_block.induct)
  case (2 hs cur saw l ls)
  note prems = "2.prems"
  show ?case
  proof (cases "starts_with l STARS \<and> \<not> starts_with l END_OF_FILE")
    case stop: False
    show ?thesis
    proof (cases "l = END_OF_FILE")
      case eof: False
      show ?thesis
      proof (cases "cur = None \<and> is_git_diff_metadata_line l")
        case True
        then show ?thesis using "2.IH"(1) [OF stop eof True] prems stop eof by (simp add: le_SucI)
      next
        case meta: False
        show ?thesis
        proof (cases "is_hunk_header_line l")
          case True
          then show ?thesis using "2.IH"(2) [OF stop eof meta True] prems stop eof meta
            by (simp add: le_SucI)
        next
          case header: False
          show ?thesis
          proof (cases cur)
            case None
            then show ?thesis using prems stop eof meta header by simp
          next
            case (Some h)
            note ih = "2.IH"(3) [OF stop eof meta header Some]
            show ?thesis
            proof (cases "hunk_line_of l")
              case (Inl e)
              then show ?thesis using prems stop eof header Some by simp
            next
              case (Inr q)
              obtain hl seen where q: "q = (hl, seen)" by fastforce
              show ?thesis using ih [OF Inr q [symmetric]] prems stop eof header Some Inr q
                by (simp add: le_SucI)
            qed
          qed
        qed
      qed
    qed (use prems stop in simp)
  qed (use prems in simp)
qed simp

lemma collect_plus_block_shrinks:
  "collect_plus_block ls = Inr p \<Longrightarrow> length (snd p) \<le> length ls"
  using plus_block_shrinks by (cases p) (simp add: collect_plus_block_def)

lemma collect_hunk_block_shrinks:
  "collect_hunk_block ls = Inr p \<Longrightarrow> length (snd p) \<le> length ls"
  using hunk_block_shrinks [of "[]" None False ls]
  by (auto simp: collect_hunk_block_def split: sum.splits prod.splits if_splits)

section \<open>The parser\<close>

definition simple_change :: "string \<Rightarrow> string \<Rightarrow> patch_kind \<Rightarrow> patch_change" where
  "simple_change path content k =
     \<lparr>p_path = path, p_move_path = None, p_content = content, p_hunks = [], p_kind = k\<rparr>"

definition update_change :: "string \<Rightarrow> string option \<Rightarrow> patch_hunk list \<Rightarrow> patch_change" where
  "update_change path move_path hunks =
     \<lparr>p_path = path, p_move_path = move_path, p_content = [], p_hunks = hunks,
      p_kind = (if move_path \<noteq> None then PMove else PUpdate)\<rparr>"

text \<open>The optional \<open>Move to\<close> line after an update header.\<close>

fun take_move :: "string list \<Rightarrow> string option \<times> string list" where
  "take_move [] = (None, [])"
| "take_move (l # ls) =
     (if starts_with l MOVE_TO then (Some (trim_start_matches MOVE_TO l), ls) else (None, l # ls))"

lemma take_move_shrinks: "length (snd (take_move ls)) \<le> length ls"
  by (cases ls) auto

text \<open>The main loop: the changes so far, whether the end marker was seen.\<close>

function parse_loop :: "patch_change list \<Rightarrow> string list \<Rightarrow> patch_error + patch_change list \<times> bool" where
  "parse_loop changes [] = Inr (changes, False)"
| "parse_loop changes (line # lines) =
     (if line = END_PATCH then Inr (changes, True)
      else if line = END_OF_FILE then parse_loop changes lines
      else (case strip_prefix ADD_FILE line of
        Some path \<Rightarrow>
          (case collect_plus_block lines of
             Inl e \<Rightarrow> Inl e
           | Inr (contents, rest) \<Rightarrow> parse_loop (changes @ [simple_change path contents PAdd]) rest)
      | None \<Rightarrow>
          (case strip_prefix DELETE_FILE line of
             Some path \<Rightarrow> parse_loop (changes @ [simple_change path [] PDelete]) lines
           | None \<Rightarrow>
               (case strip_prefix UPDATE_FILE line of
                  Some path \<Rightarrow>
                    (case take_move lines of
                       (move_path, lines') \<Rightarrow>
                         (case collect_hunk_block lines' of
                            Inl e \<Rightarrow> Inl e
                          | Inr (hunks, rest) \<Rightarrow>
                              parse_loop (changes @ [update_change path move_path hunks]) rest))
                | None \<Rightarrow> Inl (ExpectedFileHeader line)))))"
  by pat_completeness auto
termination
  using collect_plus_block_shrinks collect_hunk_block_shrinks take_move_shrinks
  by (relation "measure (\<lambda>(_, ls). length ls)")
     (auto simp: less_Suc_eq_le, (metis le_trans prod.sel(2))+)

definition patch_lines :: "string \<Rightarrow> string list" where
  "patch_lines text = rust_lines (replace_cr (replace_crlf text))"

definition parse_lines :: "string list \<Rightarrow> patch_error + patch_change list" where
  "parse_lines ls =
     (case ls of
        [] \<Rightarrow> Inr []
      | first # others \<Rightarrow>
          (let wrapped = (first = BEGIN_PATCH) in
           if \<not> wrapped \<and> \<not> is_file_header_line first then Inl BadStart
           else case parse_loop [] (if wrapped then others else ls) of
                  Inl e \<Rightarrow> Inl e
                | Inr (changes, saw_end_patch) \<Rightarrow>
                    (if changes = [] then Inl NoOperations
                     else if wrapped \<and> \<not> saw_end_patch then Inl MissingEndPatch
                     else Inr changes)))"

definition parse_patch :: "string \<Rightarrow> patch_error + patch_change list" where
  "parse_patch text = parse_lines (patch_lines text)"

section \<open>A printer\<close>

text \<open>The text of a patch, as the tool's description asks the model to write it.\<close>

function content_lines :: "string \<Rightarrow> string list" where
  "content_lines s =
     (if s = [] then []
      else takeWhile (\<lambda>c. c \<noteq> LF) s # content_lines (drop 1 (dropWhile (\<lambda>c. c \<noteq> LF) s)))"
  by pat_completeness auto
termination
proof (relation "measure length", goal_cases)
  case (2 s)
  have "length (dropWhile (\<lambda>c. c \<noteq> LF) s) \<le> length s" by (rule length_dropWhile_le)
  then show ?case using 2 by (cases s) (auto simp: less_Suc_eq_le)
qed simp

declare content_lines.simps [simp del]

fun print_hunk_line :: "hunk_line \<Rightarrow> string" where
  "print_hunk_line (Context t) = CHR '' '' # t"
| "print_hunk_line (Add t) = CHR ''+'' # t"
| "print_hunk_line (Remove t) = CHR ''-'' # t"

definition print_hunk :: "patch_hunk \<Rightarrow> string list" where
  "print_hunk h = ''@@'' # map print_hunk_line (hunk_lines h)"

definition print_change :: "patch_change \<Rightarrow> string list" where
  "print_change c =
     (case p_kind c of
        PAdd \<Rightarrow> (ADD_FILE @ p_path c) # map ((#) (CHR ''+'')) (content_lines (p_content c))
      | PDelete \<Rightarrow> [DELETE_FILE @ p_path c]
      | _ \<Rightarrow> (UPDATE_FILE @ p_path c) #
             (case p_move_path c of None \<Rightarrow> [] | Some m \<Rightarrow> [MOVE_TO @ m]) @
             concat (map print_hunk (p_hunks c)))"

definition print_lines :: "patch_change list \<Rightarrow> string list" where
  "print_lines cs = BEGIN_PATCH # concat (map print_change cs) @ [END_PATCH]"

definition unlines :: "string list \<Rightarrow> string" where
  "unlines ls = concat (map (\<lambda>l. l @ [LF]) ls)"

definition wf_change :: "patch_change \<Rightarrow> bool" where
  "wf_change c \<longleftrightarrow>
     (case p_kind c of
        PAdd \<Rightarrow> p_move_path c = None \<and> p_hunks c = [] \<and> (p_content c = [] \<or> last (p_content c) = LF)
      | PDelete \<Rightarrow> p_move_path c = None \<and> p_hunks c = [] \<and> p_content c = []
      | PUpdate \<Rightarrow> p_move_path c = None \<and> p_hunks c \<noteq> [] \<and> p_content c = []
      | PMove \<Rightarrow> p_hunks c \<noteq> [] \<and> p_content c = [] \<and>
                 (\<exists>m. p_move_path c = Some m \<and> \<not> starts_with m MOVE_TO))"

lemma wf_change_code [code]:
  "wf_change c \<longleftrightarrow>
     (case p_kind c of
        PAdd \<Rightarrow> p_move_path c = None \<and> p_hunks c = [] \<and> (p_content c = [] \<or> last (p_content c) = LF)
      | PDelete \<Rightarrow> p_move_path c = None \<and> p_hunks c = [] \<and> p_content c = []
      | PUpdate \<Rightarrow> p_move_path c = None \<and> p_hunks c \<noteq> [] \<and> p_content c = []
      | PMove \<Rightarrow> p_hunks c \<noteq> [] \<and> p_content c = [] \<and>
                 (case p_move_path c of None \<Rightarrow> False | Some m \<Rightarrow> \<not> starts_with m MOVE_TO))"
  by (auto simp: wf_change_def split: patch_kind.split option.split)

lemmas markers = BEGIN_PATCH_def END_PATCH_def END_OF_FILE_def ADD_FILE_def DELETE_FILE_def
  UPDATE_FILE_def MOVE_TO_def STARS_def

section \<open>The parser reads what the printer writes\<close>

lemma unlines_content_lines:
  "s = [] \<or> last s = LF \<Longrightarrow> unlines (content_lines s) = s"
proof (induction s rule: content_lines.induct)
  case (1 s)
  show ?case
  proof (cases "s = []")
    case False
    let ?d = "dropWhile (\<lambda>c. c \<noteq> LF) s"
    have "LF \<in> set s" using False 1(2) last_in_set by metis
    then have d: "?d \<noteq> []" "hd ?d = LF" using hd_dropWhile [of "\<lambda>c. c \<noteq> LF" s] by auto
    then have split: "?d = LF # drop 1 ?d" by (cases ?d) auto
    have "last ?d = last s" using d(1) by (metis last_appendR takeWhile_dropWhile_id)
    then have "drop 1 ?d = [] \<or> last (drop 1 ?d) = LF"
      using False 1(2) d by (cases ?d) (auto split: if_splits)
    then have "unlines (content_lines (drop 1 ?d)) = drop 1 ?d" using 1(1) False by blast
    moreover have "content_lines s = takeWhile (\<lambda>c. c \<noteq> LF) s # content_lines (drop 1 ?d)"
      using False content_lines.simps [of s] by simp
    ultimately have "unlines (content_lines s) = takeWhile (\<lambda>c. c \<noteq> LF) s @ (LF # drop 1 ?d)"
      by (simp add: unlines_def)
    also have "\<dots> = s" by (simp only: split [symmetric] takeWhile_dropWhile_id)
    finally show ?thesis .
  qed (simp add: content_lines.simps unlines_def)
qed

lemma plus_block_print:
  assumes "rest = [] \<or> starts_with (hd rest) STARS"
  shows "plus_block c (map ((#) (CHR ''+'')) ls @ rest) = Inr (c @ unlines ls, rest)"
proof (induction ls arbitrary: c)
  case Nil
  then show ?case using assms by (cases rest) (simp_all add: unlines_def)
next
  case (Cons l ls)
  have "\<not> starts_with (CHR ''+'' # l) STARS" by (simp add: starts_with_def STARS_def)
  then show ?case using Cons by (simp add: unlines_def)
qed

lemma hunk_line_print:
  "hunk_line_of (print_hunk_line hl) = Inr (hl, \<exists>t. hl = Remove t)"
  "\<not> starts_with (print_hunk_line hl) STARS" "\<not> is_hunk_header_line (print_hunk_line hl)"
  "print_hunk_line hl \<noteq> END_OF_FILE"
  by (cases hl; simp add: starts_with_def is_hunk_header_line_def markers)+

lemma hunk_block_lines:
  "\<exists>saw'. (saw \<longrightarrow> saw') \<and>
   hunk_block hs (Some h) saw (map print_hunk_line ls @ rest) =
   hunk_block hs (Some (h\<lparr>hunk_lines := hunk_lines h @ ls\<rparr>)) saw' rest"
proof (induction ls arbitrary: h saw)
  case (Cons l ls)
  let ?h = "h\<lparr>hunk_lines := hunk_lines h @ [l]\<rparr>"
  have "hunk_block hs (Some h) saw (map print_hunk_line (l # ls) @ rest) =
      hunk_block hs (Some ?h) (saw \<or> (\<exists>t. l = Remove t)) (map print_hunk_line ls @ rest)"
    using hunk_line_print [of l] by simp
  then show ?case using Cons [of "saw \<or> (\<exists>t. l = Remove t)" ?h] by auto
qed auto

lemma hunk_block_print:
  assumes "rest = [] \<or> starts_with (hd rest) STARS \<and> \<not> starts_with (hd rest) END_OF_FILE"
    "current \<noteq> None \<longrightarrow> saw"
  shows "\<exists>saw'. (saw \<or> hunks \<noteq> [] \<longrightarrow> saw') \<and>
    hunk_block hs current saw (concat (map print_hunk hunks) @ rest) =
      Inr (finish_hunks hs current @ hunks, saw', rest)"
  using assms(2)
proof (induction hunks arbitrary: hs current saw)
  case Nil
  show ?case using assms(1) by (cases rest) auto
next
  case (Cons h hunks)
  have header: "\<not> starts_with ''@@'' STARS" "''@@'' \<noteq> END_OF_FILE" "is_hunk_header_line ''@@''"
    "\<not> is_git_diff_metadata_line ''@@''"
    by (simp_all add: starts_with_def markers is_hunk_header_line_def is_git_diff_metadata_line_def)
  let ?rest = "concat (map print_hunk hunks) @ rest" and ?hs = "finish_hunks hs current"
  have start: "hunk_block hs current saw (concat (map print_hunk (h # hunks)) @ rest) =
      hunk_block ?hs (Some \<lparr>hunk_lines = []\<rparr>) True (map print_hunk_line (hunk_lines h) @ ?rest)"
    using header by (simp add: print_hunk_def)
  from hunk_block_lines [of True ?hs "\<lparr>hunk_lines = []\<rparr>" "hunk_lines h" ?rest]
  obtain saw1 where saw1: "saw1"
    "hunk_block ?hs (Some \<lparr>hunk_lines = []\<rparr>) True (map print_hunk_line (hunk_lines h) @ ?rest) =
     hunk_block ?hs (Some \<lparr>hunk_lines = hunk_lines h\<rparr>) saw1 ?rest"
    by (elim exE conjE) simp
  from saw1(1) have "Some \<lparr>hunk_lines = hunk_lines h\<rparr> \<noteq> None \<longrightarrow> saw1" by simp
  from Cons.IH [OF this, of ?hs] saw1(1)
  obtain saw2 where saw2: "saw2"
    "hunk_block ?hs (Some \<lparr>hunk_lines = hunk_lines h\<rparr>) saw1 ?rest =
     Inr (finish_hunks ?hs (Some \<lparr>hunk_lines = hunk_lines h\<rparr>) @ hunks, saw2, rest)"
    by (elim exE conjE) simp
  have "finish_hunks ?hs (Some \<lparr>hunk_lines = hunk_lines h\<rparr>) @ hunks = ?hs @ h # hunks"
    by (simp add: finish_hunks_def)
  with start saw1(2) saw2 show ?case by (intro exI [of _ saw2]) simp
qed

lemma collect_hunk_block_print:
  assumes "rest = [] \<or> starts_with (hd rest) STARS \<and> \<not> starts_with (hd rest) END_OF_FILE"
    "hunks \<noteq> []"
  shows "collect_hunk_block (concat (map print_hunk hunks) @ rest) = Inr (hunks, rest)"
proof -
  obtain saw where "saw" "hunk_block [] None False (concat (map print_hunk hunks) @ rest) =
      Inr (finish_hunks [] None @ hunks, saw, rest)"
  proof -
    have "(None :: patch_hunk option) \<noteq> None \<longrightarrow> False" by simp
    from hunk_block_print [OF assms(1) this, of hunks "[]"] assms(2) that show thesis
      by (elim exE conjE) simp
  qed
  then show ?thesis by (simp add: collect_hunk_block_def finish_hunks_def)
qed

lemma marker_lines [simp]:
  "ADD_FILE @ x \<noteq> END_PATCH" "ADD_FILE @ x \<noteq> END_OF_FILE"
  "DELETE_FILE @ x \<noteq> END_PATCH" "DELETE_FILE @ x \<noteq> END_OF_FILE"
  "UPDATE_FILE @ x \<noteq> END_PATCH" "UPDATE_FILE @ x \<noteq> END_OF_FILE"
  "strip_prefix ADD_FILE (DELETE_FILE @ x) = None" "strip_prefix ADD_FILE (UPDATE_FILE @ x) = None"
  "strip_prefix DELETE_FILE (UPDATE_FILE @ x) = None"
  "starts_with (ADD_FILE @ x) STARS" "starts_with (DELETE_FILE @ x) STARS"
  "starts_with (UPDATE_FILE @ x) STARS" "starts_with END_PATCH STARS"
  "\<not> starts_with (ADD_FILE @ x) END_OF_FILE" "\<not> starts_with (DELETE_FILE @ x) END_OF_FILE"
  "\<not> starts_with (UPDATE_FILE @ x) END_OF_FILE" "\<not> starts_with END_PATCH END_OF_FILE"
  by (simp_all add: markers starts_with_def)

text \<open>What may follow a change: another header or the end marker.\<close>

definition stops :: "string list \<Rightarrow> bool" where
  "stops rest \<longleftrightarrow> rest = [] \<or> starts_with (hd rest) STARS \<and> \<not> starts_with (hd rest) END_OF_FILE"

lemma print_change_stops: "stops (print_change c @ rest)"
  by (cases "p_kind c") (simp_all add: print_change_def stops_def)

lemma print_changes_stops: "stops (concat (map print_change cs) @ [END_PATCH])"
proof (cases cs)
  case (Cons c cs')
  then show ?thesis using print_change_stops [of c "concat (map print_change cs') @ [END_PATCH]"]
    by simp
qed (simp add: stops_def)

lemma take_move_print:
  "\<not> starts_with m MOVE_TO \<Longrightarrow> take_move ((MOVE_TO @ m) # ls) = (Some m, ls)"
proof -
  assume m: "\<not> starts_with m MOVE_TO"
  have "MOVE_TO \<noteq> []" by (simp add: MOVE_TO_def)
  then have "trim_start_matches MOVE_TO (MOVE_TO @ m) = m"
    using m trim_start_matches.simps [of MOVE_TO "MOVE_TO @ m"] trim_start_matches.simps [of MOVE_TO m]
    by (simp add: starts_with_def)
  then show ?thesis by simp
qed

lemma take_move_hunks: "hunks \<noteq> [] \<Longrightarrow> take_move (concat (map print_hunk hunks) @ rest) =
    (None, concat (map print_hunk hunks) @ rest)"
  by (cases hunks) (simp_all add: print_hunk_def starts_with_def markers(7))

lemma parse_loop_print_change:
  assumes "wf_change c" "stops rest"
  shows "parse_loop changes (print_change c @ rest) = parse_loop (changes @ [c]) rest"
proof (cases "p_kind c")
  case PAdd
  have "collect_plus_block (map ((#) (CHR ''+'')) (content_lines (p_content c)) @ rest) =
      Inr (p_content c, rest)"
  proof -
    have "rest = [] \<or> starts_with (hd rest) STARS" using assms(2) by (auto simp: stops_def)
    from plus_block_print [OF this, of "[]" "content_lines (p_content c)"] show ?thesis
      using assms(1) PAdd unlines_content_lines [of "p_content c"]
      by (simp add: collect_plus_block_def wf_change_def)
  qed
  moreover have "simple_change (p_path c) (p_content c) PAdd = c"
    using assms(1) PAdd by (cases c) (simp add: simple_change_def wf_change_def)
  ultimately show ?thesis using PAdd by (simp add: print_change_def)
next
  case PDelete
  have "simple_change (p_path c) [] PDelete = c"
    using assms(1) PDelete by (cases c) (simp add: simple_change_def wf_change_def)
  then show ?thesis using PDelete by (simp add: print_change_def)
next
  case PUpdate
  have ne: "p_hunks c \<noteq> []" and "p_move_path c = None" using assms(1) PUpdate by (simp_all add: wf_change_def)
  moreover have "update_change (p_path c) None (p_hunks c) = c"
    using assms(1) PUpdate by (cases c) (simp add: update_change_def wf_change_def)
  ultimately show ?thesis
    using PUpdate take_move_hunks [OF ne, of rest] collect_hunk_block_print [OF assms(2)[unfolded stops_def] ne]
    by (simp add: print_change_def)
next
  case PMove
  then obtain m where m: "p_move_path c = Some m" "\<not> starts_with m MOVE_TO" and ne: "p_hunks c \<noteq> []"
    using assms(1) by (auto simp: wf_change_def)
  moreover have "update_change (p_path c) (Some m) (p_hunks c) = c"
    using assms(1) PMove m by (cases c) (simp add: update_change_def wf_change_def)
  ultimately show ?thesis
    using PMove take_move_print [OF m(2)] collect_hunk_block_print [OF assms(2)[unfolded stops_def] ne]
    by (simp add: print_change_def)
qed

lemma parse_loop_print:
  "\<forall>c\<in>set cs. wf_change c \<Longrightarrow>
   parse_loop changes (concat (map print_change cs) @ [END_PATCH]) = Inr (changes @ cs, True)"
proof (induction cs arbitrary: changes)
  case (Cons c cs)
  then show ?case
    using parse_loop_print_change [OF _ print_changes_stops, of c changes cs] by simp
qed simp

lemma parse_lines_print:
  "\<lbrakk>cs \<noteq> []; \<forall>c\<in>set cs. wf_change c\<rbrakk> \<Longrightarrow> parse_lines (print_lines cs) = Inr cs"
  by (simp add: parse_lines_def print_lines_def parse_loop_print)

lemma parse_loop_result:
  "parse_loop changes ls = Inr (cs, saw) \<Longrightarrow> prefix changes cs"
proof (induction changes ls arbitrary: cs saw rule: parse_loop.induct)
  case (2 changes line lines)
  then show ?case
    by (fastforce simp: append_prefixD split: if_splits option.splits sum.splits prod.splits)
qed simp

section \<open>Lines of a text without carriage returns\<close>

lemma replace_crlf_id: "CR \<notin> set s \<Longrightarrow> replace_crlf s = s"
  by (induction s rule: replace_crlf.induct) auto

lemma replace_cr_id: "CR \<notin> set s \<Longrightarrow> replace_cr s = s"
  by (induction s) (auto simp: replace_cr_def)

lemma lines_acc_line:
  "LF \<notin> set l \<Longrightarrow> lines_acc acc (l @ LF # s) = drop_cr (rev acc @ l) # lines_acc [] s"
  by (induction l arbitrary: acc) auto

lemma rust_lines_unlines:
  "\<forall>l\<in>set ls. LF \<notin> set l \<and> CR \<notin> set l \<Longrightarrow> rust_lines (unlines ls) = ls"
proof (induction ls)
  case (Cons l ls)
  have "l \<noteq> [] \<Longrightarrow> last l \<noteq> CR" using Cons.prems last_in_set [of l] by fastforce
  then have "drop_cr l = l" by (auto simp: drop_cr_def)
  then show ?case using Cons by (simp add: rust_lines_def unlines_def lines_acc_line)
qed (simp add: rust_lines_def unlines_def)

lemma patch_lines_unlines:
  assumes "\<forall>l\<in>set ls. LF \<notin> set l \<and> CR \<notin> set l"
  shows "patch_lines (unlines ls) = ls"
proof -
  have "CR \<noteq> LF" by (simp add: CR_def LF_def)
  then have "CR \<notin> set (unlines ls)" using assms by (auto simp: unlines_def)
  then show ?thesis using rust_lines_unlines [OF assms]
    by (simp add: patch_lines_def replace_crlf_id replace_cr_id)
qed

section \<open>Facts about parse results\<close>

lemma parse_lines_nonempty: "parse_lines ls = Inr [] \<Longrightarrow> ls = []"
  by (auto simp: parse_lines_def Let_def split: list.splits sum.splits prod.splits if_splits)

lemma lines_acc_Nil: "lines_acc acc s = [] \<Longrightarrow> s = []"
  by (induction acc s rule: lines_acc.induct) (auto split: if_splits)

lemma patch_lines_Nil: "patch_lines s = [] \<Longrightarrow> s = []"
proof -
  assume "patch_lines s = []"
  then have "replace_crlf s = []"
    using lines_acc_Nil by (fastforce simp: patch_lines_def rust_lines_def replace_cr_def)
  then show "s = []" by (cases s rule: replace_crlf.cases) (auto split: if_splits)
qed

lemma parse_patch_not_empty: "trim text \<noteq> [] \<Longrightarrow> parse_patch text \<noteq> Inr []"
proof
  assume t: "trim text \<noteq> []" and "parse_patch text = Inr []"
  then have "text = []" unfolding parse_patch_def by (intro patch_lines_Nil parse_lines_nonempty)
  then show False using t by (simp add: trim_def trim_start_def trim_end_def)
qed

text \<open>A change moves exactly when it has a target.\<close>

definition kind_ok :: "patch_change \<Rightarrow> bool" where
  "kind_ok c \<longleftrightarrow> (p_kind c = PMove \<longleftrightarrow> p_move_path c \<noteq> None)"

lemma parse_loop_kind_ok:
  "\<lbrakk>parse_loop changes ls = Inr (cs, saw); \<forall>c\<in>set changes. kind_ok c\<rbrakk> \<Longrightarrow> \<forall>c\<in>set cs. kind_ok c"
proof (induction changes ls arbitrary: cs saw rule: parse_loop.induct)
  case (2 changes line lines)
  have k: "kind_ok (simple_change p t PAdd)" "kind_ok (simple_change p t PDelete)"
    "kind_ok (update_change p m hs)" for p t m hs
    by (simp_all add: kind_ok_def simple_change_def update_change_def)
  show ?case
  proof (cases "line = END_PATCH")
    case end_: False
    show ?thesis
    proof (cases "line = END_OF_FILE")
      case True
      then show ?thesis using "2.IH"(1) [OF end_ True] "2.prems" end_ by simp
    next
      case eof: False
      show ?thesis
        using "2.prems" "2.IH"(2-4) [OF end_ eof] end_ eof k
        by (fastforce split: option.splits sum.splits prod.splits)
    qed
  qed (use "2.prems" in simp)
qed simp

lemma parse_patch_kind_ok: "parse_patch text = Inr cs \<Longrightarrow> \<forall>c\<in>set cs. kind_ok c"
  using parse_loop_kind_ok [of "[]"]
  by (auto simp: parse_patch_def parse_lines_def Let_def simp del: parse_loop.simps
      split: list.splits sum.splits prod.splits if_splits)

section \<open>Properties\<close>

text \<open>
  C29: parsing is the inverse of printing: for every non-empty list of well-formed changes
  whose paths and lines hold no line breaks, the text written in the documented patch format
  is read back as exactly these changes.
\<close>

theorem parse_print_roundtrip:
  assumes "cs \<noteq> []" "\<forall>c\<in>set cs. wf_change c"
    and "\<forall>l\<in>set (print_lines cs). LF \<notin> set l \<and> CR \<notin> set l"
  shows "parse_patch (unlines (print_lines cs)) = Inr cs"
  using assms parse_lines_print patch_lines_unlines by (simp add: parse_patch_def)

lemma parse_print_roundtrip_witness:
  "parse_patch (unlines (print_lines
     [simple_change ''a.txt'' (''hi'' @ [LF]) PAdd,
      update_change ''b'' (Some ''c'') [\<lparr>hunk_lines = [Context ''x'', Remove ''y'', Add ''z'']\<rparr>]]))
   = Inr [simple_change ''a.txt'' (''hi'' @ [LF]) PAdd,
      update_change ''b'' (Some ''c'') [\<lparr>hunk_lines = [Context ''x'', Remove ''y'', Add ''z'']\<rparr>]]"
proof (rule parse_print_roundtrip)
  show "\<forall>c\<in>set [simple_change ''a.txt'' (''hi'' @ [LF]) PAdd,
      update_change ''b'' (Some ''c'') [\<lparr>hunk_lines = [Context ''x'', Remove ''y'', Add ''z'']\<rparr>]]. wf_change c"
    by (simp add: wf_change_def simple_change_def update_change_def starts_with_def MOVE_TO_def)
  have "print_lines [simple_change ''a.txt'' (''hi'' @ [LF]) PAdd,
      update_change ''b'' (Some ''c'') [\<lparr>hunk_lines = [Context ''x'', Remove ''y'', Add ''z'']\<rparr>]] =
    [BEGIN_PATCH, ADD_FILE @ ''a.txt'', ''+hi'', UPDATE_FILE @ ''b'', MOVE_TO @ ''c'', ''@@'',
     '' x'', ''-y'', ''+z'', END_PATCH]"
    by (simp add: print_lines_def print_change_def print_hunk_def simple_change_def update_change_def
        content_lines.simps LF_def)
  then show "\<forall>l\<in>set (print_lines [simple_change ''a.txt'' (''hi'' @ [LF]) PAdd,
      update_change ''b'' (Some ''c'') [\<lparr>hunk_lines = [Context ''x'', Remove ''y'', Add ''z'']\<rparr>]]).
      LF \<notin> set l \<and> CR \<notin> set l"
    by (simp add: markers LF_def CR_def)
qed simp

end
