(* ===== verification/Patch_Apply.thy ===== *)
theory Patch_Apply
  imports Patch_Parse
begin

text \<open>
  Locating and applying the hunks of a patch, and the \<open>apply_patch\<close> tool itself
  (\<open>crates/core/src/tools/apply_patch.rs\<close>). A slice out of range is the error \<open>Panic\<close>.
  The file system is a record: a path is located in some file, a file has a content, and a
  path can be written to or not; creating parent directories does not change files.
\<close>

section \<open>Matching lines\<close>

definition normalized_lines :: "string \<Rightarrow> string list" where
  "normalized_lines content = rust_lines (replace_cr (replace_crlf content))"

definition normalize_whitespace :: "string \<Rightarrow> string" where
  "normalize_whitespace line = join '' '' (split_whitespace line)"

fun lines_match_mode :: "string \<Rightarrow> string \<Rightarrow> match_mode \<Rightarrow> bool" where
  "lines_match_mode expected actual Exact = (expected = actual)"
| "lines_match_mode expected actual Trimmed = (trim expected = trim actual)"
| "lines_match_mode expected actual NormalizedWhitespace =
     (normalize_whitespace expected = normalize_whitespace actual)"

definition match_modes :: "match_mode list" where
  "match_modes = [Exact, Trimmed, NormalizedWhitespace]"

fun expected_line :: "hunk_line \<Rightarrow> string option" where
  "expected_line (Context t) = Some t"
| "expected_line (Remove t) = Some t"
| "expected_line (Add _) = None"

definition expected_lines :: "patch_hunk \<Rightarrow> string list" where
  "expected_lines h = List.map_filter expected_line (hunk_lines h)"

fun matches_at :: "string list \<Rightarrow> nat \<Rightarrow> string list \<Rightarrow> match_mode \<Rightarrow> bool" where
  "matches_at old start [] mode = True"
| "matches_at old start (e # es) mode =
     (case get_at start old of
        None \<Rightarrow> False
      | Some actual \<Rightarrow> lines_match_mode e actual mode \<and> matches_at old (Suc start) es mode)"

text \<open>The candidate positions \<open>cursor..=max_start\<close>.\<close>

definition start_range :: "string list \<Rightarrow> nat \<Rightarrow> string list \<Rightarrow> nat list" where
  "start_range old cursor expected = [cursor ..< Suc (length old - length expected)]"

definition try_find_hunk_start ::
  "string list \<Rightarrow> nat \<Rightarrow> string list \<Rightarrow> match_mode \<Rightarrow> nat option" where
  "try_find_hunk_start old cursor expected mode =
     find (\<lambda>start. matches_at old start expected mode) (start_range old cursor expected)"

text \<open>The loop of \<open>select_hunk_anchor\<close>: index in the expected lines and best anchor so far.\<close>

fun anchor_loop :: "nat \<Rightarrow> (nat \<times> string) option \<Rightarrow> hunk_line list \<Rightarrow> (nat \<times> string) option" where
  "anchor_loop i best [] = best"
| "anchor_loop i best (Context t # ls) =
     (let b1 = (if trim t \<noteq> [] \<and>
                   (case best of None \<Rightarrow> True | Some (_, bt) \<Rightarrow> utf8_len t > utf8_len bt)
                then Some (i, t) else best);
          b2 = (if b1 = None then Some (i, t) else b1)
      in anchor_loop (i + 1) b2 ls)"
| "anchor_loop i best (Remove _ # ls) = anchor_loop (i + 1) best ls"
| "anchor_loop i best (Add _ # ls) = anchor_loop i best ls"

definition select_hunk_anchor :: "patch_hunk \<Rightarrow> (nat \<times> string) option" where
  "select_hunk_anchor h = anchor_loop 0 None (hunk_lines h)"

definition try_find_hunk_start_from_anchor ::
  "string list \<Rightarrow> nat \<Rightarrow> string list \<Rightarrow> nat \<times> string \<Rightarrow> match_mode \<Rightarrow> nat option" where
  "try_find_hunk_start_from_anchor old cursor expected anchor mode =
     find (\<lambda>start.
        (case get_at (start + fst anchor) old of
           None \<Rightarrow> False | Some actual \<Rightarrow> lines_match_mode (snd anchor) actual mode) \<and>
        matches_at old start expected mode)
       (start_range old cursor expected)"

text \<open>How many expected lines match from \<open>start\<close> on; a missing line reads \<open><EOF>\<close>.\<close>

fun matched_prefix :: "string list \<Rightarrow> nat \<Rightarrow> string list \<Rightarrow> match_mode \<Rightarrow> nat" where
  "matched_prefix old start [] mode = 0"
| "matched_prefix old start (e # es) mode =
     (if lines_match_mode e (case get_at start old of None \<Rightarrow> ''<EOF>'' | Some a \<Rightarrow> a) mode
      then Suc (matched_prefix old (Suc start) es mode) else 0)"

definition better_match ::
  "string list \<Rightarrow> string list \<Rightarrow> match_mode \<times> nat \<Rightarrow> nat option \<times> nat \<times> match_mode \<Rightarrow>
   nat option \<times> nat \<times> match_mode" where
  "better_match old expected candidate best =
     (case (candidate, best) of ((mode, start), (bs, bp, bm)) \<Rightarrow>
        (let matched = matched_prefix old start expected mode in
         if matched > bp then (Some start, matched, mode) else (bs, bp, bm)))"

definition best_hunk_partial_match ::
  "string list \<Rightarrow> nat \<Rightarrow> string list \<Rightarrow> (nat \<times> nat \<times> match_mode) option" where
  "best_hunk_partial_match old cursor expected =
     (case fold (better_match old expected)
             (List.product match_modes (start_range old cursor expected)) (None, 0, Exact) of
        (None, _, _) \<Rightarrow> None
      | (Some start, prefix_len, mode) \<Rightarrow> Some (start, prefix_len, mode))"

text \<open>The first mode that finds a position.\<close>

fun first_mode :: "(match_mode \<Rightarrow> nat option) \<Rightarrow> match_mode list \<Rightarrow> (nat \<times> match_mode) option" where
  "first_mode f [] = None"
| "first_mode f (m # ms) = (case f m of Some start \<Rightarrow> Some (start, m) | None \<Rightarrow> first_mode f ms)"

definition locate_error :: "string list \<Rightarrow> nat \<Rightarrow> string list \<Rightarrow> patch_error" where
  "locate_error old cursor expected =
     (case (case best_hunk_partial_match old cursor expected of None \<Rightarrow> (0, 0, Exact) | Some b \<Rightarrow> b) of
        (start, prefix_len, mode) \<Rightarrow>
          (if 0 < prefix_len
           then PartialHunk mode start prefix_len
             (case get_at prefix_len expected of None \<Rightarrow> ''<none>'' | Some e \<Rightarrow> e)
             (case get_at (start + prefix_len) old of None \<Rightarrow> ''<EOF>'' | Some a \<Rightarrow> a)
           else HunkNotFound))"

definition find_hunk_start ::
  "string list \<Rightarrow> nat \<Rightarrow> patch_hunk \<Rightarrow> patch_error + nat \<times> match_mode" where
  "find_hunk_start old cursor h =
     (let expected = expected_lines h in
      if expected = [] then Inr (cursor, Exact)
      else case first_mode (try_find_hunk_start old cursor expected) match_modes of
             Some m \<Rightarrow> Inr m
           | None \<Rightarrow>
               (case (case select_hunk_anchor h of
                        None \<Rightarrow> None
                      | Some anchor \<Rightarrow>
                          first_mode (try_find_hunk_start_from_anchor old cursor expected anchor)
                            match_modes) of
                  Some m \<Rightarrow> Inr m
                | None \<Rightarrow> Inl (locate_error old cursor expected)))"

section \<open>Applying hunks\<close>

fun apply_lines ::
  "match_mode \<Rightarrow> string list \<Rightarrow> nat \<Rightarrow> string list \<Rightarrow> hunk_line list \<Rightarrow>
   patch_error + nat \<times> string list" where
  "apply_lines mode old position out [] = Inr (position, out)"
| "apply_lines mode old position out (Context e # ls) =
     (case get_at position old of
        None \<Rightarrow> Inl (ContextBeyondEof e)
      | Some actual \<Rightarrow>
          (if \<not> lines_match_mode e actual mode then Inl (ContextMismatch e actual)
           else apply_lines mode old (position + 1) (out @ [actual]) ls))"
| "apply_lines mode old position out (Remove e # ls) =
     (case get_at position old of
        None \<Rightarrow> Inl (RemovedBeyondEof e)
      | Some actual \<Rightarrow>
          (if \<not> lines_match_mode e actual mode then Inl (RemoveMismatch e actual)
           else apply_lines mode old (position + 1) out ls))"
| "apply_lines mode old position out (Add t # ls) =
     apply_lines mode old position (out @ [t]) ls"

fun apply_hunk_loop ::
  "string list \<Rightarrow> nat \<Rightarrow> string list \<Rightarrow> patch_hunk list \<Rightarrow> patch_error + nat \<times> string list" where
  "apply_hunk_loop old cursor out [] = Inr (cursor, out)"
| "apply_hunk_loop old cursor out (h # hs) =
     (case find_hunk_start old cursor h of
        Inl e \<Rightarrow> Inl e
      | Inr (start, mode) \<Rightarrow>
          (case slice cursor start old of
             None \<Rightarrow> Inl Panic
           | Some gap \<Rightarrow>
               (case apply_lines mode old start (out @ gap) (hunk_lines h) of
                  Inl e \<Rightarrow> Inl e
                | Inr (position, out') \<Rightarrow> apply_hunk_loop old position out' hs)))"

definition apply_hunks :: "string \<Rightarrow> patch_hunk list \<Rightarrow> patch_error + string" where
  "apply_hunks old_content hunks =
     (let old = normalized_lines old_content in
      case apply_hunk_loop old 0 [] hunks of
        Inl e \<Rightarrow> Inl e
      | Inr (cursor, out) \<Rightarrow>
          (case slice cursor (length old) old of
             None \<Rightarrow> Inl Panic
           | Some tail \<Rightarrow>
               (let output = out @ tail in
                Inr (if output = [] then [] else join [LF] output @ [LF]))))"

section \<open>What a patch means\<close>

text \<open>
  The specification: a hunk replaces a segment of the file that its expected lines match; the
  context lines keep the text of the file.
\<close>

definition segment_matches :: "match_mode \<Rightarrow> string list \<Rightarrow> string list \<Rightarrow> bool" where
  "segment_matches mode es seg \<longleftrightarrow> list_all2 (\<lambda>e a. lines_match_mode e a mode) es seg"

fun hunk_result :: "hunk_line list \<Rightarrow> string list \<Rightarrow> string list" where
  "hunk_result [] seg = []"
| "hunk_result (Context t # ls) seg = (case seg of [] \<Rightarrow> [] | a # seg' \<Rightarrow> a # hunk_result ls seg')"
| "hunk_result (Remove t # ls) seg = (case seg of [] \<Rightarrow> [] | a # seg' \<Rightarrow> hunk_result ls seg')"
| "hunk_result (Add t # ls) seg = t # hunk_result ls seg"

inductive patched :: "patch_hunk list \<Rightarrow> string list \<Rightarrow> string list \<Rightarrow> bool" where
  patched_done: "patched [] rest rest"
| patched_hunk: "\<lbrakk>segment_matches mode (expected_lines h) seg; patched hs rest new\<rbrakk> \<Longrightarrow>
     patched (h # hs) (gap @ seg @ rest) (gap @ hunk_result (hunk_lines h) seg @ new)"

section \<open>Facts about the search\<close>

definition expected_of :: "hunk_line list \<Rightarrow> string list" where
  "expected_of ls = List.map_filter expected_line ls"

lemma expected_of_simps [simp]:
  "expected_of [] = []" "expected_of (Context t # ls) = t # expected_of ls"
  "expected_of (Remove t # ls) = t # expected_of ls" "expected_of (Add t # ls) = expected_of ls"
  by (simp_all add: expected_of_def List.map_filter_simps)

lemma matches_at_bound: "matches_at old start es mode \<Longrightarrow> es = [] \<or> start + length es \<le> length old"
  by (induction old start es mode rule: matches_at.induct)
     (fastforce simp: get_at_def split: option.splits if_splits)+

lemma matches_at_segment:
  "\<lbrakk>matches_at old start es mode; start \<le> length old\<rbrakk> \<Longrightarrow>
   segment_matches mode es (take (length es) (drop start old))"
proof (induction old start es mode rule: matches_at.induct)
  case (2 old start e es mode)
  then have "start < length old" by (auto simp: get_at_def split: option.splits if_splits)
  then have "drop start old = old ! start # drop (Suc start) old" by (simp add: Cons_nth_drop_Suc)
  then show ?case using 2 by (auto simp: get_at_def segment_matches_def split: option.splits if_splits)
qed (simp add: segment_matches_def)

lemma first_mode_Some:
  "first_mode f ms = Some (start, m) \<Longrightarrow> m \<in> set ms \<and> f m = Some start"
  by (induction ms) (auto split: option.splits)

lemma first_mode_None: "first_mode f ms = None \<longleftrightarrow> (\<forall>m\<in>set ms. f m = None)"
  by (induction ms) (auto split: option.splits)

lemma try_find_Some:
  "try_find_hunk_start old cursor es mode = Some start \<Longrightarrow> cursor \<le> start \<and> matches_at old start es mode"
  unfolding try_find_hunk_start_def start_range_def by (auto simp del: upt_Suc dest: find_SomeD)

text \<open>The search from an anchor asks for more than the plain search, so it finds nothing new.\<close>

lemma anchor_search_redundant:
  "try_find_hunk_start old cursor es mode = None \<Longrightarrow>
   try_find_hunk_start_from_anchor old cursor es anchor mode = None"
  by (auto simp: try_find_hunk_start_def try_find_hunk_start_from_anchor_def find_None_iff)

lemma find_hunk_start_simple:
  "find_hunk_start old cursor h =
     (let expected = expected_lines h in
      if expected = [] then Inr (cursor, Exact)
      else case first_mode (try_find_hunk_start old cursor expected) match_modes of
             Some m \<Rightarrow> Inr m
           | None \<Rightarrow> Inl (locate_error old cursor expected))"
proof (cases "first_mode (try_find_hunk_start old cursor (expected_lines h)) match_modes")
  case None
  then have "first_mode (try_find_hunk_start_from_anchor old cursor (expected_lines h) a) match_modes = None" for a
    using anchor_search_redundant by (auto simp: first_mode_None)
  then show ?thesis using None by (simp add: find_hunk_start_def Let_def split: option.split)
qed (simp add: find_hunk_start_def Let_def)

lemma find_hunk_start_Inr:
  assumes "find_hunk_start old cursor h = Inr (start, mode)" "cursor \<le> length old"
  shows "cursor \<le> start" "start + length (expected_lines h) \<le> length old"
    "matches_at old start (expected_lines h) mode"
proof -
  have "cursor \<le> start \<and> start + length (expected_lines h) \<le> length old \<and>
      matches_at old start (expected_lines h) mode"
  proof (cases "expected_lines h = []")
    case True
    then show ?thesis using assms by (simp add: find_hunk_start_simple)
  next
    case False
    then have "first_mode (try_find_hunk_start old cursor (expected_lines h)) match_modes = Some (start, mode)"
      using assms(1) by (simp add: find_hunk_start_simple Let_def split: option.splits)
    then have "try_find_hunk_start old cursor (expected_lines h) mode = Some start"
      using first_mode_Some by blast
    then show ?thesis using try_find_Some matches_at_bound False by blast
  qed
  then show "cursor \<le> start" "start + length (expected_lines h) \<le> length old"
    "matches_at old start (expected_lines h) mode" by simp_all
qed

lemma locate_error_kind:
  "locate_error old cursor es = HunkNotFound \<or>
   (\<exists>m a b x y. locate_error old cursor es = PartialHunk m a b x y)"
  by (simp add: locate_error_def split: prod.split)

section \<open>Facts about application\<close>

text \<open>Once a hunk is located none of the checks of the inner loop can fail.\<close>

lemma apply_lines_located:
  "\<lbrakk>matches_at old position (expected_of ls) mode; position \<le> length old\<rbrakk> \<Longrightarrow>
   apply_lines mode old position out ls =
     Inr (position + length (expected_of ls),
          out @ hunk_result ls (take (length (expected_of ls)) (drop position old)))"
proof (induction ls arbitrary: position out)
  case (Cons l ls)
  have cons: "drop position old = old ! position # drop (Suc position) old" if "position < length old"
    using that by (simp add: Cons_nth_drop_Suc)
  show ?case using Cons cons
    by (cases l) (auto simp: get_at_def split: option.splits if_splits)
qed simp

lemma slice_some: "\<lbrakk>a \<le> b; b \<le> length xs\<rbrakk> \<Longrightarrow> slice a b xs = Some (take (b - a) (drop a xs))"
  by (simp add: slice_def)

lemma apply_hunk_loop_correct:
  assumes "cursor \<le> length old"
  shows "case apply_hunk_loop old cursor out hs of
      Inl e \<Rightarrow> e = HunkNotFound \<or> (\<exists>m a b x y. e = PartialHunk m a b x y)
    | Inr (position, out') \<Rightarrow>
        position \<le> length old \<and> (\<exists>new. out' = out @ new \<and>
          patched hs (drop cursor old) (new @ drop position old))"
  using assms
proof (induction hs arbitrary: cursor out)
  case Nil
  then show ?case by (auto intro: patched_done)
next
  case (Cons h hs)
  show ?case
  proof (cases "find_hunk_start old cursor h")
    case (Inl e)
    then have "\<exists>es. e = locate_error old cursor es"
      by (auto simp: find_hunk_start_simple Let_def split: if_splits option.splits)
    then show ?thesis using Inl locate_error_kind by fastforce
  next
    case (Inr sm)
    obtain start mode where sm: "sm = (start, mode)" by fastforce
    let ?es = "expected_lines h" and ?gap = "take (start - cursor) (drop cursor old)"
    let ?seg = "take (length (expected_lines h)) (drop start old)"
    let ?pos = "start + length (expected_lines h)"
    note f = find_hunk_start_Inr [OF Inr [unfolded sm] Cons.prems]
    have es: "?es = expected_of (hunk_lines h)" by (simp add: expected_lines_def expected_of_def)
    have gap: "slice cursor start old = Some ?gap" using f by (intro slice_some) auto
    have al: "apply_lines mode old start (out @ ?gap) (hunk_lines h) =
        Inr (?pos, (out @ ?gap) @ hunk_result (hunk_lines h) ?seg)"
      using apply_lines_located [of old start "hunk_lines h" mode "out @ ?gap"] f es by simp
    have step: "apply_hunk_loop old cursor out (h # hs) =
        apply_hunk_loop old ?pos (out @ ?gap @ hunk_result (hunk_lines h) ?seg) hs"
      using Inr sm gap al by simp
    have split: "drop cursor old = ?gap @ ?seg @ drop ?pos old"
    proof -
      have "drop cursor old = ?gap @ drop start old"
        using f(1) by (metis append_take_drop_id drop_drop le_add_diff_inverse2)
      also have "drop start old = ?seg @ drop ?pos old"
        by (metis append_take_drop_id drop_drop add.commute)
      finally show ?thesis .
    qed
    have seg: "segment_matches mode ?es ?seg" using matches_at_segment f by simp
    note ih = Cons.IH [OF f(2), of "out @ ?gap @ hunk_result (hunk_lines h) ?seg"]
    show ?thesis
    proof (cases "apply_hunk_loop old ?pos (out @ ?gap @ hunk_result (hunk_lines h) ?seg) hs")
      case (Inl e)
      then show ?thesis using ih step by simp
    next
      case (Inr r)
      obtain position out' where r: "r = (position, out')" by fastforce
      obtain new where new: "position \<le> length old" "out' = (out @ ?gap @ hunk_result (hunk_lines h) ?seg) @ new"
        "patched hs (drop ?pos old) (new @ drop position old)"
        using ih Inr r by auto
      have "patched (h # hs) (drop cursor old)
          ((?gap @ hunk_result (hunk_lines h) ?seg @ new) @ drop position old)"
        using patched_hunk [OF seg new(3), of ?gap] split by simp
      then show ?thesis using step Inr r new by auto
    qed
  qed
qed

section \<open>Properties\<close>

text \<open>
  C24: applying hunks is sound and its only failures are hunks that cannot be located: on success
  the new text is the old one with each hunk's segment, found in order, replaced by the
  hunk's result; the mismatch checks of the inner loop and the slices can never fail.
\<close>

theorem apply_hunks_sound:
  "case apply_hunks old hunks of
     Inl e \<Rightarrow> e = HunkNotFound \<or> (\<exists>m a b x y. e = PartialHunk m a b x y)
   | Inr new \<Rightarrow>
       (\<exists>new_lines. patched hunks (normalized_lines old) new_lines \<and>
          new = (if new_lines = [] then [] else join [LF] new_lines @ [LF]))"
proof -
  let ?old = "normalized_lines old"
  have c: "case apply_hunk_loop ?old 0 [] hunks of
      Inl e \<Rightarrow> e = HunkNotFound \<or> (\<exists>m a b x y. e = PartialHunk m a b x y)
    | Inr (position, out') \<Rightarrow>
        position \<le> length ?old \<and> (\<exists>new. out' = [] @ new \<and>
          patched hunks (drop 0 ?old) (new @ drop position ?old))"
    by (rule apply_hunk_loop_correct) simp
  show ?thesis
  proof (cases "apply_hunk_loop ?old 0 [] hunks")
    case (Inl e)
    then show ?thesis using c by (simp add: apply_hunks_def)
  next
    case (Inr r)
    then obtain position out' where r: "apply_hunk_loop ?old 0 [] hunks = Inr (position, out')"
      by (metis surj_pair)
    then have p: "position \<le> length ?old" "patched hunks ?old (out' @ drop position ?old)"
      using c by simp_all
    have "apply_hunks old hunks =
        Inr (if out' @ drop position ?old = [] then [] else join [LF] (out' @ drop position ?old) @ [LF])"
      using r p(1) by (simp add: apply_hunks_def slice_some Let_def)
    then show ?thesis using p(2) by (simp only: sum.case) blast
  qed
qed

text \<open>
  the second search of \<open>find_hunk_start\<close>, from the longest context line of the hunk, is
  dead code: the function is the plain search over the three matching modes.
\<close>

theorem find_hunk_start_without_anchor:
  "find_hunk_start old cursor h =
     (if expected_lines h = [] then Inr (cursor, Exact)
      else case first_mode (try_find_hunk_start old cursor (expected_lines h)) match_modes of
             Some m \<Rightarrow> Inr m
           | None \<Rightarrow> Inl (locate_error old cursor (expected_lines h)))"
  by (simp add: find_hunk_start_simple Let_def)

end
