(* ===== verification/Patch_Exec.thy ===== *)
theory Patch_Exec
  imports Patch_Apply
begin

text \<open>
  The \<open>apply_patch\<close> tool (\<open>exec_apply_patch\<close> and \<open>apply_change\<close> in
  \<open>crates/core/src/tools/apply_patch.rs\<close>) over a file store. The store is a record: \<open>locate\<close>
  is the operating system's resolution of a path to a file (two paths may be one file), \<open>content\<close>
  the text of each file and \<open>writable\<close> says whether a path may be written or removed. Creating
  parent directories does not change files. The unified diff of an update is made by the
  \<open>diffy\<close> crate, a parameter.
\<close>

section \<open>The file store\<close>

type_synonym path = "string list"

record 'f file_store =
  locate :: "path \<Rightarrow> 'f"
  content :: "'f \<rightharpoonup> string"
  writable :: "path \<Rightarrow> bool"

definition read_file :: "'f file_store \<Rightarrow> path \<Rightarrow> patch_error + string" where
  "read_file fs p = (case content fs (locate fs p) of None \<Rightarrow> Inl ReadFailed | Some s \<Rightarrow> Inr s)"

definition write_file :: "'f file_store \<Rightarrow> path \<Rightarrow> string \<Rightarrow> patch_error + 'f file_store" where
  "write_file fs p s =
     (if writable fs p then Inr (fs\<lparr>content := (content fs)(locate fs p \<mapsto> s)\<rparr>) else Inl WriteFailed)"

text \<open>\<open>let _ = fs::remove_file(..)\<close>: a failure is ignored.\<close>

definition remove_file :: "'f file_store \<Rightarrow> path \<Rightarrow> 'f file_store" where
  "remove_file fs p =
     (if writable fs p then fs\<lparr>content := (content fs)(locate fs p := None)\<rparr> else fs)"

text \<open>
  What the tool relies on: a write is read back, a removed file is gone, and files at other
  locations are not touched.
\<close>

locale store =
  fixes read :: "'s \<Rightarrow> path \<Rightarrow> patch_error + string"
    and write_op :: "'s \<Rightarrow> path \<Rightarrow> string \<Rightarrow> patch_error + 's"
    and remove_op :: "'s \<Rightarrow> path \<Rightarrow> 's"
    and same_file :: "'s \<Rightarrow> path \<Rightarrow> path \<Rightarrow> bool"
    and can_write :: "'s \<Rightarrow> path \<Rightarrow> bool"
  assumes write_ok: "can_write s p \<Longrightarrow> \<exists>s'. write_op s p c = Inr s'"
    and write_fails: "\<not> can_write s p \<Longrightarrow> write_op s p c = Inl WriteFailed"
    and read_write: "\<lbrakk>write_op s p c = Inr s'; same_file s p q\<rbrakk> \<Longrightarrow> read s' q = Inr c"
    and read_write_other: "\<lbrakk>write_op s p c = Inr s'; \<not> same_file s p q\<rbrakk> \<Longrightarrow> read s' q = read s q"
    and read_remove: "\<lbrakk>can_write s p; same_file s p q\<rbrakk> \<Longrightarrow> read (remove_op s p) q = Inl ReadFailed"
    and read_remove_other: "\<not> same_file s p q \<Longrightarrow> read (remove_op s p) q = read s q"
    and write_frame: "write_op s p c = Inr s' \<Longrightarrow> same_file s' = same_file s \<and> can_write s' = can_write s"
    and remove_frame: "same_file (remove_op s p) = same_file s \<and> can_write (remove_op s p) = can_write s"
begin

text \<open>A move: write the target, then remove the source.\<close>

lemma read_moved:
  assumes "write_op s dest c = Inr s'" "can_write s src" "\<not> same_file s src dest" "same_file s dest dest"
    "same_file s src src"
  shows "read (remove_op s' src) dest = Inr c" "read (remove_op s' src) src = Inl ReadFailed"
    "\<lbrakk>\<not> same_file s src q; \<not> same_file s dest q\<rbrakk> \<Longrightarrow> read (remove_op s' src) q = read s q"
  using assms write_frame [OF assms(1)] read_write [OF assms(1)] read_write_other [OF assms(1)]
    read_remove [of s' src] read_remove_other [of s' src] by simp_all

end

interpretation fs: store read_file write_file remove_file "\<lambda>s p q. locate s p = locate s q" writable
  by unfold_locales (auto simp: read_file_def write_file_def remove_file_def split: if_splits)

section \<open>Paths\<close>

text \<open>A relative path: its components, \<open>.\<close> dropped and \<open>..\<close> kept as they are.\<close>

definition path_components :: "string \<Rightarrow> string list" where
  "path_components rel = filter (\<lambda>c. c \<noteq> [] \<and> c \<noteq> ''.'') (split_char (CHR ''/'') rel)"

definition is_absolute :: "string \<Rightarrow> bool" where
  "is_absolute rel = starts_with rel ''/''"

definition resolve_relative :: "path \<Rightarrow> string \<Rightarrow> patch_error + path" where
  "resolve_relative base rel =
     (if is_absolute rel then Inl AbsolutePath else Inr (base @ path_components rel))"

definition display_path :: "path \<Rightarrow> string" where
  "display_path p = CHR ''/'' # join ''/'' p"

definition relative_worktree_path :: "path \<Rightarrow> path \<Rightarrow> string" where
  "relative_worktree_path p base =
     map (\<lambda>c. if c = CHR 0x5C then CHR ''/'' else c)
       (if prefix base p then join ''/'' (drop (length base) p) else display_path p)"

section \<open>The validation phase\<close>

definition prefixed_lines :: "char \<Rightarrow> string \<Rightarrow> string" where
  "prefixed_lines c text = join [LF] (map (\<lambda>l. c # l) (rust_lines text))"

definition with_newline :: "string \<Rightarrow> string" where
  "with_newline s = (if ends_with s [LF] then s else s @ [LF])"

definition change_diff ::
  "(string \<Rightarrow> string \<Rightarrow> string \<Rightarrow> string \<Rightarrow> string) \<Rightarrow> patch_change \<Rightarrow> string \<Rightarrow> string \<Rightarrow> string \<Rightarrow> string" where
  "change_diff diffy c rel old new =
     (case p_kind c of
        PAdd \<Rightarrow>
          ''diff --git a/'' @ rel @ '' b/'' @ rel @ [LF] @ ''new file mode 100644'' @ [LF] @
          ''--- /dev/null'' @ [LF] @ ''+++ b/'' @ rel @ [LF] @
          ''@@ -0,0 +1,'' @ decimal (length (rust_lines new)) @ '' @@'' @ [LF] @
          prefixed_lines (CHR ''+'') (with_newline (p_content c))
      | PDelete \<Rightarrow>
          ''diff --git a/'' @ rel @ '' b/'' @ rel @ [LF] @ ''deleted file mode 100644'' @ [LF] @
          ''--- a/'' @ rel @ [LF] @ ''+++ /dev/null'' @ [LF] @
          ''@@ -1,'' @ decimal (length (rust_lines old)) @ '' +0,0 @@'' @ [LF] @
          prefixed_lines (CHR ''-'') (with_newline old)
      | _ \<Rightarrow> ''diff --git a/'' @ rel @ '' b/'' @ rel @ [LF] @ diffy (''a/'' @ rel) (''b/'' @ rel) old new)"

record file_report =
  f_path :: string
  f_file_path :: path
  f_kind :: string
  f_old :: string
  f_new :: string
  f_diff :: string
  f_additions :: nat
  f_deletions :: nat
  f_move_path :: "path option"

definition target_path :: "path \<Rightarrow> patch_change \<Rightarrow> patch_error + path option" where
  "target_path cwd c =
     (case p_move_path c of None \<Rightarrow> Inr None | Some m \<Rightarrow> map_sum id Some (resolve_relative cwd m))"

definition old_text :: "'f file_store \<Rightarrow> patch_change \<Rightarrow> path \<Rightarrow> patch_error + string" where
  "old_text fs c source = (if p_kind c = PAdd then Inr [] else read_file fs source)"

definition new_text :: "patch_change \<Rightarrow> string \<Rightarrow> patch_error + string" where
  "new_text c old =
     (case p_kind c of
        PAdd \<Rightarrow> Inr (p_content c)
      | PDelete \<Rightarrow> Inr []
      | _ \<Rightarrow> apply_hunks old (p_hunks c))"

definition validate_change ::
  "(string \<Rightarrow> string \<Rightarrow> string \<Rightarrow> string \<Rightarrow> string) \<Rightarrow> 'f file_store \<Rightarrow> path \<Rightarrow> patch_change \<Rightarrow>
   patch_error + file_report \<times> string" where
  "validate_change diffy fs cwd c =
     (case resolve_relative cwd (p_path c) of
        Inl e \<Rightarrow> Inl e
      | Inr source \<Rightarrow>
          (case target_path cwd c of
             Inl e \<Rightarrow> Inl e
           | Inr target \<Rightarrow>
               (case old_text fs c source of
                  Inl e \<Rightarrow> Inl e
                | Inr old \<Rightarrow>
                    (case new_text c old of
                       Inl e \<Rightarrow> Inl e
                     | Inr new \<Rightarrow>
                         (let shown = (case target of None \<Rightarrow> source | Some t \<Rightarrow> t);
                              rel = relative_worktree_path shown cwd;
                              kind = patch_kind_as_str (p_kind c);
                              report = \<lparr>f_path = rel, f_file_path = source, f_kind = kind,
                                f_old = old, f_new = new, f_diff = change_diff diffy c rel old new,
                                f_additions = length (rust_lines new),
                                f_deletions = length (rust_lines old), f_move_path = target\<rparr>;
                              line = (case p_kind c of
                                        PAdd \<Rightarrow> ''A '' @ relative_worktree_path source cwd
                                      | PDelete \<Rightarrow> ''D '' @ relative_worktree_path source cwd
                                      | _ \<Rightarrow> ''M '' @ relative_worktree_path shown cwd)
                          in Inr (report, line))))))"

fun validate_changes ::
  "(string \<Rightarrow> string \<Rightarrow> string \<Rightarrow> string \<Rightarrow> string) \<Rightarrow> 'f file_store \<Rightarrow> path \<Rightarrow> patch_change list \<Rightarrow>
   file_report list \<Rightarrow> string list \<Rightarrow> string \<Rightarrow> patch_error + file_report list \<times> string list \<times> string" where
  "validate_changes diffy fs cwd [] files summary total_diff = Inr (files, summary, total_diff)"
| "validate_changes diffy fs cwd (c # cs) files summary total_diff =
     (case validate_change diffy fs cwd c of
        Inl e \<Rightarrow> Inl e
      | Inr (report, line) \<Rightarrow>
          validate_changes diffy fs cwd cs (files @ [report]) (summary @ [line])
            ((if total_diff \<noteq> [] then total_diff @ [LF] else total_diff) @
             trim_end (f_diff report) @ [LF]))"

section \<open>The writing phase\<close>

text \<open>The store after the attempt, and the error that stopped it.\<close>

definition apply_change :: "'f file_store \<Rightarrow> path \<Rightarrow> patch_change \<Rightarrow> 'f file_store \<times> patch_error option" where
  "apply_change fs base c =
     (case resolve_relative base (p_path c) of
        Inl e \<Rightarrow> (fs, Some e)
      | Inr source \<Rightarrow>
          (case p_kind c of
             PAdd \<Rightarrow>
               (case write_file fs source (p_content c) of
                  Inl e \<Rightarrow> (fs, Some e) | Inr fs' \<Rightarrow> (fs', None))
           | PUpdate \<Rightarrow>
               (case read_file fs source of
                  Inl e \<Rightarrow> (fs, Some e)
                | Inr old \<Rightarrow>
                    (case apply_hunks old (p_hunks c) of
                       Inl e \<Rightarrow> (fs, Some e)
                     | Inr new \<Rightarrow>
                         (case write_file fs source new of
                            Inl e \<Rightarrow> (fs, Some e) | Inr fs' \<Rightarrow> (fs', None))))
           | PDelete \<Rightarrow> (remove_file fs source, None)
           | PMove \<Rightarrow>
               (case p_move_path c of
                  None \<Rightarrow> (fs, None)
                | Some m \<Rightarrow>
                    (case resolve_relative base m of
                       Inl e \<Rightarrow> (fs, Some e)
                     | Inr dest \<Rightarrow>
                         (case read_file fs source of
                            Inl e \<Rightarrow> (fs, Some e)
                          | Inr old \<Rightarrow>
                              (case apply_hunks old (p_hunks c) of
                                 Inl e \<Rightarrow> (fs, Some e)
                               | Inr new \<Rightarrow>
                                   (case write_file fs dest new of
                                      Inl e \<Rightarrow> (fs, Some e)
                                    | Inr fs' \<Rightarrow> (remove_file fs' source, None))))))))"

fun apply_changes :: "'f file_store \<Rightarrow> path \<Rightarrow> patch_change list \<Rightarrow> 'f file_store \<times> patch_error option" where
  "apply_changes fs base [] = (fs, None)"
| "apply_changes fs base (c # cs) =
     (case apply_change fs base c of
        (fs', Some e) \<Rightarrow> (fs', Some e)
      | (fs', None) \<Rightarrow> apply_changes fs' base cs)"

section \<open>The tool\<close>

datatype exec_outcome =
    ToolError string
  | Failed patch_error
  | Success "string list" string "file_report list"

definition exec_apply_patch ::
  "(string \<Rightarrow> string \<Rightarrow> string \<Rightarrow> string \<Rightarrow> string) \<Rightarrow> 'f file_store \<Rightarrow> path \<Rightarrow> string \<Rightarrow>
   exec_outcome \<times> 'f file_store" where
  "exec_apply_patch diffy fs cwd text =
     (if trim text = [] then (ToolError ''patchText is required'', fs)
      else
        (case parse_patch text of
           Inl e \<Rightarrow> (Failed e, fs)
         | Inr patch \<Rightarrow>
             (if patch = [] then
                (if trim (replace_cr (replace_crlf text)) = BEGIN_PATCH @ [LF] @ END_PATCH
                 then (ToolError ''patch rejected: empty patch'', fs)
                 else (ToolError ''apply_patch verification failed: no hunks found'', fs))
              else
                (case validate_changes diffy fs cwd patch [] [] [] of
                   Inl e \<Rightarrow> (Failed e, fs)
                 | Inr (files, summary, total_diff) \<Rightarrow>
                     (case apply_changes fs cwd patch of
                        (fs', Some e) \<Rightarrow> (Failed e, fs')
                      | (fs', None) \<Rightarrow> (Success summary total_diff files, fs'))))))"

section \<open>One change\<close>

definition source_of :: "path \<Rightarrow> patch_change \<Rightarrow> path" where
  "source_of base c = base @ path_components (p_path c)"

definition dest_of :: "path \<Rightarrow> patch_change \<Rightarrow> path" where
  "dest_of base c = base @ path_components (the (p_move_path c))"

text \<open>The paths a change touches.\<close>

definition change_paths :: "path \<Rightarrow> patch_change \<Rightarrow> path list" where
  "change_paths base c =
     source_of base c # (if p_kind c = PMove then [dest_of base c] else [])"

text \<open>What a change is meant to do to the files it touches.\<close>

definition change_effect :: "'f file_store \<Rightarrow> 'f file_store \<Rightarrow> path \<Rightarrow> patch_change \<Rightarrow> bool" where
  "change_effect before after base c =
     (case p_kind c of
        PAdd \<Rightarrow> read_file after (source_of base c) = Inr (p_content c)
      | PDelete \<Rightarrow> read_file after (source_of base c) = Inl ReadFailed
      | PUpdate \<Rightarrow> (\<exists>old new. read_file before (source_of base c) = Inr old \<and>
          apply_hunks old (p_hunks c) = Inr new \<and> read_file after (source_of base c) = Inr new)
      | PMove \<Rightarrow> (\<exists>old new. read_file before (source_of base c) = Inr old \<and>
          apply_hunks old (p_hunks c) = Inr new \<and> read_file after (dest_of base c) = Inr new \<and>
          read_file after (source_of base c) = Inl ReadFailed))"

definition same_store_frame :: "'f file_store \<Rightarrow> 'f file_store \<Rightarrow> bool" where
  "same_store_frame fs fs' \<longleftrightarrow> locate fs' = locate fs \<and> writable fs' = writable fs"

text \<open>Two stores agree on the files of a list of paths.\<close>

definition agree_on :: "'f file_store \<Rightarrow> 'f file_store \<Rightarrow> path list \<Rightarrow> bool" where
  "agree_on fs fs' ps \<longleftrightarrow> (\<forall>p\<in>set ps. read_file fs' p = read_file fs p)"

lemma validate_change_Inr:
  assumes "validate_change diffy fs cwd c = Inr r" "kind_ok c"
  shows "resolve_relative cwd (p_path c) = Inr (source_of cwd c)"
    "p_kind c = PMove \<Longrightarrow> resolve_relative cwd (the (p_move_path c)) = Inr (dest_of cwd c)"
    "p_kind c \<noteq> PAdd \<Longrightarrow> \<exists>old. read_file fs (source_of cwd c) = Inr old \<and>
       (p_kind c \<noteq> PDelete \<longrightarrow> (\<exists>new. apply_hunks old (p_hunks c) = Inr new))"
proof -
  have src: "resolve_relative cwd (p_path c) = Inr (source_of cwd c)"
    using assms(1) by (auto simp: validate_change_def resolve_relative_def source_of_def split: if_splits)
  then show "resolve_relative cwd (p_path c) = Inr (source_of cwd c)" .
  obtain t where t: "target_path cwd c = Inr t"
    using assms(1) src by (auto simp: validate_change_def split: sum.splits)
  show "resolve_relative cwd (the (p_move_path c)) = Inr (dest_of cwd c)" if "p_kind c = PMove"
    using t assms(2) that
    by (auto simp: target_path_def kind_ok_def resolve_relative_def dest_of_def split: option.splits if_splits)
  obtain old new where "old_text fs c (source_of cwd c) = Inr old" "new_text c old = Inr new"
    using assms(1) src t by (auto simp: validate_change_def split: sum.splits)
  then show "\<exists>old. read_file fs (source_of cwd c) = Inr old \<and>
       (p_kind c \<noteq> PDelete \<longrightarrow> (\<exists>new. apply_hunks old (p_hunks c) = Inr new))" if "p_kind c \<noteq> PAdd"
    using that by (cases "p_kind c") (auto simp: old_text_def new_text_def)
qed

lemma apply_change_valid:
  assumes valid: "validate_change diffy fs cwd c = Inr r" and k: "kind_ok c"
    and agree: "agree_on fs fs1 (change_paths cwd c)" and frame: "same_store_frame fs fs1"
    and w: "\<forall>p\<in>set (change_paths cwd c). writable fs p"
    and d: "distinct (map (locate fs) (change_paths cwd c))"
  shows "\<exists>fs2. apply_change fs1 cwd c = (fs2, None) \<and> same_store_frame fs fs2 \<and>
     change_effect fs fs2 cwd c \<and>
     (\<forall>p. locate fs p \<notin> locate fs ` set (change_paths cwd c) \<longrightarrow> read_file fs2 p = read_file fs1 p)"
proof -
  let ?s = "source_of cwd c"
  note v = validate_change_Inr [OF valid k]
  have ws: "writable fs1 ?s" using w frame by (simp add: change_paths_def same_store_frame_def)
  have rd: "read_file fs1 ?s = read_file fs ?s" using agree by (simp add: agree_on_def change_paths_def)
  show ?thesis
  proof (cases "p_kind c")
    case PAdd
    obtain fs2 where fs2: "write_file fs1 ?s (p_content c) = Inr fs2" using fs.write_ok [OF ws] by blast
    then show ?thesis using PAdd v(1) frame fs.read_write [OF fs2] fs.read_write_other [OF fs2] fs.write_frame [OF fs2]
      by (auto simp: apply_change_def change_effect_def change_paths_def same_store_frame_def write_file_def
          split: if_splits)
  next
    case PDelete
    then show ?thesis using v(1) frame ws fs.read_remove [OF ws refl] fs.read_remove_other [of fs1 ?s]
      by (auto simp: apply_change_def change_effect_def change_paths_def same_store_frame_def remove_file_def)
  next
    case PUpdate
    then obtain old new where o: "read_file fs ?s = Inr old" "apply_hunks old (p_hunks c) = Inr new"
      using v(3) by auto
    obtain fs2 where fs2: "write_file fs1 ?s new = Inr fs2" using fs.write_ok [OF ws] by blast
    then show ?thesis using PUpdate v(1) o rd frame fs.read_write [OF fs2] fs.read_write_other [OF fs2]
      by (auto simp: apply_change_def change_effect_def change_paths_def same_store_frame_def write_file_def
          split: if_splits)
  next
    case PMove
    let ?d = "dest_of cwd c"
    obtain m where m: "p_move_path c = Some m" using PMove k by (auto simp: kind_ok_def)
    obtain old new where o: "read_file fs ?s = Inr old" "apply_hunks old (p_hunks c) = Inr new"
      using v(3) PMove by auto
    have wd: "writable fs1 ?d" and ne: "locate fs1 ?s \<noteq> locate fs1 ?d"
      using w d PMove frame by (auto simp: change_paths_def same_store_frame_def)
    obtain fs2 where fs2: "write_file fs1 ?d new = Inr fs2" using fs.write_ok [OF wd] by blast
    note moved = fs.read_moved [OF fs2 ws ne refl refl]
    have "apply_change fs1 cwd c = (remove_file fs2 ?s, None)"
      using PMove m v(1,2) o rd fs2 by (simp add: apply_change_def)
    moreover have "same_store_frame fs (remove_file fs2 ?s)"
      using frame fs2 by (auto simp: same_store_frame_def write_file_def remove_file_def split: if_splits)
    moreover have "change_effect fs (remove_file fs2 ?s) cwd c"
      using PMove o moved(1,2) by (simp add: change_effect_def)
    moreover have "\<forall>p. locate fs p \<notin> locate fs ` set (change_paths cwd c) \<longrightarrow>
        read_file (remove_file fs2 ?s) p = read_file fs1 p"
      using moved(3) PMove frame by (auto simp: change_paths_def same_store_frame_def)
    ultimately show ?thesis by blast
  qed
qed

section \<open>All changes\<close>

lemma validate_changes_Inr:
  "validate_changes diffy fs cwd cs files summary td = Inr r \<Longrightarrow>
   \<forall>c\<in>set cs. \<exists>q. validate_change diffy fs cwd c = Inr q"
  by (induction cs arbitrary: files summary td) (auto split: sum.splits)

lemma effect_transfer:
  "\<lbrakk>change_effect fs fs1 cwd c; agree_on fs1 fs2 (change_paths cwd c)\<rbrakk> \<Longrightarrow> change_effect fs fs2 cwd c"
  by (cases "p_kind c") (auto simp: change_effect_def agree_on_def change_paths_def)

lemma apply_changes_valid:
  assumes "\<forall>c\<in>set cs. (\<exists>q. validate_change diffy fs cwd c = Inr q) \<and> kind_ok c \<and>
      agree_on fs fs1 (change_paths cwd c)"
    and "same_store_frame fs fs1"
    and "\<forall>p\<in>set (concat (map (change_paths cwd) cs)). writable fs p"
    and "distinct (map (locate fs) (concat (map (change_paths cwd) cs)))"
  shows "\<exists>fs2. apply_changes fs1 cwd cs = (fs2, None) \<and> same_store_frame fs fs2 \<and>
     (\<forall>c\<in>set cs. change_effect fs fs2 cwd c) \<and>
     (\<forall>p. locate fs p \<notin> locate fs ` set (concat (map (change_paths cwd) cs)) \<longrightarrow>
          read_file fs2 p = read_file fs1 p)"
  using assms
proof (induction cs arbitrary: fs1)
  case (Cons c cs)
  obtain q where q: "validate_change diffy fs cwd c = Inr q" using Cons.prems(1) by auto
  have "\<exists>fs2. apply_change fs1 cwd c = (fs2, None) \<and> same_store_frame fs fs2 \<and>
     change_effect fs fs2 cwd c \<and>
     (\<forall>p. locate fs p \<notin> locate fs ` set (change_paths cwd c) \<longrightarrow> read_file fs2 p = read_file fs1 p)"
    using Cons.prems by (intro apply_change_valid [OF q]) auto
  then obtain fs2 where fs2: "apply_change fs1 cwd c = (fs2, None)" "same_store_frame fs fs2"
    "change_effect fs fs2 cwd c"
    "\<forall>p. locate fs p \<notin> locate fs ` set (change_paths cwd c) \<longrightarrow> read_file fs2 p = read_file fs1 p"
    by blast
  have disj: "locate fs ` set (change_paths cwd c) \<inter>
      locate fs ` set (concat (map (change_paths cwd) cs)) = {}"
    using Cons.prems(4) by auto
  have "agree_on fs fs2 (change_paths cwd d)" if "d \<in> set cs" for d
  proof -
    have "agree_on fs fs1 (change_paths cwd d)" using Cons.prems(1) that by auto
    moreover have "\<forall>p\<in>set (change_paths cwd d). locate fs p \<notin> locate fs ` set (change_paths cwd c)"
      using disj that by auto
    ultimately show ?thesis using fs2(4) by (simp add: agree_on_def)
  qed
  then have "\<exists>fs3. apply_changes fs2 cwd cs = (fs3, None) \<and> same_store_frame fs fs3 \<and>
     (\<forall>c\<in>set cs. change_effect fs fs3 cwd c) \<and>
     (\<forall>p. locate fs p \<notin> locate fs ` set (concat (map (change_paths cwd) cs)) \<longrightarrow>
          read_file fs3 p = read_file fs2 p)"
    using Cons.prems fs2(2) by (intro Cons.IH) auto
  then obtain fs3 where fs3: "apply_changes fs2 cwd cs = (fs3, None)" "same_store_frame fs fs3"
     "\<forall>c\<in>set cs. change_effect fs fs3 cwd c"
     "\<forall>p. locate fs p \<notin> locate fs ` set (concat (map (change_paths cwd) cs)) \<longrightarrow>
          read_file fs3 p = read_file fs2 p" by blast
  have "agree_on fs2 fs3 (change_paths cwd c)" using fs3(4) disj by (auto simp: agree_on_def)
  then have "change_effect fs fs3 cwd c" using effect_transfer fs2(3) by blast
  moreover have "read_file fs3 p = read_file fs1 p"
    if "locate fs p \<notin> locate fs ` set (concat (map (change_paths cwd) (c # cs)))" for p
  proof -
    have "locate fs p \<notin> locate fs ` set (change_paths cwd c)"
      "locate fs p \<notin> locate fs ` set (concat (map (change_paths cwd) cs))" using that by auto
    then show ?thesis using fs2(4) fs3(4) by metis
  qed
  ultimately show ?case using fs2(1) fs3(1,2,3) by (intro exI [of _ fs3]) simp
qed auto

section \<open>Properties\<close>


text \<open>A patch that rewrites one line of one file.\<close>

definition example_store :: "path file_store" where
  "example_store =
     \<lparr>locate = (\<lambda>p. p), content = [[''w'', ''f''] \<mapsto> ''a'' @ [LF]], writable = (\<lambda>_. True)\<rparr>"

definition example_patch :: string where
  "example_patch = unlines [BEGIN_PATCH, UPDATE_FILE @ ''f'', ''@@'', ''-a'', ''+b'', END_PATCH]"


text \<open>
  the tool's answers for a patch without operations cannot occur: an empty patch is already
  an error of the parser, so the message \<open>patch rejected: empty patch\<close> is never produced.
\<close>

theorem empty_patch_answer_unreachable:
  "fst (exec_apply_patch diffy fs cwd text) \<noteq> ToolError ''patch rejected: empty patch'' \<and>
   fst (exec_apply_patch diffy fs cwd text) \<noteq>
     ToolError ''apply_patch verification failed: no hunks found'' \<and>
   exec_apply_patch diffy fs cwd (BEGIN_PATCH @ [LF] @ END_PATCH) = (Failed NoOperations, fs)"
proof -
  note ne = parse_patch_not_empty
  have "parse_patch (BEGIN_PATCH @ [LF] @ END_PATCH) = Inl NoOperations" by code_simp
  moreover have "trim (BEGIN_PATCH @ [LF] @ END_PATCH) \<noteq> []" by code_simp
  ultimately have "exec_apply_patch diffy fs cwd (BEGIN_PATCH @ [LF] @ END_PATCH) = (Failed NoOperations, fs)"
    by (simp add: exec_apply_patch_def)
  then show ?thesis using ne by (auto simp: exec_apply_patch_def split: sum.splits option.splits prod.splits)
qed

text \<open>
  Two updates of one file validate against the same old content, but the second is applied to
  the result of the first: the call fails after the first write.
\<close>

lemma partial_write_example:
  fixes fs :: "path file_store"
  defines "fs \<equiv> \<lparr>locate = (\<lambda>p. p), content = [[''f''] \<mapsto> ''a'' @ [LF]], writable = (\<lambda>_. True)\<rparr>"
  defines "cs \<equiv> [update_change ''f'' None [\<lparr>hunk_lines = [Remove ''a'', Add ''b'']\<rparr>],
               update_change ''f'' None [\<lparr>hunk_lines = [Remove ''a'', Add ''c'']\<rparr>]]"
  shows "(\<exists>r. validate_changes diffy fs [] cs [] [] [] = Inr r) \<and>
    (\<exists>fs'. apply_changes fs [] cs = (fs', Some HunkNotFound) \<and> read_file fs' [''f''] = Inr (''b'' @ [LF]))"
proof -
  have h: "apply_hunks (''a'' @ [LF]) [\<lparr>hunk_lines = [Remove ''a'', Add ''b'']\<rparr>] = Inr (''b'' @ [LF])"
    "apply_hunks (''a'' @ [LF]) [\<lparr>hunk_lines = [Remove ''a'', Add ''c'']\<rparr>] = Inr (''c'' @ [LF])"
    "apply_hunks (''b'' @ [LF]) [\<lparr>hunk_lines = [Remove ''a'', Add ''c'']\<rparr>] = Inl HunkNotFound"
    by code_simp+
  have r: "resolve_relative [] ''f'' = Inr [''f'']" by code_simp
  show ?thesis
    unfolding fs_def cs_def using h r
    by (simp add: update_change_def validate_change_def target_path_def old_text_def new_text_def
        read_file_def Let_def apply_change_def write_file_def)
qed

end
