(* ===== verification/Active_Turns.thy ===== *)
theory Active_Turns
  imports Prelude
begin

text \<open>
  The registry of running turns (\<open>crates/server/src/runtime/active_turn.rs\<close>) and the terminal
  turn statuses (\<open>turn_reservation.rs\<close>). Every method holds the one lock of the registry, so a
  method is one atomic step; tokens, handles and streams are named by numbers, and the turn and
  snapshot records are type variables. \<open>copy_connection_from_parent\<close> takes the lock twice and
  is a sequence of two steps.
\<close>

section \<open>The registry\<close>

record 'p turn_rec =
  turn_ident :: nat
  turn_body :: 'p

record ('p, 'n) execution =
  ex_turn :: "'p turn_rec option"
  ex_cancel_token :: "nat option"
  ex_abort_handle :: "nat option"
  ex_connection_id :: "nat option"
  ex_spawn_snapshots :: "(nat \<times> 'n) list"
  ex_stream :: "nat option"
  ex_user_text_turn_id :: "nat option"
  ex_user_texts :: "string list"
  ex_goal_continuation :: bool

type_synonym ('p, 'n) registry = "nat \<rightharpoonup> ('p, 'n) execution"

definition entry :: "('p, 'n) execution" where
  "entry = \<lparr>ex_turn = None, ex_cancel_token = None, ex_abort_handle = None, ex_connection_id = None,
     ex_spawn_snapshots = [], ex_stream = None, ex_user_text_turn_id = None, ex_user_texts = [],
     ex_goal_continuation = False\<rparr>"

text \<open>\<open>entry(..).or_insert_with(..)\<close> and \<open>get_mut(..)\<close>.\<close>

definition or_insert :: "('p, 'n) registry \<Rightarrow> nat \<Rightarrow> ('p, 'n) execution" where
  "or_insert reg s = (case reg s of None \<Rightarrow> entry | Some e \<Rightarrow> e)"

definition modify_existing ::
  "('p, 'n) registry \<Rightarrow> nat \<Rightarrow> (('p, 'n) execution \<Rightarrow> ('p, 'n) execution) \<Rightarrow> ('p, 'n) registry" where
  "modify_existing reg s f = (case reg s of None \<Rightarrow> reg | Some e \<Rightarrow> reg(s \<mapsto> f e))"

definition is_empty_execution :: "('p, 'n) execution \<Rightarrow> bool" where
  "is_empty_execution e \<longleftrightarrow>
     Option.is_none (ex_turn e) \<and> Option.is_none (ex_cancel_token e) \<and>
     Option.is_none (ex_abort_handle e) \<and> Option.is_none (ex_connection_id e) \<and>
     ex_spawn_snapshots e = [] \<and> Option.is_none (ex_stream e) \<and>
     Option.is_none (ex_user_text_turn_id e) \<and> ex_user_texts e = [] \<and> \<not> ex_goal_continuation e"

definition maybe_remove_empty :: "('p, 'n) registry \<Rightarrow> nat \<Rightarrow> ('p, 'n) registry" where
  "maybe_remove_empty reg s =
     (case reg s of None \<Rightarrow> reg
      | Some e \<Rightarrow> if is_empty_execution e then reg(s := None) else reg)"

section \<open>Queries\<close>

definition active_turn :: "('p, 'n) registry \<Rightarrow> nat \<Rightarrow> 'p turn_rec option" where
  "active_turn reg s = Option.bind (reg s) ex_turn"

definition active_turn_id :: "('p, 'n) registry \<Rightarrow> nat \<Rightarrow> nat option" where
  "active_turn_id reg s = map_option turn_ident (active_turn reg s)"

definition active_connection_id :: "('p, 'n) registry \<Rightarrow> nat \<Rightarrow> nat option" where
  "active_connection_id reg s = Option.bind (reg s) ex_connection_id"

definition active_user_texts :: "('p, 'n) registry \<Rightarrow> nat \<Rightarrow> nat \<Rightarrow> string list" where
  "active_user_texts reg s t =
     (case reg s of None \<Rightarrow> []
      | Some e \<Rightarrow> if ex_user_text_turn_id e = Some t then ex_user_texts e else [])"

definition cancel_token :: "('p, 'n) registry \<Rightarrow> nat \<Rightarrow> nat option" where
  "cancel_token reg s = Option.bind (reg s) ex_cancel_token"

definition has_session :: "('p, 'n) registry \<Rightarrow> nat \<Rightarrow> bool" where
  "has_session reg s = (\<not> Option.is_none (reg s))"

text \<open>\<open>fresh\<close> is the newly made token.\<close>

definition cancel_token_for_host_or_session ::
  "nat \<Rightarrow> ('p, 'n) registry \<Rightarrow> nat \<Rightarrow> nat \<Rightarrow> nat" where
  "cancel_token_for_host_or_session fresh reg host s =
     (let e = (case reg host of Some e \<Rightarrow> Some e | None \<Rightarrow> reg s)
      in case Option.bind e ex_cancel_token of None \<Rightarrow> fresh | Some t \<Rightarrow> t)"

section \<open>Operations\<close>

definition with_text_turn :: "('p, 'n) execution \<Rightarrow> nat \<Rightarrow> ('p, 'n) execution" where
  "with_text_turn e t =
     (if ex_user_text_turn_id e \<noteq> Some t
      then e\<lparr>ex_user_text_turn_id := Some t, ex_user_texts := []\<rparr> else e)"

definition add_active_user_text :: "('p, 'n) registry \<Rightarrow> nat \<Rightarrow> nat \<Rightarrow> string \<Rightarrow> ('p, 'n) registry" where
  "add_active_user_text reg s t txt =
     (let e = or_insert reg s in
      if (case ex_turn e of None \<Rightarrow> False | Some u \<Rightarrow> turn_ident u \<noteq> t) then reg(s \<mapsto> e)
      else
        let e1 = with_text_turn e t
        in reg(s \<mapsto> (if txt \<in> set (ex_user_texts e1) then e1
                     else e1\<lparr>ex_user_texts := ex_user_texts e1 @ [txt]\<rparr>)))"

definition insert_cancel_token :: "('p, 'n) registry \<Rightarrow> nat \<Rightarrow> nat \<Rightarrow> ('p, 'n) registry" where
  "insert_cancel_token reg s tok = reg(s \<mapsto> (or_insert reg s)\<lparr>ex_cancel_token := Some tok\<rparr>)"

definition register_turn :: "('p, 'n) registry \<Rightarrow> nat \<Rightarrow> 'p turn_rec \<Rightarrow> ('p, 'n) registry" where
  "register_turn reg s u =
     reg(s \<mapsto> (with_text_turn (or_insert reg s) (turn_ident u))\<lparr>ex_turn := Some u\<rparr>)"

definition try_claim_session ::
  "('p, 'n) registry \<Rightarrow> nat \<Rightarrow> 'p turn_rec \<Rightarrow> ('p, 'n) registry \<times> bool" where
  "try_claim_session reg s u =
     (if has_session reg s then (reg, False)
      else (reg(s \<mapsto> (or_insert reg s)\<lparr>ex_turn := Some u,
              ex_user_text_turn_id := Some (turn_ident u), ex_user_texts := []\<rparr>), True))"

definition set_abort_handle :: "('p, 'n) registry \<Rightarrow> nat \<Rightarrow> nat \<Rightarrow> ('p, 'n) registry" where
  "set_abort_handle reg s h = modify_existing reg s (\<lambda>e. e\<lparr>ex_abort_handle := Some h\<rparr>)"

definition set_connection_id :: "('p, 'n) registry \<Rightarrow> nat \<Rightarrow> nat \<Rightarrow> ('p, 'n) registry" where
  "set_connection_id reg s c = reg(s \<mapsto> (or_insert reg s)\<lparr>ex_connection_id := Some c\<rparr>)"

definition abort_task :: "('p, 'n) registry \<Rightarrow> nat \<Rightarrow> ('p, 'n) registry \<times> bool" where
  "abort_task reg s =
     (modify_existing reg s (\<lambda>e. e\<lparr>ex_abort_handle := None\<rparr>),
      \<not> Option.is_none (Option.bind (reg s) ex_abort_handle))"

definition remove_cancel_token :: "('p, 'n) registry \<Rightarrow> nat \<Rightarrow> ('p, 'n) registry" where
  "remove_cancel_token reg s =
     maybe_remove_empty (modify_existing reg s (\<lambda>e. e\<lparr>ex_cancel_token := None\<rparr>)) s"

definition remove_abort_handle :: "('p, 'n) registry \<Rightarrow> nat \<Rightarrow> ('p, 'n) registry" where
  "remove_abort_handle reg s =
     maybe_remove_empty (modify_existing reg s (\<lambda>e. e\<lparr>ex_abort_handle := None\<rparr>)) s"

definition defer_goal_continuation :: "('p, 'n) registry \<Rightarrow> nat \<Rightarrow> ('p, 'n) registry \<times> bool" where
  "defer_goal_continuation reg s =
     (case reg s of
        None \<Rightarrow> (reg, False)
      | Some e \<Rightarrow> if Option.is_none (ex_turn e) then (reg, False)
                  else (reg(s \<mapsto> e\<lparr>ex_goal_continuation := True\<rparr>), True))"

definition clear_runtime_handles :: "('p, 'n) registry \<Rightarrow> nat \<Rightarrow> ('p, 'n) registry \<times> bool" where
  "clear_runtime_handles reg s =
     (reg(s := None), (case reg s of None \<Rightarrow> False | Some e \<Rightarrow> ex_goal_continuation e))"

definition register_spawn_snapshot :: "('p, 'n) registry \<Rightarrow> nat \<Rightarrow> nat \<Rightarrow> 'n \<Rightarrow> ('p, 'n) registry" where
  "register_spawn_snapshot reg s t n =
     (let e = or_insert reg s
      in reg(s \<mapsto> e\<lparr>ex_spawn_snapshots := al_insert t n (ex_spawn_snapshots e)\<rparr>))"

definition clear_spawn_snapshot :: "('p, 'n) registry \<Rightarrow> nat \<Rightarrow> nat \<Rightarrow> ('p, 'n) registry" where
  "clear_spawn_snapshot reg s t =
     maybe_remove_empty
       (modify_existing reg s (\<lambda>e. e\<lparr>ex_spawn_snapshots := al_remove t (ex_spawn_snapshots e)\<rparr>)) s"

text \<open>The iteration order of the map is unspecified: the possible answers.\<close>

definition spawn_snapshots_for_session :: "('p, 'n) registry \<Rightarrow> nat \<Rightarrow> 'n set" where
  "spawn_snapshots_for_session reg s =
     (case reg s of None \<Rightarrow> {} | Some e \<Rightarrow> set (map snd (ex_spawn_snapshots e)))"

definition register_stream :: "('p, 'n) registry \<Rightarrow> nat \<Rightarrow> nat \<Rightarrow> ('p, 'n) registry" where
  "register_stream reg s st = reg(s \<mapsto> (or_insert reg s)\<lparr>ex_stream := Some st\<rparr>)"

definition unregister_stream :: "('p, 'n) registry \<Rightarrow> nat \<Rightarrow> ('p, 'n) registry" where
  "unregister_stream reg s =
     maybe_remove_empty (modify_existing reg s (\<lambda>e. e\<lparr>ex_stream := None\<rparr>)) s"

definition stream_state :: "('p, 'n) registry \<Rightarrow> nat \<Rightarrow> nat option" where
  "stream_state reg s = Option.bind (reg s) ex_stream"

definition remove_session :: "('p, 'n) registry \<Rightarrow> nat \<Rightarrow> ('p, 'n) registry" where
  "remove_session reg s = reg(s := None)"

definition drop_connection_id :: "('p, 'n) registry \<Rightarrow> nat \<Rightarrow> ('p, 'n) registry" where
  "drop_connection_id reg c =
     (\<lambda>s. map_option (\<lambda>e. if ex_connection_id e = Some c then e\<lparr>ex_connection_id := None\<rparr> else e) (reg s))"

section \<open>One step of the registry\<close>

datatype ('p, 'n) registry_op =
    AddUserText nat nat string
  | InsertCancelToken nat nat
  | RegisterTurn nat "'p turn_rec"
  | TryClaim nat "'p turn_rec"
  | SetAbortHandle nat nat
  | SetConnection nat nat
  | AbortTask nat
  | RemoveCancelToken nat
  | RemoveAbortHandle nat
  | DeferGoal nat
  | ClearHandles nat
  | RegisterSnapshot nat nat 'n
  | ClearSnapshot nat nat
  | RegisterStream nat nat
  | UnregisterStream nat
  | RemoveSession nat
  | DropConnection nat

fun registry_step :: "('p, 'n) registry \<Rightarrow> ('p, 'n) registry_op \<Rightarrow> ('p, 'n) registry" where
  "registry_step reg (AddUserText s t x) = add_active_user_text reg s t x"
| "registry_step reg (InsertCancelToken s k) = insert_cancel_token reg s k"
| "registry_step reg (RegisterTurn s u) = register_turn reg s u"
| "registry_step reg (TryClaim s u) = fst (try_claim_session reg s u)"
| "registry_step reg (SetAbortHandle s h) = set_abort_handle reg s h"
| "registry_step reg (SetConnection s c) = set_connection_id reg s c"
| "registry_step reg (AbortTask s) = fst (abort_task reg s)"
| "registry_step reg (RemoveCancelToken s) = remove_cancel_token reg s"
| "registry_step reg (RemoveAbortHandle s) = remove_abort_handle reg s"
| "registry_step reg (DeferGoal s) = fst (defer_goal_continuation reg s)"
| "registry_step reg (ClearHandles s) = fst (clear_runtime_handles reg s)"
| "registry_step reg (RegisterSnapshot s t n) = register_spawn_snapshot reg s t n"
| "registry_step reg (ClearSnapshot s t) = clear_spawn_snapshot reg s t"
| "registry_step reg (RegisterStream s st) = register_stream reg s st"
| "registry_step reg (UnregisterStream s) = unregister_stream reg s"
| "registry_step reg (RemoveSession s) = remove_session reg s"
| "registry_step reg (DropConnection c) = drop_connection_id reg c"

lemmas registry_ops =
  add_active_user_text_def insert_cancel_token_def register_turn_def try_claim_session_def
  set_abort_handle_def set_connection_id_def abort_task_def remove_cancel_token_def
  remove_abort_handle_def defer_goal_continuation_def clear_runtime_handles_def
  register_spawn_snapshot_def clear_spawn_snapshot_def register_stream_def unregister_stream_def
  remove_session_def drop_connection_id_def with_text_turn_def or_insert_def modify_existing_def
  maybe_remove_empty_def is_empty_execution_def has_session_def entry_def

section \<open>What a turn in flight guarantees\<close>

text \<open>The operations by which a session's turn ends.\<close>

definition releases :: "nat \<Rightarrow> ('p, 'n) registry_op \<Rightarrow> bool" where
  "releases s x \<longleftrightarrow> x = ClearHandles s \<or> x = RemoveSession s"

definition in_flight :: "nat \<Rightarrow> ('p, 'n) registry \<Rightarrow> bool" where
  "in_flight s reg \<longleftrightarrow> (case reg s of None \<Rightarrow> False | Some e \<Rightarrow> \<not> Option.is_none (ex_turn e))"

definition goal_requested :: "nat \<Rightarrow> ('p, 'n) registry \<Rightarrow> bool" where
  "goal_requested s reg \<longleftrightarrow> (case reg s of None \<Rightarrow> False | Some e \<Rightarrow> ex_goal_continuation e)"

lemma in_flight_kept:
  "\<lbrakk>in_flight s reg; \<not> releases s x\<rbrakk> \<Longrightarrow> in_flight s (registry_step reg x)"
  by (cases x)
     (auto simp: in_flight_def releases_def registry_ops Let_def split: option.splits if_splits)

text \<open>Only a successful deferral of the session raises its flag, only a release lowers it.\<close>

lemma goal_requested_step:
  "goal_requested s (registry_step reg x) \<longleftrightarrow>
     (\<not> releases s x \<and> (goal_requested s reg \<or> (x = DeferGoal s \<and> in_flight s reg)))"
  by (cases x)
     (auto simp: goal_requested_def in_flight_def releases_def registry_ops Let_def
       split: option.splits if_splits)

interpretation turn_kept: guarded_invariant registry_step "in_flight s" "releases s" for s
  by unfold_locales (rule in_flight_kept)

interpretation flag_kept: guarded_invariant registry_step "goal_requested s" "releases s" for s
  by unfold_locales (simp add: goal_requested_step)

section \<open>Terminal turn statuses\<close>

text \<open>
  The last \<open>TERMINAL_TURN_STATUS_LIMIT\<close> statuses, oldest first, and the waiters of each turn.
\<close>

definition TERMINAL_TURN_STATUS_LIMIT :: nat where "TERMINAL_TURN_STATUS_LIMIT = 1024"

record ('v, 'w) terminal_state =
  terminal_turn_statuses :: "(nat \<times> 'v) list"
  acp_prompt_waiters :: "nat \<Rightarrow> 'w list"

definition subscribe_terminal_turn_status ::
  "('v, 'w) terminal_state \<Rightarrow> nat \<Rightarrow> 'w \<Rightarrow> ('v, 'w) terminal_state" where
  "subscribe_terminal_turn_status st t w =
     st\<lparr>acp_prompt_waiters := (acp_prompt_waiters st)(t := acp_prompt_waiters st t @ [w])\<rparr>"

definition recent_terminal_turn_status :: "('v, 'w) terminal_state \<Rightarrow> nat \<Rightarrow> 'v option" where
  "recent_terminal_turn_status st t =
     map_option snd (find (\<lambda>p. fst p = t) (rev (terminal_turn_statuses st)))"

fun pop_to_limit :: "nat \<Rightarrow> 'a list \<Rightarrow> 'a list" where
  "pop_to_limit limit [] = []"
| "pop_to_limit limit (x # xs) = (if length (x # xs) > limit then pop_to_limit limit xs else x # xs)"

text \<open>The new state and the messages sent, one for each waiter of the turn.\<close>

definition record_terminal_turn_status ::
  "('v, 'w) terminal_state \<Rightarrow> nat \<Rightarrow> 'v \<Rightarrow> ('v, 'w) terminal_state \<times> ('w \<times> 'v) list" where
  "record_terminal_turn_status st t v =
     (st\<lparr>terminal_turn_statuses :=
           pop_to_limit TERMINAL_TURN_STATUS_LIMIT
             (filter (\<lambda>p. fst p \<noteq> t) (terminal_turn_statuses st) @ [(t, v)]),
         acp_prompt_waiters := (acp_prompt_waiters st)(t := [])\<rparr>,
      map (\<lambda>w. (w, v)) (acp_prompt_waiters st t))"

lemma pop_to_limit_last_n: "pop_to_limit limit xs = last_n limit xs"
  by (induction xs) (auto simp: last_n_def Suc_diff_le)

definition terminal_ok :: "('v, 'w) terminal_state \<Rightarrow> bool" where
  "terminal_ok st \<longleftrightarrow>
     distinct (map fst (terminal_turn_statuses st)) \<and>
     length (terminal_turn_statuses st) \<le> TERMINAL_TURN_STATUS_LIMIT"

lemma terminal_ok_record: "terminal_ok st \<Longrightarrow> terminal_ok (fst (record_terminal_turn_status st t v))"
proof -
  assume ok: "terminal_ok st"
  let ?xs = "filter (\<lambda>p. fst p \<noteq> t) (terminal_turn_statuses st) @ [(t, v)]"
  have "distinct (map fst ?xs)" using ok by (auto simp: terminal_ok_def distinct_map_filter)
  then have "distinct (map fst (last_n TERMINAL_TURN_STATUS_LIMIT ?xs))"
    unfolding last_n_def drop_map [symmetric] by (rule distinct_drop)
  then show ?thesis
    by (simp add: terminal_ok_def record_terminal_turn_status_def pop_to_limit_last_n del: map_append)
qed

section \<open>Properties\<close>

text \<open>
  C35: a session is admitted to one turn at a time: after a successful claim every further claim
  of the session is refused and a turn stays registered, whatever other operations of whatever
  tasks interleave, until the session is cleared or removed.
\<close>

theorem claim_is_exclusive:
  assumes "snd (try_claim_session reg s u)" "\<forall>x\<in>set ops. \<not> releases s x"
  defines "reg' \<equiv> foldl registry_step (fst (try_claim_session reg s u)) ops"
  shows "in_flight s reg' \<and> \<not> snd (try_claim_session reg' s v)"
proof -
  have "in_flight s (fst (try_claim_session reg s u))"
    using assms(1) by (auto simp: try_claim_session_def in_flight_def split: if_splits)
  then have "in_flight s reg'" unfolding reg'_def using assms(2) by (rule turn_kept.kept_by_all)
  then show ?thesis
    by (auto simp: try_claim_session_def in_flight_def has_session_def split: option.splits)
qed

lemma claim_is_exclusive_witness:
  "in_flight 1 (foldl registry_step (fst (try_claim_session (\<lambda>_. None :: (nat, nat) execution option) 1
       \<lparr>turn_ident = 7, turn_body = 0\<rparr>)) [SetConnection 1 5, DropConnection 5, RemoveCancelToken 1]) \<and>
   \<not> snd (try_claim_session (foldl registry_step (fst (try_claim_session (\<lambda>_. None :: (nat, nat) execution option) 1
       \<lparr>turn_ident = 7, turn_body = 0\<rparr>)) [SetConnection 1 5, DropConnection 5, RemoveCancelToken 1]) 1
       \<lparr>turn_ident = 8, turn_body = 0\<rparr>)"
  by (rule claim_is_exclusive) (simp_all add: try_claim_session_def has_session_def releases_def)

text \<open>
  an explicit goal activation is neither lost nor invented: releasing a session reports a
  requested continuation exactly when a deferral was accepted since the session was last
  released, for every interleaving of operations.
\<close>

fun accepted_deferral ::
  "nat \<Rightarrow> ('p, 'n) registry \<Rightarrow> ('p, 'n) registry_op list \<Rightarrow> bool \<Rightarrow> bool" where
  "accepted_deferral s reg [] b = b"
| "accepted_deferral s reg (x # xs) b =
     accepted_deferral s (registry_step reg x) xs
       (if x = ClearHandles s \<or> x = RemoveSession s then False
        else b \<or> (x = DeferGoal s \<and> snd (defer_goal_continuation reg s)))"

theorem deferral_delivered_exactly:
  "snd (clear_runtime_handles (foldl registry_step (\<lambda>_. None) ops) s) \<longleftrightarrow>
     accepted_deferral s (\<lambda>_. None) ops False"
proof -
  have accept: "snd (defer_goal_continuation reg s) \<longleftrightarrow> in_flight s reg" for reg :: "('a, 'b) registry"
    by (simp add: defer_goal_continuation_def in_flight_def split: option.splits)
  have "goal_requested s (foldl registry_step reg ops) \<longleftrightarrow>
      accepted_deferral s reg ops (goal_requested s reg)" for reg :: "('a, 'b) registry"
  proof (induction ops arbitrary: reg)
    case (Cons x xs)
    have "goal_requested s (registry_step reg x) \<longleftrightarrow>
        (if x = ClearHandles s \<or> x = RemoveSession s then False
         else goal_requested s reg \<or> (x = DeferGoal s \<and> snd (defer_goal_continuation reg s)))"
      by (auto simp: goal_requested_step releases_def accept)
    then show ?case using Cons by simp
  qed simp
  moreover have "snd (clear_runtime_handles reg s) \<longleftrightarrow> goal_requested s reg" for reg :: "('a, 'b) registry"
    by (simp add: clear_runtime_handles_def goal_requested_def)
  moreover have "\<not> goal_requested s (\<lambda>_. None :: ('a, 'b) execution option)" by (simp add: goal_requested_def)
  ultimately show ?thesis by simp
qed

text \<open>
  dropping a connection does not clean up: an execution whose only content was that
  connection stays in the registry as an empty entry, and from then on the session can not be
  claimed until it is cleared or removed.
\<close>

theorem dropped_connection_blocks_claim:
  fixes c :: nat
  assumes "reg s = None" "\<forall>x\<in>set ops. \<exists>c. x = DropConnection c"
  defines "reg' \<equiv> foldl registry_step (drop_connection_id (set_connection_id reg s c) c) ops"
  shows "(\<exists>e. reg' s = Some e \<and> is_empty_execution e) \<and> \<not> snd (try_claim_session reg' s u)"
proof -
  have "(drop_connection_id (set_connection_id reg s c) c) s = Some entry"
    using assms(1) by (simp add: drop_connection_id_def set_connection_id_def or_insert_def entry_def)
  moreover have "reg1 s = Some entry \<Longrightarrow> foldl registry_step reg1 ops s = Some entry" for reg1 :: "('a, 'b) registry"
    using assms(2)
  proof (induction ops arbitrary: reg1)
    case (Cons x xs)
    then obtain d where "x = DropConnection d" by auto
    then have "registry_step reg1 x s = Some entry"
      using Cons.prems(1) by (simp add: drop_connection_id_def entry_def)
    then show ?case using Cons by simp
  qed simp
  ultimately have "reg' s = Some entry" unfolding reg'_def by blast
  then show ?thesis by (simp add: is_empty_execution_def entry_def try_claim_session_def has_session_def)
qed

lemma dropped_connection_blocks_claim_witness:
  "\<not> snd (try_claim_session (foldl registry_step
      (drop_connection_id (set_connection_id (\<lambda>_. None :: (nat, nat) execution option) 1 5) 5) [])
      1 \<lparr>turn_ident = 8, turn_body = 0\<rparr>)"
  using dropped_connection_blocks_claim
    [of "\<lambda>_. None :: (nat, nat) execution option" 1 "[]" 5 "\<lparr>turn_ident = 8, turn_body = 0\<rparr>"] by simp

text \<open>
  recording a terminal status answers every waiter of the turn exactly once with this
  status, makes it the turn's recent status, keeps one status per turn and never more than
  the limit, and forgets no other turn while the list is below the limit.
\<close>

theorem terminal_status_recorded:
  fixes t :: nat and v :: 'v and st :: "('v, 'w) terminal_state"
  assumes "terminal_ok st"
  defines "st' \<equiv> fst (record_terminal_turn_status st t v)"
  shows "terminal_ok st' \<and> recent_terminal_turn_status st' t = Some v \<and>
    snd (record_terminal_turn_status st t v) = map (\<lambda>w. (w, v)) (acp_prompt_waiters st t) \<and>
    acp_prompt_waiters st' t = [] \<and>
    (length (terminal_turn_statuses st) < TERMINAL_TURN_STATUS_LIMIT \<longrightarrow>
       (\<forall>t'. t' \<noteq> t \<longrightarrow> recent_terminal_turn_status st' t' = recent_terminal_turn_status st t'))"
proof (intro conjI impI allI)
  show "terminal_ok st'" unfolding st'_def using assms(1) by (rule terminal_ok_record)
  let ?xs = "filter (\<lambda>p. fst p \<noteq> t) (terminal_turn_statuses st) @ [(t, v)]"
  have last: "terminal_turn_statuses st' = last_n TERMINAL_TURN_STATUS_LIMIT ?xs"
    by (simp add: st'_def record_terminal_turn_status_def pop_to_limit_last_n)
  have "0 < TERMINAL_TURN_STATUS_LIMIT" by (simp add: TERMINAL_TURN_STATUS_LIMIT_def)
  then have "\<exists>ys. last_n TERMINAL_TURN_STATUS_LIMIT ?xs = ys @ [(t, v)]" by (simp add: last_n_def)
  then show "recent_terminal_turn_status st' t = Some v"
    using last by (auto simp: recent_terminal_turn_status_def)
  fix t' assume len: "length (terminal_turn_statuses st) < TERMINAL_TURN_STATUS_LIMIT" and ne: "t' \<noteq> t"
  have "length ?xs \<le> TERMINAL_TURN_STATUS_LIMIT"
    using len by (simp add: Suc_le_eq) (meson le_less_trans length_filter_le)
  then have "terminal_turn_statuses st' = ?xs" using last last_n_all by metis
  moreover have "find (\<lambda>p. fst p = t') (filter (\<lambda>p. fst p \<noteq> t) xs) = find (\<lambda>p. fst p = t') xs"
    for xs :: "(nat \<times> 'v) list"
    using ne by (induction xs) auto
  ultimately show "recent_terminal_turn_status st' t' = recent_terminal_turn_status st t'"
    using ne by (simp add: recent_terminal_turn_status_def rev_filter)
qed (simp_all add: st'_def record_terminal_turn_status_def)

lemma terminal_status_recorded_witness:
  "recent_terminal_turn_status (fst (record_terminal_turn_status
      \<lparr>terminal_turn_statuses = [(1, ''a''), (2, ''b'')], acp_prompt_waiters = (\<lambda>_. [0::nat])\<rparr> 1 ''c'')) 2 =
   Some ''b''"
  using terminal_status_recorded
    [of "\<lparr>terminal_turn_statuses = [(1, ''a''), (2, ''b'')], acp_prompt_waiters = (\<lambda>_. [0::nat])\<rparr>" 1 "''c''"]
  by (simp add: terminal_ok_def TERMINAL_TURN_STATUS_LIMIT_def recent_terminal_turn_status_def)

end
