(* ===== verification/Goals.thy ===== *)
theory Goals
  imports Prelude
begin

text \<open>
  Goals of a session: the objective and budget checks of the protocol
  (\<open>crates/protocol/src/goal.rs\<close>), the goal, its usage and its continuation test
  (\<open>crates/server/src/goal.rs\<close>), the store with its handlers
  (\<open>crates/server/src/runtime/handlers/goal.rs\<close>), the accounting of turns
  (\<open>goal_accounting.rs\<close>, \<open>goal_continuation.rs\<close>) and the durable records with their replay
  (\<open>goal_durable.rs\<close>). The clock and fresh identifiers are arguments (\<open>now\<close>, \<open>fresh\<close>); instants
  count nanoseconds. \<open>i64\<close> values are \<open>int\<close>, \<open>u32\<close> and \<open>u64\<close> values \<open>nat\<close>, and every addition of the
  code wraps or saturates as written there.
\<close>

section \<open>Data\<close>

datatype goal_status =
    Active | Paused | Blocked | UsageLimited | BudgetLimited | Completed | Failed | Canceled | Cleared

datatype thread_goal_status = TActive | TPaused | TBudgetLimited | TComplete

datatype native_goal_status =
    NActive | NPaused | NBlocked | NUsageLimited | NBudgetLimited | NCompleted | NFailed | NCanceled

fun is_terminal :: "goal_status \<Rightarrow> bool" where
  "is_terminal BudgetLimited = True"
| "is_terminal UsageLimited = True"
| "is_terminal Completed = True"
| "is_terminal Failed = True"
| "is_terminal Canceled = True"
| "is_terminal Cleared = True"
| "is_terminal _ = False"

record goal_budget =
  max_turns :: "nat option"
  token_budget :: "int option"
  max_duration_seconds :: "nat option"

record goal_usage =
  turns_used :: nat
  tokens_used :: int
  time_used_seconds :: nat

record goal =
  goal_id :: nat
  session_id :: nat
  objective :: string
  description :: "string option"
  status :: goal_status
  created_turn_id :: "(nat \<times> nat) option"
  created_at :: int
  updated_at :: int
  goal_limit :: goal_budget
  usage :: goal_usage
  progress_summary :: "string option"
  blocker_summary :: "string option"
  verification_summary :: "string option"

record thread_goal =
  tg_thread_id :: nat
  tg_objective :: string
  tg_status :: thread_goal_status
  tg_token_budget :: "int option"
  tg_tokens_used :: int
  tg_time_used_seconds :: int
  tg_created_at :: int
  tg_updated_at :: int

record native_goal =
  ng_id :: nat
  ng_session_id :: nat
  ng_objective :: string
  ng_status :: native_goal_status
  ng_token_budget :: "nat option"
  ng_tokens_used :: nat
  ng_time_used_seconds :: nat
  ng_progress_summary :: "string option"
  ng_created_at :: int
  ng_updated_at :: int

datatype goal_error =
    NotFound string | AlreadyActive | InvalidTransition | InvalidObjective string
  | BudgetExhausted string | PersistenceFailure string

datatype goal_action =
    Pause | Resume | Complete "string option" | Fail string | Block string | Cancel | Clear

record goal_create_params =
  cp_session_id :: nat
  cp_objective :: string
  cp_token_budget :: "int option"
  cp_replace_existing :: bool

record goal_set_params =
  sp_session_id :: nat
  sp_objective :: "string option"
  sp_status :: "thread_goal_status option"
  sp_token_budget :: "int option"

section \<open>Validation and conversions\<close>

definition MAX_THREAD_GOAL_OBJECTIVE_CHARS :: nat where
  "MAX_THREAD_GOAL_OBJECTIVE_CHARS = 4000"

definition validate_thread_goal_objective :: "string \<Rightarrow> string option" where
  "validate_thread_goal_objective value =
     (if value = [] then Some ''goal objective must not be empty''
      else if get_at MAX_THREAD_GOAL_OBJECTIVE_CHARS value \<noteq> None
        then Some (''goal objective must be at most '' @ decimal MAX_THREAD_GOAL_OBJECTIVE_CHARS @
                   '' characters'')
      else None)"

definition validate_thread_goal_token_budget :: "int option \<Rightarrow> string option" where
  "validate_thread_goal_token_budget value =
     (case value of
        Some v \<Rightarrow> if v \<le> 0 then Some ''goal budgets must be positive when provided'' else None
      | None \<Rightarrow> None)"

fun thread_goal_status_from_goal :: "goal_status \<Rightarrow> thread_goal_status" where
  "thread_goal_status_from_goal Active = TActive"
| "thread_goal_status_from_goal Paused = TPaused"
| "thread_goal_status_from_goal Blocked = TPaused"
| "thread_goal_status_from_goal UsageLimited = TPaused"
| "thread_goal_status_from_goal BudgetLimited = TBudgetLimited"
| "thread_goal_status_from_goal Completed = TComplete"
| "thread_goal_status_from_goal Failed = TComplete"
| "thread_goal_status_from_goal Canceled = TComplete"
| "thread_goal_status_from_goal Cleared = TComplete"

fun goal_status_from_thread :: "thread_goal_status \<Rightarrow> goal_status" where
  "goal_status_from_thread TActive = Active"
| "goal_status_from_thread TPaused = Paused"
| "goal_status_from_thread TBudgetLimited = BudgetLimited"
| "goal_status_from_thread TComplete = Completed"

fun native_status :: "goal_status \<Rightarrow> native_goal_status" where
  "native_status Active = NActive"
| "native_status Paused = NPaused"
| "native_status Blocked = NBlocked"
| "native_status UsageLimited = NUsageLimited"
| "native_status BudgetLimited = NBudgetLimited"
| "native_status Completed = NCompleted"
| "native_status Failed = NFailed"
| "native_status Canceled = NCanceled"
| "native_status Cleared = NCanceled"

definition timestamp :: "int \<Rightarrow> int" where
  "timestamp t = t div 1000000000"

definition wrap_i64 :: "int \<Rightarrow> int" where
  "wrap_i64 n = (n + 2 ^ 63) mod 2 ^ 64 - 2 ^ 63"

definition wrap_u32 :: "nat \<Rightarrow> nat" where
  "wrap_u32 n = n mod 2 ^ 32"

definition wrap_u64 :: "nat \<Rightarrow> nat" where
  "wrap_u64 n = n mod 2 ^ 64"

definition default_budget :: goal_budget where
  "default_budget = \<lparr>max_turns = None, token_budget = None, max_duration_seconds = None\<rparr>"

definition default_usage :: goal_usage where
  "default_usage = \<lparr>turns_used = 0, tokens_used = 0, time_used_seconds = 0\<rparr>"

definition is_unbounded :: "goal_budget \<Rightarrow> bool" where
  "is_unbounded b \<longleftrightarrow>
     max_turns b = None \<and> token_budget b = None \<and> max_duration_seconds b = None"

definition record_turn :: "goal_usage \<Rightarrow> goal_usage" where
  "record_turn u = u\<lparr>turns_used := wrap_u32 (turns_used u + 1)\<rparr>"

definition record_tokens :: "goal_usage \<Rightarrow> int \<Rightarrow> goal_usage" where
  "record_tokens u tokens = u\<lparr>tokens_used := wrap_i64 (tokens_used u + tokens)\<rparr>"

definition from_create_params :: "int \<Rightarrow> nat \<Rightarrow> goal_create_params \<Rightarrow> goal_error + goal" where
  "from_create_params now fresh p =
     (let obj = trim (cp_objective p) in
      case validate_thread_goal_objective obj of
        Some e \<Rightarrow> Inl (InvalidObjective e)
      | None \<Rightarrow>
        (case validate_thread_goal_token_budget (cp_token_budget p) of
           Some e \<Rightarrow> Inl (InvalidObjective e)
         | None \<Rightarrow> Inr
             \<lparr>goal_id = fresh, session_id = cp_session_id p, objective = obj, description = None,
              status = Active, created_turn_id = None, created_at = now, updated_at = now,
              goal_limit = default_budget\<lparr>token_budget := cp_token_budget p\<rparr>,
              usage = default_usage, progress_summary = None, blocker_summary = None,
              verification_summary = None\<rparr>))"

definition to_thread_goal :: "goal \<Rightarrow> thread_goal" where
  "to_thread_goal g =
     \<lparr>tg_thread_id = session_id g, tg_objective = objective g,
      tg_status = thread_goal_status_from_goal (status g),
      tg_token_budget = token_budget (goal_limit g), tg_tokens_used = tokens_used (usage g),
      tg_time_used_seconds =
        (if int (time_used_seconds (usage g)) \<le> i64_max then int (time_used_seconds (usage g))
         else i64_max),
      tg_created_at = timestamp (created_at g), tg_updated_at = timestamp (updated_at g)\<rparr>"

definition u64_try_from :: "int \<Rightarrow> nat option" where
  "u64_try_from i = (if i < 0 then None else Some (nat i))"

definition to_native_goal :: "goal \<Rightarrow> native_goal" where
  "to_native_goal g =
     \<lparr>ng_id = goal_id g, ng_session_id = session_id g, ng_objective = objective g,
      ng_status = native_status (status g),
      ng_token_budget = Option.bind (token_budget (goal_limit g)) u64_try_from,
      ng_tokens_used = (case u64_try_from (tokens_used (usage g)) of Some n \<Rightarrow> n | None \<Rightarrow> 0),
      ng_time_used_seconds = time_used_seconds (usage g),
      ng_progress_summary = progress_summary g,
      ng_created_at = created_at g, ng_updated_at = updated_at g\<rparr>"

definition token_budget_exhausted :: "goal \<Rightarrow> bool" where
  "token_budget_exhausted g =
     (case token_budget (goal_limit g) of Some b \<Rightarrow> tokens_used (usage g) \<ge> b | None \<Rightarrow> False)"

fun debug_status :: "goal_status \<Rightarrow> string" where
  "debug_status Active = ''Active''"
| "debug_status Paused = ''Paused''"
| "debug_status Blocked = ''Blocked''"
| "debug_status UsageLimited = ''UsageLimited''"
| "debug_status BudgetLimited = ''BudgetLimited''"
| "debug_status Completed = ''Completed''"
| "debug_status Failed = ''Failed''"
| "debug_status Canceled = ''Canceled''"
| "debug_status Cleared = ''Cleared''"

definition check_continuation :: "goal \<Rightarrow> bool \<times> string option" where
  "check_continuation g =
     (if status g \<noteq> Active then (False, Some (''goal status is '' @ debug_status (status g)))
      else if (case max_turns (goal_limit g) of Some m \<Rightarrow> turns_used (usage g) \<ge> m | None \<Rightarrow> False)
        then (False, Some ''max turns reached'')
      else if token_budget_exhausted g then (True, Some ''token budget wrap-up'')
      else (True, None))"

definition should_continue :: "goal \<Rightarrow> bool" where
  "should_continue g = fst (check_continuation g)"

section \<open>The store\<close>

text \<open>The goal of one session; an operation returns the new store and its result.\<close>

type_synonym goal_store = "goal option"

type_synonym 'r store_result = "goal_store \<times> (goal_error + 'r)"

definition apply_goal_budget_limit :: "goal \<Rightarrow> goal" where
  "apply_goal_budget_limit g =
     (if status g = Active \<and>
         (case token_budget (goal_limit g) of Some b \<Rightarrow> tokens_used (usage g) \<ge> b | None \<Rightarrow> False)
      then g\<lparr>status := BudgetLimited\<rparr> else g)"

definition apply_goal_update :: "goal \<Rightarrow> goal_status option \<Rightarrow> int option \<Rightarrow> goal" where
  "apply_goal_update g st tb =
     (let g1 = (case tb of Some b \<Rightarrow> g\<lparr>goal_limit := (goal_limit g)\<lparr>token_budget := Some b\<rparr>\<rparr>
                | None \<Rightarrow> g);
          g2 = (case st of Some s \<Rightarrow> g1\<lparr>status := s\<rparr> | None \<Rightarrow> g1)
      in apply_goal_budget_limit g2)"

definition create :: "int \<Rightarrow> nat \<Rightarrow> goal_store \<Rightarrow> goal_create_params \<Rightarrow> goal store_result" where
  "create now fresh store p =
     (if store \<noteq> None \<and> \<not> cp_replace_existing p then (store, Inl AlreadyActive)
      else (case from_create_params now fresh p of
              Inl e \<Rightarrow> (store, Inl e)
            | Inr g \<Rightarrow> (Some g, Inr g)))"

definition patch ::
  "int \<Rightarrow> nat \<Rightarrow> goal_store \<Rightarrow> string option \<Rightarrow> goal_status option \<Rightarrow> int option \<Rightarrow> bool \<Rightarrow> nat \<Rightarrow>
   goal store_result" where
  "patch now fresh store obj st tb allow_create sid =
     (case validate_thread_goal_token_budget tb of
        Some e \<Rightarrow> (store, Inl (InvalidObjective e))
      | None \<Rightarrow>
        (case obj of
           Some raw \<Rightarrow>
             (let o' = trim raw in
              case validate_thread_goal_objective o' of
                Some e \<Rightarrow> (store, Inl (InvalidObjective e))
              | None \<Rightarrow>
                (case store of
                   Some g \<Rightarrow>
                     (let g' = (apply_goal_update (g\<lparr>objective := o'\<rparr>) st tb)\<lparr>updated_at := now\<rparr>
                      in (Some g', Inr g'))
                 | None \<Rightarrow>
                     if \<not> allow_create then (store, Inl (NotFound ''current''))
                     else (case from_create_params now fresh
                              \<lparr>cp_session_id = sid, cp_objective = o', cp_token_budget = tb,
                               cp_replace_existing = False\<rparr> of
                             Inl e \<Rightarrow> (store, Inl e)
                           | Inr g \<Rightarrow>
                               (let g' = (case st of
                                            Some s \<Rightarrow> apply_goal_budget_limit (g\<lparr>status := s\<rparr>)
                                          | None \<Rightarrow> g)
                                in (Some g', Inr g')))))
         | None \<Rightarrow>
             (case store of
                None \<Rightarrow> (store, Inl (NotFound ''current''))
              | Some g \<Rightarrow>
                  if st = None \<and> tb = None then (store, Inl InvalidTransition)
                  else (let g' = (apply_goal_update g st tb)\<lparr>updated_at := now\<rparr>
                        in (Some g', Inr g')))))"

definition goal_set :: "int \<Rightarrow> nat \<Rightarrow> goal_store \<Rightarrow> goal_set_params \<Rightarrow> goal store_result" where
  "goal_set now fresh store p =
     patch now fresh store (sp_objective p) (map_option goal_status_from_thread (sp_status p))
       (sp_token_budget p) True (sp_session_id p)"

text \<open>The goal the action leaves, \<open>None\<close> where the guard refuses it; \<open>Clear\<close> is handled apart.\<close>

fun act :: "goal_action \<Rightarrow> goal \<Rightarrow> goal option" where
  "act Pause g = (if status g \<noteq> Active then None else Some (g\<lparr>status := Paused\<rparr>))"
| "act Resume g =
     (if status g \<noteq> Paused \<and> status g \<noteq> Blocked then None else Some (g\<lparr>status := Active\<rparr>))"
| "act (Complete summary) g =
     (if is_terminal (status g) then None
      else Some (g\<lparr>status := Completed, verification_summary := summary\<rparr>))"
| "act (Fail reason) g =
     (if is_terminal (status g) then None
      else Some (g\<lparr>status := Failed, blocker_summary := Some reason\<rparr>))"
| "act (Block reason) g =
     (if status g \<noteq> Active then None
      else Some (g\<lparr>status := Blocked, blocker_summary := Some reason\<rparr>))"
| "act Cancel g =
     (if is_terminal (status g) then None else Some (g\<lparr>status := Canceled\<rparr>))"
| "act Clear g = Some g"

definition mutate ::
  "(nat \<Rightarrow> string) \<Rightarrow> int \<Rightarrow> goal_store \<Rightarrow> nat \<Rightarrow> goal_action \<Rightarrow> goal store_result" where
  "mutate show_id now store gid action =
     (case store of
        None \<Rightarrow> (None, Inl (NotFound (show_id gid)))
      | Some g \<Rightarrow>
          if goal_id g \<noteq> gid then (Some g, Inl (NotFound (show_id gid)))
          else (case act action g of
                  None \<Rightarrow> (Some g, Inl InvalidTransition)
                | Some g' \<Rightarrow>
                    if action = Clear then (None, Inr g')
                    else (Some (g'\<lparr>updated_at := now\<rparr>), Inr (g'\<lparr>updated_at := now\<rparr>))))"

definition set_status :: "int \<Rightarrow> goal_store \<Rightarrow> goal_status \<Rightarrow> goal store_result" where
  "set_status now store st =
     (case store of
        None \<Rightarrow> (store, Inl (NotFound ''current''))
      | Some g \<Rightarrow> (let g' = g\<lparr>status := st, updated_at := now\<rparr> in (Some g', Inr g')))"

definition clear :: "goal_store \<Rightarrow> goal_store \<times> bool" where
  "clear store = (None, store \<noteq> None)"

section \<open>Accounting of turns\<close>

definition i64_try_from_or_max :: "nat \<Rightarrow> int" where
  "i64_try_from_or_max n = (if int n \<le> i64_max then int n else i64_max)"

definition goal_token_delta :: "nat \<Rightarrow> nat \<Rightarrow> nat \<Rightarrow> int" where
  "goal_token_delta input_tokens cache_read_input_tokens output_tokens =
     i64_try_from_or_max
       (sat_add_u64 (input_tokens - cache_read_input_tokens) output_tokens)"

text \<open>\<open>num_seconds\<close> truncates toward zero, and a negative number of seconds does not convert.\<close>

definition turn_duration_seconds :: "int \<Rightarrow> int option \<Rightarrow> nat" where
  "turn_duration_seconds started_at completed_at =
     (case completed_at of
        None \<Rightarrow> 0
      | Some c \<Rightarrow> nat ((c - started_at) div 1000000000))"

definition apply_goal_usage_delta :: "int \<Rightarrow> goal \<Rightarrow> int \<Rightarrow> nat \<Rightarrow> goal \<times> goal_status" where
  "apply_goal_usage_delta now g token_delta duration_delta =
     (let u = (if token_delta > 0 then record_tokens (usage g) token_delta else usage g);
          u' = u\<lparr>time_used_seconds := sat_add_u64 (time_used_seconds u) duration_delta\<rparr>
      in (g\<lparr>usage := u', updated_at := now\<rparr>, status g))"

text \<open>
  The part of \<open>account_goal_turn_completed\<close> that changes the store: the usage of the turn, the
  goal its continuation was started for, and whether the session plans.
\<close>

definition account_turn_completed ::
  "int \<Rightarrow> goal_store \<Rightarrow> nat option \<Rightarrow> (nat \<times> nat \<times> nat) option \<Rightarrow> bool \<Rightarrow> int \<Rightarrow> int option \<Rightarrow>
   goal_store \<times> (int \<times> nat) option" where
  "account_turn_completed now store continuation_goal_id turn_usage plan_mode started completed =
     (case turn_usage of
        None \<Rightarrow> (store, None)
      | Some (inp, cached, out) \<Rightarrow>
          if plan_mode then (store, None)
          else
            (let token_delta = goal_token_delta inp cached out;
                 duration_delta = turn_duration_seconds started completed
             in if token_delta = 0 \<and> duration_delta = 0 then (store, None)
                else (case store of
                        None \<Rightarrow> (store, None)
                      | Some g \<Rightarrow>
                          if (case continuation_goal_id of
                                Some gid \<Rightarrow> goal_id g \<noteq> gid \<or>
                                  \<not> (status g = Active \<or> status g = BudgetLimited)
                              | None \<Rightarrow> False)
                          then (store, None)
                          else (Some (fst (apply_goal_usage_delta now g token_delta duration_delta)),
                                Some (token_delta, duration_delta)))))"

definition wrap_up_note :: string where
  "wrap_up_note = ''Goal token budget reached; launched a budget-limit wrap-up turn.''"

definition continuation_started :: "int \<Rightarrow> goal \<Rightarrow> goal" where
  "continuation_started now g =
     (let g1 = g\<lparr>usage := record_turn (usage g)\<rparr>;
          g2 = (if token_budget_exhausted g1
                then g1\<lparr>status := BudgetLimited, blocker_summary := Some wrap_up_note\<rparr> else g1)
      in g2\<lparr>updated_at := now\<rparr>)"

text \<open>Returns the goal after the turn and its previous status, \<open>None\<close> where no turn may start.\<close>

definition mark_goal_continuation_turn_started ::
  "int \<Rightarrow> goal_store \<Rightarrow> nat \<Rightarrow> goal_store \<times> (goal \<times> goal_status) option" where
  "mark_goal_continuation_turn_started now store gid =
     (case store of
        None \<Rightarrow> (store, None)
      | Some g \<Rightarrow>
          if goal_id g = gid \<and> should_continue g
          then (Some (continuation_started now g), Some (continuation_started now g, status g))
          else (store, None))"

section \<open>Durable records and their replay\<close>

datatype progress_type = Milestone | PhaseComplete | ProgressBlocked | Note

text \<open>
  The records of a goal, with the fields replay reads; \<open>OtherRecord\<close> stands for the record kinds
  replay skips.
\<close>

datatype durable_record =
    GoalCreated (rc_goal: nat) (rc_session: nat) (rc_turn: nat) (rc_prompt: string)
      (rc_description: "string option") (rc_budget: "goal_budget option") (rc_at: int)
  | GoalStatusChanged nat goal_status goal_status "string option" int
  | GoalBudgetAccounted nat goal_budget goal_budget int
  | GoalProgressRecorded nat string progress_type int
  | GoalCleared nat "string option" int
  | OtherRecord

definition remaining_budget :: "goal \<Rightarrow> goal_budget" where
  "remaining_budget g =
     \<lparr>max_turns = map_option (\<lambda>b. b - turns_used (usage g)) (max_turns (goal_limit g)),
      token_budget = map_option
        (\<lambda>b. max i64_min (min i64_max (b - tokens_used (usage g)))) (token_budget (goal_limit g)),
      max_duration_seconds = map_option
        (\<lambda>b. b - time_used_seconds (usage g)) (max_duration_seconds (goal_limit g))\<rparr>"

definition goal_created_record :: "goal \<Rightarrow> durable_record" where
  "goal_created_record g =
     GoalCreated (goal_id g) (session_id g)
       (case created_turn_id g of Some (t, sq) \<Rightarrow> t | None \<Rightarrow> 0)
       (objective g) (description g)
       (if is_unbounded (goal_limit g) then None else Some (goal_limit g)) (created_at g)"

definition status_changed_record :: "goal \<Rightarrow> goal_status \<Rightarrow> string option \<Rightarrow> durable_record" where
  "status_changed_record g previous reason =
     GoalStatusChanged (goal_id g) previous (status g) reason (updated_at g)"

definition budget_accounted_record :: "int \<Rightarrow> goal \<Rightarrow> int \<Rightarrow> nat \<Rightarrow> nat \<Rightarrow> durable_record" where
  "budget_accounted_record now g token_delta turn_delta duration_delta =
     GoalBudgetAccounted (goal_id g)
       \<lparr>max_turns = (if turn_delta > 0 then Some turn_delta else None),
        token_budget = (if token_delta > 0 then Some token_delta else None),
        max_duration_seconds = (if duration_delta > 0 then Some duration_delta else None)\<rparr>
       (remaining_budget g) now"

definition apply_progress_record :: "goal \<Rightarrow> string \<Rightarrow> progress_type \<Rightarrow> int \<Rightarrow> goal" where
  "apply_progress_record g summary kind at =
     (case kind of
        ProgressBlocked \<Rightarrow> g\<lparr>blocker_summary := Some summary, updated_at := at\<rparr>
      | _ \<Rightarrow> g\<lparr>progress_summary := Some summary, updated_at := at\<rparr>)"

definition status_reason :: "goal \<Rightarrow> goal_status \<Rightarrow> string option \<Rightarrow> goal" where
  "status_reason g new_status reason =
     (case new_status of
        Completed \<Rightarrow> g\<lparr>verification_summary := reason\<rparr>
      | Paused \<Rightarrow> g\<lparr>blocker_summary := reason\<rparr>
      | Blocked \<Rightarrow> g\<lparr>blocker_summary := reason\<rparr>
      | UsageLimited \<Rightarrow> g\<lparr>blocker_summary := reason\<rparr>
      | BudgetLimited \<Rightarrow> g\<lparr>blocker_summary := reason\<rparr>
      | Failed \<Rightarrow> g\<lparr>blocker_summary := reason\<rparr>
      | _ \<Rightarrow> g)"

definition add_budget_delta :: "goal_usage \<Rightarrow> goal_budget \<Rightarrow> goal_usage" where
  "add_budget_delta u d =
     \<lparr>turns_used = wrap_u32 (turns_used u + (case max_turns d of Some n \<Rightarrow> n | None \<Rightarrow> 0)),
      tokens_used = wrap_i64 (tokens_used u + (case token_budget d of Some n \<Rightarrow> n | None \<Rightarrow> 0)),
      time_used_seconds =
        wrap_u64 (time_used_seconds u + (case max_duration_seconds d of Some n \<Rightarrow> n | None \<Rightarrow> 0))\<rparr>"

definition on_goal :: "goal option \<Rightarrow> nat \<Rightarrow> (goal \<Rightarrow> goal) \<Rightarrow> goal option" where
  "on_goal g gid f =
     (case g of Some x \<Rightarrow> if goal_id x = gid then Some (f x) else Some x | None \<Rightarrow> None)"

fun replay_record :: "goal option \<Rightarrow> durable_record \<Rightarrow> goal option" where
  "replay_record _ (GoalCreated gid sid turn prompt desc b at) =
     Some \<lparr>goal_id = gid, session_id = sid, objective = prompt, description = desc,
           status = Active, created_turn_id = Some (turn, 0), created_at = at, updated_at = at,
           goal_limit = (case b of Some x \<Rightarrow> x | None \<Rightarrow> default_budget), usage = default_usage,
           progress_summary = None, blocker_summary = None, verification_summary = None\<rparr>"
| "replay_record g (GoalStatusChanged gid _ new_status reason at) =
     on_goal g gid (\<lambda>x. (status_reason (x\<lparr>status := new_status\<rparr>) new_status reason)\<lparr>updated_at := at\<rparr>)"
| "replay_record g (GoalBudgetAccounted gid delta _ at) =
     on_goal g gid (\<lambda>x. x\<lparr>usage := add_budget_delta (usage x) delta, updated_at := at\<rparr>)"
| "replay_record g (GoalProgressRecorded gid summary kind at) =
     on_goal g gid (\<lambda>x. apply_progress_record x summary kind at)"
| "replay_record g (GoalCleared gid _ _) =
     (case g of Some x \<Rightarrow> if goal_id x = gid then None else Some x | None \<Rightarrow> None)"
| "replay_record g OtherRecord = g"

definition replay_goal_store :: "durable_record list \<Rightarrow> goal_store" where
  "replay_goal_store records = foldl replay_record None records"

section \<open>The handlers\<close>

text \<open>
  Each handler's change of the store, with its answer and the records it appends when no primary
  rollout is configured. The transition handler first compares the expected identifier under one
  lock (\<open>transition_check\<close>) and changes the store under another (\<open>transition_apply\<close>).
\<close>

datatype rpc_error =
  RpcGoalNotFound string | RpcInvalidParams string | RpcSessionNotFound string

type_synonym logged = "goal_store \<times> durable_record list"

definition error_text :: "goal_error \<Rightarrow> string" where
  "error_text e =
     (case e of
        NotFound x \<Rightarrow> ''goal not found: '' @ x
      | AlreadyActive \<Rightarrow> ''goal already active in session''
      | InvalidTransition \<Rightarrow> ''invalid transition''
      | InvalidObjective x \<Rightarrow> x
      | BudgetExhausted x \<Rightarrow> ''budget exhausted: '' @ x
      | PersistenceFailure x \<Rightarrow> ''goal persistence failure: '' @ x)"

definition handle_set ::
  "int \<Rightarrow> nat \<Rightarrow> goal_create_params \<Rightarrow> logged \<Rightarrow> logged \<times> (rpc_error + goal)" where
  "handle_set now fresh p sl =
     (case create now fresh (fst sl) p of
        (store', Inr g) \<Rightarrow> ((store', snd sl @ [goal_created_record g]), Inr g)
      | (store', Inl e) \<Rightarrow>
          ((store', snd sl), Inl (RpcInvalidParams (''goal creation failed: '' @ error_text e))))"

datatype transition = TransPause | TransResume | TransComplete | TransCancel | TransClear

definition transition_check :: "goal_store \<Rightarrow> nat \<Rightarrow> rpc_error + goal" where
  "transition_check store expected =
     (case store of
        None \<Rightarrow> Inl (RpcGoalNotFound ''session has no goal'')
      | Some g \<Rightarrow>
          if expected \<noteq> goal_id g
          then Inl (RpcGoalNotFound
                 ''expected goal id does not match the session's current goal'')
          else Inr g)"

definition logged_change ::
  "string \<Rightarrow> goal_status option \<Rightarrow> durable_record list \<Rightarrow> goal store_result \<Rightarrow>
   logged \<times> (rpc_error + goal option)" where
  "logged_change what previous log r =
     (case r of
        (store', Inr g) \<Rightarrow>
          ((store', log @ (case previous of Some old \<Rightarrow> [status_changed_record g old None]
                           | None \<Rightarrow> [])), Inr (Some g))
      | (store', Inl e) \<Rightarrow>
          ((store', log), Inl (RpcInvalidParams (''goal '' @ what @ '' failed: '' @ error_text e))))"

definition transition_apply ::
  "(nat \<Rightarrow> string) \<Rightarrow> int \<Rightarrow> goal \<Rightarrow> transition \<Rightarrow> logged \<Rightarrow>
   logged \<times> (rpc_error + goal option)" where
  "transition_apply show_id now current t sl =
     (let store = fst sl; log = snd sl; previous = map_option status store
      in case t of
           TransClear \<Rightarrow>
             ((fst (clear store),
               log @ (case store of
                        Some g \<Rightarrow> [GoalCleared (goal_id g) (Some ''user clear'') now]
                      | None \<Rightarrow> [])), Inr None)
         | TransPause \<Rightarrow>
             (case store of
                Some g \<Rightarrow>
                  if status g = BudgetLimited then (sl, Inr (Some g))
                  else logged_change ''pause'' previous log (set_status now store Paused)
              | None \<Rightarrow> logged_change ''pause'' previous log (set_status now store Paused))
         | TransResume \<Rightarrow> logged_change ''resume'' previous log (set_status now store Active)
         | TransComplete \<Rightarrow> logged_change ''complete'' previous log (set_status now store Completed)
         | TransCancel \<Rightarrow>
             logged_change ''cancel'' previous log (mutate show_id now store (goal_id current) Cancel))"

definition handle_transition ::
  "(nat \<Rightarrow> string) \<Rightarrow> int \<Rightarrow> nat \<Rightarrow> transition \<Rightarrow> logged \<Rightarrow>
   logged \<times> (rpc_error + goal option)" where
  "handle_transition show_id now expected t sl =
     (case transition_check (fst sl) expected of
        Inl e \<Rightarrow> (sl, Inl e)
      | Inr g \<Rightarrow> transition_apply show_id now g t sl)"

definition editable_status :: "native_goal_status \<Rightarrow> goal_status option" where
  "editable_status s =
     (case s of NActive \<Rightarrow> Some Active | NPaused \<Rightarrow> Some Paused | NCompleted \<Rightarrow> Some Completed
      | _ \<Rightarrow> None)"

fun debug_native_status :: "native_goal_status \<Rightarrow> string" where
  "debug_native_status NActive = ''Active''"
| "debug_native_status NPaused = ''Paused''"
| "debug_native_status NBlocked = ''Blocked''"
| "debug_native_status NUsageLimited = ''UsageLimited''"
| "debug_native_status NBudgetLimited = ''BudgetLimited''"
| "debug_native_status NCompleted = ''Completed''"
| "debug_native_status NFailed = ''Failed''"
| "debug_native_status NCanceled = ''Canceled''"

datatype 'a patch_field = Missing | Null | Value 'a

record update_params =
  up_expected_goal_id :: "nat option"
  up_objective :: "string option"
  up_status :: "native_goal_status option"
  up_token_budget :: "int patch_field"
  up_session_id :: nat

text \<open>
  The checks before the edit: an early answer, or the status and the budget to set. \<open>cached\<close> is the
  answer kept for the request's idempotency key.
\<close>

definition update_check ::
  "goal_store \<Rightarrow> native_goal option \<Rightarrow> bool \<Rightarrow> update_params \<Rightarrow>
   (rpc_error + native_goal) + (goal_status option \<times> int option)" where
  "update_check store cached session_exists p =
     (case store of
        None \<Rightarrow> Inl (Inl (RpcGoalNotFound ''no active goal to update''))
      | Some g \<Rightarrow>
          if up_expected_goal_id p \<noteq> None \<and> up_expected_goal_id p \<noteq> Some (goal_id g)
          then Inl (Inl (RpcGoalNotFound ''goal was replaced; refetch before editing''))
          else
            (case cached of
               Some answer \<Rightarrow> Inl (Inr answer)
             | None \<Rightarrow>
                 if up_status p \<noteq> None \<and> Option.bind (up_status p) editable_status = None
                 then Inl (Inl (RpcInvalidParams
                        (''goal status '' @ debug_native_status (the (up_status p)) @
                         '' is system-computed, not editable'')))
                 else if up_token_budget p = Null
                 then Inl (Inl (RpcInvalidParams
                        ''clearing the token budget is not in the vocabulary''))
                 else if \<not> session_exists
                 then Inl (Inl (RpcSessionNotFound ''session does not exist''))
                 else Inr (Option.bind (up_status p) editable_status,
                           case up_token_budget p of Value b \<Rightarrow> Some b | _ \<Rightarrow> None)))"

definition update_apply ::
  "int \<Rightarrow> nat \<Rightarrow> string option \<Rightarrow> goal_status option \<Rightarrow> int option \<Rightarrow> nat \<Rightarrow> logged \<Rightarrow>
   logged \<times> (rpc_error + goal)" where
  "update_apply now fresh obj st tb sid sl =
     (let store = fst sl; log = snd sl; previous = map_option status store;
          base = (case previous of Some s \<Rightarrow> s | None \<Rightarrow> Active)
      in if previous = Some BudgetLimited \<and> st = Some Paused \<and> obj = None \<and> tb = None
         then (sl, Inr (the store))
         else
           (case patch now fresh store obj st tb False sid of
              (store', Inl e) \<Rightarrow>
                ((store', log), Inl (RpcInvalidParams (''goal set failed: '' @ error_text e)))
            | (store', Inr g') \<Rightarrow>
                ((store', log @ [goal_created_record g'] @
                    (if base \<noteq> status g' then [status_changed_record g' base None] else [])),
                 Inr g')))"

definition handle_update ::
  "int \<Rightarrow> nat \<Rightarrow> native_goal option \<Rightarrow> bool \<Rightarrow> update_params \<Rightarrow> logged \<Rightarrow>
   logged \<times> (rpc_error + native_goal)" where
  "handle_update now fresh cached session_exists p sl =
     (case update_check (fst sl) cached session_exists p of
        Inl answer \<Rightarrow> (sl, answer)
      | Inr (st, tb) \<Rightarrow>
          (case update_apply now fresh (up_objective p) st tb (up_session_id p) sl of
             (sl', Inl e) \<Rightarrow> (sl', Inl e)
           | (sl', Inr g) \<Rightarrow> (sl', Inr (to_native_goal g))))"

definition handle_accounting ::
  "int \<Rightarrow> nat option \<Rightarrow> (nat \<times> nat \<times> nat) option \<Rightarrow> bool \<Rightarrow> int \<Rightarrow> int option \<Rightarrow> logged \<Rightarrow> logged" where
  "handle_accounting now cont turn_usage plan started completed sl =
     (case account_turn_completed now (fst sl) cont turn_usage plan started completed of
        (Some g, Some (tokens, secs)) \<Rightarrow>
          (Some g, snd sl @ [budget_accounted_record now g tokens 0 secs])
      | (store', _) \<Rightarrow> (store', snd sl))"

definition handle_continuation_start :: "int \<Rightarrow> nat \<Rightarrow> logged \<Rightarrow> logged \<times> bool" where
  "handle_continuation_start now gid sl =
     (case mark_goal_continuation_turn_started now (fst sl) gid of
        (store', Some (g, previous)) \<Rightarrow>
          ((store', snd sl @ [budget_accounted_record now g 0 1 0] @
             (if status g \<noteq> previous then [status_changed_record g previous (blocker_summary g)]
              else [])), True)
      | (store', None) \<Rightarrow> ((store', snd sl), False))"

text \<open>The events of a session's goal, each with the instant the handler reads.\<close>

datatype goal_event =
    EvSet nat goal_create_params
  | EvTransition nat transition
  | EvUpdate nat "native_goal option" bool update_params
  | EvAccount "nat option" "(nat \<times> nat \<times> nat) option" bool int "int option"
  | EvContinue nat

fun run_event :: "(nat \<Rightarrow> string) \<Rightarrow> logged \<Rightarrow> int \<times> goal_event \<Rightarrow> logged" where
  "run_event show_id sl (now, EvSet fresh p) = fst (handle_set now fresh p sl)"
| "run_event show_id sl (now, EvTransition expected t) =
     fst (handle_transition show_id now expected t sl)"
| "run_event show_id sl (now, EvUpdate fresh cached exists p) =
     fst (handle_update now fresh cached exists p sl)"
| "run_event show_id sl (now, EvAccount cont turn_usage plan started completed) =
     handle_accounting now cont turn_usage plan started completed sl"
| "run_event show_id sl (now, EvContinue gid) = fst (handle_continuation_start now gid sl)"

fun is_update :: "goal_event \<Rightarrow> bool" where
  "is_update (EvUpdate _ _ _ _) = True"
| "is_update _ = False"

text \<open>What replay has to recover.\<close>

definition persistent_part ::
  "goal \<Rightarrow> nat \<times> nat \<times> string \<times> string option \<times> goal_status \<times> goal_budget \<times> goal_usage" where
  "persistent_part g =
     (goal_id g, session_id g, objective g, description g, status g, goal_limit g, usage g)"

section \<open>The invariant of a goal\<close>

definition usage_ok :: "goal_usage \<Rightarrow> bool" where
  "usage_ok u \<longleftrightarrow> turns_used u < 2 ^ 32 \<and> - (2 ^ 63) \<le> tokens_used u \<and> tokens_used u < 2 ^ 63 \<and>
     time_used_seconds u \<le> u64_max"

definition wf_goal :: "goal \<Rightarrow> bool" where
  "wf_goal g \<longleftrightarrow>
     validate_thread_goal_objective (objective g) = None \<and> trim (objective g) = objective g \<and>
     validate_thread_goal_token_budget (token_budget (goal_limit g)) = None \<and> usage_ok (usage g)"

definition wf_store :: "goal_store \<Rightarrow> bool" where
  "wf_store store = (case store of Some g \<Rightarrow> wf_goal g | None \<Rightarrow> True)"

lemma wf_store_simps [simp]: "wf_store None" "wf_store (Some g) = wf_goal g"
  by (simp_all add: wf_store_def)

lemma wf_goal_cong:
  "wf_goal g \<Longrightarrow> objective g' = objective g \<Longrightarrow> token_budget (goal_limit g') = token_budget (goal_limit g) \<Longrightarrow>
   usage g' = usage g \<Longrightarrow> wf_goal g'"
  by (simp add: wf_goal_def)

lemma wrap_i64_bounds: "- (2 ^ 63) \<le> wrap_i64 n" "wrap_i64 n < 2 ^ 63"
  by (simp_all add: wrap_i64_def)

lemma wrap_i64_id: "- (2 ^ 63) \<le> n \<Longrightarrow> n < 2 ^ 63 \<Longrightarrow> wrap_i64 n = n"
  by (simp add: wrap_i64_def)

lemma usage_ok_default [simp]: "usage_ok default_usage"
  by (simp add: usage_ok_def default_usage_def)

lemma usage_ok_record_turn [simp]: "usage_ok u \<Longrightarrow> usage_ok (record_turn u)"
  by (simp add: usage_ok_def record_turn_def wrap_u32_def)

lemma usage_ok_record_tokens [simp]: "usage_ok u \<Longrightarrow> usage_ok (record_tokens u n)"
  using wrap_i64_bounds by (simp add: usage_ok_def record_tokens_def)

lemma usage_ok_time [simp]: "usage_ok u \<Longrightarrow> usage_ok (u\<lparr>time_used_seconds := sat_add_u64 a b\<rparr>)"
  using sat_add_u64_bound by (simp add: usage_ok_def)

lemma from_create_params_wf: "from_create_params now fresh p = Inr g \<Longrightarrow> wf_goal g"
  by (auto simp: from_create_params_def wf_goal_def default_budget_def Let_def split: option.splits)

lemma budget_limit_simps [simp]:
  "objective (apply_goal_budget_limit g) = objective g"
  "goal_limit (apply_goal_budget_limit g) = goal_limit g"
  "usage (apply_goal_budget_limit g) = usage g"
  "goal_id (apply_goal_budget_limit g) = goal_id g"
  "session_id (apply_goal_budget_limit g) = session_id g"
  "description (apply_goal_budget_limit g) = description g"
  "created_at (apply_goal_budget_limit g) = created_at g"
  by (simp_all add: apply_goal_budget_limit_def)

lemma wf_goal_budget_limit [simp]: "wf_goal (apply_goal_budget_limit g) = wf_goal g"
  by (simp add: wf_goal_def)

lemma wf_goal_updated_at [simp]: "wf_goal (g\<lparr>updated_at := now\<rparr>) = wf_goal g"
  by (simp add: wf_goal_def)

lemma wf_goal_status [simp]: "wf_goal (g\<lparr>status := s\<rparr>) = wf_goal g"
  by (simp add: wf_goal_def)

lemma apply_goal_update_wf:
  "wf_goal g \<Longrightarrow> validate_thread_goal_token_budget tb = None \<Longrightarrow> wf_goal (apply_goal_update g st tb)"
  by (auto simp: apply_goal_update_def Let_def wf_goal_def split: option.splits)

lemma create_wf: "wf_store store \<Longrightarrow> wf_store (fst (create now fresh store p))"
  by (auto simp: create_def split: sum.splits dest: from_create_params_wf)

lemma patch_wf: "wf_store store \<Longrightarrow> wf_store (fst (patch now fresh store obj st tb allow sid))"
  by (auto simp: patch_def Let_def wf_goal_def intro!: apply_goal_update_wf[unfolded wf_goal_def]
      split: option.splits sum.splits dest: from_create_params_wf[unfolded wf_goal_def])

lemma act_wf: "act a g = Some g' \<Longrightarrow> wf_goal g \<Longrightarrow> wf_goal g'"
  by (cases a) (auto simp: wf_goal_def split: if_splits)

lemma mutate_wf: "wf_store store \<Longrightarrow> wf_store (fst (mutate show_id now store gid a))"
  by (auto simp: mutate_def split: option.splits dest: act_wf)

lemma set_status_wf: "wf_store store \<Longrightarrow> wf_store (fst (set_status now store st))"
  by (auto simp: set_status_def Let_def wf_goal_def split: option.splits)

lemma account_wf:
  "wf_store store \<Longrightarrow> wf_store (fst (account_turn_completed now store cont tu plan a b))"
  by (auto simp: account_turn_completed_def apply_goal_usage_delta_def Let_def wf_goal_def
      split: option.splits prod.splits)

lemma mark_wf: "wf_store store \<Longrightarrow> wf_store (fst (mark_goal_continuation_turn_started now store gid))"
  by (auto simp: mark_goal_continuation_turn_started_def continuation_started_def Let_def wf_goal_def
      split: option.splits)

lemmas goal_ops_wf = create_wf patch_wf mutate_wf set_status_wf account_wf mark_wf

lemma fst_logged_change [simp]: "fst (fst (logged_change what previous log r)) = fst r"
  by (cases r) (auto simp: logged_change_def split: sum.splits)

lemma transition_apply_store:
  "fst (fst (transition_apply show_id now current t sl)) =
     (case t of
        TransClear \<Rightarrow> None
      | TransPause \<Rightarrow>
          if map_option status (fst sl) = Some BudgetLimited then fst sl
          else fst (set_status now (fst sl) Paused)
      | TransResume \<Rightarrow> fst (set_status now (fst sl) Active)
      | TransComplete \<Rightarrow> fst (set_status now (fst sl) Completed)
      | TransCancel \<Rightarrow> fst (mutate show_id now (fst sl) (goal_id current) Cancel))"
  by (cases t) (auto simp: transition_apply_def clear_def Let_def split: option.splits)

lemma handle_transition_wf:
  "wf_store (fst sl) \<Longrightarrow> wf_store (fst (fst (handle_transition show_id now expected t sl)))"
  by (cases t)
    (auto simp: handle_transition_def transition_apply_store set_status_wf mutate_wf
      split: sum.splits)

lemma handle_set_store: "fst (fst (handle_set now fresh p sl)) = fst (create now fresh (fst sl) p)"
  by (auto simp: handle_set_def split: prod.splits sum.splits)

lemma update_apply_store:
  "fst (fst (update_apply now fresh obj st tb sid sl)) \<in>
     {fst sl, fst (patch now fresh (fst sl) obj st tb False sid)}"
  by (auto simp: update_apply_def Let_def split: prod.splits sum.splits)

lemma handle_update_wf:
  assumes "wf_store (fst sl)"
  shows "wf_store (fst (fst (handle_update now fresh cached exists p sl)))"
proof (cases "update_check (fst sl) cached exists p")
  case (Inr r)
  obtain st tb where r: "r = (st, tb)" by (cases r)
  have "wf_store (fst (patch now fresh (fst sl) (up_objective p) st tb False (up_session_id p)))"
    by (rule patch_wf[OF assms])
  then have "wf_store (fst (fst (update_apply now fresh (up_objective p) st tb (up_session_id p) sl)))"
    using assms update_apply_store[of now fresh "up_objective p" st tb "up_session_id p" sl] by auto
  then show ?thesis using Inr r
    by (auto simp: handle_update_def split: prod.splits sum.splits)
qed (use assms in \<open>simp add: handle_update_def\<close>)

lemma handle_accounting_store:
  "fst (handle_accounting now cont tu plan a b sl) =
     fst (account_turn_completed now (fst sl) cont tu plan a b)"
  by (auto simp: handle_accounting_def split: prod.splits option.splits)

lemma handle_continuation_store:
  "fst (fst (handle_continuation_start now gid sl)) =
     fst (mark_goal_continuation_turn_started now (fst sl) gid)"
  by (auto simp: handle_continuation_start_def split: prod.splits option.splits)

lemma run_event_wf: "wf_store (fst sl) \<Longrightarrow> wf_store (fst (run_event show_id sl ev))"
  by (induction show_id sl ev rule: run_event.induct)
    (simp_all add: handle_set_store handle_transition_wf handle_accounting_store handle_update_wf
      handle_continuation_store create_wf account_wf mark_wf)

interpretation goal_wf: guarded_invariant "run_event show_id" "\<lambda>sl. wf_store (fst sl)" "\<lambda>_. False"
  for show_id
  by unfold_locales (rule run_event_wf)

section \<open>The abstract machine of the statuses\<close>

inductive moves :: "goal_status \<Rightarrow> goal_action \<Rightarrow> goal_status \<Rightarrow> bool" where
  pause: "moves Active Pause Paused"
| resume_paused: "moves Paused Resume Active"
| resume_blocked: "moves Blocked Resume Active"
| complete: "\<not> is_terminal s \<Longrightarrow> moves s (Complete summary) Completed"
| fail: "\<not> is_terminal s \<Longrightarrow> moves s (Fail reason) Failed"
| block: "moves Active (Block reason) Blocked"
| cancel: "\<not> is_terminal s \<Longrightarrow> moves s Cancel Canceled"

inductive_simps moves_simps [simp]:
  "moves s Pause s'" "moves s Resume s'" "moves s (Complete x) s'" "moves s (Fail r) s'"
  "moves s (Block r) s'" "moves s Cancel s'" "moves s Clear s'"

inductive_cases moves_fromE: "moves s a s'"

lemma terminal_has_no_move: "is_terminal s \<Longrightarrow> \<not> moves s a s'"
  by (auto elim: moves_fromE)

lemma act_moves:
  "a \<noteq> Clear \<Longrightarrow>
   (case act a g of Some g' \<Rightarrow> moves (status g) a (status g') | None \<Rightarrow> \<nexists>s'. moves (status g) a s')"
  by (cases a) auto

lemma moves_deterministic: "moves s a s1 \<Longrightarrow> moves s a s2 \<Longrightarrow> s1 = s2"
  by (auto elim!: moves_fromE)

lemma mutate_here:
  assumes "goal_id g = gid" "a \<noteq> Clear"
  shows "mutate show_id now (Some g) gid a =
    (case act a g of
       None \<Rightarrow> (Some g, Inl InvalidTransition)
     | Some g' \<Rightarrow> (Some (g'\<lparr>updated_at := now\<rparr>), Inr (g'\<lparr>updated_at := now\<rparr>)))"
  using assms by (auto simp: mutate_def split: option.splits)

section \<open>Continuations\<close>

definition not_active :: "goal_store \<Rightarrow> bool" where
  "not_active store = (case store of Some g \<Rightarrow> status g \<noteq> Active | None \<Rightarrow> True)"

text \<open>The events that can set a goal active: a new goal, an edit, a resume.\<close>

fun may_activate :: "int \<times> goal_event \<Rightarrow> bool" where
  "may_activate (_, EvSet _ _) = True"
| "may_activate (_, EvUpdate _ _ _ _) = True"
| "may_activate (_, EvTransition _ t) = (t = TransResume)"
| "may_activate _ = False"

lemma account_not_active:
  "not_active store \<Longrightarrow> not_active (fst (account_turn_completed now store cont tu plan a b))"
  by (auto simp: account_turn_completed_def apply_goal_usage_delta_def not_active_def Let_def
      split: option.splits prod.splits)

lemma not_active_no_start:
  "not_active store \<Longrightarrow> mark_goal_continuation_turn_started now store gid = (store, None)"
  by (auto simp: mark_goal_continuation_turn_started_def not_active_def should_continue_def
      check_continuation_def split: option.splits)

lemma set_status_not_active: "st \<noteq> Active \<Longrightarrow> not_active (fst (set_status now store st))"
  by (auto simp: set_status_def not_active_def Let_def split: option.splits)

lemma cancel_not_active:
  "not_active store \<Longrightarrow> not_active (fst (mutate show_id now store gid Cancel))"
  by (auto simp: mutate_def not_active_def split: option.splits)

lemma transition_not_active:
  assumes "not_active (fst sl)" "t \<noteq> TransResume"
  shows "not_active (fst (fst (handle_transition show_id now expected t sl)))"
  using assms
  by (cases t)
    (auto simp: handle_transition_def transition_apply_store set_status_not_active
      cancel_not_active not_active_def[of None] split: sum.splits)

lemma run_event_not_active:
  "\<lbrakk>not_active (fst sl); \<not> may_activate ev\<rbrakk> \<Longrightarrow> not_active (fst (run_event show_id sl ev))"
  by (induction show_id sl ev rule: run_event.induct)
    (simp_all add: transition_not_active handle_accounting_store account_not_active
      handle_continuation_store not_active_no_start)

interpretation goal_rest: guarded_invariant
  "run_event show_id" "\<lambda>sl. not_active (fst sl)" may_activate
  for show_id
  by unfold_locales (rule run_event_not_active)

section \<open>Replay follows the live store\<close>

definition tracks :: "logged \<Rightarrow> bool" where
  "tracks sl \<longleftrightarrow>
     map_option persistent_part (replay_goal_store (snd sl)) = map_option persistent_part (fst sl)"

fun event_seconds :: "int \<times> goal_event \<Rightarrow> nat" where
  "event_seconds (_, EvAccount _ _ _ started completed) = turn_duration_seconds started completed"
| "event_seconds _ = 0"

definition store_seconds :: "goal_store \<Rightarrow> nat" where
  "store_seconds store = (case store of Some g \<Rightarrow> time_used_seconds (usage g) | None \<Rightarrow> 0)"

lemma replay_snoc [simp]:
  "replay_goal_store (log @ [r]) = replay_record (replay_goal_store log) r"
  "replay_goal_store (log @ [r1, r2]) = replay_record (replay_record (replay_goal_store log) r1) r2"
  by (simp_all add: replay_goal_store_def)

lemma tracks_iff:
  "tracks (store, log) \<longleftrightarrow>
     (case store of
        None \<Rightarrow> replay_goal_store log = None
      | Some g \<Rightarrow> (\<exists>r. replay_goal_store log = Some r \<and> persistent_part r = persistent_part g))"
  by (auto simp: tracks_def split: option.splits)

lemma budget_unpack:
  "(case (if is_unbounded b then None else Some b) of Some x \<Rightarrow> x | None \<Rightarrow> default_budget) = b"
  by (cases b) (auto simp: is_unbounded_def default_budget_def)

lemma created_tracks:
  "usage g = default_usage \<Longrightarrow> status g = Active \<Longrightarrow> tracks (Some g, log @ [goal_created_record g])"
  by (simp add: tracks_iff goal_created_record_def persistent_part_def budget_unpack)

lemma from_create_params_fresh:
  "from_create_params now fresh p = Inr g \<Longrightarrow> usage g = default_usage \<and> status g = Active \<and> goal_id g = fresh"
  by (auto simp: from_create_params_def Let_def split: option.splits)

lemma create_cases:
  "(\<exists>g. create now fresh store p = (Some g, Inr g) \<and> usage g = default_usage \<and> status g = Active \<and>
        goal_id g = fresh) \<or>
   (\<exists>e. create now fresh store p = (store, Inl e))"
  using from_create_params_fresh[of now fresh p]
  by (cases "from_create_params now fresh p") (simp_all add: create_def)

lemma set_tracks: "tracks sl \<Longrightarrow> tracks (fst (handle_set now fresh p sl))"
  using create_cases[of now fresh "fst sl" p] by (cases sl) (auto simp: handle_set_def created_tracks)

lemma status_record_tracks:
  assumes "tracks (Some g, log)" "persistent_part g' = persistent_part (g\<lparr>status := status g'\<rparr>)"
  shows "tracks (Some g', log @ [status_changed_record g' old reason])"
  using assms
  by (auto simp: tracks_iff status_changed_record_def on_goal_def persistent_part_def
      status_reason_def split: goal_status.splits)

lemma logged_change_tracks:
  assumes "tracks (store, log)"
    "\<And>g'. r = (fst r, Inr g') \<Longrightarrow> \<exists>g. store = Some g \<and> fst r = Some g' \<and>
       persistent_part g' = persistent_part (g\<lparr>status := status g'\<rparr>)"
    "\<And>e. r = (fst r, Inl e) \<Longrightarrow> fst r = store"
  shows "tracks (fst (logged_change what (map_option status store) log r))"
proof (cases "snd r")
  case (Inl e)
  then show ?thesis using assms(1) assms(3)[of e] by (cases r) (auto simp: logged_change_def)
next
  case (Inr g')
  then obtain g where g: "store = Some g" "fst r = Some g'"
      "persistent_part g' = persistent_part (g\<lparr>status := status g'\<rparr>)"
    using assms(2)[of g'] by (cases r) auto
  have "tracks (Some g', log @ [status_changed_record g' (status g) None])"
    using assms(1) g by (intro status_record_tracks[of g]) auto
  then show ?thesis using Inr g by (cases r) (auto simp: logged_change_def)
qed

lemma set_status_tracks:
  "tracks (store, log) \<Longrightarrow>
   tracks (fst (logged_change what (map_option status store) log (set_status now store st)))"
  by (rule logged_change_tracks)
    (auto simp: set_status_def persistent_part_def Let_def split: option.splits)

lemma cancel_tracks:
  "tracks (store, log) \<Longrightarrow>
   tracks (fst (logged_change what (map_option status store) log (mutate show_id now store gid Cancel)))"
  by (rule logged_change_tracks)
    (auto simp: mutate_def persistent_part_def split: option.splits if_splits)

lemma transition_apply_tracks:
  assumes "tracks sl"
  shows "tracks (fst (transition_apply show_id now g t sl))"
proof -
  obtain store log where sl: "sl = (store, log)" by (cases sl)
  show ?thesis
  proof (cases t)
    case TransPause
    with assms sl set_status_tracks[of store log "''pause''" now Paused] show ?thesis
      by (cases store) (auto simp: transition_apply_def Let_def)
  next
    case TransClear
    with assms sl show ?thesis
      by (cases store)
        (auto simp: transition_apply_def clear_def tracks_iff persistent_part_def)
  qed (use assms sl in \<open>auto simp: transition_apply_def Let_def intro: set_status_tracks cancel_tracks\<close>)
qed

lemma transition_tracks:
  "tracks sl \<Longrightarrow> tracks (fst (handle_transition show_id now expected t sl))"
  by (auto simp: handle_transition_def transition_apply_tracks split: sum.splits)

lemma i64_default_wrap:
  "usage_ok u \<Longrightarrow> wrap_i64 (tokens_used u) = tokens_used u"
  "usage_ok u \<Longrightarrow> wrap_u32 (turns_used u) = turns_used u"
  "usage_ok u \<Longrightarrow> wrap_u64 (time_used_seconds u) = time_used_seconds u"
  by (auto simp: usage_ok_def wrap_i64_id wrap_u32_def wrap_u64_def u64_max_def)

lemma delta_of_account:
  assumes "usage_ok u" "time_used_seconds u + secs \<le> u64_max" "0 \<le> tokens"
  shows "add_budget_delta u
     \<lparr>max_turns = None, token_budget = (if tokens > 0 then Some tokens else None),
      max_duration_seconds = (if secs > 0 then Some secs else None)\<rparr> =
     (if tokens > 0 then record_tokens u tokens else u)
       \<lparr>time_used_seconds := sat_add_u64 (time_used_seconds u) secs\<rparr>"
proof -
  have "wrap_u64 (time_used_seconds u + secs) = time_used_seconds u + secs"
    using assms(2) by (simp add: wrap_u64_def u64_max_def)
  moreover have "sat_add_u64 (time_used_seconds u) secs = time_used_seconds u + secs"
    by (rule sat_add_u64_exact[OF assms(2)])
  ultimately show ?thesis
    using assms i64_default_wrap[OF assms(1)]
    by (cases u) (auto simp: add_budget_delta_def record_tokens_def)
qed

lemma delta_of_start:
  "usage_ok u \<Longrightarrow>
   add_budget_delta u \<lparr>max_turns = Some 1, token_budget = None, max_duration_seconds = None\<rparr> =
   record_turn u"
  using i64_default_wrap[of u] by (cases u) (simp add: add_budget_delta_def record_turn_def)

lemma goal_token_delta_nonneg: "0 \<le> goal_token_delta a b c"
  by (simp add: goal_token_delta_def i64_try_from_or_max_def i64_max_def)

lemma usage_record_tracks:
  assumes "tracks (Some g, log)" "goal_id g' = goal_id g"
    "persistent_part g' = persistent_part (g\<lparr>usage := add_budget_delta (usage g) d\<rparr>)"
  shows "tracks (Some g', log @ [GoalBudgetAccounted (goal_id g') d rem now])"
  using assms by (auto simp: tracks_iff on_goal_def persistent_part_def)

lemma account_cases:
  "account_turn_completed now store cont tu plan a b = (store, None) \<or>
   (\<exists>g tokens. store = Some g \<and> 0 \<le> tokens \<and>
      account_turn_completed now store cont tu plan a b =
        (Some (fst (apply_goal_usage_delta now g tokens (turn_duration_seconds a b))),
         Some (tokens, turn_duration_seconds a b)))"
proof (cases tu)
  case None
  then show ?thesis by (simp add: account_turn_completed_def)
next
  case (Some t)
  obtain i c out where t: "t = (i, c, out)" by (cases t)
  show ?thesis
    using goal_token_delta_nonneg[of i c out] Some t
    by (cases store) (auto simp: account_turn_completed_def Let_def)
qed

lemma accounting_tracks:
  assumes "tracks sl" "wf_store (fst sl)"
    "store_seconds (fst sl) + turn_duration_seconds a b \<le> u64_max"
  shows "tracks (handle_accounting now cont tu plan a b sl)"
proof (cases "account_turn_completed now (fst sl) cont tu plan a b = (fst sl, None)")
  case True
  with assms(1) show ?thesis by (cases sl; cases "fst sl") (simp_all add: handle_accounting_def)
next
  case False
  then obtain g tokens where count: "fst sl = Some g" "0 \<le> tokens"
      "account_turn_completed now (fst sl) cont tu plan a b =
        (Some (fst (apply_goal_usage_delta now g tokens (turn_duration_seconds a b))),
         Some (tokens, turn_duration_seconds a b))"
    using account_cases[of now "fst sl" cont tu plan a b] by blast
  obtain log where sl: "sl = (Some g, log)" using count(1) by (cases sl) auto
  have u: "usage_ok (usage g)" "time_used_seconds (usage g) + turn_duration_seconds a b \<le> u64_max"
    using assms sl by (simp_all add: wf_goal_def store_seconds_def)
  let ?g = "fst (apply_goal_usage_delta now g tokens (turn_duration_seconds a b))"
  let ?d = "\<lparr>max_turns = None, token_budget = (if tokens > 0 then Some tokens else None),
     max_duration_seconds =
       (if turn_duration_seconds a b > 0 then Some (turn_duration_seconds a b) else None)\<rparr>"
  have "usage ?g = add_budget_delta (usage g) ?d"
    unfolding delta_of_account[OF u count(2)]
    by (simp add: apply_goal_usage_delta_def Let_def record_tokens_def)
  then have "persistent_part ?g = persistent_part (g\<lparr>usage := add_budget_delta (usage g) ?d\<rparr>)"
    by (simp add: persistent_part_def apply_goal_usage_delta_def Let_def)
  then have "tracks (Some ?g, log @ [budget_accounted_record now ?g tokens 0 (turn_duration_seconds a b)])"
    using assms(1) sl unfolding budget_accounted_record_def
    by (intro usage_record_tracks[of g]) (simp_all add: apply_goal_usage_delta_def Let_def)
  then show ?thesis using count(3) sl by (simp add: handle_accounting_def)
qed

lemma continuation_started_parts:
  "goal_id (continuation_started now g) = goal_id g"
  "session_id (continuation_started now g) = session_id g"
  "objective (continuation_started now g) = objective g"
  "description (continuation_started now g) = description g"
  "goal_limit (continuation_started now g) = goal_limit g"
  "usage (continuation_started now g) = record_turn (usage g)"
  by (simp_all add: continuation_started_def Let_def)

lemma continuation_tracks:
  assumes "tracks sl" "wf_store (fst sl)"
  shows "tracks (fst (handle_continuation_start now gid sl))"
proof (cases "\<exists>g. fst sl = Some g \<and> goal_id g = gid \<and> should_continue g")
  case False
  with assms(1) show ?thesis
    by (cases sl; cases "fst sl")
      (auto simp: handle_continuation_start_def mark_goal_continuation_turn_started_def)
next
  case True
  then obtain g log where g: "sl = (Some g, log)" "goal_id g = gid" "should_continue g"
    by (cases sl) auto
  let ?g = "continuation_started now g"
  let ?mid = "g\<lparr>usage := record_turn (usage g)\<rparr>"
  let ?log = "log @ [budget_accounted_record now ?g 0 1 0]"
  have "usage_ok (usage g)" using assms(2) g by (simp add: wf_goal_def)
  then have mid: "tracks (Some ?mid, ?log)"
    using assms(1) g delta_of_start[of "usage g"] usage_record_tracks[of g log ?mid]
    by (simp add: budget_accounted_record_def continuation_started_parts)
  show ?thesis
  proof (cases "status ?g = status g")
    case True
    then have "persistent_part ?g = persistent_part ?mid"
      by (simp add: persistent_part_def continuation_started_parts)
    with mid True g show ?thesis
      by (simp add: handle_continuation_start_def mark_goal_continuation_turn_started_def tracks_iff)
  next
    case False
    have "tracks (Some ?g, ?log @ [status_changed_record ?g (status g) (blocker_summary ?g)])"
      using mid by (rule status_record_tracks) (simp add: persistent_part_def continuation_started_parts)
    with False g show ?thesis
      by (simp add: handle_continuation_start_def mark_goal_continuation_turn_started_def)
  qed
qed

lemma run_event_tracks:
  "\<lbrakk>tracks sl; wf_store (fst sl); store_seconds (fst sl) + event_seconds ev \<le> u64_max;
    \<not> is_update (snd ev)\<rbrakk> \<Longrightarrow> tracks (run_event show_id sl ev)"
  by (induction show_id sl ev rule: run_event.induct)
    (simp_all add: set_tracks transition_tracks accounting_tracks continuation_tracks)

lemma sat_add_u64_le: "sat_add_u64 a b \<le> a + b"
  by (simp add: sat_add_u64_def)

lemma account_seconds:
  "store_seconds (fst (account_turn_completed now store cont tu plan a b))
     \<le> store_seconds store + turn_duration_seconds a b"
  using account_cases[of now store cont tu plan a b] sat_add_u64_le
  by (elim disjE exE conjE)
    (simp_all add: store_seconds_def apply_goal_usage_delta_def Let_def record_tokens_def)

lemma set_status_seconds [simp]: "store_seconds (fst (set_status now store st)) = store_seconds store"
  by (simp add: store_seconds_def set_status_def Let_def split: option.split)

lemma act_usage: "act a g = Some g' \<Longrightarrow> usage g' = usage g"
  by (cases a) (auto split: if_splits)

lemma mutate_seconds: "store_seconds (fst (mutate show_id now store gid a)) \<le> store_seconds store"
  by (auto simp: store_seconds_def mutate_def dest: act_usage split: option.split)

lemma transition_seconds:
  "store_seconds (fst (fst (handle_transition show_id now expected t sl))) \<le> store_seconds (fst sl)"
  by (cases t)
    (auto simp: handle_transition_def transition_apply_store mutate_seconds store_seconds_def[of None]
      split: sum.split)

lemma set_seconds: "store_seconds (fst (fst (handle_set now fresh p sl))) \<le> store_seconds (fst sl)"
  using create_cases[of now fresh "fst sl" p]
  by (elim disjE exE conjE) (simp_all add: handle_set_store store_seconds_def default_usage_def)

lemma mark_seconds:
  "store_seconds (fst (mark_goal_continuation_turn_started now store gid)) = store_seconds store"
  by (simp add: mark_goal_continuation_turn_started_def store_seconds_def continuation_started_parts
      record_turn_def split: option.split)

lemma run_event_seconds:
  "\<not> is_update (snd ev) \<Longrightarrow>
   store_seconds (fst (run_event show_id sl ev)) \<le> store_seconds (fst sl) + event_seconds ev"
  by (induction show_id sl ev rule: run_event.induct)
    (simp_all add: set_seconds transition_seconds handle_accounting_store account_seconds
      handle_continuation_store mark_seconds)

lemma run_events_track:
  "\<lbrakk>tracks sl; wf_store (fst sl); store_seconds (fst sl) + sum_list (map event_seconds evs) \<le> u64_max;
    \<forall>ev\<in>set evs. \<not> is_update (snd ev)\<rbrakk> \<Longrightarrow> tracks (foldl (run_event show_id) sl evs)"
proof (induction evs arbitrary: sl)
  case (Cons ev evs)
  have "tracks (run_event show_id sl ev)"
    using Cons.prems by (intro run_event_tracks) auto
  moreover have "store_seconds (fst (run_event show_id sl ev)) \<le> store_seconds (fst sl) + event_seconds ev"
    using Cons.prems by (intro run_event_seconds) auto
  ultimately show ?case
    using Cons.prems run_event_wf[of sl show_id ev] by (auto intro!: Cons.IH)
qed simp

section \<open>Properties\<close>

text \<open>
  C40: every sequence of requests and turns leaves a well-formed goal or none: the objective is
  trimmed, not empty and at most 4000 characters long, a budget is positive, and the usage stays in
  the range of its machine integers.
\<close>

lemma goal_events_keep_wf: "wf_store (fst (foldl (run_event show_id) (None, []) evs))"
  by (rule goal_wf.kept_by_all) simp_all

lemma from_create_not_exhausted:
  "from_create_params now fresh p = Inr g \<Longrightarrow> \<not> token_budget_exhausted g"
  by (auto simp: from_create_params_def token_budget_exhausted_def default_usage_def default_budget_def
      validate_thread_goal_token_budget_def Let_def split: option.splits if_splits)

lemma budget_limit_sound: "\<not> (status (apply_goal_budget_limit g) = Active \<and> token_budget_exhausted (apply_goal_budget_limit g))"
  by (simp add: apply_goal_budget_limit_def token_budget_exhausted_def)

lemma update_sound:
  "\<not> (status (apply_goal_update g st tb) = Active \<and> token_budget_exhausted (apply_goal_update g st tb))"
  "goal_id (apply_goal_update g st tb) = goal_id g" "usage (apply_goal_update g st tb) = usage g"
  "created_at (apply_goal_update g st tb) = created_at g"
  unfolding apply_goal_update_def Let_def
  by (rule budget_limit_sound) (simp_all split: option.split)

lemma exhausted_updated_at [simp]:
  "token_budget_exhausted (g\<lparr>updated_at := now\<rparr>) = token_budget_exhausted g"
  by (simp add: token_budget_exhausted_def split: option.split)

lemma patch_existing:
  "patch now fresh (Some g) obj st tb allow sid = (store', Inr g') \<Longrightarrow>
   \<exists>o'. g' = (apply_goal_update (g\<lparr>objective := o'\<rparr>) st tb)\<lparr>updated_at := now\<rparr> \<and> store' = Some g'"
  by (auto simp: patch_def Let_def intro: exI[of _ "objective g"] split: option.splits if_splits)

lemma patch_missing:
  assumes "patch now fresh None obj st tb allow sid = (store', Inr g')"
  shows "store' = Some g' \<and> \<not> (status g' = Active \<and> token_budget_exhausted g')"
proof -
  obtain g o' where g: "from_create_params now fresh
        \<lparr>cp_session_id = sid, cp_objective = o', cp_token_budget = tb, cp_replace_existing = False\<rparr> = Inr g"
      "g' = (case st of Some s \<Rightarrow> apply_goal_budget_limit (g\<lparr>status := s\<rparr>) | None \<Rightarrow> g)" "store' = Some g'"
    using assms by (auto simp: patch_def Let_def split: option.splits if_splits sum.splits)
  then show ?thesis
    using budget_limit_sound from_create_not_exhausted by (auto split: option.splits)
qed

text \<open>
  an edit that succeeds stores the goal it returns, never leaves an active goal whose token
  budget is used up, and keeps the identifier, the usage and the creation time of an existing goal.
\<close>

lemma patch_respects_budget:
  assumes "patch now fresh store obj st tb allow sid = (store', Inr g')"
  shows "store' = Some g' \<and> \<not> (status g' = Active \<and> token_budget_exhausted g') \<and>
    (case store of
       Some g \<Rightarrow> goal_id g' = goal_id g \<and> usage g' = usage g \<and> created_at g' = created_at g
     | None \<Rightarrow> True)"
proof (cases store)
  case None
  with patch_missing assms show ?thesis by simp
next
  case (Some g)
  then obtain o' where "g' = (apply_goal_update (g\<lparr>objective := o'\<rparr>) st tb)\<lparr>updated_at := now\<rparr>"
      "store' = Some g'"
    using patch_existing assms by blast
  then show ?thesis
    using Some update_sound[of "g\<lparr>objective := o'\<rparr>" st tb] by simp
qed

definition sample_goal :: goal where
  "sample_goal =
     \<lparr>goal_id = 1, session_id = 7, objective = ''ship'', description = None, status = Active,
      created_turn_id = None, created_at = 0, updated_at = 0,
      goal_limit = default_budget\<lparr>token_budget := Some 100\<rparr>,
      usage = \<lparr>turns_used = 2, tokens_used = 40, time_used_seconds = 9\<rparr>,
      progress_summary = None, blocker_summary = None, verification_summary = None\<rparr>"

lemma patch_respects_budget_witness:
  "status (the (fst (patch 5 2 (Some sample_goal) None None (Some 30) False 7))) = BudgetLimited \<and>
   \<not> token_budget_exhausted sample_goal"
proof -
  let ?r = "patch 5 2 (Some sample_goal) None None (Some 30) False 7"
  have "?r = (Some ((apply_goal_update sample_goal None (Some 30))\<lparr>updated_at := 5\<rparr>),
      Inr ((apply_goal_update sample_goal None (Some 30))\<lparr>updated_at := 5\<rparr>))"
    by (simp add: patch_def validate_thread_goal_token_budget_def Let_def)
  from patch_respects_budget[OF this] this show ?thesis
    by (simp add: sample_goal_def apply_goal_update_def apply_goal_budget_limit_def Let_def
        token_budget_exhausted_def default_budget_def)
qed

text \<open>
  an action on the current goal succeeds exactly when the status machine has a move for it, with
  the machine's next status, and is refused as an invalid transition, the goal unchanged, when it has
  none; a terminal status, the exhausted budget included, has no move, so such a goal can only be
  cleared.
\<close>

lemma mutate_refines_machine:
  assumes "goal_id g = gid" "a \<noteq> Clear"
  shows "(\<forall>s'. moves (status g) a s' \<longleftrightarrow>
            (\<exists>g'. mutate show_id now (Some g) gid a = (Some g', Inr g') \<and> status g' = s'))
    \<and> ((\<nexists>s'. moves (status g) a s') \<longleftrightarrow>
         mutate show_id now (Some g) gid a = (Some g, Inl InvalidTransition))
    \<and> (is_terminal (status g) \<longrightarrow>
         mutate show_id now (Some g) gid a = (Some g, Inl InvalidTransition))"
proof (cases "act a g")
  case None
  then have "\<nexists>s'. moves (status g) a s'"
    using act_moves[OF assms(2), of g] by simp
  then show ?thesis using None by (simp add: mutate_here[OF assms])
next
  case (Some g')
  then have "moves (status g) a (status g')"
    using act_moves[OF assms(2), of g] by simp
  then show ?thesis
    using Some terminal_has_no_move moves_deterministic
    by (auto simp: mutate_here[OF assms])
qed

lemma mutate_refines_machine_witness:
  "mutate (\<lambda>_. []) 5 (Some (sample_goal\<lparr>status := BudgetLimited\<rparr>)) 1 Resume =
     (Some (sample_goal\<lparr>status := BudgetLimited\<rparr>), Inl InvalidTransition) \<and>
   mutate (\<lambda>_. []) 5 (Some (sample_goal\<lparr>status := BudgetLimited\<rparr>)) 1 (Complete None) =
     (Some (sample_goal\<lparr>status := BudgetLimited\<rparr>), Inl InvalidTransition)"
  using mutate_refines_machine[of "sample_goal\<lparr>status := BudgetLimited\<rparr>" 1 Resume "\<lambda>_. []" 5]
    mutate_refines_machine[of "sample_goal\<lparr>status := BudgetLimited\<rparr>" 1 "Complete None" "\<lambda>_. []" 5]
  by (simp add: sample_goal_def)

text \<open>
  C36: a refused creation, edit, action or status change leaves the stored goal exactly as it was.
\<close>

lemma refused_goal_change_keeps_store:
  "(snd (create now fresh store p) = Inl e \<longrightarrow> fst (create now fresh store p) = store) \<and>
   (snd (patch now fresh store obj st tb allow sid) = Inl e \<longrightarrow>
      fst (patch now fresh store obj st tb allow sid) = store) \<and>
   (snd (mutate show_id now store gid a) = Inl e \<longrightarrow> fst (mutate show_id now store gid a) = store) \<and>
   (snd (set_status now store s) = Inl e \<longrightarrow> fst (set_status now store s) = store)"
proof (intro conjI impI)
  show "fst (create now fresh store p) = store" if "snd (create now fresh store p) = Inl e"
    using that by (auto simp: create_def split: sum.splits if_splits)
  show "fst (patch now fresh store obj st tb allow sid) = store"
    if "snd (patch now fresh store obj st tb allow sid) = Inl e"
    using that by (auto simp: patch_def Let_def split: option.splits sum.splits if_splits)
  show "fst (mutate show_id now store gid a) = store" if "snd (mutate show_id now store gid a) = Inl e"
    using that by (auto simp: mutate_def split: option.splits if_splits)
  show "fst (set_status now store s) = store" if "snd (set_status now store s) = Inl e"
    using that by (auto simp: set_status_def Let_def split: option.splits)
qed

lemma refused_goal_change_keeps_store_witness:
  "create 0 2 (Some sample_goal)
     \<lparr>cp_session_id = 7, cp_objective = ''x'', cp_token_budget = None, cp_replace_existing = False\<rparr> =
   (Some sample_goal, Inl AlreadyActive)"
proof -
  let ?p = "\<lparr>cp_session_id = 7, cp_objective = ''x'', cp_token_budget = None,
    cp_replace_existing = False\<rparr>"
  have "snd (create 0 2 (Some sample_goal) ?p) = Inl AlreadyActive"
    by (simp add: create_def)
  with refused_goal_change_keeps_store[of 0 2 "Some sample_goal" ?p AlreadyActive]
  show ?thesis by (simp add: prod_eq_iff)
qed

text \<open>
  a continuation turn of an active goal is refused once its turns are used up, and the first one
  after the token budget is used up is the last: it leaves the goal budget-limited, and whatever
  turns end and transitions other than a resume follow, no further continuation turn starts.
\<close>

lemma wrap_up_turn_is_last:
  assumes started: "handle_continuation_start now gid (Some g, log) = (sl', True)"
    and exhausted: "token_budget_exhausted g"
    and quiet: "\<forall>ev\<in>set evs. \<not> may_activate ev"
  shows "status (the (fst sl')) = BudgetLimited \<and>
    (case max_turns (goal_limit g) of Some m \<Rightarrow> turns_used (usage g) < m | None \<Rightarrow> True) \<and>
    snd (handle_continuation_start now' gid' (foldl (run_event show_id) sl' evs)) = False"
proof -
  have g: "goal_id g = gid" "should_continue g" and sl': "fst sl' = Some (continuation_started now g)"
    using started
    by (auto simp: handle_continuation_start_def mark_goal_continuation_turn_started_def
        split: if_splits)
  have ex: "token_budget_exhausted (g\<lparr>usage := record_turn (usage g)\<rparr>)"
    using exhausted by (simp add: token_budget_exhausted_def record_turn_def split: option.splits)
  then have st: "status (continuation_started now g) = BudgetLimited"
    by (simp add: continuation_started_def Let_def)
  then have "not_active (fst (foldl (run_event show_id) sl' evs))"
    by (intro goal_rest.kept_by_all quiet) (simp add: sl' not_active_def)
  then have "\<not> snd (handle_continuation_start now' gid' (foldl (run_event show_id) sl' evs))"
    by (simp add: handle_continuation_start_def not_active_no_start)
  moreover have "case max_turns (goal_limit g) of Some m \<Rightarrow> turns_used (usage g) < m | None \<Rightarrow> True"
    using g(2) by (auto simp: should_continue_def check_continuation_def split: option.splits if_splits)
  ultimately show ?thesis using st sl' by simp
qed

definition spent_goal :: goal where
  "spent_goal = sample_goal\<lparr>usage := \<lparr>turns_used = 2, tokens_used = 140, time_used_seconds = 9\<rparr>\<rparr>"

lemma wrap_up_turn_is_last_witness:
  "snd (handle_continuation_start 9 1
     (run_event (\<lambda>_. []) (fst (handle_continuation_start 5 1 (Some spent_goal, []))) (7, EvTransition 1 TransPause))) =
   False"
proof -
  have ok: "should_continue spent_goal" "goal_id spent_goal = 1" "token_budget_exhausted spent_goal"
    by (simp_all add: spent_goal_def sample_goal_def should_continue_def check_continuation_def
        token_budget_exhausted_def default_budget_def)
  then have "snd (handle_continuation_start 5 1 (Some spent_goal, []))"
    by (simp add: handle_continuation_start_def mark_goal_continuation_turn_started_def)
  then have "handle_continuation_start 5 1 (Some spent_goal, []) =
      (fst (handle_continuation_start 5 1 (Some spent_goal, [])), True)"
    by (simp add: prod_eq_iff)
  from wrap_up_turn_is_last[OF this ok(3), of "[(7, EvTransition 1 TransPause)]" 9 1 "\<lambda>_. []"]
  show ?thesis by simp
qed

text \<open>
  without a primary rollout, replaying the records written since the session began rebuilds the
  goal's identity, objective, description, status, budget and usage, after every sequence of
  creations, transitions, finished turns and continuations whose durations add up in 64 bits.
\<close>

lemma replay_recovers_goal:
  assumes "\<forall>ev\<in>set evs. \<not> is_update (snd ev)" "sum_list (map event_seconds evs) \<le> u64_max"
  shows "map_option persistent_part
      (replay_goal_store (snd (foldl (run_event show_id) (None, []) evs))) =
    map_option persistent_part (fst (foldl (run_event show_id) (None, []) evs))"
  using run_events_track[of "(None, [])" evs show_id] assms
  by (simp add: tracks_def replay_goal_store_def store_seconds_def)

definition sample_create :: goal_create_params where
  "sample_create = \<lparr>cp_session_id = 7, cp_objective = ''ship'', cp_token_budget = Some 100,
     cp_replace_existing = False\<rparr>"

lemma replay_recovers_goal_witness:
  "map_option persistent_part (replay_goal_store
     (snd (foldl (run_event (\<lambda>_. [])) (None, []) [(1, EvSet 3 sample_create), (2, EvContinue 3)]))) =
   map_option persistent_part
     (fst (foldl (run_event (\<lambda>_. [])) (None, []) [(1, EvSet 3 sample_create), (2, EvContinue 3)]))"
  by (rule replay_recovers_goal) simp_all

text \<open>
  an edit is logged as a creation, so replaying the records after it loses the usage of the goal
  and, where the edit left the status as it was, reads the goal as active.
\<close>

lemma update_replay_resets:
  assumes "update_apply now fresh obj st tb sid (Some g, log) = ((store', log'), Inr g')"
    and "status g \<noteq> BudgetLimited"
  shows "usage g' = usage g \<and>
    (\<exists>r. replay_goal_store log' = Some r \<and> usage r = default_usage \<and> goal_id r = goal_id g' \<and>
      status r = (if status g' = status g then Active else status g'))"
proof -
  have p: "patch now fresh (Some g) obj st tb False sid = (store', Inr g')"
    and l: "log' = log @ [goal_created_record g'] @
        (if status g \<noteq> status g' then [status_changed_record g' (status g) None] else [])"
    using assms by (auto simp: update_apply_def Let_def split: prod.splits sum.splits if_splits)
  have "usage g' = usage g"
    using patch_existing[OF p] by (auto simp: update_sound)
  then show ?thesis
    unfolding l
    by (auto simp: goal_created_record_def status_changed_record_def on_goal_def status_reason_def
        split: goal_status.splits)
qed

definition paused_goal :: goal where
  "paused_goal = sample_goal\<lparr>status := Paused\<rparr>"

lemma update_replay_resets_witness:
  "status (the (fst (fst (update_apply 5 0 None None (Some 90) 7 (Some paused_goal, []))))) = Paused \<and>
   status (the (replay_goal_store
     (snd (fst (update_apply 5 0 None None (Some 90) 7 (Some paused_goal, [])))))) = Active"
proof -
  let ?g = "(apply_goal_update paused_goal None (Some 90))\<lparr>updated_at := 5\<rparr>"
  have h: "update_apply 5 0 None None (Some 90) 7 (Some paused_goal, []) =
      ((Some ?g, [goal_created_record ?g]), Inr ?g)" and st: "status ?g = Paused"
    by (simp_all add: update_apply_def patch_def validate_thread_goal_token_budget_def Let_def
        apply_goal_update_def apply_goal_budget_limit_def paused_goal_def sample_goal_def)
  have sp: "status paused_goal = Paused" by (simp add: paused_goal_def)
  from update_replay_resets[OF h] sp st
  obtain r where "replay_goal_store [goal_created_record ?g] = Some r" "status r = Active"
    by auto
  with st show ?thesis by (simp only: h fst_conv snd_conv option.sel)
qed

text \<open>
  the identifier a transition expects is compared under one lock and the status changed under
  another: a goal that replaces the compared one in between is paused, resumed, completed or cleared
  in its place, though it is not the goal the request named; only a cancellation compares again.
\<close>

lemma transition_hits_replacement:
  assumes "transition_check (Some g) expected = Inr g"
    and "create now fresh (Some g) p = (Some g2, Inr g2)" and "fresh \<noteq> goal_id g"
  shows "goal_id g2 \<noteq> expected \<and>
    fst (fst (transition_apply show_id now' g TransPause (Some g2, log))) =
      Some (g2\<lparr>status := Paused, updated_at := now'\<rparr>) \<and>
    fst (fst (transition_apply show_id now' g TransComplete (Some g2, log))) =
      Some (g2\<lparr>status := Completed, updated_at := now'\<rparr>) \<and>
    fst (fst (transition_apply show_id now' g TransClear (Some g2, log))) = None \<and>
    fst (fst (transition_apply show_id now' g TransCancel (Some g2, log))) = Some g2"
proof -
  have e: "expected = goal_id g"
    using assms(1) by (simp add: transition_check_def split: if_splits)
  have "status g2 = Active \<and> goal_id g2 = fresh"
    using create_cases[of now fresh "Some g" p] assms(2) by auto
  then show ?thesis
    using e assms(3)
    by (auto simp: transition_apply_store set_status_def mutate_def Let_def)
qed

lemma transition_hits_replacement_witness:
  "fst (fst (transition_apply (\<lambda>_. []) 5 sample_goal TransClear
     (fst (create 4 2 (Some sample_goal) (sample_create\<lparr>cp_replace_existing := True\<rparr>)), []))) = None \<and>
   transition_check (Some sample_goal) 1 = Inr sample_goal"
proof -
  let ?p = "sample_create\<lparr>cp_replace_existing := True\<rparr>"
  have check: "transition_check (Some sample_goal) 1 = Inr sample_goal"
    by (simp add: transition_check_def sample_goal_def)
  obtain g2 where g2: "create 4 2 (Some sample_goal) ?p = (Some g2, Inr g2)"
    by (simp add: create_def from_create_params_def sample_create_def trim_def trim_start_def
        trim_end_def is_ws_def validate_thread_goal_objective_def MAX_THREAD_GOAL_OBJECTIVE_CHARS_def
        get_at_def validate_thread_goal_token_budget_def)
  have "(2::nat) \<noteq> goal_id sample_goal" by (simp add: sample_goal_def)
  from transition_hits_replacement[OF check g2 this, of "\<lambda>_. []" 5 "[]"] check g2
  show ?thesis by simp
qed

end
