(* ===== verification/Goal_Prompts.thy ===== *)
theory Goal_Prompts
  imports Goals
begin

text \<open>
  The hidden prompts of a goal's turns (\<open>crates/core/src/goal_prompts.rs\<close>) and the pause after a
  failed turn (\<open>crates/server/src/runtime/goal_continuation.rs\<close>). The two templates are files of
  prose and are arguments here.
\<close>

section \<open>Text\<close>

text \<open>\<open>str::replace\<close> for a pattern that is not empty: leftmost, without overlaps.\<close>

function replace_str :: "string \<Rightarrow> string \<Rightarrow> string \<Rightarrow> string" where
  "replace_str pat new [] = []"
| "replace_str pat new (c # cs) =
     (if pat = [] then c # replace_str pat new cs
      else (case strip_prefix pat (c # cs) of
              Some rest \<Rightarrow> new @ replace_str pat new rest
            | None \<Rightarrow> c # replace_str pat new cs))"
  by pat_completeness auto
termination
proof (relation "measure (\<lambda>(pat, new, s). length s)")
  fix pat new :: string and c :: char and cs rest :: string
  assume "pat \<noteq> []" "strip_prefix pat (c # cs) = Some rest"
  then have "c # cs = pat @ rest" "0 < length pat" by (simp_all add: strip_prefix_Some)
  then have "length (c # cs) = length pat + length rest" by simp
  with \<open>0 < length pat\<close> show "((pat, new, rest), (pat, new, c # cs)) \<in> measure (\<lambda>(pat, new, s). length s)"
    by simp
qed auto

definition show_i64 :: "int \<Rightarrow> string" where
  "show_i64 i = (if i < 0 then CHR ''-'' # decimal (nat (- i)) else decimal (nat i))"

definition escape_char :: "char \<Rightarrow> string" where
  "escape_char c =
     (if c = CHR ''&'' then ''&amp;''
      else if c = CHR ''<'' then ''&lt;''
      else if c = CHR ''>'' then ''&gt;''
      else if c = CHR 0x22 then ''&quot;''
      else if c = CHR 0x27 then ''&apos;''
      else [c])"

definition needs_escape :: "char \<Rightarrow> bool" where
  "needs_escape c \<longleftrightarrow> c \<in> {CHR ''&'', CHR ''<'', CHR ''>'', CHR 0x22, CHR 0x27}"

text \<open>The text before the first special character is copied, the rest is mapped.\<close>

definition escape_xml_text :: "string \<Rightarrow> string" where
  "escape_xml_text s =
     (case find needs_escape s of
        None \<Rightarrow> s
      | Some _ \<Rightarrow>
          takeWhile (\<lambda>c. \<not> needs_escape c) s @
          concat (map escape_char (dropWhile (\<lambda>c. \<not> needs_escape c) s)))"

definition tg_budget_exhausted :: "thread_goal \<Rightarrow> bool" where
  "tg_budget_exhausted g =
     (case tg_token_budget g of Some b \<Rightarrow> tg_tokens_used g \<ge> b | None \<Rightarrow> False)"

definition budget_string :: "thread_goal \<Rightarrow> string" where
  "budget_string g = (case tg_token_budget g of Some v \<Rightarrow> show_i64 v | None \<Rightarrow> ''none'')"

definition remaining_string :: "thread_goal \<Rightarrow> string" where
  "remaining_string g =
     (case tg_token_budget g of
        Some v \<Rightarrow> show_i64 (max (wrap_i64 (v - tg_tokens_used g)) 0)
      | None \<Rightarrow> ''unlimited'')"

definition render_goal_template :: "string \<Rightarrow> thread_goal \<Rightarrow> string" where
  "render_goal_template template g =
     replace_str ''{{ time_used_seconds }}'' (show_i64 (tg_time_used_seconds g))
       (replace_str ''{{ remaining_tokens }}'' (remaining_string g)
         (replace_str ''{{ token_budget }}'' (budget_string g)
           (replace_str ''{{ tokens_used }}'' (show_i64 (tg_tokens_used g))
             (replace_str ''{{ objective }}'' (escape_xml_text (tg_objective g)) template))))"

definition render_goal_continuation_prompt :: "string \<Rightarrow> string \<Rightarrow> thread_goal \<Rightarrow> string option" where
  "render_goal_continuation_prompt continuation budget_limit g =
     (case tg_status g of
        TActive \<Rightarrow>
          if tg_budget_exhausted g then Some (render_goal_template budget_limit g)
          else Some (render_goal_template continuation g)
      | TBudgetLimited \<Rightarrow> Some (render_goal_template budget_limit g)
      | _ \<Rightarrow> None)"

definition continuation_prompt :: "string \<Rightarrow> string \<Rightarrow> goal \<Rightarrow> string option" where
  "continuation_prompt continuation budget_limit g =
     render_goal_continuation_prompt continuation budget_limit (to_thread_goal g)"

section \<open>The pause after a failed turn\<close>

datatype turn_status = TurnFailed | TurnOther

record finished_turn =
  ft_id :: nat
  ft_status :: turn_status
  ft_started_at :: int
  ft_completed_at :: "int option"

text \<open>An item of the session: its turn and the text of an assistant message.\<close>

type_synonym turn_item = "nat \<times> string option"

definition failed_turn_should_suppress_goal :: "int \<Rightarrow> finished_turn option \<Rightarrow> bool" where
  "failed_turn_should_suppress_goal goal_updated_at latest =
     (case latest of
        None \<Rightarrow> False
      | Some t \<Rightarrow>
          ft_status t = TurnFailed \<and>
          (case ft_completed_at t of Some c \<Rightarrow> c | None \<Rightarrow> ft_started_at t) > goal_updated_at)"

definition latest_failed_turn_error_message :: "turn_item list \<Rightarrow> finished_turn \<Rightarrow> string option" where
  "latest_failed_turn_error_message items t =
     (if ft_status t \<noteq> TurnFailed then None
      else Option.bind
        (find (\<lambda>(i, m). i = ft_id t \<and> (case m of Some x \<Rightarrow> trim x \<noteq> [] | None \<Rightarrow> False)) (rev items))
        snd)"

datatype goal_failure_class =
  ToolCallAdjacency | ProviderParameter | Authentication | Permission | OtherFailure

text \<open>\<open>windows\<close> compared without ASCII case: a substring of the lower-cased text.\<close>

definition contains_ascii_case_insensitive :: "string \<Rightarrow> string \<Rightarrow> bool" where
  "contains_ascii_case_insensitive haystack needle \<longleftrightarrow>
     needle = [] \<or>
     (\<exists>i\<in>set [0..<length haystack].
        i + length needle \<le> length haystack \<and>
        to_ascii_lowercase (take (length needle) (drop i haystack)) = to_ascii_lowercase needle)"

definition mentions :: "string \<Rightarrow> string list \<Rightarrow> bool" where
  "mentions message needles = list_ex (contains_ascii_case_insensitive message) needles"

definition classify_goal_failure :: "string option \<Rightarrow> goal_failure_class" where
  "classify_goal_failure message =
     (case message of
        None \<Rightarrow> OtherFailure
      | Some m \<Rightarrow>
          if mentions m [''tool_calls'', ''tool calls''] \<and>
             mentions m [''tool_call_id'', ''tool messages'', ''insufficient tool messages'']
          then ToolCallAdjacency
          else if mentions m [''401'', ''unauthorized'', ''authentication'', ''api key'', ''token timeout'']
          then Authentication
          else if mentions m [''403'', ''434'', ''forbidden'', ''permission'', ''no api permission'']
          then Permission
          else if mentions m [''400'', ''bad request'', ''invalid request'', ''invalid_request_error'',
              ''invalid parameter'', ''parameter error'']
          then ProviderParameter
          else OtherFailure)"

definition goal_failure_blocker_summary :: "string option \<Rightarrow> string" where
  "goal_failure_blocker_summary message =
     (case classify_goal_failure message of
        ToolCallAdjacency \<Rightarrow> ''Goal continuation paused after an unrecoverable provider/protocol error: the provider rejected a tool-call transcript because assistant tool_calls were not followed by matching tool messages.''
      | ProviderParameter \<Rightarrow> ''Goal continuation paused after an unrecoverable provider parameter error, such as a 400 Bad Request or invalid request payload.''
      | Authentication \<Rightarrow> ''Goal continuation paused after an authentication error. Fix the provider credentials before resuming the goal.''
      | Permission \<Rightarrow> ''Goal continuation paused after a provider permission error. Fix model or account permissions before resuming the goal.''
      | OtherFailure \<Rightarrow> ''Goal continuation paused because the previous turn failed before the goal could continue.'')"

definition pause_after_failed_turn ::
  "int \<Rightarrow> finished_turn option \<Rightarrow> turn_item list \<Rightarrow> logged \<Rightarrow> logged \<times> bool" where
  "pause_after_failed_turn now latest items sl =
     (case fst sl of
        None \<Rightarrow> (sl, False)
      | Some g \<Rightarrow>
          if status g \<noteq> Active \<or> \<not> failed_turn_should_suppress_goal (updated_at g) latest
          then (sl, False)
          else
            (let reason = goal_failure_blocker_summary
                   (Option.bind latest (latest_failed_turn_error_message items));
                 g' = g\<lparr>status := Paused, blocker_summary := Some reason, updated_at := now\<rparr>
             in ((Some g', snd sl @ [status_changed_record g' (status g) (blocker_summary g')]), True)))"

section \<open>Escaping\<close>

lemma escape_char_plain: "\<not> needs_escape c \<Longrightarrow> escape_char c = [c]"
  by (auto simp: needs_escape_def escape_char_def)

lemma escape_map_plain: "\<forall>c\<in>set s. \<not> needs_escape c \<Longrightarrow> concat (map escape_char s) = s"
  by (induction s) (simp_all add: escape_char_plain)

text \<open>The shortcut is the plain mapping.\<close>

lemma escape_xml_text_eq: "escape_xml_text s = concat (map escape_char s)"
proof (cases "find needs_escape s")
  case None
  then have "\<forall>c\<in>set s. \<not> needs_escape c" by (simp add: find_None_iff)
  with None show ?thesis by (simp add: escape_xml_text_def escape_map_plain)
next
  case (Some c)
  have "concat (map escape_char s) =
      concat (map escape_char (takeWhile (\<lambda>c. \<not> needs_escape c) s)) @
      concat (map escape_char (dropWhile (\<lambda>c. \<not> needs_escape c) s))"
    by (metis concat_append map_append takeWhile_dropWhile_id)
  moreover have "concat (map escape_char (takeWhile (\<lambda>c. \<not> needs_escape c) s)) =
      takeWhile (\<lambda>c. \<not> needs_escape c) s"
    by (rule escape_map_plain) (auto dest: set_takeWhileD)
  ultimately show ?thesis using Some by (simp add: escape_xml_text_def)
qed

definition is_markup :: "char \<Rightarrow> bool" where
  "is_markup c \<longleftrightarrow> c \<in> {CHR ''<'', CHR ''>'', CHR 0x22, CHR 0x27}"

lemma escape_no_markup: "\<forall>c\<in>set (escape_xml_text s). \<not> is_markup c"
  by (auto simp: escape_xml_text_eq is_markup_def escape_char_def split: if_splits)

lemma escape_char_not_empty [simp]: "escape_char c \<noteq> []"
  by (simp add: escape_char_def)

lemma escape_char_amp: "needs_escape c \<Longrightarrow> \<exists>x. escape_char c = CHR ''&'' # x"
  by (auto simp: needs_escape_def escape_char_def)

lemma escape_char_inj:
  "escape_char c @ u = escape_char d @ v \<Longrightarrow> c = d \<and> u = v"
proof (cases "needs_escape c"; cases "needs_escape d")
  assume "escape_char c @ u = escape_char d @ v" "needs_escape c" "needs_escape d"
  then show ?thesis unfolding needs_escape_def by (elim insertE emptyE) (simp_all add: escape_char_def)
next
  assume "escape_char c @ u = escape_char d @ v" "needs_escape c" "\<not> needs_escape d"
  with escape_char_amp[of c] escape_char_plain[of d] show ?thesis by (auto simp: needs_escape_def)
next
  assume "escape_char c @ u = escape_char d @ v" "\<not> needs_escape c" "needs_escape d"
  with escape_char_amp[of d] escape_char_plain[of c] show ?thesis by (auto simp: needs_escape_def)
next
  assume "escape_char c @ u = escape_char d @ v" "\<not> needs_escape c" "\<not> needs_escape d"
  with escape_char_plain[of d] escape_char_plain[of c] show ?thesis by simp
qed

lemma escape_inj_aux:
  "concat (map escape_char s) = concat (map escape_char t) \<Longrightarrow> s = t"
proof (induction s arbitrary: t)
  case Nil
  then show ?case by (cases t) auto
next
  case (Cons c s)
  then obtain d t' where t: "t = d # t'" by (cases t) auto
  have "c = d \<and> concat (map escape_char s) = concat (map escape_char t')"
    using Cons.prems t by (intro escape_char_inj) simp
  with Cons.IH[of t'] t show ?case by simp
qed

lemma is_markup_code: "is_markup c \<Longrightarrow> (of_char c :: nat) \<in> {34, 39, 60, 62}"
  by (auto simp: is_markup_def)

lemma digit_no_markup: "d < 10 \<Longrightarrow> \<not> is_markup (char_of (48 + d))" for d :: nat
  using is_markup_code[of "char_of (48 + d)"] by auto

lemma decimal_no_markup: "\<forall>c\<in>set (decimal n). \<not> is_markup c"
proof (induction n rule: decimal.induct)
  case (1 n)
  then show ?case
    using digit_no_markup[of n] digit_no_markup[of "n mod 10"]
    by (cases "n < 10") (simp_all add: decimal.simps[of n] ball_Un)
qed

lemma show_i64_no_markup: "\<forall>c\<in>set (show_i64 i). \<not> is_markup c"
  using decimal_no_markup by (auto simp: show_i64_def is_markup_def)

lemma filter_replace_str:
  assumes "\<forall>c\<in>set pat. \<not> P c" "\<forall>c\<in>set new. \<not> P c"
  shows "filter P (replace_str pat new s) = filter P s"
  using assms
proof (induction pat new s rule: replace_str.induct)
  case (2 pat new c cs)
  show ?case
  proof (cases "pat = [] \<or> strip_prefix pat (c # cs) = None")
    case True
    with 2 show ?thesis by auto
  next
    case False
    then obtain rest where rest: "pat \<noteq> []" "strip_prefix pat (c # cs) = Some rest" by auto
    then have "filter P (c # cs) = filter P rest"
      using 2(4) by (simp add: strip_prefix_Some)
    with 2 rest show ?thesis by simp
  qed
qed simp

lemma value_no_markup:
  "\<forall>c\<in>set (budget_string g). \<not> is_markup c" "\<forall>c\<in>set (remaining_string g). \<not> is_markup c"
  using show_i64_no_markup
  by (auto simp: budget_string_def remaining_string_def is_markup_def split: option.splits)

section \<open>Properties\<close>

text \<open>
  whatever the objective says, rendering a template adds no angle bracket and no quote to it and
  removes none, so an objective cannot open or close a tag of the prompt; and the escaped text
  determines the objective.
\<close>

lemma objective_cannot_add_markup:
  "filter is_markup (render_goal_template template g) = filter is_markup template \<and>
   inj escape_xml_text"
proof
  show "filter is_markup (render_goal_template template g) = filter is_markup template"
    unfolding render_goal_template_def
    using value_no_markup show_i64_no_markup escape_no_markup
    by (simp add: filter_replace_str is_markup_def)
  show "inj escape_xml_text"
    by (rule injI) (rule escape_inj_aux, simp add: escape_xml_text_eq)
qed

text \<open>
  after a failed turn that ended after the goal's last change, an active goal is paused with the
  reason of the failure, the log records it, replay still agrees with the store, and no continuation
  starts until an event activates the goal again.
\<close>

lemma failed_turn_pauses_goal:
  assumes "tracks (Some g, log)" "status g = Active"
    and "ft_status t = TurnFailed" "ft_started_at t > updated_at g" "ft_completed_at t = None"
    and "\<forall>ev\<in>set evs. \<not> may_activate ev"
  shows "snd (pause_after_failed_turn now (Some t) items (Some g, log)) \<and>
    tracks (fst (pause_after_failed_turn now (Some t) items (Some g, log))) \<and>
    \<not> snd (handle_continuation_start now' gid
        (foldl (run_event show_id) (fst (pause_after_failed_turn now (Some t) items (Some g, log))) evs))"
proof -
  let ?r = "goal_failure_blocker_summary (latest_failed_turn_error_message items t)"
  let ?g = "g\<lparr>status := Paused, blocker_summary := Some ?r, updated_at := now\<rparr>"
  have eq: "pause_after_failed_turn now (Some t) items (Some g, log) =
      ((Some ?g, log @ [status_changed_record ?g (status g) (blocker_summary ?g)]), True)"
    using assms by (simp add: pause_after_failed_turn_def failed_turn_should_suppress_goal_def Let_def)
  have "tracks (Some ?g, log @ [status_changed_record ?g (status g) (blocker_summary ?g)])"
    using assms(1) by (rule status_record_tracks) (simp add: persistent_part_def)
  moreover have "not_active (fst (foldl (run_event show_id)
      (Some ?g, log @ [status_changed_record ?g (status g) (blocker_summary ?g)]) evs))"
    by (intro goal_rest.kept_by_all assms(6)) (simp add: not_active_def)
  ultimately show ?thesis
    unfolding eq by (simp add: handle_continuation_start_def not_active_no_start)
qed

definition fresh_goal :: goal where
  "fresh_goal = sample_goal\<lparr>usage := default_usage\<rparr>"

lemma failed_turn_pauses_goal_witness:
  "snd (pause_after_failed_turn 20
     (Some \<lparr>ft_id = 4, ft_status = TurnFailed, ft_started_at = 10, ft_completed_at = None\<rparr>)
     [(4, Some ''HTTP 401'')] (Some fresh_goal, [goal_created_record fresh_goal]))"
proof -
  have "tracks (Some fresh_goal, [goal_created_record fresh_goal])"
    using created_tracks[of fresh_goal "[]"] by (simp add: fresh_goal_def sample_goal_def)
  from failed_turn_pauses_goal[OF this, of "\<lparr>ft_id = 4, ft_status = TurnFailed, ft_started_at = 10,
      ft_completed_at = None\<rparr>" "[]" 20 "[(4, Some ''HTTP 401'')]" 0 0 "\<lambda>_. []"]
  show ?thesis by (simp add: fresh_goal_def sample_goal_def)
qed

text \<open>
  The objective is substituted before the other placeholders, so an objective that spells one of
  them is replaced too.
\<close>

lemma objective_is_interpolated_again:
  "render_goal_template ''{{ objective }}'' (to_thread_goal (fresh_goal\<lparr>objective := ''{{ tokens_used }}''\<rparr>))
     = decimal 0"
  by (simp add: render_goal_template_def to_thread_goal_def fresh_goal_def sample_goal_def
      default_usage_def escape_xml_text_eq escape_char_def show_i64_def budget_string_def
      remaining_string_def default_budget_def decimal.simps)

end
