(* ===== verification/Exec_Policy.thy ===== *)
theory Exec_Policy
  imports Prelude "HOL-Library.List_Lexorder" "HOL-Library.Char_ord"
begin

text \<open>
  The execution policy (\<open>crates/execpolicy/src/decision.rs\<close>, \<open>rule.rs\<close>, \<open>policy.rs\<close>): prefix rules
  keyed by program, their matching with the lookup of host executables, the evaluation of a command
  by its strictest match, overlays, and the network rules with the normalisation of their hosts.
  \<open>PrefixRule\<close> is the only implementation of the \<open>Rule\<close> trait. The multimap is an association list
  from programs to rule lists; \<open>abs_path\<close> (a token as an absolute path) and \<open>file_name\<close> (the last
  component of a path, the lookup key on platforms other than Windows) are arguments, and so is the
  rendering of an example command.
\<close>

section \<open>Decisions\<close>

datatype decision = Allow | Prompt | Forbidden

fun severity :: "decision \<Rightarrow> nat" where
  "severity Allow = 0"
| "severity Prompt = 1"
| "severity Forbidden = 2"

lemma severity_inj: "severity a = severity b \<Longrightarrow> a = b"
  by (cases a; cases b) simp_all

instantiation decision :: linorder
begin

definition less_eq_decision :: "decision \<Rightarrow> decision \<Rightarrow> bool" where
  "less_eq_decision a b \<longleftrightarrow> severity a \<le> severity b"

definition less_decision :: "decision \<Rightarrow> decision \<Rightarrow> bool" where
  "less_decision a b \<longleftrightarrow> severity a < severity b"

instance
  by standard (auto simp: less_eq_decision_def less_decision_def intro: severity_inj)

end

lemma decision_order [simp]:
  "Allow \<le> d" "d \<le> Forbidden" "Prompt \<le> Allow \<longleftrightarrow> False" "Forbidden \<le> d \<longleftrightarrow> d = Forbidden"
  by (cases d; simp add: less_eq_decision_def)+

datatype policy_error = InvalidDecision string | InvalidPattern string | InvalidRule string
  | ExampleDidNotMatch "string list" | ExampleDidMatch string

definition parse_decision :: "string \<Rightarrow> policy_error + decision" where
  "parse_decision raw =
     (if raw = ''allow'' then Inr Allow
      else if raw = ''prompt'' then Inr Prompt
      else if raw = ''forbidden'' then Inr Forbidden
      else Inl (InvalidDecision raw))"

section \<open>Rules\<close>

datatype pattern_token = Single string | Alts "string list"

fun token_matches :: "pattern_token \<Rightarrow> string \<Rightarrow> bool" where
  "token_matches (Single expected) t \<longleftrightarrow> expected = t"
| "token_matches (Alts alternatives) t \<longleftrightarrow> list_ex (\<lambda>alt. alt = t) alternatives"

record prefix_rule =
  pr_first :: string
  pr_rest :: "pattern_token list"
  pr_decision :: decision
  pr_justification :: "string option"

definition matches_prefix :: "prefix_rule \<Rightarrow> string list \<Rightarrow> string list option" where
  "matches_prefix r cmd =
     (let n = length (pr_rest r) + 1 in
      if length cmd < n \<or> cmd ! 0 \<noteq> pr_first r then None
      else if list_all (\<lambda>(p, t). token_matches p t) (zip (pr_rest r) (drop 1 (take n cmd)))
      then Some (take n cmd) else None)"

datatype rule_match =
    PrefixRuleMatch "string list" decision "string option" "string option"
  | HeuristicsRuleMatch "string list" decision

fun match_decision :: "rule_match \<Rightarrow> decision" where
  "match_decision (PrefixRuleMatch _ d _ _) = d"
| "match_decision (HeuristicsRuleMatch _ d) = d"

fun with_resolved_program :: "string \<Rightarrow> rule_match \<Rightarrow> rule_match" where
  "with_resolved_program p (PrefixRuleMatch m d _ j) = PrefixRuleMatch m d (Some p) j"
| "with_resolved_program p other = other"

definition rule_matches :: "prefix_rule \<Rightarrow> string list \<Rightarrow> rule_match option" where
  "rule_matches r cmd =
     map_option (\<lambda>m. PrefixRuleMatch m (pr_decision r) None (pr_justification r)) (matches_prefix r cmd)"

datatype network_protocol = Http | Https | Socks5Tcp | Socks5Udp

definition parse_network_protocol :: "string \<Rightarrow> policy_error + network_protocol" where
  "parse_network_protocol raw =
     (if raw = ''http'' then Inr Http
      else if raw \<in> set [''https'', ''https_connect'', ''http-connect''] then Inr Https
      else if raw = ''socks5_tcp'' then Inr Socks5Tcp
      else if raw = ''socks5_udp'' then Inr Socks5Udp
      else Inl (InvalidRule (''network_rule protocol must be one of http, https, socks5_tcp, socks5_udp (got ''
        @ raw @ '')'')))"

fun as_policy_string :: "network_protocol \<Rightarrow> string" where
  "as_policy_string Http = ''http''"
| "as_policy_string Https = ''https''"
| "as_policy_string Socks5Tcp = ''socks5_tcp''"
| "as_policy_string Socks5Udp = ''socks5_udp''"

record network_rule =
  nr_host :: string
  nr_protocol :: network_protocol
  nr_decision :: decision
  nr_justification :: "string option"

definition split_once :: "char \<Rightarrow> string \<Rightarrow> (string \<times> string) option" where
  "split_once c s =
     (if c \<in> set s then Some (takeWhile (\<lambda>x. x \<noteq> c) s, drop 1 (dropWhile (\<lambda>x. x \<noteq> c) s)) else None)"

definition rsplit_once :: "char \<Rightarrow> string \<Rightarrow> (string \<times> string) option" where
  "rsplit_once c s = map_option (\<lambda>(a, b). (rev b, rev a)) (split_once c (rev s))"

definition is_port :: "string \<Rightarrow> bool" where
  "is_port p \<longleftrightarrow> p \<noteq> [] \<and> list_all is_ascii_digit p"

definition trim_end_dots :: "string \<Rightarrow> string" where
  "trim_end_dots s = rev (dropWhile (\<lambda>c. c = CHR ''.'') (rev s))"

text \<open>The host without brackets and port; \<open>raw\<close> is the input as given.\<close>

definition strip_port :: "string \<Rightarrow> string \<Rightarrow> policy_error + string" where
  "strip_port raw host =
     (case strip_prefix ''['' host of
        Some stripped \<Rightarrow>
          (case split_once (CHR '']'') stripped of
             None \<Rightarrow> Inl (InvalidRule ''network_rule host has an invalid bracketed IPv6 literal'')
           | Some (inside, rest) \<Rightarrow>
               if rest \<noteq> [] \<and>
                  \<not> (case strip_prefix '':'' rest of Some port \<Rightarrow> is_port port | None \<Rightarrow> False)
               then Inl (InvalidRule (''network_rule host contains an unsupported suffix: '' @ raw))
               else Inr inside)
      | None \<Rightarrow>
          if length (filter (\<lambda>c. c = CHR '':'') host) = 1
          then (case rsplit_once (CHR '':'') host of
                  Some (candidate, port) \<Rightarrow>
                    if candidate \<noteq> [] \<and> is_port port then Inr candidate else Inr host
                | None \<Rightarrow> Inr host)
          else Inr host)"

definition normalize_network_rule_host :: "string \<Rightarrow> policy_error + string" where
  "normalize_network_rule_host raw =
     (let host = trim raw in
      if host = [] then Inl (InvalidRule ''network_rule host cannot be empty'')
      else if contains_str host ''://'' \<or> CHR ''/'' \<in> set host \<or> CHR ''?'' \<in> set host \<or> CHR ''#'' \<in> set host
      then Inl (InvalidRule ''network_rule host must be a hostname or IP literal (without scheme or path)'')
      else
        (case strip_port raw host of
           Inl e \<Rightarrow> Inl e
         | Inr h \<Rightarrow>
             (let n = to_ascii_lowercase (trim (trim_end_dots h)) in
              if n = [] then Inl (InvalidRule ''network_rule host cannot be empty'')
              else if CHR ''*'' \<in> set n
              then Inl (InvalidRule
                     ''network_rule host must be a specific host; wildcards are not allowed'')
              else if list_ex is_ws n
              then Inl (InvalidRule ''network_rule host cannot contain whitespace'')
              else Inr n)))"

section \<open>The policy\<close>

record policy =
  rules_by_program :: "(string \<times> prefix_rule list) list"
  network_rules :: "network_rule list"
  host_executables_by_name :: "string \<rightharpoonup> string list"

definition empty_policy :: policy where
  "empty_policy = \<lparr>rules_by_program = [], network_rules = [], host_executables_by_name = Map.empty\<rparr>"

definition rules_of :: "policy \<Rightarrow> string \<Rightarrow> prefix_rule list option" where
  "rules_of p program = map_of (rules_by_program p) program"

text \<open>\<open>MultiMap::insert\<close>.\<close>

fun multi_insert :: "string \<Rightarrow> prefix_rule \<Rightarrow> (string \<times> prefix_rule list) list \<Rightarrow>
    (string \<times> prefix_rule list) list" where
  "multi_insert k r [] = [(k, [r])]"
| "multi_insert k r ((k', rs) # m) = (if k' = k then (k', rs @ [r]) # m else (k', rs) # multi_insert k r m)"

definition render_pattern_token :: "pattern_token \<Rightarrow> string" where
  "render_pattern_token t =
     (case t of Single v \<Rightarrow> v | Alts as \<Rightarrow> ''['' @ join ''|'' as @ '']'')"

definition get_allowed_prefixes :: "policy \<Rightarrow> string list list" where
  "get_allowed_prefixes p =
     remdups_adj (sort
       (map (\<lambda>r. pr_first r # map render_pattern_token (pr_rest r))
         (filter (\<lambda>r. pr_decision r = Allow) (concat (map snd (rules_by_program p))))))"

definition add_prefix_rule :: "policy \<Rightarrow> string list \<Rightarrow> decision \<Rightarrow> policy_error + policy" where
  "add_prefix_rule p tokens d =
     (case tokens of
        [] \<Rightarrow> Inl (InvalidPattern ''prefix cannot be empty'')
      | first # rest \<Rightarrow>
          Inr (p\<lparr>rules_by_program := multi_insert first
            \<lparr>pr_first = first, pr_rest = map Single rest, pr_decision = d, pr_justification = None\<rparr>
            (rules_by_program p)\<rparr>))"

definition add_network_rule ::
  "policy \<Rightarrow> string \<Rightarrow> network_protocol \<Rightarrow> decision \<Rightarrow> string option \<Rightarrow> policy_error + policy" where
  "add_network_rule p host protocol d justification =
     (case normalize_network_rule_host host of
        Inl e \<Rightarrow> Inl e
      | Inr h \<Rightarrow>
          if (case justification of Some raw \<Rightarrow> trim raw = [] | None \<Rightarrow> False)
          then Inl (InvalidRule ''justification cannot be empty'')
          else Inr (p\<lparr>network_rules := network_rules p @
            [\<lparr>nr_host = h, nr_protocol = protocol, nr_decision = d, nr_justification = justification\<rparr>]\<rparr>))"

definition set_host_executable_paths :: "policy \<Rightarrow> string \<Rightarrow> string list \<Rightarrow> policy" where
  "set_host_executable_paths p name paths =
     p\<lparr>host_executables_by_name := (host_executables_by_name p)(name \<mapsto> paths)\<rparr>"

definition merge_rules ::
  "(string \<times> prefix_rule list) list \<Rightarrow> (string \<times> prefix_rule list) list \<Rightarrow> (string \<times> prefix_rule list) list" where
  "merge_rules base overlay =
     foldl (\<lambda>m (k, rs). foldl (\<lambda>m r. multi_insert k r m) m rs) base overlay"

definition merge_overlay :: "policy \<Rightarrow> policy \<Rightarrow> policy" where
  "merge_overlay p overlay =
     \<lparr>rules_by_program = merge_rules (rules_by_program p) (rules_by_program overlay),
      network_rules = network_rules p @ network_rules overlay,
      host_executables_by_name = host_executables_by_name p ++ host_executables_by_name overlay\<rparr>"

definition upsert_domain :: "string list \<Rightarrow> string \<Rightarrow> string list" where
  "upsert_domain entries host = filter (\<lambda>e. e \<noteq> host) entries @ [host]"

fun compile_step :: "string list \<times> string list \<Rightarrow> network_rule \<Rightarrow> string list \<times> string list" where
  "compile_step (allowed, denied) r =
     (case nr_decision r of
        Allow \<Rightarrow> (upsert_domain allowed (nr_host r), filter (\<lambda>e. e \<noteq> nr_host r) denied)
      | Forbidden \<Rightarrow> (filter (\<lambda>e. e \<noteq> nr_host r) allowed, upsert_domain denied (nr_host r))
      | Prompt \<Rightarrow> (allowed, denied))"

definition compiled_network_domains :: "policy \<Rightarrow> string list \<times> string list" where
  "compiled_network_domains p = foldl compile_step ([], []) (network_rules p)"

section \<open>Evaluation\<close>

definition match_exact_rules :: "policy \<Rightarrow> string list \<Rightarrow> rule_match list option" where
  "match_exact_rules p cmd =
     (case cmd of
        [] \<Rightarrow> None
      | first # _ \<Rightarrow>
          Some (case rules_of p first of
                  Some rules \<Rightarrow> List.map_filter (\<lambda>r. rule_matches r cmd) rules
                | None \<Rightarrow> []))"

definition match_host_executable_rules ::
  "(string \<Rightarrow> string option) \<Rightarrow> (string \<Rightarrow> string option) \<Rightarrow> policy \<Rightarrow> string list \<Rightarrow> rule_match list" where
  "match_host_executable_rules abs_path file_name p cmd =
     (case cmd of
        [] \<Rightarrow> []
      | first # args \<Rightarrow>
          (case abs_path first of
             None \<Rightarrow> []
           | Some program \<Rightarrow>
               (case file_name program of
                  None \<Rightarrow> []
                | Some basename \<Rightarrow>
                    (case rules_of p basename of
                       None \<Rightarrow> []
                     | Some rules \<Rightarrow>
                         if (case host_executables_by_name p basename of
                               Some paths \<Rightarrow> \<not> list_ex (\<lambda>x. x = program) paths
                             | None \<Rightarrow> False)
                         then []
                         else map (with_resolved_program program)
                                (List.map_filter (\<lambda>r. rule_matches r (basename # args)) rules)))))"

definition non_empty :: "'a list option \<Rightarrow> 'a list option" where
  "non_empty x = (case x of Some (a # as) \<Rightarrow> Some (a # as) | _ \<Rightarrow> None)"

definition matches_for_command_with_options ::
  "(string \<Rightarrow> string option) \<Rightarrow> (string \<Rightarrow> string option) \<Rightarrow> bool \<Rightarrow> policy \<Rightarrow> string list \<Rightarrow>
   (string list \<Rightarrow> decision) option \<Rightarrow> rule_match list" where
  "matches_for_command_with_options abs_path file_name resolve_host p cmd fallback =
     (let matched =
        (case non_empty (match_exact_rules p cmd) of
           Some ms \<Rightarrow> ms
         | None \<Rightarrow>
             if resolve_host then
               (case non_empty (Some (match_host_executable_rules abs_path file_name p cmd)) of
                  Some ms \<Rightarrow> ms | None \<Rightarrow> [])
             else [])
      in case (matched, fallback) of
           ([], Some f) \<Rightarrow> [HeuristicsRuleMatch cmd (f cmd)]
         | _ \<Rightarrow> matched)"

record evaluation =
  ev_decision :: decision
  ev_matched :: "rule_match list"

text \<open>\<open>None\<close> is the panic of \<open>expect\<close>.\<close>

definition from_matches :: "rule_match list \<Rightarrow> evaluation option" where
  "from_matches ms =
     (case map match_decision ms of
        [] \<Rightarrow> None
      | d # ds \<Rightarrow> Some \<lparr>ev_decision = foldl max d ds, ev_matched = ms\<rparr>)"

definition is_match :: "evaluation \<Rightarrow> bool" where
  "is_match e = list_ex (\<lambda>m. case m of HeuristicsRuleMatch _ _ \<Rightarrow> False | _ \<Rightarrow> True) (ev_matched e)"

definition check_with_options ::
  "(string \<Rightarrow> string option) \<Rightarrow> (string \<Rightarrow> string option) \<Rightarrow> bool \<Rightarrow> policy \<Rightarrow> string list \<Rightarrow>
   (string list \<Rightarrow> decision) \<Rightarrow> evaluation option" where
  "check_with_options abs_path file_name resolve_host p cmd fallback =
     from_matches (matches_for_command_with_options abs_path file_name resolve_host p cmd (Some fallback))"

definition check_multiple_with_options ::
  "(string \<Rightarrow> string option) \<Rightarrow> (string \<Rightarrow> string option) \<Rightarrow> bool \<Rightarrow> policy \<Rightarrow> string list list \<Rightarrow>
   (string list \<Rightarrow> decision) \<Rightarrow> evaluation option" where
  "check_multiple_with_options abs_path file_name resolve_host p cmds fallback =
     from_matches (concat (map
       (\<lambda>cmd. matches_for_command_with_options abs_path file_name resolve_host p cmd (Some fallback)) cmds))"

definition validate_match_examples ::
  "(string \<Rightarrow> string option) \<Rightarrow> (string \<Rightarrow> string option) \<Rightarrow> (string list \<Rightarrow> string option) \<Rightarrow> policy \<Rightarrow>
   string list list \<Rightarrow> policy_error option" where
  "validate_match_examples abs_path file_name try_join p examples =
     (let unmatched = filter
            (\<lambda>e. matches_for_command_with_options abs_path file_name True p e None = []) examples
      in if unmatched = [] then None
         else Some (ExampleDidNotMatch (map (\<lambda>e. case try_join e of Some s \<Rightarrow> s
                      | None \<Rightarrow> ''unable to render example'') unmatched)))"

fun validate_not_match_examples ::
  "(string \<Rightarrow> string option) \<Rightarrow> (string \<Rightarrow> string option) \<Rightarrow> (string list \<Rightarrow> string option) \<Rightarrow> policy \<Rightarrow>
   string list list \<Rightarrow> policy_error option" where
  "validate_not_match_examples abs_path file_name try_join p [] = None"
| "validate_not_match_examples abs_path file_name try_join p (e # es) =
     (case matches_for_command_with_options abs_path file_name True p e None of
        m # _ \<Rightarrow> Some (ExampleDidMatch (case try_join e of Some s \<Rightarrow> s
                   | None \<Rightarrow> ''unable to render example''))
      | [] \<Rightarrow> validate_not_match_examples abs_path file_name try_join p es)"

section \<open>Merging and strictness\<close>

lemma map_of_multi_insert:
  "map_of (multi_insert k r m) =
     (map_of m)(k \<mapsto> (case map_of m k of Some rs \<Rightarrow> rs @ [r] | None \<Rightarrow> [r]))"
  by (induction k r m rule: multi_insert.induct) (auto split: option.splits)

text \<open>A later map extends an earlier one when every program keeps its rules, as a prefix.\<close>

definition extends :: "(string \<times> prefix_rule list) list \<Rightarrow> (string \<times> prefix_rule list) list \<Rightarrow> bool" where
  "extends m m' \<longleftrightarrow> (\<forall>k rs. map_of m k = Some rs \<longrightarrow> (\<exists>qs. map_of m' k = Some (rs @ qs)))"

lemma extends_refl [simp]: "extends m m"
  by (simp add: extends_def)

lemma extends_trans: "extends a b \<Longrightarrow> extends b c \<Longrightarrow> extends a c"
  unfolding extends_def by (metis append.assoc)

lemma extends_insert: "extends m (multi_insert k r m)"
  by (auto simp: extends_def map_of_multi_insert)

lemma extends_insert_all: "extends m (foldl (\<lambda>m r. multi_insert k r m) m rs)"
  by (induction rs arbitrary: m) (auto intro: extends_trans extends_insert)

lemma extends_merge: "extends m (merge_rules m overlay)"
  unfolding merge_rules_def
proof (induction overlay arbitrary: m)
  case (Cons kr overlay)
  obtain k rs where [simp]: "kr = (k, rs)" by (cases kr)
  show ?case
    using Cons.IH[of "foldl (\<lambda>m r. multi_insert k r m) m rs"] extends_insert_all[of m k rs]
    by (auto intro: extends_trans)
qed simp

lemma foldl_max_le: "foldl max (d :: 'a :: linorder) ds \<le> x \<longleftrightarrow> d \<le> x \<and> (\<forall>e\<in>set ds. e \<le> x)"
  by (induction ds arbitrary: d) auto

lemma foldl_max_in: "foldl max (d :: 'a :: linorder) ds \<in> insert d (set ds)"
  by (induction ds arbitrary: d) (auto simp: max_def)

lemma from_matches_total: "ms \<noteq> [] \<Longrightarrow> \<exists>e. from_matches ms = Some e \<and> ev_matched e = ms"
  by (cases ms) (auto simp: from_matches_def)

lemma from_matches_strictest:
  assumes "from_matches ms = Some e"
  shows "ev_decision e \<in> match_decision ` set ms" "\<forall>m\<in>set ms. match_decision m \<le> ev_decision e"
proof -
  obtain m ms' where ms: "ms = m # ms'" using assms by (cases ms) (auto simp: from_matches_def)
  then have e: "ev_decision e = foldl max (match_decision m) (map match_decision ms')"
    using assms by (auto simp: from_matches_def)
  show "ev_decision e \<in> match_decision ` set ms"
    using foldl_max_in[of "match_decision m" "map match_decision ms'"] by (auto simp: e ms)
  show "\<forall>m\<in>set ms. match_decision m \<le> ev_decision e"
    using foldl_max_le[of "match_decision m" "map match_decision ms'" "ev_decision e"] by (auto simp: e ms)
qed

lemma from_matches_mono:
  assumes "set ms \<subseteq> set ms'" "from_matches ms = Some e" "from_matches ms' = Some e'"
  shows "ev_decision e \<le> ev_decision e'"
  using from_matches_strictest(1)[OF assms(2)] from_matches_strictest(2)[OF assms(3)] assms(1) by auto

lemma matches_not_empty [simp]:
  "matches_for_command_with_options abs_path file_name rh p cmd (Some f) \<noteq> []"
  by (auto simp: matches_for_command_with_options_def Let_def split: list.splits)

lemma exact_matches:
  assumes "match_exact_rules p cmd = Some (m # ms)"
  shows "matches_for_command_with_options abs_path file_name rh p cmd f = m # ms"
  using assms by (simp add: matches_for_command_with_options_def non_empty_def Let_def)

lemma map_filter_append: "List.map_filter f (xs @ ys) = List.map_filter f xs @ List.map_filter f ys"
  by (induction xs) (auto simp: List.map_filter_simps split: option.splits)

lemma exact_matches_grow:
  assumes "extends (rules_by_program p) (rules_by_program p')" "match_exact_rules p cmd = Some ms"
  shows "\<exists>ms'. match_exact_rules p' cmd = Some (ms @ ms')"
proof (cases cmd)
  case (Cons first args)
  then show ?thesis
    using assms by (cases "rules_of p first")
      (fastforce simp: match_exact_rules_def rules_of_def extends_def map_filter_append)+
qed (use assms in \<open>simp add: match_exact_rules_def\<close>)

section \<open>Network domains\<close>

text \<open>The last rule for a host that allows or forbids it.\<close>

definition last_verdict :: "network_rule list \<Rightarrow> string \<Rightarrow> decision option" where
  "last_verdict rules host =
     map_option nr_decision
       (find (\<lambda>r. nr_host r = host \<and> nr_decision r \<noteq> Prompt) (rev rules))"

lemma last_verdict_snoc:
  "last_verdict (rules @ [r]) host =
     (if nr_host r = host \<and> nr_decision r \<noteq> Prompt then Some (nr_decision r) else last_verdict rules host)"
  by (simp add: last_verdict_def)

lemma set_upsert [simp]: "set (upsert_domain es h) = insert h (set es)"
  by (auto simp: upsert_domain_def)

lemma distinct_upsert [simp]: "distinct es \<Longrightarrow> distinct (upsert_domain es h)"
  by (simp add: upsert_domain_def)

lemma compile_domains:
  "case foldl compile_step ([], []) rules of (allowed, denied) \<Rightarrow>
     distinct allowed \<and> distinct denied \<and>
     (\<forall>h. (h \<in> set allowed \<longleftrightarrow> last_verdict rules h = Some Allow) \<and>
          (h \<in> set denied \<longleftrightarrow> last_verdict rules h = Some Forbidden))"
proof (induction rules rule: rev_induct)
  case Nil
  then show ?case by (simp add: last_verdict_def)
next
  case (snoc r rules)
  then show ?case
    by (cases "nr_decision r"; cases "foldl compile_step ([], []) rules")
      (auto simp: last_verdict_snoc)
qed

section \<open>Properties\<close>

text \<open>
  checking a command never panics, its decision is the strictest of the matched rules, and
  putting an overlay on the policy can only make the decision of a command with an exact match
  stricter, whatever the overlay's rules are.
\<close>

lemma overlay_never_loosens:
  "\<exists>e e'. check_with_options abs_path file_name rh p cmd f = Some e \<and>
     check_with_options abs_path file_name rh (merge_overlay p overlay) cmd f = Some e' \<and>
     ev_decision e \<in> match_decision ` set (ev_matched e) \<and>
     (\<forall>m\<in>set (ev_matched e). match_decision m \<le> ev_decision e) \<and>
     (match_exact_rules p cmd \<noteq> None \<and> match_exact_rules p cmd \<noteq> Some [] \<longrightarrow>
        set (ev_matched e) \<subseteq> set (ev_matched e') \<and> ev_decision e \<le> ev_decision e')"
proof -
  let ?m = "\<lambda>p. matches_for_command_with_options abs_path file_name rh p cmd (Some f)"
  obtain e e' where e: "from_matches (?m p) = Some e" "ev_matched e = ?m p"
      "from_matches (?m (merge_overlay p overlay)) = Some e'"
      "ev_matched e' = ?m (merge_overlay p overlay)"
    using from_matches_total[of "?m p"] from_matches_total[of "?m (merge_overlay p overlay)"] by auto
  have "set (?m p) \<subseteq> set (?m (merge_overlay p overlay))"
    if "match_exact_rules p cmd \<noteq> None" "match_exact_rules p cmd \<noteq> Some []"
  proof -
    from that obtain m ms where ms: "match_exact_rules p cmd = Some (m # ms)"
      by (metis list.exhaust option.exhaust)
    have "extends (rules_by_program p) (rules_by_program (merge_overlay p overlay))"
      by (simp add: merge_overlay_def extends_merge)
    then obtain ms' where "match_exact_rules (merge_overlay p overlay) cmd = Some (m # ms @ ms')"
      using exact_matches_grow ms by fastforce
    then show ?thesis by (auto simp: exact_matches[OF ms] exact_matches)
  qed
  then show ?thesis
    using e from_matches_mono[OF _ e(1) e(3)] from_matches_strictest[OF e(1)]
    by (auto simp: check_with_options_def)
qed

definition git_policy :: policy where
  "git_policy = empty_policy\<lparr>rules_by_program :=
     [(''git'', [\<lparr>pr_first = ''git'', pr_rest = [Alts [''push'', ''reset'']], pr_decision = Prompt,
                 pr_justification = None\<rparr>])]\<rparr>"

definition allow_all_git :: policy where
  "allow_all_git = empty_policy\<lparr>rules_by_program :=
     [(''git'', [\<lparr>pr_first = ''git'', pr_rest = [], pr_decision = Allow, pr_justification = None\<rparr>])]\<rparr>"

lemma overlay_never_loosens_witness:
  "\<exists>e. check_with_options (\<lambda>_. None) (\<lambda>_. None) False (merge_overlay git_policy allow_all_git)
      [''git'', ''push''] (\<lambda>_. Forbidden) = Some e \<and> Prompt \<le> ev_decision e"
proof -
  have ex: "match_exact_rules git_policy [''git'', ''push''] =
      Some [PrefixRuleMatch [''git'', ''push''] Prompt None None]"
    by (simp add: match_exact_rules_def git_policy_def rules_of_def rule_matches_def matches_prefix_def
        List.map_filter_simps)
  from overlay_never_loosens[of "\<lambda>_. None" "\<lambda>_. None" False git_policy "[''git'', ''push'']"
      "\<lambda>_. Forbidden" allow_all_git]
  obtain e e' where e: "check_with_options (\<lambda>_. None) (\<lambda>_. None) False git_policy [''git'', ''push'']
        (\<lambda>_. Forbidden) = Some e"
      "check_with_options (\<lambda>_. None) (\<lambda>_. None) False (merge_overlay git_policy allow_all_git)
        [''git'', ''push''] (\<lambda>_. Forbidden) = Some e'" "ev_decision e \<le> ev_decision e'"
    using ex by auto
  moreover have "ev_decision e = Prompt"
    using e(1) by (auto simp: check_with_options_def exact_matches[OF ex] from_matches_def)
  ultimately show ?thesis by auto
qed

text \<open>
  compiling the network rules gives two lists without duplicates in which a host is allowed, or
  denied, exactly when the last rule for it that is not a prompt allows, or forbids, it; so no host
  is in both.
\<close>

lemma domains_follow_last_rule:
  assumes "compiled_network_domains p = (allowed, denied)"
  shows "distinct allowed \<and> distinct denied \<and> set allowed \<inter> set denied = {} \<and>
    (\<forall>h. (h \<in> set allowed \<longleftrightarrow> last_verdict (network_rules p) h = Some Allow) \<and>
         (h \<in> set denied \<longleftrightarrow> last_verdict (network_rules p) h = Some Forbidden))"
  using compile_domains[of "network_rules p"] assms by (auto simp: compiled_network_domains_def)

definition net_policy :: policy where
  "net_policy = empty_policy\<lparr>network_rules :=
     [\<lparr>nr_host = ''a.org'', nr_protocol = Https, nr_decision = Allow, nr_justification = None\<rparr>,
      \<lparr>nr_host = ''a.org'', nr_protocol = Http, nr_decision = Forbidden, nr_justification = None\<rparr>]\<rparr>"

lemma domains_follow_last_rule_witness:
  "compiled_network_domains net_policy = ([], [''a.org'']) \<and>
   last_verdict (network_rules net_policy) ''a.org'' = Some Forbidden"
proof -
  have c: "compiled_network_domains net_policy = ([], [''a.org''])"
    by (simp add: compiled_network_domains_def net_policy_def upsert_domain_def)
  from domains_follow_last_rule[OF c] c show ?thesis by auto
qed

end
