(* ===== verification/Permission_Rules.thy ===== *)
theory Permission_Rules
  imports Prelude "HOL-Library.List_Lexorder" "HOL-Library.Char_ord" "HOL-Library.Multiset"
begin

text \<open>
  Permission rules (\<open>crates/config/src/permission.rs\<close>, \<open>crates/safety/src/permission/types.rs\<close>,
  \<open>rules.rs\<close>): the access requests of the tools, the decisions with their combination, the
  compilation of a configured rule and its matching. The glob and URL libraries and the address
  parser are the argument \<open>lib\<close>; a glob is kept as its pattern. Paths are strings.
\<close>

section \<open>Accesses and decisions\<close>

datatype access =
    Read "string option" string
  | Grep "string option" "string option" string bool
  | Edit string string
  | Bash string string
  | Mcp string string
  | WebFetch string
  | WebSearch string

datatype policy_decision = Permit | Deny string | Ask | NoMatch

fun rank :: "policy_decision \<Rightarrow> nat" where
  "rank (Deny _) = 3"
| "rank Ask = 2"
| "rank Permit = 1"
| "rank NoMatch = 0"

definition combine :: "policy_decision \<Rightarrow> policy_decision \<Rightarrow> policy_decision" where
  "combine a b =
     (if rank a > rank b then a
      else if rank a < rank b then b
      else (case (a, b) of (Deny left, Deny right) \<Rightarrow> if right < left then b else a | _ \<Rightarrow> a))"

fun escalation_only :: "policy_decision \<Rightarrow> policy_decision" where
  "escalation_only (Deny r) = Deny r"
| "escalation_only Ask = Ask"
| "escalation_only Permit = NoMatch"
| "escalation_only NoMatch = NoMatch"

section \<open>Rules\<close>

datatype pattern_mode = Glob | Domain

datatype rule_action = ActAllow | ActDeny | ActAsk

datatype tool_filter =
  AnyTool | BashTool | EditTool | ReadTool | GrepTool | McpTool | WebFetchTool | WebSearchTool

record permission_rule =
  rule_action :: rule_action
  rule_tool :: tool_filter
  rule_pattern :: "string option"
  rule_pattern_mode :: pattern_mode

record parsed_url =
  url_username :: string
  url_password :: "string option"
  url_path :: string
  url_query :: "string option"
  url_fragment :: "string option"
  url_host :: "string option"

text \<open>What the rules use of the libraries.\<close>

record libs =
  glob_error :: "string \<Rightarrow> string option"
  path_glob :: "string \<Rightarrow> string \<Rightarrow> bool"
  free_glob :: "string \<Rightarrow> string \<Rightarrow> bool"
  url_parse :: "string \<Rightarrow> string + parsed_url"
  is_ip_addr :: "string \<Rightarrow> bool"

record compiled_rule =
  cr_action :: rule_action
  cr_tool :: tool_filter
  cr_pattern :: "string option"
  cr_pattern_mode :: pattern_mode
  cr_glob :: "string option"
  cr_domain :: "string option"

datatype compile_error = InvalidGlob nat string string | InvalidDomain nat string string

definition trim_end_dot :: "string \<Rightarrow> string" where
  "trim_end_dot s = rev (dropWhile (\<lambda>c. c = CHR ''.'') (rev s))"

definition normalize_host :: "string option \<Rightarrow> string option" where
  "normalize_host host =
     (case host of
        None \<Rightarrow> None
      | Some h \<Rightarrow>
          (let n = to_ascii_lowercase (trim_end_dot h) in if n = [] then None else Some n))"

definition normalize_url_host :: "libs \<Rightarrow> string \<Rightarrow> string option" where
  "normalize_url_host lib value =
     (case url_parse lib value of Inl _ \<Rightarrow> None | Inr u \<Rightarrow> normalize_host (url_host u))"

definition trim_brackets :: "string \<Rightarrow> string" where
  "trim_brackets s =
     (let b = (\<lambda>c. c = CHR ''['' \<or> c = CHR '']'')
      in rev (dropWhile b (rev (dropWhile b s))))"

definition is_ip_host :: "libs \<Rightarrow> string \<Rightarrow> bool" where
  "is_ip_host lib host = is_ip_addr lib (trim_brackets host)"

definition normalize_domain_pattern :: "libs \<Rightarrow> nat \<Rightarrow> string \<Rightarrow> compile_error + string" where
  "normalize_domain_pattern lib i pattern =
     (if contains_any pattern ''*?[]''
      then Inl (InvalidDomain i pattern ''domain patterns do not support wildcards'')
      else
        (case url_parse lib (if contains_str pattern ''://'' then pattern else ''http://'' @ pattern) of
           Inl message \<Rightarrow> Inl (InvalidDomain i pattern message)
         | Inr u \<Rightarrow>
             if url_username u \<noteq> [] \<or> url_password u \<noteq> None \<or>
                url_path u \<notin> {[], ''/''} \<or> url_query u \<noteq> None \<or> url_fragment u \<noteq> None
             then Inl (InvalidDomain i pattern
                    ''domain pattern must not include credentials, a path, query, or fragment'')
             else (case normalize_host (url_host u) of
                     Some h \<Rightarrow> Inr h
                   | None \<Rightarrow> Inl (InvalidDomain i pattern ''domain pattern has no host''))))"

definition compile_glob :: "libs \<Rightarrow> nat \<Rightarrow> string \<Rightarrow> compile_error + string" where
  "compile_glob lib i pattern =
     (case glob_error lib pattern of
        None \<Rightarrow> Inr pattern
      | Some message \<Rightarrow>
          Inl (InvalidGlob i pattern
            (case strip_prefix (''error parsing glob '' @ [CHR 0x27] @ pattern @ [CHR 0x27] @ '': '') message of
               Some m \<Rightarrow> m | None \<Rightarrow> message)))"

definition compile_rule :: "libs \<Rightarrow> nat \<Rightarrow> permission_rule \<Rightarrow> compile_error + compiled_rule" where
  "compile_rule lib i r =
     (let base = \<lparr>cr_action = rule_action r, cr_tool = rule_tool r, cr_pattern = rule_pattern r,
                  cr_pattern_mode = rule_pattern_mode r, cr_glob = None, cr_domain = None\<rparr>;
          with_glob = (\<lambda>c p. if p = ''*'' then Inr c
            else (case compile_glob lib i p of Inl e \<Rightarrow> Inl e | Inr g \<Rightarrow> Inr (c\<lparr>cr_glob := Some g\<rparr>)))
      in case rule_pattern r of
           None \<Rightarrow> Inr base
         | Some p \<Rightarrow>
             if rule_pattern_mode r = Domain
             then (case normalize_domain_pattern lib i p of
                     Inl e \<Rightarrow> Inl e
                   | Inr d \<Rightarrow> with_glob (base\<lparr>cr_domain := Some d\<rparr>) p)
             else with_glob base p)"

definition is_file_restriction :: "compiled_rule \<Rightarrow> bool" where
  "is_file_restriction r \<longleftrightarrow>
     cr_action r \<in> {ActDeny, ActAsk} \<and> cr_tool r \<in> {AnyTool, ReadTool, EditTool, GrepTool}"

definition is_bash_restriction :: "compiled_rule \<Rightarrow> bool" where
  "is_bash_restriction r \<longleftrightarrow> cr_action r \<in> {ActDeny, ActAsk} \<and> cr_tool r \<in> {AnyTool, BashTool}"

definition tool_filter_matches :: "access \<Rightarrow> tool_filter \<Rightarrow> bool" where
  "tool_filter_matches a f =
     (case f of
        AnyTool \<Rightarrow> True
      | BashTool \<Rightarrow> (case a of Bash _ _ \<Rightarrow> True | _ \<Rightarrow> False)
      | EditTool \<Rightarrow> (case a of Edit _ _ \<Rightarrow> True | _ \<Rightarrow> False)
      | ReadTool \<Rightarrow> (case a of Read _ _ \<Rightarrow> True | Grep _ _ _ _ \<Rightarrow> True | _ \<Rightarrow> False)
      | GrepTool \<Rightarrow> (case a of Grep _ _ _ _ \<Rightarrow> True | _ \<Rightarrow> False)
      | McpTool \<Rightarrow> (case a of Mcp _ _ \<Rightarrow> True | _ \<Rightarrow> False)
      | WebFetchTool \<Rightarrow> (case a of WebFetch _ \<Rightarrow> True | _ \<Rightarrow> False)
      | WebSearchTool \<Rightarrow> (case a of WebSearch _ \<Rightarrow> True | _ \<Rightarrow> False))"

fun tool_label :: "tool_filter \<Rightarrow> string" where
  "tool_label AnyTool = ''any tool''"
| "tool_label BashTool = ''bash''"
| "tool_label EditTool = ''edit''"
| "tool_label ReadTool = ''read''"
| "tool_label GrepTool = ''grep''"
| "tool_label McpTool = ''mcp''"
| "tool_label WebFetchTool = ''web_fetch''"
| "tool_label WebSearchTool = ''web_search''"

definition normalize_path :: "string \<Rightarrow> string" where
  "normalize_path p = map (\<lambda>c. if c = CHR 0x5C then CHR ''/'' else c) p"

definition path_matches :: "libs \<Rightarrow> compiled_rule \<Rightarrow> string \<Rightarrow> bool" where
  "path_matches lib r path =
     (case cr_glob r of Some g \<Rightarrow> path_glob lib g (normalize_path path) | None \<Rightarrow> False)"

definition freeform_matches :: "libs \<Rightarrow> compiled_rule \<Rightarrow> string \<Rightarrow> bool" where
  "freeform_matches lib r value = (case cr_glob r of Some g \<Rightarrow> free_glob lib g value | None \<Rightarrow> False)"

definition domain_matches :: "libs \<Rightarrow> compiled_rule \<Rightarrow> string \<Rightarrow> bool" where
  "domain_matches lib r value =
     (case cr_domain r of
        None \<Rightarrow> False
      | Some expected \<Rightarrow>
          (case normalize_url_host lib value of
             None \<Rightarrow> False
           | Some actual \<Rightarrow>
               actual = expected \<or>
               (\<not> is_ip_host lib expected \<and>
                (case strip_suffix expected actual of
                   Some pre \<Rightarrow> ends_with pre ''.'' | None \<Rightarrow> False))))"

definition pattern_matches :: "libs \<Rightarrow> compiled_rule \<Rightarrow> access \<Rightarrow> bool" where
  "pattern_matches lib r a =
     (case cr_pattern r of
        None \<Rightarrow> True
      | Some p \<Rightarrow>
          p = ''*'' \<or>
          (case a of
             Read (Some path) _ \<Rightarrow> path_matches lib r path
           | Edit path _ \<Rightarrow> path_matches lib r path
           | Read None _ \<Rightarrow> False
           | Grep path _ _ _ \<Rightarrow> (case path of Some q \<Rightarrow> path_matches lib r q | None \<Rightarrow> False)
           | Bash command _ \<Rightarrow>
               starts_with (trim_start command) p \<or> freeform_matches lib r (trim_start command)
           | Mcp name _ \<Rightarrow> freeform_matches lib r name
           | WebFetch url \<Rightarrow>
               (case cr_pattern_mode r of
                  Domain \<Rightarrow> domain_matches lib r url
                | Glob \<Rightarrow> freeform_matches lib r url)
           | WebSearch query \<Rightarrow> starts_with query p \<or> freeform_matches lib r query))"

definition rule_applies :: "libs \<Rightarrow> compiled_rule \<Rightarrow> access \<Rightarrow> bool" where
  "rule_applies lib r a \<longleftrightarrow> tool_filter_matches a (cr_tool r) \<and> pattern_matches lib r a"

definition deny_reason :: "compiled_rule \<Rightarrow> string" where
  "deny_reason r =
     (case cr_pattern r of
        Some p \<Rightarrow> ''Denied by permission policy: deny rule on '' @ tool_label (cr_tool r) @
                   '' matching '' @ [CHR 0x22] @ p @ [CHR 0x22]
      | None \<Rightarrow> ''Denied by permission policy: deny rule on '' @ tool_label (cr_tool r))"

definition rule_decision :: "compiled_rule \<Rightarrow> policy_decision" where
  "rule_decision r =
     (case cr_action r of ActAllow \<Rightarrow> Permit | ActAsk \<Rightarrow> Ask | ActDeny \<Rightarrow> Deny (deny_reason r))"

definition recursive_scope_decision :: "compiled_rule \<Rightarrow> access \<Rightarrow> policy_decision" where
  "recursive_scope_decision r a =
     (if cr_action r = ActAllow \<or> \<not> tool_filter_matches a (cr_tool r) then NoMatch
      else rule_decision r)"

section \<open>Combination as a join\<close>

text \<open>
  What the evaluation needs of the combination of decisions: the fold of a list of verdicts depends
  only on the multiset of the verdicts, is an upper bound of each of them and is reached by one.
\<close>

locale verdict_join =
  fixes join :: "'d \<Rightarrow> 'd \<Rightarrow> 'd"
    and bottom :: 'd
    and weight :: "'d \<Rightarrow> nat"
  assumes join_assoc: "join (join a b) c = join a (join b c)"
    and join_comm: "join a b = join b a"
    and join_bottom: "join bottom a = a"
    and join_choice: "join a b = a \<or> join a b = b"
    and join_weight: "weight a \<le> weight (join a b)"
begin

lemma join_weight_right: "weight b \<le> weight (join a b)"
  using join_weight[of b a] by (simp add: join_comm)

lemma foldl_start: "foldl join (join a b) ds = join a (foldl join b ds)"
  by (induction ds arbitrary: b) (simp_all add: join_assoc)

lemma foldl_cons: "foldl join bottom (d # ds) = join d (foldl join bottom ds)"
  by (simp only: foldl.simps join_comm[of bottom d] foldl_start)

lemma foldl_append: "foldl join bottom (ds @ es) = join (foldl join bottom ds) (foldl join bottom es)"
proof (induction ds)
  case Nil
  then show ?case by (simp add: join_bottom)
next
  case (Cons d ds)
  then show ?case by (simp only: append_Cons foldl_cons join_assoc)
qed

lemma foldl_remove: "d \<in> set ds \<Longrightarrow> foldl join bottom ds = join d (foldl join bottom (remove1 d ds))"
proof (induction ds)
  case (Cons e ds)
  show ?case
  proof (cases "e = d")
    case False
    then have "foldl join bottom (e # ds) = join e (join d (foldl join bottom (remove1 d ds)))"
      using Cons by (simp add: foldl_cons del: foldl.simps)
    also have "\<dots> = join d (join e (foldl join bottom (remove1 d ds)))"
      by (metis join_assoc join_comm)
    finally show ?thesis using False by (simp add: foldl_cons del: foldl.simps)
  qed (simp add: foldl_cons del: foldl.simps)
qed simp

lemma foldl_mset: "mset ds = mset es \<Longrightarrow> foldl join bottom ds = foldl join bottom es"
proof (induction ds arbitrary: es)
  case (Cons d ds)
  then have "d \<in> set es" by (metis list.set_intros(1) mset_eq_setD)
  moreover have "mset ds = mset (remove1 d es)" using Cons.prems[symmetric] by simp
  ultimately show ?case using Cons.IH[of "remove1 d es"]
    by (simp only: foldl_cons foldl_remove[of d es])
qed simp

lemma foldl_weight: "d \<in> set ds \<Longrightarrow> weight d \<le> weight (foldl join bottom ds)"
  using join_weight by (simp only: foldl_remove)

lemma foldl_reached: "foldl join bottom ds \<in> insert bottom (set ds)"
proof (induction ds)
  case (Cons d ds)
  then show ?case using join_choice[of d "foldl join bottom ds"] by (auto simp only: foldl_cons list.set)
qed simp

end

lemma rank_NoMatch [simp]: "rank d = 0 \<longleftrightarrow> d = NoMatch"
  by (cases d) simp_all

lemma combine_rank [simp]: "rank (combine a b) = max (rank a) (rank b)"
  by (cases a; cases b) (simp_all add: combine_def)

lemma combine_Deny [simp]: "combine (Deny a) (Deny b) = Deny (min a b)"
  by (auto simp: combine_def min_def not_le)

lemma combine_rank_cases:
  "combine a b =
     (if rank b < rank a then a else if rank a < rank b then b
      else (case (a, b) of (Deny l, Deny r) \<Rightarrow> Deny (min l r) | _ \<Rightarrow> a))"
  by (cases a; cases b) (auto simp: combine_def min_def not_le)

interpretation verdicts: verdict_join combine NoMatch rank
proof unfold_locales
  fix a b c :: policy_decision
  show "combine (combine a b) c = combine a (combine b c)"
    by (cases a; cases b; cases c) (simp_all add: combine_rank_cases min.assoc)
  show "combine a b = combine b a"
    by (cases a; cases b) (simp_all add: combine_rank_cases min.commute)
  show "combine NoMatch a = a"
    by (cases a) (simp_all add: combine_rank_cases)
  show "combine a b = a \<or> combine a b = b"
    by (cases a; cases b) (simp_all add: combine_def)
  show "rank a \<le> rank (combine a b)" by simp
qed

end
