(* ===== verification/Shell_Split.thy ===== *)
theory Shell_Split
  imports Prelude
begin

text \<open>
  The view the permission policy has of a shell command
  (\<open>crates/safety/src/permission/bash_command_splitting.rs\<close>): the words behind wrapper programs, the
  script of a \<open>-c\<close> shell, and the decomposition of a script. A loop over an index into the words is
  a recursion over the words from that index on; an index past the end is the empty list. Splitting a
  script into its literal commands is the shell grammar's work and is the argument \<open>parse\<close>.
\<close>

definition basename :: "string \<Rightarrow> string" where
  "basename word = rev (takeWhile (\<lambda>c. c \<noteq> CHR ''/'' \<and> c \<noteq> CHR 0x5C) (rev word))"

section \<open>Wrapper programs\<close>

text \<open>Skips options; the value of an option in \<open>two\<close> is skipped with it.\<close>

fun skip_options :: "string list \<Rightarrow> string list \<Rightarrow> string list" where
  "skip_options two [] = []"
| "skip_options two [a] = (if starts_with a ''-'' then [] else [a])"
| "skip_options two (a # b # as) =
     (if \<not> starts_with a ''-'' then a # b # as
      else if a \<in> set two then skip_options two as
      else skip_options two (b # as))"

definition split_eq :: "string \<Rightarrow> string option" where
  "split_eq s = (if CHR ''='' \<in> set s then Some (takeWhile (\<lambda>c. c \<noteq> CHR ''='') s) else None)"

definition is_env_assignment :: "string \<Rightarrow> bool" where
  "is_env_assignment value =
     (case split_eq value of
        None \<Rightarrow> False
      | Some name \<Rightarrow>
          (case name of
             [] \<Rightarrow> False
           | c # _ \<Rightarrow> is_ascii_alpha c \<or> c = CHR ''_'') \<and>
          list_all (\<lambda>c. is_ascii_alpha c \<or> is_ascii_digit c \<or> c = CHR ''_'') name)"

text \<open>The words from the index \<open>env_inner_index\<close> on.\<close>

definition env_value_options :: "string list" where
  "env_value_options = [''-C'', ''--chdir'', ''-u'', ''--unset'', ''-S'', ''--split-string'']"

fun env_inner :: "string list \<Rightarrow> string list" where
  "env_inner [] = []"
| "env_inner (a # as) =
     (if a = ''--'' then as
      else if a \<noteq> ''-'' \<and> starts_with a ''-'' then
        (if a \<in> set env_value_options
         then (case as of [] \<Rightarrow> [] | b # bs \<Rightarrow> env_inner bs) else env_inner as)
      else if is_env_assignment a then env_inner as
      else a # as)"

fun command_inner :: "string list \<Rightarrow> string list" where
  "command_inner [] = []"
| "command_inner (a # as) =
     (if a = ''--'' then as else if a = ''-p'' then command_inner as else a # as)"

fun exec_inner :: "string list \<Rightarrow> string list" where
  "exec_inner [] = []"
| "exec_inner (a # as) =
     (if a = ''--'' then as
      else if a = ''-a'' then (case as of [] \<Rightarrow> [] | b # bs \<Rightarrow> exec_inner bs)
      else if a = ''-c'' \<or> a = ''-l'' then exec_inner as
      else a # as)"

text \<open>\<open>words.get(index)?\<close> followed by \<open>index += 1\<close>.\<close>

definition after_operand :: "string list \<Rightarrow> string list option" where
  "after_operand ws = (case ws of [] \<Rightarrow> None | _ # inner \<Rightarrow> Some inner)"

definition wrapped_words :: "string \<Rightarrow> string list \<Rightarrow> string list option" where
  "wrapped_words program args =
     (if program = ''timeout''
      then after_operand (skip_options [''-k'', ''-s'', ''--kill-after'', ''--signal''] args)
      else if program = ''nice'' then Some (skip_options [''-n'', ''--adjustment''] args)
      else if program = ''ionice''
      then Some (skip_options [''-c'', ''-n'', ''-p'', ''-P'', ''-u'', ''--class'', ''--classdata'',
             ''--pid'', ''--pgid'', ''--uid''] args)
      else if program = ''chrt'' then after_operand (skip_options [] args)
      else if program = ''stdbuf'' then Some (skip_options [''-i'', ''-o'', ''-e''] args)
      else if program = ''env'' then Some (env_inner args)
      else if program = ''command'' then Some (command_inner args)
      else if program = ''exec'' then Some (exec_inner args)
      else None)"

definition strip_wrapper :: "string list \<Rightarrow> string list option" where
  "strip_wrapper ws =
     (case ws of
        [] \<Rightarrow> None
      | program # args \<Rightarrow>
          (case wrapped_words (basename program) args of
             Some (w # inner) \<Rightarrow> Some (w # inner)
           | _ \<Rightarrow> None))"

primrec unwrap_loop :: "nat \<Rightarrow> string list \<Rightarrow> string list" where
  "unwrap_loop 0 current = current"
| "unwrap_loop (Suc n) current =
     (case strip_wrapper current of Some inner \<Rightarrow> unwrap_loop n inner | None \<Rightarrow> current)"

definition unwrap_wrappers :: "string list \<Rightarrow> string list" where
  "unwrap_wrappers ws = unwrap_loop 8 ws"

section \<open>Shells with a script\<close>

datatype dash_c = NotPresent | Script string | Uncertain

definition is_shell :: "string \<Rightarrow> bool" where
  "is_shell program \<longleftrightarrow> basename program \<in> set [''bash'', ''sh'', ''dash'', ''zsh'', ''ksh'']"

definition option_cluster :: "string \<Rightarrow> string option" where
  "option_cluster word =
     (case (case strip_prefix ''-'' word of Some c \<Rightarrow> Some c | None \<Rightarrow> strip_prefix ''+'' word) of
        Some (c # cs) \<Rightarrow> Some (c # cs)
      | _ \<Rightarrow> None)"

fun skip_values :: "nat \<Rightarrow> string list \<Rightarrow> string list option" where
  "skip_values 0 ws = Some ws"
| "skip_values (Suc n) [] = None"
| "skip_values (Suc n) (w # ws) = (if w = ''--'' \<or> w = ''-'' then None else skip_values n ws)"

lemma skip_values_length: "skip_values n ws = Some ws' \<Longrightarrow> length ws' \<le> length ws"
  by (induction n ws arbitrary: ws' rule: skip_values.induct) (fastforce split: if_splits)+

definition ending :: "bool \<Rightarrow> dash_c" where
  "ending has_dash_c = (if has_dash_c then Uncertain else NotPresent)"

function classify_loop :: "bool \<Rightarrow> string list \<Rightarrow> dash_c" where
  "classify_loop has [] = ending has"
| "classify_loop has (w # ws) =
     (if w = ''--'' \<or> w = ''-'' then
        (case ws of
           [] \<Rightarrow> ending has
         | s # _ \<Rightarrow> if has then Script s else NotPresent)
      else (case strip_prefix ''--'' w of
        Some long \<Rightarrow>
          if has then Uncertain
          else if long = ''init-file'' \<or> long = ''rcfile'' then classify_loop has (drop 1 ws)
          else classify_loop has ws
      | None \<Rightarrow>
          (case option_cluster w of
             None \<Rightarrow> if has then Script w else NotPresent
           | Some cluster \<Rightarrow>
               (let has' = (has \<or> (starts_with w ''-'' \<and> CHR ''c'' \<in> set cluster)) in
                case skip_values (length (filter (\<lambda>c. c = CHR ''o'' \<or> c = CHR ''O'') cluster)) ws of
                  None \<Rightarrow> ending has'
                | Some ws' \<Rightarrow> classify_loop has' ws'))))"
  by pat_completeness auto
termination
  by (relation "measure (\<lambda>(has, ws). length ws)") (auto dest: skip_values_length)

definition classify_shell_dash_c_script :: "string list \<Rightarrow> dash_c" where
  "classify_shell_dash_c_script ws =
     (case ws of
        [] \<Rightarrow> NotPresent
      | program # args \<Rightarrow> if \<not> is_shell program then NotPresent else classify_loop False args)"

definition shell_dash_c_script :: "string list \<Rightarrow> string option" where
  "shell_dash_c_script ws =
     (case classify_shell_dash_c_script ws of Script s \<Rightarrow> Some s | _ \<Rightarrow> None)"

function script_operand :: "string list \<Rightarrow> bool" where
  "script_operand [] = False"
| "script_operand (a # as) =
     (if a = ''--'' then as \<noteq> []
      else if a = ''-'' then False
      else if \<not> starts_with a ''-'' \<or> a = ''-c'' then True
      else if a \<in> set [''-o'', ''-O'', ''--init-file'', ''--rcfile''] then script_operand (drop 1 as)
      else script_operand as)"
  by pat_completeness auto
termination by (relation "measure length") auto

definition is_external_shell_script_invocation :: "string list \<Rightarrow> bool" where
  "is_external_shell_script_invocation ws =
     (case ws of
        [] \<Rightarrow> False
      | program # args \<Rightarrow>
          is_shell program \<and> classify_shell_dash_c_script ws = NotPresent \<and> script_operand args)"

section \<open>Scripts\<close>

record parsed_command =
  pc_words :: "string list"
  pc_start_byte :: nat
  pc_end_byte :: nat

type_synonym shell_parser = "string \<Rightarrow> parsed_command list option"

definition all_commands_from_script :: "shell_parser \<Rightarrow> string \<Rightarrow> parsed_command list option" where
  "all_commands_from_script parse script =
     (case parse script of
        None \<Rightarrow> None
      | Some commands \<Rightarrow>
          if list_ex (\<lambda>c. classify_shell_dash_c_script (unwrap_wrappers (pc_words c)) = Uncertain) commands
          then None else Some commands)"

section \<open>Unwrapping\<close>

lemma skip_options_suffix: "suffix (skip_options two ws) ws"
  by (induction two ws rule: skip_options.induct) (auto intro: suffix_ConsI)

lemma env_inner_suffix: "suffix (env_inner ws) ws"
proof (induction ws rule: env_inner.induct)
  case (2 a as)
  then show ?case by (cases as) (simp_all add: suffix_Cons)
qed simp

lemma command_inner_suffix: "suffix (command_inner ws) ws"
  by (induction ws rule: command_inner.induct) (simp_all add: suffix_Cons)

lemma exec_inner_suffix: "suffix (exec_inner ws) ws"
proof (induction ws rule: exec_inner.induct)
  case (2 a as)
  then show ?case by (cases as) (simp_all add: suffix_Cons)
qed simp

lemmas inner_suffixes = skip_options_suffix env_inner_suffix command_inner_suffix exec_inner_suffix

lemma after_operand_suffix: "suffix ws args \<Longrightarrow> after_operand ws = Some inner \<Longrightarrow> suffix inner args"
  by (cases ws) (auto simp: after_operand_def dest: suffix_ConsD)

lemma wrapped_words_suffix: "wrapped_words program args = Some inner \<Longrightarrow> suffix inner args"
  by (auto simp: wrapped_words_def inner_suffixes split: if_splits
      intro: after_operand_suffix[OF skip_options_suffix])

lemma strip_wrapper_strict:
  "strip_wrapper ws = Some inner \<Longrightarrow> suffix inner ws \<and> inner \<noteq> [] \<and> length inner < length ws"
  by (cases ws)
    (auto simp: strip_wrapper_def split: option.splits list.splits
      dest!: wrapped_words_suffix intro: suffix_ConsI dest: suffix_length_le)

lemma unwrap_loop_suffix: "suffix (unwrap_loop n ws) ws \<and> (ws \<noteq> [] \<longrightarrow> unwrap_loop n ws \<noteq> [])"
proof (induction n arbitrary: ws)
  case (Suc n)
  then show ?case
    using strip_wrapper_strict[of ws]
    by (auto split: option.split dest: suffix_order.order_trans)
qed simp

lemma basename_id: "\<forall>c\<in>set w. c \<noteq> CHR ''/'' \<and> c \<noteq> CHR 0x5C \<Longrightarrow> basename w = w"
  by (simp add: basename_def takeWhile_eq_all_conv[THEN iffD2])

lemma strip_env_env: "strip_wrapper (''env'' # ''env'' # ws) = Some (''env'' # ws)"
proof -
  have "basename ''env'' = ''env''" by (rule basename_id) simp
  then show ?thesis
    by (simp add: strip_wrapper_def wrapped_words_def is_env_assignment_def split_eq_def starts_with_def)
qed

lemma unwrap_env_tower: "unwrap_loop n (replicate (n + Suc k) ''env'' @ ws) = replicate (Suc k) ''env'' @ ws"
proof (induction n)
  case (Suc n)
  have "replicate (Suc n + Suc k) ''env'' @ ws = ''env'' # ''env'' # (replicate (n + k) ''env'' @ ws)"
    by simp
  then have "strip_wrapper (replicate (Suc n + Suc k) ''env'' @ ws) =
      Some (replicate (n + Suc k) ''env'' @ ws)"
    using strip_env_env by simp
  with Suc show ?case by simp
qed simp

end
