(* ===== verification/Permission_Policy.thy ===== *)
theory Permission_Policy
  imports Permission_Rules Shell_Split
begin

text \<open>
  The compiled permission policy and the verdicts of its rules on an access and on the commands of a
  shell script (\<open>crates/safety/src/permission/policy.rs\<close>). The evaluation as a whole, with the gates
  on files, is in \<open>Permission_Gate\<close>.
\<close>

section \<open>The policy\<close>

record compiled_policy =
  cp_rules :: "compiled_rule list"
  cp_file_restrictions :: bool
  cp_bash_restrictions :: bool

fun compile_rules :: "libs \<Rightarrow> nat \<Rightarrow> permission_rule list \<Rightarrow> compile_error + compiled_rule list" where
  "compile_rules lib i [] = Inr []"
| "compile_rules lib i (r # rs) =
     (case compile_rule lib i r of
        Inl e \<Rightarrow> Inl e
      | Inr c \<Rightarrow>
          (case compile_rules lib (i + 1) rs of
             Inl e \<Rightarrow> Inl e
           | Inr cs \<Rightarrow> Inr (c # cs)))"

definition policy_of :: "compiled_rule list \<Rightarrow> compiled_policy" where
  "policy_of cs =
     \<lparr>cp_rules = cs, cp_file_restrictions = list_ex is_file_restriction cs,
      cp_bash_restrictions = list_ex is_bash_restriction cs\<rparr>"

definition compile_policy :: "libs \<Rightarrow> permission_rule list \<Rightarrow> compile_error + compiled_policy" where
  "compile_policy lib rules =
     (case compile_rules lib 0 rules of Inl e \<Rightarrow> Inl e | Inr cs \<Rightarrow> Inr (policy_of cs))"

definition evaluate_rules :: "libs \<Rightarrow> compiled_rule list \<Rightarrow> access \<Rightarrow> policy_decision" where
  "evaluate_rules lib rules a =
     foldl combine NoMatch (map rule_decision (filter (\<lambda>r. rule_applies lib r a) rules))"

definition evaluate_recursive_scope :: "compiled_rule list \<Rightarrow> access \<Rightarrow> policy_decision" where
  "evaluate_recursive_scope rules a =
     foldl combine NoMatch (map (\<lambda>r. recursive_scope_decision r a) rules)"

section \<open>Shell commands\<close>

definition bash_access :: "string list \<Rightarrow> string \<Rightarrow> access" where
  "bash_access ws cwd = Bash (join '' '' ws) cwd"

definition evaluate_bash_words :: "libs \<Rightarrow> compiled_rule list \<Rightarrow> string \<Rightarrow> string list \<Rightarrow> policy_decision" where
  "evaluate_bash_words lib rules cwd ws =
     (let raw = escalation_only (evaluate_rules lib rules (bash_access ws cwd)) in
      case ws of
        [] \<Rightarrow> raw
      | program # args \<Rightarrow>
          if basename program = program then raw
          else combine raw
            (escalation_only (evaluate_rules lib rules (bash_access (basename program # args) cwd))))"

definition MAX_NESTING :: nat where
  "MAX_NESTING = 8"

text \<open>The number is the nesting still allowed, \<open>MAX_NESTING - depth\<close>.\<close>

primrec evaluate_bash_segments ::
  "libs \<Rightarrow> compiled_rule list \<Rightarrow> shell_parser \<Rightarrow> string \<Rightarrow> nat \<Rightarrow> string \<Rightarrow> policy_decision" where
  "evaluate_bash_segments lib rules parse cwd 0 command = Ask"
| "evaluate_bash_segments lib rules parse cwd (Suc n) command =
     (case all_commands_from_script parse command of
        None \<Rightarrow> Ask
      | Some commands \<Rightarrow>
          foldl (\<lambda>decision parsed.
            let raw = pc_words parsed;
                inner = unwrap_wrappers raw;
                d1 = combine decision (evaluate_bash_words lib rules cwd raw);
                d2 = (if length inner \<noteq> length raw
                      then combine d1 (evaluate_bash_words lib rules cwd inner) else d1)
            in case shell_dash_c_script inner of
                 Some script \<Rightarrow> combine d2 (evaluate_bash_segments lib rules parse cwd n script)
               | None \<Rightarrow> if is_external_shell_script_invocation inner then combine d2 Ask else d2)
            NoMatch commands)"

section \<open>Verdicts of the rules\<close>

lemma evaluate_rules_mset:
  "mset rules = mset rules' \<Longrightarrow> evaluate_rules lib rules a = evaluate_rules lib rules' a"
  unfolding evaluate_rules_def by (rule verdicts.foldl_mset) simp

lemma evaluate_recursive_scope_mset:
  "mset rules = mset rules' \<Longrightarrow> evaluate_recursive_scope rules a = evaluate_recursive_scope rules' a"
  unfolding evaluate_recursive_scope_def by (rule verdicts.foldl_mset) simp

lemma bash_words_mset:
  "mset rules = mset rules' \<Longrightarrow> evaluate_bash_words lib rules cwd ws = evaluate_bash_words lib rules' cwd ws"
  using evaluate_rules_mset[of rules rules' lib]
  by (simp add: evaluate_bash_words_def Let_def split: list.split)

lemma bash_segments_mset:
  assumes "mset rules = mset rules'"
  shows "evaluate_bash_segments lib rules parse cwd n command =
    evaluate_bash_segments lib rules' parse cwd n command"
proof (induction n arbitrary: command)
  case (Suc n)
  then show ?case
    by (simp only: evaluate_bash_segments.simps bash_words_mset[OF assms])
qed simp

lemma policy_of_mset:
  "mset cs = mset cs' \<Longrightarrow> cp_file_restrictions (policy_of cs) = cp_file_restrictions (policy_of cs') \<and>
     cp_bash_restrictions (policy_of cs) = cp_bash_restrictions (policy_of cs')"
  using mset_eq_setD[of cs cs'] by (simp add: policy_of_def list_ex_iff)

lemma rank_3 [simp]: "rank d = 3 \<longleftrightarrow> (\<exists>r. d = Deny r)"
  by (cases d) simp_all

lemma rank_le_3: "rank d \<le> 3"
  by (cases d) simp_all

lemma rank_3_iff: "3 \<le> rank d \<longleftrightarrow> (\<exists>r. d = Deny r)"
  using rank_le_3[of d] rank_3[of d] by (metis antisym order_refl)

lemma rank_escalation: "2 \<le> rank d \<Longrightarrow> rank (escalation_only d) = rank d"
  by (cases d) simp_all

lemma deny_rule_denies:
  assumes "r \<in> set rules" "cr_action r = ActDeny" "rule_applies lib r a"
  shows "3 \<le> rank (evaluate_rules lib rules a)"
proof -
  have "rank (rule_decision r) \<le> rank (evaluate_rules lib rules a)"
    unfolding evaluate_rules_def using assms by (intro verdicts.foldl_weight) auto
  then show ?thesis using assms(2) by (simp add: rule_decision_def)
qed

section \<open>Verdicts of a shell command\<close>

text \<open>The verdict one command of a script contributes.\<close>

definition segment_verdicts ::
  "libs \<Rightarrow> compiled_rule list \<Rightarrow> shell_parser \<Rightarrow> string \<Rightarrow> nat \<Rightarrow> string list \<Rightarrow> policy_decision list" where
  "segment_verdicts lib rules parse cwd n raw =
     (let inner = unwrap_wrappers raw in
      [evaluate_bash_words lib rules cwd raw] @
      (if length inner \<noteq> length raw then [evaluate_bash_words lib rules cwd inner] else []) @
      (case shell_dash_c_script inner of
         Some script \<Rightarrow> [evaluate_bash_segments lib rules parse cwd n script]
       | None \<Rightarrow> if is_external_shell_script_invocation inner then [Ask] else []))"

lemma segments_fold:
  "evaluate_bash_segments lib rules parse cwd (Suc n) command =
     (case all_commands_from_script parse command of
        None \<Rightarrow> Ask
      | Some commands \<Rightarrow>
          foldl combine NoMatch (concat (map (segment_verdicts lib rules parse cwd n) (map pc_words commands))))"
proof (cases "all_commands_from_script parse command")
  case (Some commands)
  let ?step = "\<lambda>decision c. foldl combine decision (segment_verdicts lib rules parse cwd n (pc_words c))"
  have fold: "foldl ?step d cs =
      foldl combine d (concat (map (segment_verdicts lib rules parse cwd n) (map pc_words cs)))"
    for d cs by (induction cs arbitrary: d) simp_all
  have "evaluate_bash_segments lib rules parse cwd (Suc n) command = foldl ?step NoMatch commands"
    by (simp add: Some segment_verdicts_def Let_def, rule foldl_cong)
      (auto split: option.split)
  with fold[of NoMatch commands] Some show ?thesis by simp
qed simp

lemma segment_verdict_weight:
  assumes "all_commands_from_script parse command = Some commands" "raw \<in> pc_words ` set commands"
    "v \<in> set (segment_verdicts lib rules parse cwd n raw)"
  shows "rank v \<le> rank (evaluate_bash_segments lib rules parse cwd (Suc n) command)"
  unfolding segments_fold using assms by (auto intro!: verdicts.foldl_weight)

text \<open>
  The commands a script runs as far as the policy follows them: directly, behind wrapper programs,
  or inside the script of a shell, at most the given number of scripts deep.
\<close>

inductive runs :: "shell_parser \<Rightarrow> nat \<Rightarrow> string \<Rightarrow> string list \<Rightarrow> bool" for parse where
  direct: "\<lbrakk>all_commands_from_script parse script = Some cs; ws \<in> pc_words ` set cs\<rbrakk> \<Longrightarrow> runs parse (Suc n) script ws"
| unwrapped: "\<lbrakk>all_commands_from_script parse script = Some cs; ws \<in> pc_words ` set cs\<rbrakk> \<Longrightarrow>
    runs parse (Suc n) script (unwrap_wrappers ws)"
| nested: "\<lbrakk>all_commands_from_script parse script = Some cs; ws \<in> pc_words ` set cs;
    shell_dash_c_script (unwrap_wrappers ws) = Some inner; runs parse n inner vs\<rbrakk> \<Longrightarrow>
    runs parse (Suc n) script vs"

inductive_cases runs_zeroE [elim!]: "runs parse 0 script ws"

lemma unwrap_same_length: "length (unwrap_wrappers ws) = length ws \<Longrightarrow> unwrap_wrappers ws = ws"
proof -
  assume len: "length (unwrap_wrappers ws) = length ws"
  obtain zs where zs: "ws = zs @ unwrap_wrappers ws"
    using unwrap_loop_suffix[of 8 ws] by (auto simp: unwrap_wrappers_def suffix_def)
  then have "length ws = length zs + length (unwrap_wrappers ws)" by (metis length_append)
  with len zs show ?thesis by simp
qed

lemma runs_weight:
  "runs parse n script ws \<Longrightarrow>
   rank (evaluate_bash_words lib rules cwd ws) \<le> rank (evaluate_bash_segments lib rules parse cwd n script)"
proof (induction n script ws rule: runs.induct)
  case (direct script cs ws n)
  then show ?case
    by (intro segment_verdict_weight) (auto simp: segment_verdicts_def Let_def)
next
  case (unwrapped script cs ws n)
  then show ?case
    using unwrap_same_length[of ws]
    by (intro segment_verdict_weight) (auto simp: segment_verdicts_def Let_def)
next
  case (nested script cs ws inner n vs)
  have "rank (evaluate_bash_segments lib rules parse cwd n inner)
      \<le> rank (evaluate_bash_segments lib rules parse cwd (Suc n) script)"
    using nested by (intro segment_verdict_weight) (auto simp: segment_verdicts_def Let_def)
  with nested.IH show ?case by simp
qed

lemma denied_words:
  assumes "r \<in> set rules" "cr_action r = ActDeny" "rule_applies lib r (bash_access ws cwd)"
  shows "3 \<le> rank (evaluate_bash_words lib rules cwd ws)"
  using deny_rule_denies[OF assms] rank_escalation[of "evaluate_rules lib rules (bash_access ws cwd)"]
  by (auto simp: evaluate_bash_words_def Let_def split: list.split)

lemma applies_to_bash:
  "rule_applies lib r (bash_access ws cwd) \<Longrightarrow> cr_action r = ActDeny \<Longrightarrow> is_bash_restriction r"
  by (auto simp: rule_applies_def bash_access_def tool_filter_matches_def is_bash_restriction_def
      split: tool_filter.splits)

end
