(* ===== verification/File_Access.thy ===== *)
theory File_Access
  imports Shell_Split
begin

text \<open>
  Which files one command reads or writes, judged from its words
  (\<open>crates/safety/src/permission/file_access_model.rs\<close>). \<open>Path::file_name\<close> and \<open>Path::join\<close> are
  written out for \<open>/\<close>-separated paths.
\<close>

section \<open>Paths as strings\<close>

text \<open>The components of a path: a leading \<open>/\<close> is the root, empty and inner \<open>.\<close> pieces vanish.\<close>

datatype component = RootDir | CurDir | ParentDir | Normal string

definition piece_component :: "string \<Rightarrow> component" where
  "piece_component p = (if p = ''..'' then ParentDir else Normal p)"

definition path_parts :: "string \<Rightarrow> component list" where
  "path_parts path =
     (let pieces = filter (\<lambda>p. p \<noteq> []) (split_char (CHR ''/'') path) in
      if starts_with path ''/''
      then RootDir # map piece_component (filter (\<lambda>p. p \<noteq> ''.'') pieces)
      else (case pieces of
              p # ps \<Rightarrow> (if p = ''.'' then [CurDir] else [piece_component p]) @
                         map piece_component (filter (\<lambda>p. p \<noteq> ''.'') ps)
            | [] \<Rightarrow> []))"

definition path_is_absolute :: "string \<Rightarrow> bool" where
  "path_is_absolute path = starts_with path ''/''"

definition path_join :: "string \<Rightarrow> string \<Rightarrow> string" where
  "path_join base p =
     (if path_is_absolute p then p
      else if base = [] then p
      else if ends_with base ''/'' then base @ p
      else base @ ''/'' @ p)"

definition file_name :: "string \<Rightarrow> string option" where
  "file_name path =
     (case rev (path_parts path) of Normal n # _ \<Rightarrow> Some n | _ \<Rightarrow> None)"

section \<open>Options and operands\<close>

datatype file_mode = ReadMode | GrepMode "string option" bool | EditMode

datatype extracted_access = PathAccess file_mode string | Ambiguous

definition is_safe_write_sink :: "string \<Rightarrow> bool" where
  "is_safe_write_sink path \<longleftrightarrow> path \<in> set [''/dev/null'', ''/dev/stdout'', ''/dev/stderr'']"

definition extracted_path :: "file_mode \<Rightarrow> string \<Rightarrow> extracted_access option" where
  "extracted_path mode path =
     (if path = ''-'' \<or> (mode = EditMode \<and> is_safe_write_sink path) then None
      else if contains_any path ''*?['' \<or> starts_with path ''~/'' then Some Ambiguous
      else Some (PathAccess mode path))"

definition flag_value :: "string \<Rightarrow> string \<Rightarrow> string option" where
  "flag_value word flag =
     (let value = (case strip_prefix (flag @ ''='') word of
                     Some v \<Rightarrow> Some v
                   | None \<Rightarrow> if \<not> starts_with flag ''--'' then strip_prefix flag word else None)
      in case value of Some (c # cs) \<Rightarrow> Some (c # cs) | _ \<Rightarrow> None)"

text \<open>The words after the program; the flags are whether the options ended and whether to skip.\<close>

fun candidates_loop :: "string list \<Rightarrow> bool \<Rightarrow> bool \<Rightarrow> string list \<Rightarrow> string list" where
  "candidates_loop flags ended skip [] = []"
| "candidates_loop flags ended skip (w # ws) =
     (if skip then candidates_loop flags ended False ws
      else if \<not> ended \<and> w = ''--'' then candidates_loop flags True False ws
      else if \<not> ended \<and> w \<in> set flags then candidates_loop flags ended True ws
      else if \<not> ended \<and> list_ex (\<lambda>f. flag_value w f \<noteq> None) flags
      then candidates_loop flags ended False ws
      else if ended \<or> (w \<noteq> ''-'' \<and> \<not> starts_with w ''-'')
      then w # candidates_loop flags ended False ws
      else candidates_loop flags ended False ws)"

definition file_candidates_without_value_flags :: "string list \<Rightarrow> string list \<Rightarrow> string list" where
  "file_candidates_without_value_flags ws flags = candidates_loop flags False False (drop 1 ws)"

definition file_candidates :: "string list \<Rightarrow> string list" where
  "file_candidates ws = file_candidates_without_value_flags ws []"

definition flag_values_at :: "string list \<Rightarrow> string \<Rightarrow> string list \<Rightarrow> string list" where
  "flag_values_at flags word rest =
     List.map_filter (\<lambda>f. case flag_value word f of
         Some v \<Rightarrow> Some v
       | None \<Rightarrow> if word = f then (case rest of [] \<Rightarrow> None | r # _ \<Rightarrow> Some r) else None) flags"

fun value_flag_values :: "string list \<Rightarrow> string list \<Rightarrow> string list" where
  "value_flag_values [] flags = []"
| "value_flag_values (w # ws) flags = flag_values_at flags w ws @ value_flag_values ws flags"

section \<open>Programs\<close>

definition accesses_of :: "file_mode \<Rightarrow> string list \<Rightarrow> extracted_access list" where
  "accesses_of mode paths = List.map_filter (extracted_path mode) paths"

definition option_list :: "'a option \<Rightarrow> 'a list" where
  "option_list x = (case x of Some a \<Rightarrow> [a] | None \<Rightarrow> [])"

definition source_accesses :: "string \<Rightarrow> string \<Rightarrow> extracted_access list" where
  "source_accesses program source =
     option_list (extracted_path ReadMode source) @
     (if program = ''mv'' then option_list (extracted_path EditMode source) else [])"

definition target_flags :: "string list" where
  "target_flags = [''-t'', ''--target-directory'']"

definition path_command_accesses :: "string \<Rightarrow> string list \<Rightarrow> extracted_access list" where
  "path_command_accesses program ws =
     (let targets = value_flag_values ws target_flags in
      if targets = [] then
        (let candidates = file_candidates ws in
         if candidates = [] then []
         else concat (map (source_accesses program) (butlast candidates)) @
              option_list (extracted_path EditMode (List.last candidates)))
      else
        (case targets of
           [target] \<Rightarrow>
             (let sources = file_candidates_without_value_flags ws target_flags in
              if sources = [] then [Ambiguous]
              else concat (map (\<lambda>source.
                     source_accesses program source @
                     (case file_name source of
                        None \<Rightarrow> [Ambiguous]
                      | Some n \<Rightarrow> option_list (extracted_path EditMode (path_join target n)))) sources))
         | _ \<Rightarrow> [Ambiguous]))"

definition grep_is_recursive :: "string list \<Rightarrow> bool" where
  "grep_is_recursive ws =
     list_ex (\<lambda>w. w \<in> set [''-r'', ''-R'', ''--recursive''] \<or>
       (case strip_prefix ''-'' w of
          Some options \<Rightarrow> \<not> starts_with options ''-'' \<and> contains_any options ''rR''
        | None \<Rightarrow> False)) (drop 1 ws)"

definition pattern_flags :: "string list" where
  "pattern_flags = [''-e'', ''--regexp'', ''-f'', ''--file'']"

definition reader_accesses :: "string \<Rightarrow> string list \<Rightarrow> extracted_access list" where
  "reader_accesses program ws =
     (if program \<notin> set [''grep'', ''egrep'', ''fgrep'', ''rg'', ''ag'', ''ack'']
      then accesses_of ReadMode (file_candidates ws)
      else
        (let pattern_files = value_flag_values ws [''-f'', ''--file''];
             candidates = file_candidates_without_value_flags ws pattern_flags;
             paths = (if value_flag_values ws pattern_flags = [] then drop 1 candidates else candidates);
             recursive = (program \<in> set [''rg'', ''ag'', ''ack''] \<or>
               (program \<in> set [''grep'', ''egrep'', ''fgrep''] \<and> grep_is_recursive ws))
         in accesses_of ReadMode pattern_files @ accesses_of (GrepMode None recursive) paths @
            (if recursive \<and> paths = [] then option_list (extracted_path (GrepMode None True) ''.'')
             else [])))"

definition output_paths :: "string \<Rightarrow> string list \<Rightarrow> extracted_access list" where
  "output_paths program ws =
     accesses_of EditMode (value_flag_values ws [''--output'', ''-o'']) @
     (if program = ''rustc'' then
        (let out_dirs = value_flag_values ws [''--out-dir''] in
         accesses_of EditMode out_dirs @ (if out_dirs \<noteq> [] then [Ambiguous] else []))
      else [])"

definition sort_output_flags :: "string list" where
  "sort_output_flags = [''--output'', ''-o'']"

definition sort_accesses :: "string list \<Rightarrow> extracted_access list" where
  "sort_accesses ws =
     accesses_of ReadMode (file_candidates_without_value_flags ws sort_output_flags) @
     accesses_of EditMode (value_flag_values ws sort_output_flags)"

definition sed_is_in_place :: "string list \<Rightarrow> bool" where
  "sed_is_in_place ws =
     list_ex (\<lambda>w. w = ''--in-place'' \<or> starts_with w ''--in-place='' \<or>
       (starts_with w ''-'' \<and> \<not> starts_with w ''--'' \<and> CHR ''i'' \<in> set w)) (drop 1 ws)"

definition reader_programs :: "string list" where
  "reader_programs = [''cat'', ''tac'', ''nl'', ''head'', ''tail'', ''grep'', ''egrep'', ''fgrep'', ''rg'',
     ''sed'', ''awk'', ''less'', ''more'', ''bat'', ''strings'', ''xxd'', ''od'', ''hexdump'', ''base64'',
     ''base32'', ''cut'', ''sort'', ''uniq'', ''wc'', ''diff'', ''comm'', ''jq'', ''yq'', ''ag'', ''ack'']"

definition is_reader :: "string \<Rightarrow> bool" where
  "is_reader program \<longleftrightarrow> program \<in> set reader_programs"

definition no_file_programs :: "string list" where
  "no_file_programs = ['':'', ''['', ''alias'', ''cd'', ''echo'', ''exit'', ''export'', ''false'',
     ''printf'', ''pwd'', ''test'', ''true'', ''type'', ''unalias'', ''unset'']"

definition is_modeled_no_file :: "string \<Rightarrow> bool" where
  "is_modeled_no_file program \<longleftrightarrow> program \<in> set no_file_programs"

definition dd_access :: "string \<Rightarrow> extracted_access option" where
  "dd_access word =
     (case Option.bind (strip_prefix ''if='' word) (extracted_path ReadMode) of
        Some a \<Rightarrow> Some a
      | None \<Rightarrow> Option.bind (strip_prefix ''of='' word) (extracted_path EditMode))"

definition program_accesses :: "string \<Rightarrow> string list \<Rightarrow> extracted_access list" where
  "program_accesses program ws =
     (if program = ''dd'' then List.map_filter dd_access (drop 1 ws)
      else if program \<in> set [''cp'', ''mv'', ''ln'', ''install''] then path_command_accesses program ws
      else if program \<in> set [''rm'', ''rmdir'', ''mkdir'', ''touch'']
      then accesses_of EditMode (file_candidates ws)
      else if program \<in> set [''tee'', ''truncate'', ''set-content'', ''out-file'', ''add-content'',
          ''tee-object'']
      then accesses_of EditMode (file_candidates ws)
      else if program = ''sed'' \<and> sed_is_in_place ws
      then concat (map (\<lambda>path. List.map_filter (\<lambda>mode. extracted_path mode path) [ReadMode, EditMode])
             (drop 1 (file_candidates ws)))
      else if program = ''sort'' then sort_accesses ws
      else if program \<in> set [''go'', ''git'', ''rustc'']
      then (let accesses = output_paths program ws in if accesses = [] then [Ambiguous] else accesses)
      else if is_reader program then reader_accesses program ws
      else if program = ''rustfmt'' then accesses_of EditMode (file_candidates ws)
      else if is_modeled_no_file program then []
      else [Ambiguous])"

definition command_file_accesses :: "string list \<Rightarrow> extracted_access list" where
  "command_file_accesses ws =
     (case ws of
        [] \<Rightarrow> []
      | word # _ \<Rightarrow> program_accesses (to_ascii_lowercase (basename word)) ws)"

section \<open>Operands of the commands\<close>

lemma candidates_plain:
  "\<forall>w\<in>set ws. \<not> starts_with w ''-'' \<Longrightarrow> candidates_loop [] False False ws = ws"
  by (induction ws) (auto simp: starts_with_def)

lemma extracted_path_literal:
  "path \<noteq> ''-'' \<Longrightarrow> \<not> is_safe_write_sink path \<Longrightarrow> \<not> contains_any path ''*?['' \<Longrightarrow> \<not> starts_with path ''~/'' \<Longrightarrow>
   extracted_path mode path = Some (PathAccess mode path)"
  by (simp add: extracted_path_def)

lemma accesses_of_mem:
  "path \<in> set paths \<Longrightarrow> extracted_path mode path = Some a \<Longrightarrow> a \<in> set (accesses_of mode paths)"
  by (induction paths) (auto simp: accesses_of_def List.map_filter_simps split: option.split)

text \<open>A word after the end of the options is always an operand.\<close>

lemma candidates_after_end: "w \<in> set ws \<Longrightarrow> w \<in> set (candidates_loop flags True False ws)"
  by (induction ws) auto

lemma candidates_member:
  "w \<in> set ws \<Longrightarrow> \<not> starts_with w ''-'' \<Longrightarrow> w \<in> set (candidates_loop [] ended False ws)"
proof (induction ws arbitrary: ended)
  case (Cons v ws)
  then show ?case by (auto simp: candidates_after_end starts_with_def)
qed simp

end
