(* ===== verification/Shell_Access.thy ===== *)
theory Shell_Access
  imports Permission_Policy File_Access "HOL-Library.Product_Lexorder"
begin

text \<open>
  The gates on the files an access or a shell command touches
  (\<open>crates/safety/src/permission/shell_access.rs\<close>, on platforms other than Windows). The file system is
  the argument \<open>fs\<close>: canonical paths, symbolic links and their targets. Of a script the grammar
  supplies, besides the literal commands, the redirection nodes (\<open>redirects\<close>): where each starts, the
  kinds of its children and its destination, which is \<open>Some None\<close> when it is not a literal.
\<close>

section \<open>Paths\<close>

record file_system =
  fs_canonicalize :: "string \<Rightarrow> string option"
  fs_is_symlink :: "string \<Rightarrow> bool"
  fs_read_link :: "string \<Rightarrow> string option"

fun component_text :: "component \<Rightarrow> string" where
  "component_text RootDir = ''''"
| "component_text CurDir = ''.''"
| "component_text ParentDir = ''..''"
| "component_text (Normal n) = n"

text \<open>The path a sequence of pushes builds.\<close>

definition render_components :: "component list \<Rightarrow> string" where
  "render_components cs =
     (case cs of
        RootDir # rest \<Rightarrow> ''/'' @ join ''/'' (map component_text rest)
      | _ \<Rightarrow> join ''/'' (map component_text cs))"

text \<open>\<open>PathBuf::pop\<close>: the shorter path, \<open>None\<close> when there is no parent.\<close>

definition pop_component :: "component list \<Rightarrow> component list option" where
  "pop_component cs = (if cs = [] \<or> cs = [RootDir] then None else Some (butlast cs))"

definition has_root :: "component list \<Rightarrow> bool" where
  "has_root cs = (case cs of RootDir # _ \<Rightarrow> True | _ \<Rightarrow> False)"

fun normalize_step :: "component list \<Rightarrow> component \<Rightarrow> component list" where
  "normalize_step cs CurDir = cs"
| "normalize_step cs ParentDir =
     (case pop_component cs of
        Some cs' \<Rightarrow> cs'
      | None \<Rightarrow> if has_root cs then cs else cs @ [ParentDir])"
| "normalize_step cs RootDir = [RootDir]"
| "normalize_step cs (Normal n) = cs @ [Normal n]"

definition normalize_components :: "component list \<Rightarrow> component list" where
  "normalize_components cs = foldl normalize_step [] cs"

definition lexical_normalize :: "string \<Rightarrow> string" where
  "lexical_normalize path = render_components (normalize_components (path_parts path))"

text \<open>\<open>Path::parent\<close>, up to redundant separators.\<close>

definition path_parent :: "string \<Rightarrow> string option" where
  "path_parent path = map_option render_components (pop_component (path_parts path))"

definition path_starts_with :: "string \<Rightarrow> string \<Rightarrow> bool" where
  "path_starts_with path root = prefix (path_parts root) (path_parts path)"

definition path_matches_roots :: "string \<Rightarrow> string list \<Rightarrow> bool" where
  "path_matches_roots path roots = list_ex (path_starts_with path) roots"

section \<open>Symbolic links\<close>

definition path_has_symlink :: "file_system \<Rightarrow> string \<Rightarrow> bool" where
  "path_has_symlink fs path \<longleftrightarrow>
     path_is_absolute path \<and>
     list_ex (\<lambda>n. fs_is_symlink fs (render_components (take n (path_parts path))))
       [1..<Suc (length (path_parts path))]"

definition MAX_SYMLINK_DEPTH :: nat where
  "MAX_SYMLINK_DEPTH = 40"

text \<open>The number counts the calls still allowed, \<open>MAX_SYMLINK_DEPTH + 1 - depth\<close>.\<close>

primrec resolve_following_symlinks :: "file_system \<Rightarrow> nat \<Rightarrow> string \<Rightarrow> string option" where
  "resolve_following_symlinks fs 0 path = None"
| "resolve_following_symlinks fs (Suc n) path =
     (if \<not> path_is_absolute path then None
      else
        (case fs_canonicalize fs path of
           Some canonical \<Rightarrow> Some (lexical_normalize canonical)
         | None \<Rightarrow>
             (case (path_parent path, file_name path) of
                (Some parent, Some name) \<Rightarrow>
                  (case resolve_following_symlinks fs n parent of
                     None \<Rightarrow> None
                   | Some resolved_parent \<Rightarrow>
                       (let candidate = path_join resolved_parent name in
                        if fs_is_symlink fs candidate
                        then (case fs_read_link fs candidate of
                                None \<Rightarrow> None
                              | Some target \<Rightarrow>
                                  resolve_following_symlinks fs n (path_join resolved_parent target))
                        else Some (lexical_normalize candidate)))
              | _ \<Rightarrow> None)))"

definition resolve :: "file_system \<Rightarrow> string \<Rightarrow> string option" where
  "resolve fs path = resolve_following_symlinks fs (Suc MAX_SYMLINK_DEPTH) path"

section \<open>The verdict on one path\<close>

datatype path_decision_mode = Direct | Shell

datatype unresolved_symlink_policy = AskUnresolved | IgnoreUnresolved

definition mode_access :: "file_mode \<Rightarrow> string \<Rightarrow> string \<Rightarrow> access" where
  "mode_access mode path cwd =
     (case mode of
        ReadMode \<Rightarrow> Read (Some path) cwd
      | GrepMode glob recursive \<Rightarrow> Grep (Some path) glob cwd recursive
      | EditMode \<Rightarrow> Edit path cwd)"

definition path_decision ::
  "libs \<Rightarrow> compiled_rule list \<Rightarrow> file_mode \<Rightarrow> string \<Rightarrow> string \<Rightarrow> path_decision_mode \<Rightarrow> policy_decision" where
  "path_decision lib rules mode path cwd dmode =
     (let a = mode_access mode path cwd;
          direct = evaluate_rules lib rules a;
          recursive = (case mode of
                         GrepMode _ True \<Rightarrow> evaluate_recursive_scope rules a
                       | _ \<Rightarrow> NoMatch)
      in case dmode of
           Direct \<Rightarrow> combine direct recursive
         | Shell \<Rightarrow> escalation_only (combine direct recursive))"

definition evaluate_path ::
  "libs \<Rightarrow> file_system \<Rightarrow> compiled_rule list \<Rightarrow> file_mode \<Rightarrow> string \<Rightarrow> string \<Rightarrow> path_decision_mode \<Rightarrow>
   unresolved_symlink_policy \<Rightarrow> policy_decision" where
  "evaluate_path lib fs rules mode raw cwd dmode unresolved =
     (let raw_absolute = (if path_is_absolute raw then raw else path_join cwd raw);
          absolute = lexical_normalize raw_absolute;
          decision = combine (path_decision lib rules mode raw cwd dmode)
                             (path_decision lib rules mode absolute cwd dmode)
      in case resolve fs raw_absolute of
           Some resolved \<Rightarrow>
             if resolved \<noteq> absolute
             then combine decision (path_decision lib rules mode resolved cwd dmode) else decision
         | None \<Rightarrow>
             if unresolved = AskUnresolved \<and> path_has_symlink fs raw_absolute
             then combine decision Ask else decision)"

definition evaluate_native_file_access ::
  "libs \<Rightarrow> file_system \<Rightarrow> compiled_rule list \<Rightarrow> access \<Rightarrow> unresolved_symlink_policy \<Rightarrow> policy_decision" where
  "evaluate_native_file_access lib fs rules a unresolved =
     (case a of
        Read (Some path) cwd \<Rightarrow> evaluate_path lib fs rules ReadMode path cwd Direct unresolved
      | Grep (Some path) glob cwd recursive \<Rightarrow>
          evaluate_path lib fs rules (GrepMode glob recursive) path cwd Direct unresolved
      | Edit path cwd \<Rightarrow> evaluate_path lib fs rules EditMode path cwd Direct unresolved
      | Grep None glob cwd True \<Rightarrow>
          evaluate_path lib fs rules (GrepMode glob True) ''.'' cwd Direct unresolved
      | _ \<Rightarrow> NoMatch)"

definition evaluate_extracted_access ::
  "libs \<Rightarrow> file_system \<Rightarrow> compiled_rule list \<Rightarrow> extracted_access \<Rightarrow> string option \<Rightarrow> policy_decision" where
  "evaluate_extracted_access lib fs rules a cwd =
     (case a of
        PathAccess mode path \<Rightarrow>
          (case (case cwd of Some c \<Rightarrow> Some c
                 | None \<Rightarrow> if path_is_absolute path then Some ''/'' else None) of
             None \<Rightarrow> Ask
           | Some c \<Rightarrow> evaluate_path lib fs rules mode path c Shell AskUnresolved)
      | Ambiguous \<Rightarrow> Ask)"

datatype access_source = FromCommand | FromRedirect

definition evaluate_access_with_roots ::
  "file_system \<Rightarrow> string list \<Rightarrow> string list \<Rightarrow> access_source \<Rightarrow> extracted_access \<Rightarrow> string option \<Rightarrow>
   policy_decision" where
  "evaluate_access_with_roots fs readable writable source a cwd =
     (case a of
        PathAccess mode path \<Rightarrow>
          (case (case cwd of Some c \<Rightarrow> Some c
                 | None \<Rightarrow> if path_is_absolute path then Some ''/'' else None) of
             None \<Rightarrow> Ask
           | Some c \<Rightarrow>
               (let lexical = lexical_normalize (if path_is_absolute path then path else path_join c path);
                    absolute = (case resolve fs lexical of Some r \<Rightarrow> r | None \<Rightarrow> lexical);
                    allowed = (case mode of
                      EditMode \<Rightarrow> path_matches_roots absolute writable
                    | _ \<Rightarrow> path_matches_roots absolute readable \<or> path_matches_roots absolute writable)
                in if allowed then NoMatch else Ask))
      | Ambiguous \<Rightarrow> (case source of FromCommand \<Rightarrow> NoMatch | FromRedirect \<Rightarrow> Ask))"

section \<open>Scripts\<close>

record redirect_node =
  rd_start :: nat
  rd_child_kinds :: "string list"
  rd_destination :: "string option option"

text \<open>
  The operator of a redirection: the first child kind with an angle bracket; a here-document before
  it ends the search without one.
\<close>

fun redirect_operator :: "string list \<Rightarrow> string option" where
  "redirect_operator [] = None"
| "redirect_operator (k # ks) =
     (if contains_str k ''<<'' then None
      else if CHR ''>'' \<in> set k \<or> CHR ''<'' \<in> set k then Some k
      else redirect_operator ks)"

definition redirect_access :: "redirect_node \<Rightarrow> extracted_access option" where
  "redirect_access node =
     (case redirect_operator (rd_child_kinds node) of
        None \<Rightarrow> None
      | Some operator \<Rightarrow>
          (let mode = (if CHR ''>'' \<in> set operator then EditMode else ReadMode) in
           case rd_destination node of
             None \<Rightarrow> None
           | Some None \<Rightarrow> Some Ambiguous
           | Some (Some path) \<Rightarrow>
               if path = [] \<or> starts_with path ''&'' \<or>
                  (operator \<in> set [''>&'', ''<&''] \<and> (path = ''-'' \<or> list_all is_ascii_digit path))
               then None
               else extracted_path mode path))"

definition redirect_accesses :: "redirect_node list \<Rightarrow> (nat \<times> extracted_access) list" where
  "redirect_accesses nodes =
     List.map_filter (\<lambda>n. map_option (\<lambda>a. (rd_start n, a)) (redirect_access n)) nodes"

text \<open>The redirections of a script, \<open>None\<close> when it does not parse without errors.\<close>

type_synonym redirect_parser = "string \<Rightarrow> redirect_node list option"

definition command_changes_cwd :: "string list \<Rightarrow> bool" where
  "command_changes_cwd ws =
     (case unwrap_wrappers ws of
        [] \<Rightarrow> False
      | program # _ \<Rightarrow> basename program \<in> set [''cd'', ''pushd'', ''popd''])"

definition apply_cwd_change :: "string list \<Rightarrow> string option \<Rightarrow> string option" where
  "apply_cwd_change ws cwd =
     (case unwrap_wrappers ws of
        [] \<Rightarrow> None
      | program # args \<Rightarrow>
          if basename program \<noteq> ''cd'' then None
          else
            (case (case args of
                     [target] \<Rightarrow> Some target
                   | [opt, target] \<Rightarrow> if opt = ''--'' then Some target else None
                   | _ \<Rightarrow> None) of
               None \<Rightarrow> None
             | Some target \<Rightarrow>
                 if target = ''-'' \<or> target = [] then None
                 else if path_is_absolute target then Some (lexical_normalize target)
                 else map_option (\<lambda>c. lexical_normalize (path_join c target)) cwd))"

definition sets_chdir :: "string list \<Rightarrow> bool" where
  "sets_chdir ws \<longleftrightarrow>
     (case ws of program # _ \<Rightarrow> basename program = ''env'' | [] \<Rightarrow> False) \<and>
     list_ex (\<lambda>w. w \<in> set [''-C'', ''--chdir''] \<or> starts_with w ''--chdir='' \<or>
       (case strip_prefix ''-C'' w of Some value \<Rightarrow> value \<noteq> [] | None \<Rightarrow> False)) ws"

primrec chdir_loop :: "nat \<Rightarrow> string list \<Rightarrow> bool" where
  "chdir_loop 0 current = False"
| "chdir_loop (Suc n) current =
     (if sets_chdir current then True
      else (let inner = unwrap_wrappers current in
            if length inner = length current then False else chdir_loop n inner))"

definition wrapper_changes_cwd :: "string list \<Rightarrow> bool" where
  "wrapper_changes_cwd ws = chdir_loop 8 ws"

datatype shell_event = EvCommand "string list" | EvRedirect extracted_access | EvCwdChange "string list"

text \<open>The events in the order of their positions; at one position a command comes first.\<close>

definition shell_events ::
  "parsed_command list \<Rightarrow> (nat \<times> extracted_access) list \<Rightarrow> shell_event list" where
  "shell_events commands redirects =
     (let from_commands = concat (map (\<lambda>c.
            ((pc_start_byte c, 0 :: nat), EvCommand (pc_words c)) #
            (if command_changes_cwd (pc_words c)
             then [((pc_end_byte c, 2), EvCwdChange (pc_words c))] else [])) commands);
          from_redirects = map (\<lambda>(position, a). ((position, 1), EvRedirect a)) redirects
      in map snd (sort_key fst (from_commands @ from_redirects)))"

text \<open>
  The walk over the events with the verdict so far and the working directory; \<open>judge\<close> is the verdict
  on one extracted access, \<open>nested\<close> the one on the script of a shell.
\<close>

fun walk_events ::
  "(access_source \<Rightarrow> extracted_access \<Rightarrow> string option \<Rightarrow> policy_decision) \<Rightarrow> (string \<Rightarrow> string \<Rightarrow> policy_decision) \<Rightarrow>
   policy_decision \<Rightarrow> string option \<Rightarrow> shell_event list \<Rightarrow> policy_decision" where
  "walk_events judge nested decision cwd [] = decision"
| "walk_events judge nested decision cwd (EvCommand raw # es) =
     (let ws = unwrap_wrappers raw;
          d1 = (if wrapper_changes_cwd raw then combine decision Ask else decision);
          d2 = (if command_changes_cwd raw then d1
                else foldl (\<lambda>d a. combine d (judge FromCommand a cwd)) d1 (command_file_accesses ws));
          d3 = (case shell_dash_c_script ws of
                  Some script \<Rightarrow>
                    combine d2 (case cwd of Some c \<Rightarrow> nested script c | None \<Rightarrow> Ask)
                | None \<Rightarrow> d2)
      in walk_events judge nested d3 cwd es)"
| "walk_events judge nested decision cwd (EvRedirect a # es) =
     walk_events judge nested (combine decision (judge FromRedirect a cwd)) cwd es"
| "walk_events judge nested decision cwd (EvCwdChange ws # es) =
     (let cwd' = apply_cwd_change ws cwd
      in walk_events judge nested (if cwd' = None then combine decision Ask else decision) cwd' es)"

text \<open>Both evaluations of a script share the walk; the number is the nesting still allowed.\<close>

primrec evaluate_script ::
  "shell_parser \<Rightarrow> redirect_parser \<Rightarrow>
   (access_source \<Rightarrow> extracted_access \<Rightarrow> string option \<Rightarrow> policy_decision) \<Rightarrow> nat \<Rightarrow> string \<Rightarrow> string \<Rightarrow>
   policy_decision" where
  "evaluate_script parse redirects judge 0 command cwd = Ask"
| "evaluate_script parse redirects judge (Suc n) command cwd =
     (case all_commands_from_script parse command of
        None \<Rightarrow> Ask
      | Some commands \<Rightarrow>
          (case redirects command of
             None \<Rightarrow> Ask
           | Some nodes \<Rightarrow>
               walk_events judge (evaluate_script parse redirects judge n) NoMatch (Some cwd)
                 (shell_events commands (redirect_accesses nodes))))"

definition evaluate_shell_file_access ::
  "libs \<Rightarrow> file_system \<Rightarrow> shell_parser \<Rightarrow> redirect_parser \<Rightarrow> compiled_rule list \<Rightarrow> string \<Rightarrow> string \<Rightarrow>
   policy_decision" where
  "evaluate_shell_file_access lib fs parse redirects rules command cwd =
     evaluate_script parse redirects (\<lambda>_ a c. evaluate_extracted_access lib fs rules a c)
       MAX_NESTING command cwd"

definition evaluate_shell_access_with_roots ::
  "file_system \<Rightarrow> shell_parser \<Rightarrow> redirect_parser \<Rightarrow> string list \<Rightarrow> string list \<Rightarrow> string \<Rightarrow> string \<Rightarrow>
   policy_decision" where
  "evaluate_shell_access_with_roots fs parse redirects readable writable command cwd =
     evaluate_script parse redirects (evaluate_access_with_roots fs readable writable)
       MAX_NESTING command cwd"

end
