(* ===== verification/Permission_Gate.thy ===== *)
theory Permission_Gate
  imports Shell_Access
begin

text \<open>
  The evaluation of an access by the whole permission policy
  (\<open>crates/safety/src/permission/policy.rs\<close>, \<open>CompiledPolicy::evaluate\<close>): the verdict of the rules, of
  the commands of a shell script and of the files they touch, combined. The properties are about this
  composition and about the check of a script against allowed roots.
\<close>

record environment =
  env_libs :: libs
  env_fs :: file_system
  env_parse :: shell_parser
  env_redirects :: redirect_parser

definition evaluate :: "environment \<Rightarrow> compiled_policy \<Rightarrow> access \<Rightarrow> policy_decision" where
  "evaluate env p a =
     (let lib = env_libs env; rules = cp_rules p;
          direct = combine (evaluate_rules lib rules a)
            (evaluate_native_file_access lib (env_fs env) rules a
              (if cp_file_restrictions p then AskUnresolved else IgnoreUnresolved))
      in case a of
           Bash command cwd \<Rightarrow>
             (let bash = (if cp_bash_restrictions p
                          then evaluate_bash_segments lib rules (env_parse env) cwd MAX_NESTING command
                          else NoMatch);
                  files = (if cp_file_restrictions p
                           then evaluate_shell_file_access lib (env_fs env) (env_parse env)
                                  (env_redirects env) rules command cwd
                           else NoMatch)
              in combine (combine direct bash) files)
         | _ \<Rightarrow> direct)"

section \<open>Independence of the order of the rules\<close>

lemma verdict_functions_mset:
  assumes "mset rules = mset rules'"
  shows "evaluate_rules lib rules = evaluate_rules lib rules'"
    and "evaluate_recursive_scope rules = evaluate_recursive_scope rules'"
  using evaluate_rules_mset[OF assms] evaluate_recursive_scope_mset[OF assms] by (auto intro: ext)

lemma evaluate_path_mset:
  assumes "mset rules = mset rules'"
  shows "evaluate_path lib fs rules = evaluate_path lib fs rules'"
  by (intro ext) (simp only: evaluate_path_def path_decision_def verdict_functions_mset[OF assms])

lemma file_gates_mset:
  assumes "mset rules = mset rules'"
  shows "evaluate_native_file_access lib fs rules a u = evaluate_native_file_access lib fs rules' a u"
    and "evaluate_shell_file_access lib fs parse redirects rules command cwd =
      evaluate_shell_file_access lib fs parse redirects rules' command cwd"
  by (simp_all only: evaluate_native_file_access_def evaluate_shell_file_access_def
      evaluate_extracted_access_def evaluate_path_mset[OF assms])

section \<open>Allowed roots\<close>

text \<open>Where an extracted access lands, and whether it lands below a root its mode may use.\<close>

definition landing :: "file_system \<Rightarrow> string \<Rightarrow> string \<Rightarrow> string" where
  "landing fs cwd path =
     (let lexical = lexical_normalize (if path_is_absolute path then path else path_join cwd path)
      in case resolve fs lexical of Some r \<Rightarrow> r | None \<Rightarrow> lexical)"

definition within_roots :: "file_system \<Rightarrow> string list \<Rightarrow> string list \<Rightarrow> string \<Rightarrow> extracted_access \<Rightarrow> bool" where
  "within_roots fs readable writable cwd a =
     (case a of
        PathAccess EditMode path \<Rightarrow> path_matches_roots (landing fs cwd path) writable
      | PathAccess _ path \<Rightarrow>
          path_matches_roots (landing fs cwd path) readable \<or> path_matches_roots (landing fs cwd path) writable
      | Ambiguous \<Rightarrow> True)"

lemma roots_verdict:
  "evaluate_access_with_roots fs readable writable source a (Some cwd) = NoMatch \<Longrightarrow>
   within_roots fs readable writable cwd a \<and> (source = FromRedirect \<longrightarrow> a \<noteq> Ambiguous)"
  by (auto simp: evaluate_access_with_roots_def within_roots_def landing_def Let_def
      split: extracted_access.splits file_mode.splits access_source.splits if_splits)

section \<open>Every access of a script weighs in\<close>

lemma foldl_combine_weight:
  "rank start \<le> rank (foldl (\<lambda>d a. combine d (f a)) start as)"
  "a \<in> set as \<Longrightarrow> rank (f a) \<le> rank (foldl (\<lambda>d a. combine d (f a)) start as)"
proof -
  show start: "rank start \<le> rank (foldl (\<lambda>d a. combine d (f a)) start as)" for start as
    by (induction as arbitrary: start) (simp_all, metis combine_rank max.bounded_iff)
  show "a \<in> set as \<Longrightarrow> rank (f a) \<le> rank (foldl (\<lambda>d a. combine d (f a)) start as)"
  proof (induction as arbitrary: start)
    case (Cons b as)
    then show ?case using start[of "combine start (f b)" as] by auto
  qed simp
qed

text \<open>The verdict after one event at a working directory, where the event is not a change of it.\<close>

definition after_command ::
  "(access_source \<Rightarrow> extracted_access \<Rightarrow> string option \<Rightarrow> policy_decision) \<Rightarrow> (string \<Rightarrow> string \<Rightarrow> policy_decision) \<Rightarrow>
   policy_decision \<Rightarrow> string option \<Rightarrow> string list \<Rightarrow> policy_decision" where
  "after_command judge nested decision cwd raw =
     (let ws = unwrap_wrappers raw;
          d1 = (if wrapper_changes_cwd raw then combine decision Ask else decision);
          d2 = (if command_changes_cwd raw then d1
                else foldl (\<lambda>d a. combine d (judge FromCommand a cwd)) d1 (command_file_accesses ws))
      in case shell_dash_c_script ws of
           Some script \<Rightarrow> combine d2 (case cwd of Some c \<Rightarrow> nested script c | None \<Rightarrow> Ask)
         | None \<Rightarrow> d2)"

lemma walk_command:
  "walk_events judge nested d cwd (EvCommand raw # es) =
   walk_events judge nested (after_command judge nested d cwd raw) cwd es"
  by (simp only: walk_events.simps after_command_def Let_def)

lemma after_command_weight:
  "rank d \<le> rank (after_command judge nested d cwd raw)"
  "\<lbrakk>\<not> command_changes_cwd raw; a \<in> set (command_file_accesses (unwrap_wrappers raw))\<rbrakk> \<Longrightarrow>
   rank (judge FromCommand a cwd) \<le> rank (after_command judge nested d cwd raw)"
  "shell_dash_c_script (unwrap_wrappers raw) = Some script \<Longrightarrow>
   rank (nested script c) \<le> rank (after_command judge nested d (Some c) raw)"
proof -
  let ?d1 = "if wrapper_changes_cwd raw then combine d Ask else d"
  let ?as = "command_file_accesses (unwrap_wrappers raw)"
  let ?d2 = "if command_changes_cwd raw then ?d1
    else foldl (\<lambda>d a. combine d (judge FromCommand a cwd)) ?d1 ?as"
  have "rank d \<le> rank ?d1" by simp
  moreover have "rank ?d1 \<le> rank ?d2"
    using foldl_combine_weight(1)[of ?d1 "\<lambda>a. judge FromCommand a cwd" ?as] by simp
  moreover have d2: "rank ?d2 \<le> rank (after_command judge nested d cwd raw)"
    unfolding after_command_def Let_def by (cases "shell_dash_c_script (unwrap_wrappers raw)") simp_all
  ultimately show "rank d \<le> rank (after_command judge nested d cwd raw)" by (meson order_trans)
  show "rank (judge FromCommand a cwd) \<le> rank (after_command judge nested d cwd raw)"
    if "\<not> command_changes_cwd raw" "a \<in> set ?as"
    using foldl_combine_weight(2)[OF that(2), of "\<lambda>a. judge FromCommand a cwd" ?d1] d2 that(1)
    by simp
  show "rank (nested script c) \<le> rank (after_command judge nested d (Some c) raw)"
    if "shell_dash_c_script (unwrap_wrappers raw) = Some script"
    using that by (simp add: after_command_def Let_def)
qed

lemma walk_weight: "rank d \<le> rank (walk_events judge nested d cwd es)"
proof (induction es arbitrary: d cwd)
  case (Cons e es)
  show ?case
  proof (cases e)
    case (EvCommand raw)
    have "rank d \<le> rank (after_command judge nested d cwd raw)" by (rule after_command_weight)
    also have "\<dots> \<le> rank (walk_events judge nested d cwd (e # es))"
      unfolding EvCommand walk_command by (rule Cons.IH)
    finally show ?thesis .
  next
    case (EvRedirect a)
    with Cons.IH[of "combine d (judge FromRedirect a cwd)" cwd] show ?thesis by simp
  next
    case (EvCwdChange ws)
    with Cons.IH[of "if apply_cwd_change ws cwd = None then combine d Ask else d" "apply_cwd_change ws cwd"]
    show ?thesis by (cases "apply_cwd_change ws cwd") (simp_all add: Let_def)
  qed
qed simp

lemma walk_event:
  assumes "e \<in> set es" "\<forall>ws. EvCwdChange ws \<notin> set es"
    and "\<And>d. k \<le> (case e of
        EvCommand raw \<Rightarrow> rank (after_command judge nested d (Some cwd) raw)
      | EvRedirect a \<Rightarrow> rank (judge FromRedirect a (Some cwd))
      | EvCwdChange ws \<Rightarrow> k)"
  shows "k \<le> rank (walk_events judge nested d (Some cwd) es)"
  using assms(1,2)
proof (induction es arbitrary: d)
  case (Cons e' es)
  show ?case
  proof (cases e')
    case (EvCommand raw)
    show ?thesis
    proof (cases "e = e'")
      case True
      then have "k \<le> rank (after_command judge nested d (Some cwd) raw)"
        using assms(3)[of d] EvCommand by simp
      also have "\<dots> \<le> rank (walk_events judge nested d (Some cwd) (e' # es))"
        unfolding EvCommand walk_command by (rule walk_weight)
      finally show ?thesis .
    next
      case False
      then show ?thesis using Cons EvCommand by (simp only: walk_command) simp
    qed
  next
    case (EvRedirect a)
    show ?thesis
    proof (cases "e = e'")
      case True
      then show ?thesis
        using assms(3)[of d] EvRedirect walk_weight[of "combine d (judge FromRedirect a (Some cwd))"]
        by (auto intro: order_trans)
    next
      case False
      then show ?thesis using Cons EvRedirect by simp
    qed
  next
    case (EvCwdChange ws)
    with Cons.prems(2) show ?thesis by auto
  qed
qed simp

lemma events_of_command:
  "c \<in> set commands \<Longrightarrow> EvCommand (pc_words c) \<in> set (shell_events commands redirects)"
  by (force simp: shell_events_def Let_def)

lemma events_of_redirect:
  "(i, a) \<in> set redirects \<Longrightarrow> EvRedirect a \<in> set (shell_events commands redirects)"
  by (force simp: shell_events_def Let_def)

lemma events_no_cwd_change:
  "\<forall>c\<in>set commands. \<not> command_changes_cwd (pc_words c) \<Longrightarrow>
   EvCwdChange ws \<notin> set (shell_events commands redirects)"
  by (auto simp: shell_events_def Let_def)

text \<open>
  The accesses of a script, those of the scripts its shells run included, as long as no command
  changes the directory.
\<close>

inductive touches ::
  "shell_parser \<Rightarrow> redirect_parser \<Rightarrow> nat \<Rightarrow> string \<Rightarrow> access_source \<Rightarrow> extracted_access \<Rightarrow> bool"
  for parse redirects where
  by_command: "\<lbrakk>all_commands_from_script parse script = Some cs; redirects script = Some ns;
    \<forall>c\<in>set cs. \<not> command_changes_cwd (pc_words c);
    c \<in> set cs; a \<in> set (command_file_accesses (unwrap_wrappers (pc_words c)))\<rbrakk> \<Longrightarrow>
    touches parse redirects (Suc n) script FromCommand a"
| by_redirect: "\<lbrakk>all_commands_from_script parse script = Some cs; redirects script = Some ns;
    \<forall>c\<in>set cs. \<not> command_changes_cwd (pc_words c); (i, a) \<in> set (redirect_accesses ns)\<rbrakk> \<Longrightarrow>
    touches parse redirects (Suc n) script FromRedirect a"
| by_shell: "\<lbrakk>all_commands_from_script parse script = Some cs; redirects script = Some ns;
    \<forall>c\<in>set cs. \<not> command_changes_cwd (pc_words c); c \<in> set cs;
    shell_dash_c_script (unwrap_wrappers (pc_words c)) = Some inner;
    touches parse redirects n inner source a\<rbrakk> \<Longrightarrow>
    touches parse redirects (Suc n) script source a"

lemma touches_weight:
  "touches parse redirects n script source a \<Longrightarrow>
   rank (judge source a (Some cwd)) \<le> rank (evaluate_script parse redirects judge n script cwd)"
proof (induction n script source a rule: touches.induct)
  case (by_command script cs ns c a n)
  then show ?case
    using after_command_weight(2)[of "pc_words c" a judge "Some cwd"]
    by (auto intro!: walk_event[OF events_of_command[of c]] events_no_cwd_change)
next
  case (by_redirect script cs ns i a n)
  then show ?case
    by (auto intro!: walk_event[OF events_of_redirect[of i a]] events_no_cwd_change)
next
  case (by_shell script cs ns c inner n source a)
  have "rank (evaluate_script parse redirects judge n inner cwd)
      \<le> rank (evaluate_script parse redirects judge (Suc n) script cwd)"
    using by_shell.hyps after_command_weight(3)[of "pc_words c" inner]
    by (auto intro!: walk_event[OF events_of_command[of c]] events_no_cwd_change)
  with by_shell.IH show ?case by simp
qed

section \<open>Denials\<close>

lemma evaluate_weight:
  "rank (evaluate_rules (env_libs env) (cp_rules p) a) \<le> rank (evaluate env p a)"
  by (cases a) (simp_all add: evaluate_def Let_def le_max_iff_disj)

lemma evaluate_bash_weight:
  "cp_bash_restrictions p \<Longrightarrow>
   rank (evaluate_bash_segments (env_libs env) (cp_rules p) (env_parse env) cwd MAX_NESTING command)
     \<le> rank (evaluate env p (Bash command cwd))"
  "cp_file_restrictions p \<Longrightarrow>
   rank (evaluate_shell_file_access (env_libs env) (env_fs env) (env_parse env) (env_redirects env)
     (cp_rules p) command cwd) \<le> rank (evaluate env p (Bash command cwd))"
  by (simp_all add: evaluate_def Let_def)

lemma policy_of_simps [simp]:
  "cp_rules (policy_of cs) = cs"
  "cp_file_restrictions (policy_of cs) = list_ex is_file_restriction cs"
  "cp_bash_restrictions (policy_of cs) = list_ex is_bash_restriction cs"
  by (simp_all add: policy_of_def)

lemma applies_to_file:
  "rule_applies lib r (mode_access mode path cwd) \<Longrightarrow> cr_action r = ActDeny \<Longrightarrow> is_file_restriction r"
  by (auto simp: rule_applies_def mode_access_def tool_filter_matches_def is_file_restriction_def
      split: tool_filter.splits file_mode.splits)

lemma denied_path:
  assumes "r \<in> set rules" "cr_action r = ActDeny" "rule_applies lib r (mode_access mode path cwd)"
  shows "3 \<le> rank (evaluate_extracted_access lib fs rules (PathAccess mode path) (Some cwd))"
proof -
  let ?a = "mode_access mode path cwd"
  let ?rec = "case mode of GrepMode _ True \<Rightarrow> evaluate_recursive_scope rules ?a | _ \<Rightarrow> NoMatch"
  have three: "3 \<le> rank (combine (evaluate_rules lib rules ?a) ?rec)"
    using deny_rule_denies[OF assms] by simp
  then have "rank (path_decision lib rules mode path cwd Shell) =
      rank (combine (evaluate_rules lib rules ?a) ?rec)"
    unfolding path_decision_def Let_def path_decision_mode.case by (intro rank_escalation) linarith
  with three have "3 \<le> rank (path_decision lib rules mode path cwd Shell)" by linarith
  then show ?thesis
    by (simp add: evaluate_extracted_access_def evaluate_path_def Let_def le_max_iff_disj split: option.split)
qed

section \<open>Properties\<close>

text \<open>
  the verdict of the policy on an access, with all the gates on commands and files, does not
  depend on the order of its rules.
\<close>

lemma policy_ignores_rule_order:
  assumes "mset cs = mset cs'"
  shows "evaluate env (policy_of cs) a = evaluate env (policy_of cs') a"
proof -
  have restrictions: "list_ex is_file_restriction cs = list_ex is_file_restriction cs'"
    "list_ex is_bash_restriction cs = list_ex is_bash_restriction cs'"
    using policy_of_mset[OF assms] by simp_all
  show ?thesis
    by (simp only: evaluate_def Let_def policy_of_simps restrictions verdict_functions_mset[OF assms] file_gates_mset[OF assms]
        bash_segments_mset[OF assms])
qed

definition sample_rule :: "rule_action \<Rightarrow> tool_filter \<Rightarrow> string \<Rightarrow> compiled_rule" where
  "sample_rule action tool pattern =
     \<lparr>cr_action = action, cr_tool = tool, cr_pattern = Some pattern, cr_pattern_mode = Glob,
      cr_glob = Some pattern, cr_domain = None\<rparr>"

definition sample_env :: environment where
  "sample_env =
     \<lparr>env_libs = \<lparr>glob_error = (\<lambda>_. None), path_glob = (\<lambda>g p. g = p), free_glob = (\<lambda>g v. g = v),
                  url_parse = (\<lambda>_. Inl ''no url''), is_ip_addr = (\<lambda>_. False)\<rparr>,
      env_fs = \<lparr>fs_canonicalize = (\<lambda>_. None), fs_is_symlink = (\<lambda>_. False), fs_read_link = (\<lambda>_. None)\<rparr>,
      env_parse = (\<lambda>s. Some [\<lparr>pc_words = split_char (CHR '' '') s, pc_start_byte = 0,
                              pc_end_byte = length s\<rparr>]),
      env_redirects = (\<lambda>_. Some [])\<rparr>"

lemma policy_ignores_rule_order_witness:
  "evaluate sample_env (policy_of [sample_rule ActAllow BashTool ''ls'', sample_rule ActDeny AnyTool ''ls''])
     (Bash ''ls'' ''/w'') =
   evaluate sample_env (policy_of [sample_rule ActDeny AnyTool ''ls'', sample_rule ActAllow BashTool ''ls''])
     (Bash ''ls'' ''/w'')"
  by (rule policy_ignores_rule_order) simp

text \<open>A deny rule for a command that a script runs, and for a file such a command touches.\<close>

lemma deny_reaches_words:
  assumes r: "r \<in> set cs" "cr_action r = ActDeny"
    and that: "runs (env_parse env) MAX_NESTING command ws" "rule_applies (env_libs env) r (bash_access ws cwd)"
  shows "\<exists>why. evaluate env (policy_of cs) (Bash command cwd) = Deny why"
proof -
  have "3 \<le> rank (evaluate_bash_words (env_libs env) cs cwd ws)"
    using denied_words[OF r] that by blast
  also have "\<dots> \<le> rank (evaluate_bash_segments (env_libs env) cs (env_parse env) cwd MAX_NESTING command)"
    using runs_weight that by blast
  also have "\<dots> \<le> rank (evaluate env (policy_of cs) (Bash command cwd))"
    using evaluate_bash_weight(1)[of "policy_of cs" env cwd command] applies_to_bash r that
    by (force simp: list_ex_iff)
  finally show ?thesis by (simp flip: rank_3_iff)
qed

lemma deny_reaches_files:
  assumes r: "r \<in> set cs" "cr_action r = ActDeny"
    and that: "touches (env_parse env) (env_redirects env) MAX_NESTING command source (PathAccess mode path)"
      "rule_applies (env_libs env) r (mode_access mode path cwd)"
  shows "\<exists>why. evaluate env (policy_of cs) (Bash command cwd) = Deny why"
proof -
  have "3 \<le> rank (evaluate_extracted_access (env_libs env) (env_fs env) cs (PathAccess mode path) (Some cwd))"
    using denied_path[OF r] that by blast
  also have "\<dots> \<le> rank (evaluate_shell_file_access (env_libs env) (env_fs env) (env_parse env)
      (env_redirects env) cs command cwd)"
    unfolding evaluate_shell_file_access_def
    using touches_weight[of "env_parse env" "env_redirects env" MAX_NESTING command source
        "PathAccess mode path" "\<lambda>_ a c. evaluate_extracted_access (env_libs env) (env_fs env) cs a c" cwd] that
    by blast
  also have "\<dots> \<le> rank (evaluate env (policy_of cs) (Bash command cwd))"
    using evaluate_bash_weight(2)[of "policy_of cs" env command cwd] applies_to_file r that
    by (force simp: list_ex_iff)
  finally show ?thesis by (simp flip: rank_3_iff)
qed



lemma cat_touches:
  "touches (env_parse sample_env) (env_redirects sample_env) (Suc 7) ''cat a'' FromCommand (PathAccess ReadMode ''a'')"
proof (rule touches.by_command)
  let ?c = "\<lparr>pc_words = [''cat'', ''a''], pc_start_byte = 0, pc_end_byte = 5\<rparr>"
  show "all_commands_from_script (env_parse sample_env) ''cat a'' = Some [?c]" by code_simp
  show "env_redirects sample_env ''cat a'' = Some []" by (simp add: sample_env_def)
  show "\<forall>c\<in>set [?c]. \<not> command_changes_cwd (pc_words c)" by code_simp
  show "?c \<in> set [?c]" by simp
  have "command_file_accesses (unwrap_wrappers [''cat'', ''a'']) = [PathAccess ReadMode ''a'']" by code_simp
  then show "PathAccess ReadMode ''a'' \<in> set (command_file_accesses (unwrap_wrappers (pc_words ?c)))" by simp
qed

lemma roots_gate:
  assumes "evaluate_shell_access_with_roots fs parse redirects readable writable command cwd \<in> {NoMatch, Permit}"
    and "touches parse redirects MAX_NESTING command source a"
  shows "within_roots fs readable writable cwd a \<and> (source = FromRedirect \<longrightarrow> a \<noteq> Ambiguous)"
proof -
  have "rank (evaluate_access_with_roots fs readable writable source a (Some cwd)) \<le> rank Permit"
    using touches_weight[OF assms(2), of "evaluate_access_with_roots fs readable writable" cwd] assms(1)
    by (auto simp: evaluate_shell_access_with_roots_def)
  then have "evaluate_access_with_roots fs readable writable source a (Some cwd) = NoMatch"
    by (auto simp: evaluate_access_with_roots_def Let_def split: extracted_access.splits access_source.splits if_splits)
  then show ?thesis by (rule roots_verdict)
qed



text \<open>
  four shapes the analysis of commands does not see through: the command behind more than eight
  wrappers; the directory an \<open>env -C\<close> changes to when another wrapper stands before it; the files of
  an in-place \<open>sed\<close> whose script is given in a long option; and a program the model does not know,
  which the check against the allowed roots lets through.
\<close>

lemma permission_analysis_gaps:
  "unwrap_wrappers (replicate (8 + Suc k) ''env'' @ ws) = replicate (Suc k) ''env'' @ ws \<and>
   wrapper_changes_cwd [''env'', ''-C'', ''/'' @ dir, ''cat'', ''f''] \<and>
   \<not> wrapper_changes_cwd [''nice'', ''env'', ''-C'', ''/'' @ dir, ''cat'', ''f''] \<and>
   unwrap_wrappers [''nice'', ''env'', ''-C'', ''/'' @ dir, ''cat'', ''f''] = [''cat'', ''f''] \<and>
   command_file_accesses [''sed'', ''-i'', ''--expression='' @ e, ''/'' @ file] = [] \<and>
   evaluate_access_with_roots fs [] [] FromCommand Ambiguous cwd = NoMatch"
proof -
  have base: "basename ''nice'' = ''nice''" "basename ''env'' = ''env''" "basename ''cat'' = ''cat''"
    "basename ''sed'' = ''sed''"
    by (rule basename_id, simp)+
  have strip: "strip_wrapper [''nice'', ''env'', ''-C'', CHR ''/'' # dir, ''cat'', ''f''] =
      Some [''env'', ''-C'', CHR ''/'' # dir, ''cat'', ''f'']"
    "strip_wrapper [''env'', ''-C'', CHR ''/'' # dir, ''cat'', ''f''] = Some [''cat'', ''f'']"
    "strip_wrapper [''cat'', ''f''] = None"
    by (simp_all add: strip_wrapper_def base wrapped_words_def starts_with_def is_env_assignment_def
        split_eq_def env_value_options_def)
  have un: "unwrap_wrappers [''nice'', ''env'', ''-C'', CHR ''/'' # dir, ''cat'', ''f''] = [''cat'', ''f'']"
    "unwrap_wrappers [''cat'', ''f''] = [''cat'', ''f'']"
    by (simp_all add: unwrap_wrappers_def numeral_eq_Suc strip)
  have tower: "unwrap_wrappers (replicate (8 + Suc k) ''env'' @ ws) = replicate (Suc k) ''env'' @ ws"
    unfolding unwrap_wrappers_def by (rule unwrap_env_tower)
  have rest: "wrapper_changes_cwd [''env'', ''-C'', ''/'' @ dir, ''cat'', ''f'']"
    "\<not> wrapper_changes_cwd [''nice'', ''env'', ''-C'', ''/'' @ dir, ''cat'', ''f'']"
    "command_file_accesses [''sed'', ''-i'', ''--expression='' @ e, ''/'' @ file] = []"
    by (simp_all add: un wrapper_changes_cwd_def numeral_eq_Suc sets_chdir_def base starts_with_def
        command_file_accesses_def program_accesses_def sed_is_in_place_def file_candidates_def
        file_candidates_without_value_flags_def to_ascii_lowercase_def ascii_lower_def)
  show ?thesis
    using tower rest un(1) by (intro conjI) (simp_all add: evaluate_access_with_roots_def)
qed

end
