(* ===== verification/Native_Items.thy ===== *)
theory Native_Items
  imports Response_Items "HOL-Library.Countable"
begin

text \<open>
  The item model shared by the rollout file and the wire
  (\<open>protocol/src/native/item.rs\<close>) and the expansion of plan texts
  (\<open>protocol/src/native/plan_parse.rs\<close>).

  Identifiers and paths are strings, time stamps integers. JSON values are a datatype; the text
  parser and printer of JSON are outside the repository and enter as the record \<open>json_lib\<close>.
\<close>

section \<open>JSON\<close>

datatype json =
    JNull
  | JBool bool
  | JInt int
  | JFloat string
  | JStr string
  | JArr "json list"
  | JObj "(string \<times> json) list"

instance json :: countable by countable_datatype

datatype json_parse_error = JsonEof | JsonInvalid string

record json_lib =
  lib_parse :: "string \<Rightarrow> json_parse_error + json"
  lib_print :: "json \<Rightarrow> string"

text \<open>A string as it stands in a printed value.\<close>

definition json_tag :: "string \<Rightarrow> string" where
  "json_tag s = [CHR 0x22] @ s @ [CHR 0x22]"

fun json_get :: "json \<Rightarrow> string \<Rightarrow> json option" where
  "json_get (JObj kvs) k = map_of kvs k"
| "json_get _ k = None"

fun json_str :: "json \<Rightarrow> string option" where
  "json_str (JStr s) = Some s"
| "json_str _ = None"

fun json_u64 :: "json \<Rightarrow> nat option" where
  "json_u64 (JInt n) = (if 0 \<le> n \<and> n \<le> int u64_max then Some (nat n) else None)"
| "json_u64 _ = None"

section \<open>Items\<close>

type_synonym item_id = string
type_synonym timestamp = int

datatype user_message_entry = EntryTurnStart | EntryQueue | EntrySteer

datatype plan_step_status = StepPending | StepInProgress | StepCompleted

record plan_entry =
  pe_step :: string
  pe_status :: plan_step_status

datatype tool_source = SourceBuiltin | SourceMcp | SourcePlugin

datatype execution_mode = ModeForeground | ModeBackground

datatype exec_origin = OriginAgentTool | OriginUserShell

record sandbox_summary =
  sx_backend :: string
  sx_network_access :: bool
  sx_escalated :: bool

datatype file_change_kind =
    ChangeAdd string
  | ChangeDelete string
  | ChangeUpdate string "string option"

record file_change_entry =
  fc_path :: string
  fc_change :: file_change_kind

datatype approval_decision_source =
    ByStaticPolicy | ByExecPolicy | ByUser | ByAutoReview | ByHook | ByExternalPolicy

datatype approval_decision_kind = KindApproved | KindDenied | KindCancelled

datatype approval_scope =
    ScopeOnce | ScopeTurn | ScopeSession | ScopePathPrefix | ScopeHost | ScopeTool
  | ScopeCommandPrefix | ScopeCommandPrefixPersist | ScopePathPrefixPersist | ScopeHostPersist

record approval_decision =
  ad_decision :: approval_decision_kind
  ad_scope :: approval_scope
  ad_source :: approval_decision_source
  ad_decided_at :: timestamp

datatype approval_target = TargetPath string | TargetHost string | TargetCommand string

record user_question_option =
  qo_label :: string
  qo_description :: string

record user_question =
  uq_id :: string
  uq_header :: string
  uq_question :: string
  uq_is_other :: bool
  uq_is_secret :: bool
  uq_options :: "user_question_option list option"

datatype spawned_work_state = WorkRunning | WorkCompleted | WorkFailed | WorkCancelled | WorkLost

datatype background_task_kind = TaskShell

datatype compaction_trigger =
    TriggerAutoThreshold | TriggerManual | TriggerProviderRetry | TriggerAgentRequested

record context_usage =
  cx_input_tokens :: nat
  cx_cached_input_tokens :: nat
  cx_output_tokens :: nat
  cx_reasoning_output_tokens :: nat
  cx_total_tokens :: nat
  cx_context_window_tokens :: "nat option"
  cx_measured :: bool

definition default_context_usage :: context_usage where
  "default_context_usage =
     \<lparr>cx_input_tokens = 0, cx_cached_input_tokens = 0, cx_output_tokens = 0,
      cx_reasoning_output_tokens = 0, cx_total_tokens = 0, cx_context_window_tokens = None,
      cx_measured = False\<rparr>"

text \<open>The fields of each variant in the order of the declaration.\<close>

datatype native_item =
    UserMessageItem "string option" "user_input list" user_message_entry
  | AssistantMessageItem string
  | ReasoningItem string "string option"
  | PlanItem "string option" "plan_entry list"
  | ToolCallItem string string tool_source "string option" "json option"
  | ToolResultItem string json "string option" bool bool
  | CommandExecutionItem string string "string list option" string "json option" "json option"
      "int option" "string option" bool execution_mode exec_origin "sandbox_summary option"
  | HostedToolCallItem string string "json option" "json option"
  | FileChangeItem string "file_change_entry list" "sandbox_summary option"
  | ApprovalItem string "item_id option" string string "string option" "string list"
      "string list option" "string list option" "approval_target option" "approval_decision option"
  | UserInputRequestItem string "item_id option" "user_question list" "json option"
  | SubAgentItem "string option" string string "string option" string spawned_work_state
  | BackgroundTaskItem "string option" background_task_kind spawned_work_state "string option"
      "string option" "int option" "string option" "string option"
  | ContextCompactionItem compaction_trigger context_usage "context_usage option" "string option"
  | GoalProgressItem string string
  | RefinementItem string string string "string list" "string option" "string option"
  | WarningItem string string bool
  | BranchSummaryItem string "string option"

datatype item_state =
    ItemRunning | ItemWaiting | ItemCompleted | ItemFailed | ItemInterrupted | ItemLost

record item_envelope =
  en_id :: item_id
  en_session :: string
  en_turn :: string
  en_seq :: nat
  en_revision :: nat
  en_created_at :: timestamp
  en_updated_at :: timestamp
  en_state :: item_state
  en_item :: native_item
  en_parent :: "item_id option"

section \<open>Plan texts\<close>

definition plan_step_status_from_str :: "string \<Rightarrow> plan_step_status" where
  "plan_step_status_from_str s =
     (if s = ''completed'' then StepCompleted
      else if s = ''in_progress'' \<or> s = ''inProgress'' then StepInProgress
      else StepPending)"

definition or_else :: "'a option \<Rightarrow> 'a option \<Rightarrow> 'a option" where
  "or_else a b = (case a of None \<Rightarrow> b | Some x \<Rightarrow> Some x)"

definition plan_entry_from_json :: "json \<Rightarrow> plan_entry option" where
  "plan_entry_from_json item =
     (case Option.bind (or_else (or_else (json_get item ''step'') (json_get item ''content''))
             (json_get item ''step_name'')) json_str of
        None \<Rightarrow> None
      | Some raw \<Rightarrow>
          (let step = trim raw
           in if step = [] then None
              else Some \<lparr>pe_step = step, pe_status = plan_step_status_from_str
                (case Option.bind (json_get item ''status'') json_str of
                   None \<Rightarrow> ''pending'' | Some s \<Rightarrow> s)\<rparr>))"

definition plan_entries_of :: "json list \<Rightarrow> plan_entry list option" where
  "plan_entries_of plan =
     (let entries = List.map_filter plan_entry_from_json plan
      in if entries = [] then None else Some entries)"

fun plan_entries_from_update_plan_json :: "json \<Rightarrow> plan_entry list option" where
  "plan_entries_from_update_plan_json (JArr items) = plan_entries_of items"
| "plan_entries_from_update_plan_json (JObj kvs) =
     (case map_of kvs ''plan'' of Some (JArr items) \<Rightarrow> plan_entries_of items | _ \<Rightarrow> None)"
| "plan_entries_from_update_plan_json _ = None"

definition plan_entries_from_plan_text :: "json_lib \<Rightarrow> string \<Rightarrow> plan_entry list option" where
  "plan_entries_from_plan_text lib text =
     (let trimmed = trim text
      in if \<not> (starts_with trimmed [CHR ''{''] \<or> starts_with trimmed [CHR ''['']) then None
         else (case lib_parse lib trimmed of
                 Inl e \<Rightarrow> None
               | Inr v \<Rightarrow> plan_entries_from_update_plan_json v))"

definition plan_entries_from_plan_text_or_single :: "json_lib \<Rightarrow> string \<Rightarrow> plan_entry list" where
  "plan_entries_from_plan_text_or_single lib text =
     (case plan_entries_from_plan_text lib text of
        None \<Rightarrow> [\<lparr>pe_step = text, pe_status = StepCompleted\<rparr>]
      | Some es \<Rightarrow> es)"

text \<open>A plan is never empty, and the steps read from JSON are trimmed and not blank.\<close>

lemma map_filter_set: "set (List.map_filter f xs) = {y. \<exists>x\<in>set xs. f x = Some y}"
  by (force simp: List.map_filter_def)

fun_cases update_plan_cases: "plan_entries_from_update_plan_json j = Some es"

lemma plan_entries_of_not_Nil: "plan_entries_of plan \<noteq> Some []" "Some [] \<noteq> plan_entries_of plan"
  by (auto simp: plan_entries_of_def Let_def split: if_splits)

lemma update_plan_nonempty: "plan_entries_from_update_plan_json j = Some es \<Longrightarrow> es \<noteq> []"
  by (erule update_plan_cases)
     (auto simp: plan_entries_of_not_Nil split: option.splits json.splits)

lemma plan_entries_nonempty: "plan_entries_from_plan_text_or_single lib text \<noteq> []"
  by (auto simp: plan_entries_from_plan_text_or_single_def plan_entries_from_plan_text_def Let_def
      plan_entries_of_not_Nil dest: update_plan_nonempty split: option.splits sum.splits if_splits)

end
