(* ===== verification/Execution_Replay.thy ===== *)
theory Execution_Replay
  imports Native_Items
begin

text \<open>
  The durable facts of a turn's execution (\<open>core/src/durable_execution.rs\<close>): the records, their
  fold into a replay, the outcomes a replay reports for calls without a result, and the scans that
  pick the lines of one turn out of a rollout file.

  The methods of \<open>ExecutionReplay\<close> take \<open>&mut self\<close> and may fail half way, so a step returns the
  error, if any, together with the state it leaves behind. Token counts are natural numbers.
\<close>

section \<open>Records\<close>

datatype stop_reason = StopEndTurn | StopToolUse | StopMaxTokens | StopSequence

datatype capture_state = CaptureStreaming | CaptureComplete | CaptureIncomplete

record output_artifact =
  oa_id :: string
  oa_file_identity :: string
  oa_owner :: string
  oa_call_id :: string
  oa_path :: string
  oa_bytes :: nat
  oa_digest :: string
  oa_state :: capture_state

record execution_counters =
  ec_turn_count :: nat
  ec_total_input :: nat
  ec_total_output :: nat
  ec_total :: nat
  ec_cache_creation :: nat
  ec_cache_read :: nat
  ec_last_input :: nat
  ec_last_turn :: nat

datatype recovery_disposition = Available | Resuming | Canceled

record recovery_state =
  rv_revision :: nat
  rv_attempt :: nat
  rv_disposition :: recovery_disposition
  rv_reason :: string
  rv_key :: "string option"

datatype execution_record =
    OutputArtifacts "output_artifact list"
  | ModelCompleted "json response_item list" "stop_reason option"
  | Recovery recovery_state
  | IntentBatch "json response_item list"
  | Outcomes "json response_item list"
  | PromptCheckpoint "json response_item list" "execution_counters option"
  | LegCheckpoint nat "json response_item list" "execution_counters option"

section \<open>The replay\<close>

record execution_replay =
  er_artifacts :: "string \<rightharpoonup> output_artifact"
  er_counters :: "execution_counters option"
  er_completed :: bool
  er_stop_reason :: "stop_reason option"
  er_recovery :: "recovery_state option"
  er_items :: "json response_item list"
  er_has_checkpoint :: bool
  er_committed :: "string \<rightharpoonup> json response_item"

definition default_replay :: execution_replay where
  "default_replay =
     \<lparr>er_artifacts = Map.empty, er_counters = None, er_completed = False, er_stop_reason = None,
      er_recovery = None, er_items = [], er_has_checkpoint = False, er_committed = Map.empty\<rparr>"

text \<open>An artifact may grow; it may not move to another file or owner.\<close>

definition artifact_fits :: "(string \<rightharpoonup> output_artifact) \<Rightarrow> output_artifact \<Rightarrow> bool" where
  "artifact_fits known a =
     (case known (oa_id a) of
        None \<Rightarrow> True
      | Some p \<Rightarrow> oa_file_identity p = oa_file_identity a \<and> oa_path p = oa_path a \<and>
          oa_owner p = oa_owner a \<and> oa_bytes p \<le> oa_bytes a)"

datatype batch_kind = CallBatch | ResultBatch

fun batch_key :: "batch_kind \<Rightarrow> json response_item \<Rightarrow> string option" where
  "batch_key CallBatch (ToolCall i _ _) = Some (''call:'' @ i)"
| "batch_key ResultBatch (ToolCallOutput i _ _) = Some (''result:'' @ i)"
| "batch_key _ _ = None"

text \<open>A batch is checked as a whole before any of it is committed.\<close>

fun accept_batch ::
  "batch_kind \<Rightarrow> (string \<rightharpoonup> json response_item) \<Rightarrow> (string \<times> json response_item) list \<Rightarrow>
   json response_item list \<Rightarrow> string + (string \<times> json response_item) list" where
  "accept_batch k committed accepted [] = Inr accepted"
| "accept_batch k committed accepted (x # xs) =
     (case batch_key k x of
        None \<Rightarrow> Inl ''invalid execution record item''
      | Some key \<Rightarrow>
          (case or_else (committed key) (map_of accepted key) of
             Some previous \<Rightarrow>
               if previous = x then accept_batch k committed accepted xs
               else Inl (''conflicting execution record for '' @ key)
           | None \<Rightarrow> accept_batch k committed (accepted @ [(key, x)]) xs))"

definition commit_entry :: "string \<times> json response_item \<Rightarrow> execution_replay \<Rightarrow> execution_replay" where
  "commit_entry e s =
     s\<lparr>er_items := (if snd e \<in> set (er_items s) then er_items s else er_items s @ [snd e]),
       er_committed := (er_committed s)(fst e \<mapsto> snd e)\<rparr>"

definition apply_batch ::
  "batch_kind \<Rightarrow> json response_item list \<Rightarrow> execution_replay \<Rightarrow> string option \<times> execution_replay" where
  "apply_batch k xs s =
     (case accept_batch k (er_committed s) [] xs of
        Inl e \<Rightarrow> (Some e, s)
      | Inr accepted \<Rightarrow> (None, fold commit_entry accepted s))"

fun apply_record :: "execution_record \<Rightarrow> execution_replay \<Rightarrow> string option \<times> execution_replay" where
  "apply_record (OutputArtifacts as) s =
     (if list_all (artifact_fits (er_artifacts s)) as
      then (None, s\<lparr>er_artifacts := fold (\<lambda>a m. m(oa_id a \<mapsto> a)) as (er_artifacts s)\<rparr>)
      else (Some ''conflicting output artifact reference'', s))"
| "apply_record (ModelCompleted items stop) s =
     (if er_completed s then
        (if er_items s = items \<and> er_stop_reason s = stop then (None, s)
         else (Some ''conflicting final model response'', s))
      else (None, s\<lparr>er_items := items, er_has_checkpoint := True, er_completed := True,
                    er_stop_reason := stop\<rparr>))"
| "apply_record (Recovery r) s =
     (case er_recovery s of
        None \<Rightarrow> (None, s\<lparr>er_recovery := Some r\<rparr>)
      | Some previous \<Rightarrow>
          if rv_revision r > rv_revision previous \<or> r = previous then (None, s\<lparr>er_recovery := Some r\<rparr>)
          else (Some ''conflicting recovery revision'', s))"
| "apply_record (IntentBatch xs) s = apply_batch CallBatch xs s"
| "apply_record (Outcomes xs) s = apply_batch ResultBatch xs s"
| "apply_record (PromptCheckpoint items counters) s =
     (None, s\<lparr>er_counters := counters, er_items := items, er_has_checkpoint := True\<rparr>)"
| "apply_record (LegCheckpoint from items counters) s =
     (if from \<le> length (er_items s)
      then (None, s\<lparr>er_counters := counters, er_items := take from (er_items s) @ items,
                    er_has_checkpoint := True\<rparr>)
      else (Some ''leg checkpoint base exceeds replay length'', s\<lparr>er_counters := counters\<rparr>))"

definition interrupted_notice :: string where
  "interrupted_notice = ''Tool execution was interrupted. Execution may have occurred; verify its outcome before retrying. This call was not automatically rerun.''"

fun interrupted_outcome :: "string set \<Rightarrow> json response_item \<Rightarrow> json response_item option" where
  "interrupted_outcome completed (ToolCall i n v) =
     (if i \<in> completed then None else Some (ToolCallOutput i interrupted_notice True))"
| "interrupted_outcome completed _ = None"

definition interrupted_outcomes :: "execution_replay \<Rightarrow> json response_item list" where
  "interrupted_outcomes s =
     List.map_filter (interrupted_outcome (set (List.map_filter tool_call_output_id (er_items s)))) (er_items s)"

section \<open>Scanning lines\<close>

text \<open>The record tag of a compact internal line owned by a turn, found without parsing it.\<close>

definition turn_field :: string where "turn_field = ''\"turnId\":\"''"
definition entry_field :: string where "entry_field = ''\"entry\":''"
definition execution_prefix :: string where
  "execution_prefix = ''{\"type\":\"execution\",\"record\":{''"
definition type_prefix :: string where "type_prefix = ''\"type\":\"''"
definition quote :: string where "quote = ''\"''"

definition execution_record_variant :: "string \<Rightarrow> string \<Rightarrow> string option" where
  "execution_record_variant turn line =
     (case find_str turn_field line of
        None \<Rightarrow> None
      | Some a \<Rightarrow>
          (case strip_prefix turn (drop (a + length turn_field) line) of
             None \<Rightarrow> None
           | Some after_turn \<Rightarrow>
               if \<not> starts_with after_turn quote then None
               else
                 (case find_str entry_field after_turn of
                    None \<Rightarrow> None
                  | Some b \<Rightarrow>
                      (case strip_prefix execution_prefix (drop (b + length entry_field) after_turn) of
                         None \<Rightarrow> None
                       | Some entry \<Rightarrow>
                           (case strip_prefix type_prefix entry of
                              None \<Rightarrow> None
                            | Some tag \<Rightarrow>
                                map_option (\<lambda>k. take k tag) (find_str quote tag))))))"

definition is_superseded_checkpoint_line :: "string \<Rightarrow> nat \<Rightarrow> nat option \<Rightarrow> string \<Rightarrow> bool" where
  "is_superseded_checkpoint_line line index checkpoint turn =
     (case checkpoint of
        None \<Rightarrow> False
      | Some l \<Rightarrow> index < l \<and>
          execution_record_variant turn line \<in> {Some ''promptCheckpoint'', Some ''legCheckpoint''})"

fun balanced_from :: "int \<Rightarrow> bool \<Rightarrow> bool \<Rightarrow> string \<Rightarrow> bool" where
  "balanced_from depth in_string escaped [] = (depth = 0 \<and> \<not> in_string \<and> \<not> escaped)"
| "balanced_from depth in_string escaped (c # cs) =
     (if in_string then
        (if escaped then balanced_from depth True False cs
         else if c = CHR 0x5C then balanced_from depth True True cs
         else if c = CHR 0x22 then balanced_from depth False False cs
         else balanced_from depth True False cs)
      else if c = CHR 0x22 then balanced_from depth True escaped cs
      else if c = CHR ''{'' \<or> c = CHR ''['' then balanced_from (depth + 1) False escaped cs
      else if c = CHR ''}'' \<or> c = CHR '']'' then
        (if depth - 1 < 0 then False else balanced_from (depth - 1) False escaped cs)
      else balanced_from depth False escaped cs)"

definition is_balanced_json_line :: "string \<Rightarrow> bool" where
  "is_balanced_json_line line = balanced_from 0 False False line"

fun last_checkpoint_from :: "string \<Rightarrow> nat \<Rightarrow> nat option \<Rightarrow> string list \<Rightarrow> nat option" where
  "last_checkpoint_from turn i found [] = found"
| "last_checkpoint_from turn i found (raw # raws) =
     last_checkpoint_from turn (Suc i)
       (if execution_record_variant turn raw = Some ''promptCheckpoint'' \<and> is_balanced_json_line raw
        then Some i else found) raws"

definition last_prompt_checkpoint_line :: "string \<Rightarrow> string list \<Rightarrow> nat option" where
  "last_prompt_checkpoint_line turn raws = last_checkpoint_from turn 0 None raws"

end
