(* ===== verification/Context_Occupancy.thy ===== *)
theory Context_Occupancy
  imports Prelude
begin

text \<open>
  The occupancy of the context window by category
  (\<open>ContextOccupancy\<close>, \<open>protocol/src/native/item.rs\<close>). Token counts are split into basis
  points, and raw estimates are scaled to a measured total, both by the method of the largest
  remainder. The unsigned integers are natural numbers with the saturation of the source written
  out; \<open>None\<close> is the overflow of the plain sum of the counts.
\<close>

section \<open>Occupancy\<close>

datatype context_category = CatBase | CatSkills | CatToolsBuiltin | CatToolsMcp | CatConversation

record category_usage =
  cu_id :: context_category
  cu_tokens :: nat
  cu_share_bps :: nat

record context_occupancy =
  oc_total_tokens :: nat
  oc_context_window_tokens :: nat
  oc_categories :: "category_usage list"

definition u16_max :: nat where "u16_max = 2 ^ 16 - 1"
definition u128_max :: nat where "u128_max = 2 ^ 128 - 1"

definition sat_mul_u128 :: "nat \<Rightarrow> nat \<Rightarrow> nat" where
  "sat_mul_u128 a b = min (a * b) u128_max"

definition empty_occupancy :: "nat \<Rightarrow> context_occupancy" where
  "empty_occupancy window =
     \<lparr>oc_total_tokens = 0, oc_context_window_tokens = window, oc_categories = []\<rparr>"

text \<open>
  The indices by decreasing remainder, ties by increasing index: a stable sort of the increasing
  indices by the negated remainder.
\<close>

definition remainder_order :: "nat list \<Rightarrow> nat list" where
  "remainder_order rems = sort_key (\<lambda>i. - int (rems ! i)) [0..<length rems]"

text \<open>One more unit to each index in order, as long as units are left and the part is not empty.\<close>

fun give_leftover :: "nat \<Rightarrow> nat list \<Rightarrow> nat list \<Rightarrow> nat \<Rightarrow> nat list \<Rightarrow> nat list" where
  "give_leftover limit parts [] leftover vals = vals"
| "give_leftover limit parts (i # order) leftover vals =
     (if leftover = 0 then vals
      else if parts ! i = 0 then give_leftover limit parts order leftover vals
      else give_leftover limit parts order (leftover - 1)
             (vals[i := min (vals ! i + 1) limit]))"

definition category_shares :: "nat list \<Rightarrow> nat \<Rightarrow> nat list" where
  "category_shares parts whole =
     (let shares = map (\<lambda>t. min (sat_mul_u128 t 10000 div whole) u16_max) parts;
          rems = map (\<lambda>t. sat_mul_u128 t 10000 mod whole) parts;
          assigned = sum_list shares
      in give_leftover u16_max parts (remainder_order rems) (10000 - assigned) shares)"

definition categories :: "context_category list" where
  "categories = [CatBase, CatSkills, CatToolsBuiltin, CatToolsMcp, CatConversation]"

definition from_category_tokens :: "nat \<Rightarrow> nat list \<Rightarrow> context_occupancy option" where
  "from_category_tokens window parts =
     (let whole = sum_list parts
      in if whole > u64_max then None
         else Some \<lparr>oc_total_tokens = whole, oc_context_window_tokens = window,
           oc_categories = (if whole = 0 then []
             else map (\<lambda>(c, t, s). \<lparr>cu_id = c, cu_tokens = t, cu_share_bps = s\<rparr>)
                    (filter (\<lambda>(c, t, s). t > 0)
                       (zip categories (zip parts (category_shares parts whole)))))\<rparr>)"

text \<open>The cast to \<open>u64\<close> of the quotient wraps; the sums of the source saturate.\<close>

definition scaled_parts :: "nat \<Rightarrow> nat list \<Rightarrow> nat \<Rightarrow> nat list" where
  "scaled_parts anchor parts raw_total =
     (let scaled = map (\<lambda>t. (sat_mul_u128 t anchor div raw_total) mod 2 ^ 64) parts;
          rems = map (\<lambda>t. sat_mul_u128 t anchor mod raw_total) parts;
          assigned = foldl sat_add_u64 0 scaled
      in give_leftover u64_max parts (remainder_order rems) (anchor - assigned) scaled)"

definition scale_raw_to_total :: "nat \<Rightarrow> nat \<Rightarrow> nat list \<Rightarrow> context_occupancy option" where
  "scale_raw_to_total window anchor parts =
     (let raw_total = foldl sat_add_u64 0 parts
      in if anchor = 0 \<or> raw_total = 0 then Some (empty_occupancy window)
         else from_category_tokens window (scaled_parts anchor parts raw_total))"

section \<open>The largest remainder method\<close>

lemma remainder_order_set [simp]: "set (remainder_order rems) = {..<length rems}"
  by (auto simp: remainder_order_def)

lemma remainder_order_distinct [simp]: "distinct (remainder_order rems)"
  by (simp add: remainder_order_def)

lemma remainder_order_length [simp]: "length (remainder_order rems) = length rems"
  by (simp add: remainder_order_def)

lemma remainder_order_decreasing:
  "\<lbrakk>i \<le> j; j < length rems\<rbrakk> \<Longrightarrow>
   rems ! (remainder_order rems ! j) \<le> rems ! (remainder_order rems ! i)"
proof -
  assume ij: "i \<le> j" "j < length rems"
  have "sorted (map (\<lambda>i. - int (rems ! i)) (remainder_order rems))"
    by (simp add: remainder_order_def)
  from sorted_nth_mono [OF this, of i j] ij show ?thesis by simp
qed

lemma give_leftover_nth:
  "\<lbrakk>distinct order; set order \<subseteq> {..<length vals}; leftover \<le> length order;
    \<forall>i\<in>set (take leftover order). 0 < parts ! i \<and> vals ! i < limit; j < length vals\<rbrakk> \<Longrightarrow>
   give_leftover limit parts order leftover vals ! j =
     vals ! j + (if j \<in> set (take leftover order) then 1 else 0)"
proof (induction limit parts order leftover vals rule: give_leftover.induct)
  case (2 limit parts i order leftover vals)
  show ?case
  proof (cases leftover)
    case (Suc n)
    have ni: "i \<notin> set (take n order)" using 2(3) by (auto dest: in_set_takeD)
    have i: "0 < parts ! i" "vals ! i < limit" "i < length vals" using 2(4,6) Suc by auto
    have "\<forall>k\<in>set (take n order). 0 < parts ! k \<and> vals[i := vals ! i + 1] ! k < limit"
      using 2(6) Suc ni by (auto simp: nth_list_update split: if_splits) (metis nth_list_update_neq)
    then have "give_leftover limit parts order n (vals[i := vals ! i + 1]) ! j =
        vals[i := vals ! i + 1] ! j + (if j \<in> set (take n order) then 1 else 0)"
      using 2(2) [of] 2(3-5,7) Suc i by simp
    then show ?thesis using Suc i ni by (auto simp: nth_list_update)
  qed simp
qed simp

lemma give_leftover_length [simp]:
  "length (give_leftover limit parts order leftover vals) = length vals"
  by (induction limit parts order leftover vals rule: give_leftover.induct) auto

lemma sum_list_nth: "sum_list xs = (\<Sum>j<length xs. xs ! j)"
  by (simp add: sum_list_sum_nth atLeast0LessThan)

text \<open>What the method yields, for any target.\<close>

lemma largest_remainder:
  fixes parts :: "nat list" and target limit :: nat
  defines "S \<equiv> sum_list parts"
  defines "quots \<equiv> map (\<lambda>t. t * target div S) parts"
  defines "rems \<equiv> map (\<lambda>t. t * target mod S) parts"
  defines "res \<equiv> give_leftover limit parts (remainder_order rems) (target - sum_list quots) quots"
  assumes S: "0 < S" and limit: "target \<le> limit"
  shows "sum_list res = target"
    and "j < length parts \<Longrightarrow>
         res ! j = parts ! j * target div S \<or>
         (res ! j = parts ! j * target div S + 1 \<and> \<not> S dvd parts ! j * target)"
proof -
  let ?n = "length parts" and ?L = "target - sum_list quots"
  let ?first = "set (take ?L (remainder_order rems))"
  have split: "target * S = sum_list quots * S + sum_list rems"
  proof -
    have "S * sum_list quots + sum_list rems =
        sum_list (map (\<lambda>t. S * (t * target div S) + t * target mod S) parts)"
      by (simp only: quots_def rems_def sum_list_addf sum_list_const_mult)
    also have "\<dots> = target * S"
      by (simp add: S_def sum_list_mult_const mult.commute)
    finally show ?thesis by (simp add: mult.commute)
  qed
  then have "sum_list quots * S \<le> target * S" by linarith
  then have le: "sum_list quots \<le> target" using S by simp
  with split have rem_sum: "sum_list rems = ?L * S"
    by (metis add_diff_cancel_left' diff_mult_distrib)
  have lengths [simp]: "length quots = ?n" "length rems = ?n" by (simp_all add: quots_def rems_def)
  have rem_lt: "rems ! i < S" if "i < ?n" for i using that S by (simp add: rems_def)
  let ?pos = "{i. i < ?n \<and> 0 < rems ! i}"
  have "?L * S \<le> card ?pos * S"
  proof -
    have "sum_list rems = (\<Sum>i<?n. rems ! i)" by (simp add: sum_list_nth)
    also have "\<dots> = (\<Sum>i\<in>?pos. rems ! i)" by (rule sum.mono_neutral_right) auto
    also have "\<dots> \<le> (\<Sum>i\<in>?pos. S)" by (rule sum_mono) (use rem_lt in \<open>auto intro: less_imp_le\<close>)
    finally show ?thesis using rem_sum by simp
  qed
  then have many: "?L \<le> card ?pos" using S by simp
  have "?pos \<subseteq> {..<?n}" by auto
  then have "card ?pos \<le> ?n" using card_mono [of "{..<?n}" ?pos] by simp
  with many have L: "?L \<le> ?n" by simp
  have first_pos: "0 < rems ! i" if "i \<in> ?first" for i
  proof (rule ccontr)
    assume z: "\<not> 0 < rems ! i"
    from that obtain k where k: "k < ?L" "k < ?n" "i = remainder_order rems ! k"
      by (auto simp: in_set_conv_nth)
    have "?pos \<subseteq> set (take k (remainder_order rems))"
    proof
      fix p assume p: "p \<in> ?pos"
      then have "p \<in> set (remainder_order rems)" by simp
      then obtain m where m: "m < ?n" "p = remainder_order rems ! m"
        by (metis in_set_conv_nth remainder_order_length lengths(2))
      have "m < k"
        using remainder_order_decreasing [of k m rems] p m k z by (metis lengths(2) le_zero_eq
            linorder_not_less mem_Collect_eq not_gr_zero)
      then show "p \<in> set (take k (remainder_order rems))"
        using m by (auto simp: in_set_conv_nth)
    qed
    then have "card ?pos \<le> k"
      by (metis (no_types, lifting) card_length card_mono finite_set le_trans length_take min.cobounded2)
    with many k show False by simp
  qed
  have first_ok: "0 < parts ! i \<and> quots ! i < limit" if "i \<in> ?first" for i
  proof -
    have i: "i < ?n" using that by (auto dest: in_set_takeD)
    have pos: "0 < parts ! i" using first_pos [OF that] i by (cases "parts ! i") (auto simp: rems_def)
    have "quots ! i \<le> sum_list quots" using i by (simp add: member_le_sum_list)
    moreover have "0 < ?L" using that by (cases ?L) auto
    ultimately show ?thesis using pos limit by linarith
  qed
  have res: "res ! j = quots ! j + (if j \<in> ?first then 1 else 0)" if "j < ?n" for j
    unfolding res_def
    by (rule give_leftover_nth) (use that first_ok L in auto)
  have "length res = ?n" by (simp add: res_def)
  then have "sum_list res = (\<Sum>j<?n. res ! j)" by (simp add: sum_list_nth)
  also have "\<dots> = (\<Sum>j<?n. quots ! j + (if j \<in> ?first then 1 else 0))"
    by (rule sum.cong) (simp_all only: res lessThan_iff)
  also have "\<dots> = sum_list quots + card ({..<?n} \<inter> ?first)"
    by (simp add: sum.distrib sum_list_nth sum.If_cases)
  also have "{..<?n} \<inter> ?first = ?first" by (auto dest: in_set_takeD)
  also have "card ?first = ?L" using L by (simp add: distinct_card)
  finally show "sum_list res = target" using le by simp
  show "res ! j = parts ! j * target div S \<or>
      (res ! j = parts ! j * target div S + 1 \<and> \<not> S dvd parts ! j * target)" if "j < ?n"
    using res [OF that] first_pos [of j] that by (auto simp: quots_def rems_def dvd_eq_mod_eq_0)
qed


section \<open>Without overflow\<close>

lemma fold_sat_add: "sum_list xs + a \<le> u64_max \<Longrightarrow> foldl sat_add_u64 a xs = sum_list xs + a"
  by (induction xs arbitrary: a) (simp_all add: sat_add_u64_exact ac_simps)

lemma sat_mul_exact: "\<lbrakk>a \<le> u64_max; b \<le> u64_max\<rbrakk> \<Longrightarrow> sat_mul_u128 a b = a * b"
proof -
  assume "a \<le> u64_max" "b \<le> u64_max"
  then have "a * b \<le> u64_max * u64_max" by (rule mult_le_mono)
  also have "\<dots> \<le> u128_max" by (simp add: u64_max_def u128_max_def)
  finally show ?thesis by (simp add: sat_mul_u128_def)
qed

lemma part_share_le: "t \<in> set parts \<Longrightarrow> t * b div sum_list parts \<le> (b::nat)"
proof (cases "sum_list parts = 0")
  case False
  assume "t \<in> set parts"
  then have "t \<le> sum_list parts" by (rule member_le_sum_list) simp
  then have "t * b \<le> sum_list parts * b" by simp
  then have "t * b div sum_list parts \<le> sum_list parts * b div sum_list parts" by (rule div_le_mono)
  then show ?thesis using False by simp
qed (simp del: sum_list_eq_0_iff)

lemma category_shares_exact:
  assumes "sum_list parts \<le> u64_max"
  shows "category_shares parts (sum_list parts) =
    (let quots = map (\<lambda>t. t * 10000 div sum_list parts) parts
     in give_leftover u16_max parts
          (remainder_order (map (\<lambda>t. t * 10000 mod sum_list parts) parts))
          (10000 - sum_list quots) quots)"
proof -
  have m: "sat_mul_u128 t 10000 = t * 10000" if "t \<in> set parts" for t
    using member_le_sum_list [of t parts] that assms
    by (intro sat_mul_exact) (simp_all add: u64_max_def)
  have q: "min (t * 10000 div sum_list parts) u16_max = t * 10000 div sum_list parts"
    if "t \<in> set parts" for t
    using part_share_le [OF that, of 10000] by (simp add: u16_max_def)
  show ?thesis by (simp add: category_shares_def Let_def m q cong: map_cong)
qed

lemma scaled_parts_exact:
  assumes "sum_list parts \<le> u64_max" "anchor \<le> u64_max"
  shows "scaled_parts anchor parts (sum_list parts) =
    (let quots = map (\<lambda>t. t * anchor div sum_list parts) parts
     in give_leftover u64_max parts
          (remainder_order (map (\<lambda>t. t * anchor mod sum_list parts) parts))
          (anchor - sum_list quots) quots)"
proof -
  have m: "sat_mul_u128 t anchor = t * anchor" if "t \<in> set parts" for t
    using member_le_sum_list [of t parts] that assms by (intro sat_mul_exact) simp_all
  have q: "(t * anchor div sum_list parts) mod 2 ^ 64 = t * anchor div sum_list parts"
    if "t \<in> set parts" for t
    using part_share_le [OF that, of anchor] assms(2) by (simp add: u64_max_def)
  have "sum_list (map (\<lambda>t. t * anchor div sum_list parts) parts) \<le> anchor"
  proof (cases "sum_list parts = 0")
    case False
    have "sum_list (map (\<lambda>t. t * anchor div sum_list parts) parts) * sum_list parts
        = sum_list (map (\<lambda>t. (t * anchor div sum_list parts) * sum_list parts) parts)"
      by (simp add: sum_list_mult_const)
    also have "\<dots> \<le> sum_list (map (\<lambda>t. t * anchor) parts)"
      by (rule sum_list_mono) (simp add: div_times_less_eq_dividend)
    also have "\<dots> = anchor * sum_list parts" by (simp add: sum_list_mult_const)
    finally show ?thesis using False by simp
  qed (simp del: sum_list_eq_0_iff)
  then have f: "foldl sat_add_u64 0 (map (\<lambda>t. t * anchor div sum_list parts) parts) =
      sum_list (map (\<lambda>t. t * anchor div sum_list parts) parts)"
    using fold_sat_add [of _ 0] assms(2) by simp
  have maps: "map (\<lambda>t. sat_mul_u128 t anchor div sum_list parts mod 2 ^ 64) parts =
      map (\<lambda>t. t * anchor div sum_list parts) parts"
    "map (\<lambda>t. sat_mul_u128 t anchor mod sum_list parts) parts = map (\<lambda>t. t * anchor mod sum_list parts) parts"
    by (rule map_cong [OF refl], simp only: m q)+
  show ?thesis by (simp only: scaled_parts_def Let_def maps f)
qed

lemma length_5: "length xs = 5 \<Longrightarrow> \<exists>a b c d e. xs = [a, b, c, d, e]"
  by (auto simp: length_Suc_conv numeral_eq_Suc)

lemma sum_filter_zip:
  "\<lbrakk>length cs = length ts; length ts = length ss; \<forall>i<length ts. ts ! i = 0 \<longrightarrow> ss ! i = (0::nat)\<rbrakk> \<Longrightarrow>
   sum_list (map (\<lambda>(c, t, s). t) (filter (\<lambda>(c, t, s). 0 < t) (zip cs (zip ts ss)))) = sum_list ts \<and>
   sum_list (map (\<lambda>(c, t, s). s) (filter (\<lambda>(c, t, s). (0::nat) < t) (zip cs (zip ts ss)))) = sum_list ss"
proof (induction cs ts ss rule: list_induct3)
  case (Cons c cs t ts s ss)
  have "\<forall>i<length ts. ts ! i = 0 \<longrightarrow> ss ! i = 0" using Cons.prems by fastforce
  moreover have "t = 0 \<longrightarrow> s = 0" using Cons.prems by fastforce
  ultimately show ?case using Cons.IH Cons.hyps by auto
qed auto

lemma rounded:
  assumes "0 < S" "s = x div S \<or> (s = x div S + 1 \<and> \<not> S dvd x)"
  shows "s * S < x + S \<and> x < (s + 1) * (S::nat)"
proof -
  obtain q r where qr: "q = x div S" "r = x mod S" by simp
  then have x: "x = q * S + r" "r < S" using assms(1) by simp_all
  have "\<not> S dvd x \<Longrightarrow> 0 < r" using qr by (simp add: mod_greater_zero_iff_not_dvd)
  then show ?thesis using assms x by (auto simp: qr(1) [symmetric] algebra_simps)
qed

section \<open>Properties\<close>

text \<open>
  The shares of an occupancy are exact to the basis point: they add up to 10000 whenever there
  are tokens, empty categories are left out, the tokens listed add up to the total, and every
  share is the exact one rounded up or down.
\<close>

theorem shares_add_up:
  assumes five: "length parts = 5" and pos: "0 < sum_list parts"
    and fits: "sum_list parts \<le> u64_max"
  shows "\<exists>oc. from_category_tokens window parts = Some oc \<and>
    oc_total_tokens oc = sum_list parts \<and>
    sum_list (map cu_share_bps (oc_categories oc)) = 10000 \<and>
    sum_list (map cu_tokens (oc_categories oc)) = sum_list parts \<and>
    (\<forall>u\<in>set (oc_categories oc). 0 < cu_tokens u \<and>
       cu_share_bps u * sum_list parts < cu_tokens u * 10000 + sum_list parts \<and>
       cu_tokens u * 10000 < (cu_share_bps u + 1) * sum_list parts)"
proof -
  let ?S = "sum_list parts" and ?ss = "category_shares parts (sum_list parts)"
  have ss: "?ss = (let quots = map (\<lambda>t. t * 10000 div ?S) parts
     in give_leftover u16_max parts (remainder_order (map (\<lambda>t. t * 10000 mod ?S) parts))
          (10000 - sum_list quots) quots)" by (rule category_shares_exact [OF fits])
  have ten: "(10000::nat) \<le> u16_max" by (simp add: u16_max_def)
  note lr = largest_remainder [of parts 10000 u16_max, OF pos ten, folded ss [unfolded Let_def]]
  have len: "length ?ss = length parts" by (simp add: ss Let_def)
  have zero: "\<forall>i<length parts. parts ! i = 0 \<longrightarrow> ?ss ! i = 0" using lr(2) by fastforce
  have share: "?ss ! i * ?S < parts ! i * 10000 + ?S \<and> parts ! i * 10000 < (?ss ! i + 1) * ?S"
    if "i < length parts" for i
    by (rule rounded [OF pos lr(2) [OF that]])
  let ?oc = "\<lparr>oc_total_tokens = ?S, oc_context_window_tokens = window, oc_categories =
    map (\<lambda>(c, t, s). \<lparr>cu_id = c, cu_tokens = t, cu_share_bps = s\<rparr>)
      (filter (\<lambda>(c, t, s). t > 0) (zip categories (zip parts ?ss)))\<rparr>"
  have oc: "from_category_tokens window parts = Some ?oc"
    using pos fits by (simp add: from_category_tokens_def Let_def del: sum_list_eq_0_iff)
  have sums: "sum_list (map (\<lambda>(c, t, s). t) (filter (\<lambda>(c, t, s). 0 < t)
        (zip categories (zip parts ?ss)))) = ?S"
    "sum_list (map (\<lambda>(c, t, s). s) (filter (\<lambda>(c, t, s). 0 < t)
        (zip categories (zip parts ?ss)))) = sum_list ?ss"
    using sum_filter_zip [of categories parts ?ss] five len zero by (simp_all add: categories_def)
  have fields: "cu_share_bps \<circ> (\<lambda>(c, t, s). \<lparr>cu_id = c, cu_tokens = t, cu_share_bps = s\<rparr>) = (\<lambda>(c, t, s). s)"
    "cu_tokens \<circ> (\<lambda>(c, t, s). \<lparr>cu_id = c, cu_tokens = t, cu_share_bps = s\<rparr>) = (\<lambda>(c, t, s). t)"
    by (auto simp: fun_eq_iff)
  show ?thesis
    using share by (intro exI [of _ ?oc]) (auto simp: oc fields sums lr(1) set_zip)
qed

lemma shares_add_up_witness:
  "\<exists>oc. from_category_tokens 200000 [1, 1, 0, 0, 1] = Some oc \<and>
     map cu_share_bps (oc_categories oc) = [3334, 3333, 3333] \<and>
     sum_list (map cu_share_bps (oc_categories oc)) = 10000"
proof -
  have "map_option (map cu_share_bps \<circ> oc_categories)
      (from_category_tokens 200000 [1, 1, 0, 0, 1]) = Some [3334, 3333, 3333]"
    by (simp add: from_category_tokens_def category_shares_def remainder_order_def categories_def
        sat_mul_u128_def u128_max_def u16_max_def u64_max_def Let_def upt_rec)
  then show ?thesis
    using shares_add_up [of "[1, 1, 0, 0, 1]" 200000] by (auto simp: u64_max_def)
qed

text \<open>
  Estimates are scaled to the measured total exactly: the tokens of the categories of the
  result add up to the total asked for.
\<close>

theorem scaling_reaches_total:
  assumes five: "length parts = 5" and pos: "0 < sum_list parts" "0 < anchor"
    and fits: "sum_list parts \<le> u64_max" "anchor \<le> u64_max"
  shows "\<exists>oc. scale_raw_to_total window anchor parts = Some oc \<and> oc_total_tokens oc = anchor \<and>
    sum_list (map cu_tokens (oc_categories oc)) = anchor"
proof -
  let ?sc = "scaled_parts anchor parts (sum_list parts)"
  have sc: "?sc = (let quots = map (\<lambda>t. t * anchor div sum_list parts) parts
     in give_leftover u64_max parts (remainder_order (map (\<lambda>t. t * anchor mod sum_list parts) parts))
          (anchor - sum_list quots) quots)" by (rule scaled_parts_exact [OF fits])
  have sum: "sum_list ?sc = anchor"
    using largest_remainder(1) [of parts anchor u64_max, OF pos(1) fits(2)] by (simp add: sc Let_def)
  have len: "length ?sc = 5" using five by (simp add: sc Let_def)
  have raw: "foldl sat_add_u64 0 parts = sum_list parts" using fold_sat_add [of parts 0] fits(1) by simp
  obtain a b c d e where "?sc = [a, b, c, d, e]" using length_5 [OF len] by blast
  moreover have "\<exists>x1 x2 x3 x4 x5. category_shares ?sc anchor = [x1, x2, x3, x4, x5]"
    using len by (intro length_5) (simp add: category_shares_def Let_def)
  moreover have "sum_list parts \<noteq> 0" using pos(1) by (simp del: sum_list_eq_0_iff)
  ultimately show ?thesis using sum pos(2) fits(2)
    by (auto simp: scale_raw_to_total_def raw from_category_tokens_def categories_def
        simp del: sum_list_eq_0_iff)
qed

lemma scaling_reaches_total_witness:
  "\<exists>oc. scale_raw_to_total 200000 100 [7, 7, 0, 3, 4] = Some oc \<and> oc_total_tokens oc = 100"
  using scaling_reaches_total [of "[7, 7, 0, 3, 4]" 100 200000] by (auto simp: u64_max_def)

end
