(* ===== verification/Rollout.thy ===== *)
theory Rollout
  imports Execution_Replay Context_Occupancy
begin

text \<open>
  The versioned lines of a rollout file (\<open>core/src/conversation/rollout.rs\<close>), their builders
  (\<open>rollout_write.rs\<close>) and the state the writer carries from line to line
  (\<open>rollout_write_state/\<close>).

  Records that no operation here looks into are kept as their JSON value. The decoding of a JSON
  value into a line is derived code and enters as \<open>decode\<close>; fresh identifiers come from a supply
  indexed by a counter. Sequence numbers are natural numbers: a counter starting at 1 and
  advancing by one per appended line does not reach the end of \<open>u64\<close>.
\<close>

section \<open>Lines\<close>

datatype permission_profile = ProfileDefault | ProfileAutoReview | ProfileFullAccess

record model_binding =
  mb_provider :: string
  mb_model :: string
  mb_variant :: "string option"
  mb_reasoning_effort :: "string option"

record session_settings =
  st_permission_profile :: permission_profile
  st_reasoning_effort :: "string option"
  st_mode :: "string option"
  st_sandbox_profile :: "string option"
  st_effective_context_window :: "nat option"
  st_auto_refine_enabled :: "bool option"
  st_auto_refine_turn_interval :: "nat option"
  st_python_cell_first_wait_ms :: "nat option"

record native_session =
  ns_id :: string
  ns_version :: nat
  ns_cwd :: string
  ns_title :: "string option"
  ns_model :: model_binding
  ns_settings :: session_settings

record native_turn =
  nt_id :: string
  nt_session :: string
  nt_sequence :: nat
  nt_status :: string

record turn_extras =
  te_context_occupancy :: "context_occupancy option"
  te_replay :: json

datatype settings_field =
    FieldPermissionPreset | FieldSandboxProfile | FieldModel | FieldModelBindingId
  | FieldReasoningEffortSelection | FieldCollaborationMode | FieldAutoRefineEnabled
  | FieldAutoRefineTurnInterval | FieldPythonCellFirstWaitMs

datatype internal_entry =
    EntryTurnSummary string
  | EntryToolProgress string string
  | EntryHookPrompt string

datatype internal_record =
    Execution execution_record
  | Entry internal_entry
  | SessionContextRecord json
  | MessageEdit json
  | TurnSuperseded json
  | GoalStateRecord nat "json option"
  | KernelFence nat string
  | UsageRecord json
  | SessionSettingsRecord nat settings_field json nat
  | TurnApprovalCheckpoint string json
  | SessionLeaf nat "item_id option"
  | TreeEdge item_id "item_id option"

datatype rollout_line =
    LineSessionMeta nat timestamp native_session "json option"
  | LineTurn nat timestamp native_turn "turn_extras option"
  | LineItem nat timestamp item_envelope
  | LineInternal nat timestamp string "string option" nat internal_record
  | LineSessionTitleUpdated nat timestamp string string "string option"
  | LineCompactionSnapshot nat timestamp string string item_id "item_id list"
      "context_occupancy option"
  | LineSessionRollback nat timestamp string "string list" "item_id list" "string option"
  | LineWorkspaceCheckpoint nat timestamp json
  | LineWorkspaceChange nat timestamp json
  | LineWorkspaceRestoreStarted nat timestamp json
  | LineWorkspaceRestoreCompleted nat timestamp json

definition ROLLOUT_FORMAT_VERSION :: nat where "ROLLOUT_FORMAT_VERSION = 2"

datatype line_error =
    RolloutVersionUnsupported nat
  | FormatVersionMissing
  | Damaged string
  | TruncatedTail

definition u32_max :: nat where "u32_max = 2 ^ 32 - 1"

definition not_unsigned :: string where
  "not_unsigned = ''rollout version is not an unsigned integer: ''"

definition parse_rollout_line ::
  "json_lib \<Rightarrow> (json \<Rightarrow> string + rollout_line) \<Rightarrow> string \<Rightarrow> line_error + rollout_line" where
  "parse_rollout_line lib decode line =
     (case lib_parse lib line of
        Inl JsonEof \<Rightarrow> Inl TruncatedTail
      | Inl (JsonInvalid e) \<Rightarrow> Inl (Damaged e)
      | Inr value \<Rightarrow>
          (case json_get value ''v'' of
             None \<Rightarrow> Inl FormatVersionMissing
           | Some version \<Rightarrow>
               (case json_u64 version of
                  None \<Rightarrow> Inl (Damaged (not_unsigned @ lib_print lib version))
                | Some n \<Rightarrow>
                    if n = 2 then
                      (case decode value of Inl e \<Rightarrow> Inl (Damaged e) | Inr l \<Rightarrow> Inr l)
                    else Inl (RolloutVersionUnsupported (min n u32_max)))))"

section \<open>Builders\<close>

definition session_line :: "native_session \<Rightarrow> json option \<Rightarrow> timestamp \<Rightarrow> rollout_line" where
  "session_line s extras t = LineSessionMeta ROLLOUT_FORMAT_VERSION t s extras"

definition turn_line :: "native_turn \<Rightarrow> turn_extras option \<Rightarrow> timestamp \<Rightarrow> rollout_line" where
  "turn_line u extras t = LineTurn ROLLOUT_FORMAT_VERSION t u extras"

definition title_line :: "timestamp \<Rightarrow> string \<Rightarrow> string \<Rightarrow> string option \<Rightarrow> rollout_line" where
  "title_line t s title previous =
     LineSessionTitleUpdated ROLLOUT_FORMAT_VERSION t s title previous"

definition session_marker :: "timestamp \<Rightarrow> string \<Rightarrow> string option \<Rightarrow> internal_record \<Rightarrow> rollout_line" where
  "session_marker t s turn entry = LineInternal ROLLOUT_FORMAT_VERSION t s turn 0 entry"

definition session_context_line :: "timestamp \<Rightarrow> string \<Rightarrow> json \<Rightarrow> rollout_line" where
  "session_context_line t s ctx = session_marker t s None (SessionContextRecord ctx)"

definition settings_line :: "timestamp \<Rightarrow> string \<Rightarrow> settings_field \<Rightarrow> json \<Rightarrow> nat \<Rightarrow> rollout_line" where
  "settings_line t s field val epoch =
     session_marker t s None (SessionSettingsRecord 1 field val epoch)"

definition compaction_snapshot_line ::
  "timestamp \<Rightarrow> string \<Rightarrow> string \<Rightarrow> item_id \<Rightarrow> item_id list \<Rightarrow> context_occupancy option \<Rightarrow> rollout_line"
where
  "compaction_snapshot_line t s turn summary preserved occupancy =
     LineCompactionSnapshot ROLLOUT_FORMAT_VERSION t s turn summary preserved occupancy"

definition message_edit_line ::
  "timestamp \<Rightarrow> string \<Rightarrow> string option \<Rightarrow> string option \<Rightarrow> json \<Rightarrow> rollout_line" where
  "message_edit_line t s replacement target rec =
     session_marker t s (or_else replacement target) (MessageEdit rec)"

definition turn_superseded_line :: "timestamp \<Rightarrow> string \<Rightarrow> string \<Rightarrow> json \<Rightarrow> rollout_line" where
  "turn_superseded_line t s replacement rec =
     session_marker t s (Some replacement) (TurnSuperseded rec)"

definition session_leaf_line :: "timestamp \<Rightarrow> string \<Rightarrow> item_id option \<Rightarrow> nat \<Rightarrow> rollout_line" where
  "session_leaf_line t s leaf epoch = session_marker t s None (SessionLeaf epoch leaf)"

definition tree_edge_line :: "timestamp \<Rightarrow> string \<Rightarrow> item_id \<Rightarrow> item_id option \<Rightarrow> rollout_line" where
  "tree_edge_line t s child parent = session_marker t s None (TreeEdge child parent)"

definition session_rollback_line ::
  "timestamp \<Rightarrow> string \<Rightarrow> string list \<Rightarrow> item_id list \<Rightarrow> string option \<Rightarrow> rollout_line" where
  "session_rollback_line t s turns items latest =
     LineSessionRollback ROLLOUT_FORMAT_VERSION t s turns items latest"

section \<open>Stored records\<close>

record text_item =
  tx_text :: string
  tx_local_image_paths :: "string list"

record approval_request =
  ar_approval_id :: string
  ar_action_summary :: string
  ar_justification :: string
  ar_resource :: "string option"
  ar_available_scopes :: "string list"
  ar_command_pattern :: "string list option"
  ar_command_prefix :: "string list option"
  ar_path :: "string option"
  ar_host :: "string option"
  ar_target :: "string option"

record approval_answer =
  aa_approval_id :: string
  aa_decision :: string
  aa_scope :: string
  aa_source :: "approval_decision_source option"

datatype stored_item =
    TurnUserMessage text_item
  | TurnSteerInput text_item
  | TurnHookPrompt text_item
  | TurnAgentMessage text_item
  | TurnPlan text_item
  | TurnReasoning text_item
  | TurnToolCall string string json
  | TurnToolProgress string string
  | TurnToolResult string "string option" json "string option" bool
  | TurnCommandExecution string string string json json bool
  | TurnApprovalRequest approval_request
  | TurnApprovalDecision approval_answer
  | TurnWebSearch text_item
  | TurnImageGeneration text_item
  | TurnContextCompaction text_item
  | TurnTurnSummary text_item

record item_record =
  ir_id :: item_id
  ir_session :: string
  ir_turn :: string
  ir_timestamp :: timestamp
  ir_started_at :: "timestamp option"
  ir_input_items :: "stored_item list"
  ir_output_items :: "stored_item list"

section \<open>The state of the writer\<close>

record approval_fold =
  af_item :: item_id
  af_seq :: nat
  af_revision :: nat
  af_request :: approval_request

record write_state =
  ws_next_seq :: nat
  ws_next_settings_epoch :: nat
  ws_cwd :: "string option"
  ws_approvals :: "string \<rightharpoonup> approval_fold"

definition new_write_state :: write_state where
  "new_write_state = \<lparr>ws_next_seq = 1, ws_next_settings_epoch = 1, ws_cwd = None, ws_approvals = Map.empty\<rparr>"

definition allocate_settings_epoch :: "write_state \<Rightarrow> nat \<times> write_state" where
  "allocate_settings_epoch w =
     (ws_next_settings_epoch w,
      w\<lparr>ws_next_settings_epoch := sat_add_u64 (ws_next_settings_epoch w) 1\<rparr>)"

definition note_session_cwd :: "string \<Rightarrow> write_state \<Rightarrow> write_state" where
  "note_session_cwd cwd w = w\<lparr>ws_cwd := Some cwd\<rparr>"

definition take_seq :: "write_state \<Rightarrow> nat \<times> write_state" where
  "take_seq w = (ws_next_seq w, w\<lparr>ws_next_seq := ws_next_seq w + 1\<rparr>)"

definition approval_target_of :: "approval_request \<Rightarrow> approval_target option" where
  "approval_target_of r =
     (case ar_path r of
        Some p \<Rightarrow> Some (TargetPath p)
      | None \<Rightarrow> (case ar_host r of
          Some h \<Rightarrow> Some (TargetHost h)
        | None \<Rightarrow> map_option TargetCommand (ar_target r)))"

definition approval_request_item :: "approval_request \<Rightarrow> approval_decision option \<Rightarrow> native_item" where
  "approval_request_item r d =
     ApprovalItem (ar_approval_id r) None (ar_action_summary r) (ar_justification r) (ar_resource r)
       (ar_available_scopes r) (ar_command_pattern r) (ar_command_prefix r) (approval_target_of r) d"

definition approval_request_from_parts ::
  "string \<Rightarrow> string \<Rightarrow> string \<Rightarrow> string option \<Rightarrow> string list \<Rightarrow> string list option \<Rightarrow>
   string list option \<Rightarrow> approval_target option \<Rightarrow> approval_request" where
  "approval_request_from_parts i summary why resource scopes pat pre target =
     \<lparr>ar_approval_id = i, ar_action_summary = summary, ar_justification = why, ar_resource = resource,
      ar_available_scopes = scopes, ar_command_pattern = pat, ar_command_prefix = pre,
      ar_path = (case target of Some (TargetPath p) \<Rightarrow> Some p | _ \<Rightarrow> None),
      ar_host = (case target of Some (TargetHost h) \<Rightarrow> Some h | _ \<Rightarrow> None),
      ar_target = (case target of Some (TargetCommand c) \<Rightarrow> Some c | _ \<Rightarrow> None)\<rparr>"

text \<open>What an item line does to the approvals.\<close>

fun observe_approval ::
  "item_envelope \<Rightarrow> (string \<rightharpoonup> approval_fold) \<Rightarrow> (string \<rightharpoonup> approval_fold)" where
  "observe_approval env folds =
     (case en_item env of
        ApprovalItem i _ summary why resource scopes pat pre target None \<Rightarrow>
          folds(i \<mapsto> \<lparr>af_item = en_id env, af_seq = en_seq env, af_revision = en_revision env,
            af_request = approval_request_from_parts i summary why resource scopes pat pre target\<rparr>)
      | ApprovalItem i _ _ _ _ _ _ _ _ (Some _) \<Rightarrow>
          (case folds i of
             None \<Rightarrow> folds
           | Some f \<Rightarrow> folds(i \<mapsto> f\<lparr>af_revision := max (af_revision f) (en_revision env)\<rparr>))
      | _ \<Rightarrow> folds)"

declare observe_approval.simps [simp del]

fun observe_rollout_line :: "write_state \<Rightarrow> rollout_line \<Rightarrow> write_state" where
  "observe_rollout_line w (LineSessionMeta _ _ s _) = w\<lparr>ws_cwd := Some (ns_cwd s)\<rparr>"
| "observe_rollout_line w (LineItem _ _ env) =
     w\<lparr>ws_next_seq := max (ws_next_seq w) (en_seq env + 1),
       ws_approvals := observe_approval env (ws_approvals w)\<rparr>"
| "observe_rollout_line w (LineInternal _ _ _ _ seq entry) =
     (let w' = w\<lparr>ws_next_seq := max (ws_next_seq w) (seq + 1)\<rparr>
      in case entry of
           SessionSettingsRecord _ _ _ epoch \<Rightarrow>
             w'\<lparr>ws_next_settings_epoch := max (ws_next_settings_epoch w) (epoch + 1)\<rparr>
         | _ \<Rightarrow> w')"
| "observe_rollout_line w _ = w"

section \<open>Expanding a stored record\<close>

datatype projected =
    ProjItem native_item item_state
  | ProjFolded item_id nat nat native_item item_state
  | ProjInternal internal_record

definition user_message_content :: "text_item \<Rightarrow> user_input list" where
  "user_message_content t =
     UserText (tx_text t) # map (\<lambda>p. UserLocalImage p None) (tx_local_image_paths t)"

definition decision_kind_of :: "string \<Rightarrow> approval_decision_kind" where
  "decision_kind_of s =
     (let d = to_ascii_lowercase s
      in if d \<in> {''approve'', ''approved'', ''allow''} then KindApproved
         else if d \<in> {''deny'', ''denied''} then KindDenied else KindCancelled)"

definition decision_scope_of :: "string \<Rightarrow> approval_scope" where
  "decision_scope_of s =
     (let d = to_ascii_lowercase s
      in if d = ''once'' then ScopeOnce
         else if d = ''turn'' then ScopeTurn
         else if d = ''session'' then ScopeSession
         else if d = ''path_prefix'' then ScopePathPrefix
         else if d = ''host'' then ScopeHost
         else if d = ''tool'' then ScopeTool
         else if d = ''command_prefix'' then ScopeCommandPrefix
         else if d = ''command_prefix_persist'' then ScopeCommandPrefixPersist
         else ScopeOnce)"

definition default_option :: "'a \<Rightarrow> 'a option \<Rightarrow> 'a" where
  "default_option d x = (case x of None \<Rightarrow> d | Some y \<Rightarrow> y)"

definition quoted :: "string \<Rightarrow> string" where
  "quoted s = [CHR 0x27] @ s @ [CHR 0x27]"

definition orphan_warning :: "approval_answer \<Rightarrow> native_item" where
  "orphan_warning a =
     WarningItem ''legacyOrphanApprovalDecision''
       (''approval decision '' @ quoted (aa_decision a) @ ''/'' @ quoted (aa_scope a) @
        '' references unknown approval id '' @ aa_approval_id a) False"

definition project_decision ::
  "(nat \<Rightarrow> item_id) \<Rightarrow> timestamp \<Rightarrow> approval_answer \<Rightarrow> write_state \<times> nat \<Rightarrow> projected \<times> write_state \<times> nat"
where
  "project_decision fresh now a s =
     (case s of (w, k) \<Rightarrow>
       (case ws_approvals w (aa_approval_id a) of
          Some f \<Rightarrow>
            (let f' = f\<lparr>af_revision := af_revision f + 1\<rparr>
             in (ProjFolded (af_item f') (af_seq f') (af_revision f')
                   (approval_request_item (af_request f')
                      (Some \<lparr>ad_decision = decision_kind_of (aa_decision a),
                             ad_scope = decision_scope_of (aa_scope a),
                             ad_source = default_option ByUser (aa_source a), ad_decided_at = now\<rparr>))
                   ItemCompleted,
                 w\<lparr>ws_approvals := (ws_approvals w)(aa_approval_id a \<mapsto> f')\<rparr>, k))
        | None \<Rightarrow>
            (case take_seq w of (seq, w') \<Rightarrow>
              (ProjFolded (fresh k) seq 1 (orphan_warning a) ItemCompleted, w', Suc k))))"

fun project_payload ::
  "json_lib \<Rightarrow> (nat \<Rightarrow> item_id) \<Rightarrow> timestamp \<Rightarrow> item_id \<Rightarrow> stored_item \<Rightarrow> write_state \<times> nat \<Rightarrow>
   projected \<times> write_state \<times> nat" where
  "project_payload lib fresh now i (TurnApprovalRequest r) (w, k) =
     (case take_seq w of (seq, w') \<Rightarrow>
       (ProjFolded i seq 1 (approval_request_item r None) ItemWaiting,
        w'\<lparr>ws_approvals := (ws_approvals w')(ar_approval_id r \<mapsto>
             \<lparr>af_item = i, af_seq = seq, af_revision = 1, af_request = r\<rparr>)\<rparr>, k))"
| "project_payload lib fresh now i (TurnApprovalDecision a) (w, k) = project_decision fresh now a (w, k)"
| "project_payload lib fresh now i (TurnUserMessage t) (w, k) =
     (ProjItem (UserMessageItem None (user_message_content t) EntryTurnStart) ItemCompleted, w, k)"
| "project_payload lib fresh now i (TurnSteerInput t) (w, k) =
     (ProjItem (UserMessageItem None (user_message_content t) EntrySteer) ItemCompleted, w, k)"
| "project_payload lib fresh now i (TurnHookPrompt t) (w, k) =
     (ProjInternal (Entry (EntryHookPrompt (tx_text t))), w, k)"
| "project_payload lib fresh now i (TurnAgentMessage t) (w, k) =
     (ProjItem (AssistantMessageItem (tx_text t)) ItemCompleted, w, k)"
| "project_payload lib fresh now i (TurnPlan t) (w, k) =
     (ProjItem (PlanItem None (plan_entries_from_plan_text_or_single lib (tx_text t))) ItemCompleted, w, k)"
| "project_payload lib fresh now i (TurnReasoning t) (w, k) =
     (ProjItem (ReasoningItem (tx_text t) None) ItemCompleted, w, k)"
| "project_payload lib fresh now i (TurnToolCall call tool inp) (w, k) =
     (ProjItem (ToolCallItem call tool SourceBuiltin None (Some inp)) ItemCompleted, w, k)"
| "project_payload lib fresh now i (TurnToolProgress call msg) (w, k) =
     (ProjInternal (Entry (EntryToolProgress call msg)), w, k)"
| "project_payload lib fresh now i (TurnToolResult call tool out display is_error) (w, k) =
     (ProjItem (ToolResultItem call out display is_error False) ItemCompleted, w, k)"
| "project_payload lib fresh now i (TurnCommandExecution call tool cmd inp out is_error) (w, k) =
     (ProjItem (CommandExecutionItem call cmd None (default_option [] (ws_cwd w)) (Some inp) (Some out)
        None None is_error ModeForeground OriginAgentTool None) ItemCompleted, w, k)"
| "project_payload lib fresh now i (TurnWebSearch t) (w, k) =
     (ProjItem (HostedToolCallItem i ''web_search'' None (Some (JStr (tx_text t)))) ItemCompleted, w, k)"
| "project_payload lib fresh now i (TurnImageGeneration t) (w, k) =
     (ProjItem (HostedToolCallItem i ''image_generation'' None (Some (JStr (tx_text t)))) ItemCompleted, w, k)"
| "project_payload lib fresh now i (TurnContextCompaction t) (w, k) =
     (ProjItem (ContextCompactionItem TriggerAutoThreshold default_context_usage None
        (Some (tx_text t))) ItemCompleted, w, k)"
| "project_payload lib fresh now i (TurnTurnSummary t) (w, k) =
     (ProjInternal (Entry (EntryTurnSummary (tx_text t))), w, k)"

text \<open>One payload becomes one line; \<open>i\<close> is the identifier its item gets.\<close>

definition payload_line ::
  "json_lib \<Rightarrow> (nat \<Rightarrow> item_id) \<Rightarrow> timestamp \<Rightarrow> item_record \<Rightarrow> item_id \<Rightarrow> stored_item \<Rightarrow> write_state \<times> nat \<Rightarrow>
   rollout_line \<times> write_state \<times> nat" where
  "payload_line lib fresh now rec i payload s =
     (let item_line = (\<lambda>i seq revision state item.
            LineItem ROLLOUT_FORMAT_VERSION now
              \<lparr>en_id = i, en_session = ir_session rec, en_turn = ir_turn rec, en_seq = seq,
               en_revision = revision,
               en_created_at = default_option (ir_timestamp rec) (ir_started_at rec),
               en_updated_at = ir_timestamp rec, en_state = state, en_item = item,
               en_parent = None\<rparr>)
      in case project_payload lib fresh (ir_timestamp rec) i payload s of
           (ProjItem item state, w, k) \<Rightarrow>
             (case take_seq w of (seq, w') \<Rightarrow> (item_line i seq 1 state item, w', k))
         | (ProjFolded j seq revision item state, w, k) \<Rightarrow> (item_line j seq revision state item, w, k)
         | (ProjInternal entry, w, k) \<Rightarrow>
             (case take_seq w of (seq, w') \<Rightarrow>
               (LineInternal ROLLOUT_FORMAT_VERSION now (ir_session rec) (Some (ir_turn rec)) seq entry,
                w', k)))"

fun expand_payloads ::
  "json_lib \<Rightarrow> (nat \<Rightarrow> item_id) \<Rightarrow> timestamp \<Rightarrow> item_record \<Rightarrow> bool \<Rightarrow> stored_item list \<Rightarrow> write_state \<times> nat \<Rightarrow>
   rollout_line list \<times> write_state \<times> nat" where
  "expand_payloads lib fresh now rec first [] s = ([], s)"
| "expand_payloads lib fresh now rec first (p # ps) (w, k) =
     (let (i, k') = (if first then (ir_id rec, k) else (fresh k, Suc k));
          (line, s) = payload_line lib fresh now rec i p (w, k');
          (lines, s') = expand_payloads lib fresh now rec False ps s
      in (line # lines, s'))"

definition item_lines_from_record ::
  "json_lib \<Rightarrow> (nat \<Rightarrow> item_id) \<Rightarrow> timestamp \<Rightarrow> item_record \<Rightarrow> write_state \<times> nat \<Rightarrow>
   rollout_line list \<times> write_state \<times> nat" where
  "item_lines_from_record lib fresh now rec s =
     expand_payloads lib fresh now rec True (ir_input_items rec @ ir_output_items rec) s"

end
