(* ===== verification/Rollout_Writer.thy ===== *)
theory Rollout_Writer
  imports Rollout
begin

text \<open>
  The writer of rollout lines: the sequence numbers it hands out, the folding of an approval's
  answer into its request, and the recovery of its state from the lines of an existing file
  (\<open>RolloutWriteState\<close>, \<open>core/src/conversation/rollout_write_state/\<close>).
\<close>

section \<open>Writing many records\<close>

fun write_records ::
  "json_lib \<Rightarrow> (nat \<Rightarrow> item_id) \<Rightarrow> (timestamp \<times> item_record) list \<Rightarrow> write_state \<times> nat \<Rightarrow>
   rollout_line list \<times> write_state \<times> nat" where
  "write_records lib fresh [] s = ([], s)"
| "write_records lib fresh ((now, rec) # recs) s =
     (let (ls, s') = item_lines_from_record lib fresh now rec s;
          (ls', s'') = write_records lib fresh recs s'
      in (ls @ ls', s''))"

text \<open>The position of a line, and whether it is the first of its item.\<close>

fun line_seq :: "rollout_line \<Rightarrow> nat" where
  "line_seq (LineItem _ _ env) = en_seq env"
| "line_seq (LineInternal _ _ _ _ seq _) = seq"
| "line_seq _ = 0"

fun first_appearance :: "rollout_line \<Rightarrow> bool" where
  "first_appearance (LineItem _ _ env) = (en_revision env = 1)"
| "first_appearance _ = True"

section \<open>The state that matters\<close>

text \<open>
  An approval request read back from its item has at most one of path, host and target. Two states
  that differ only in what such a request has lost write the same lines.
\<close>

definition reread :: "approval_request \<Rightarrow> approval_request" where
  "reread r = approval_request_from_parts (ar_approval_id r) (ar_action_summary r) (ar_justification r)
     (ar_resource r) (ar_available_scopes r) (ar_command_pattern r) (ar_command_prefix r)
     (approval_target_of r)"

definition reread_fold :: "approval_fold \<Rightarrow> approval_fold" where
  "reread_fold f = f\<lparr>af_request := reread (af_request f)\<rparr>"

definition essence :: "write_state \<Rightarrow> write_state" where
  "essence w = w\<lparr>ws_approvals := map_option reread_fold \<circ> ws_approvals w\<rparr>"

definition fold_ok :: "nat \<Rightarrow> string \<Rightarrow> approval_fold \<Rightarrow> bool" where
  "fold_ok n i f \<longleftrightarrow> af_seq f < n \<and> 1 \<le> af_revision f \<and> ar_approval_id (af_request f) = i"

definition writer_ok :: "write_state \<Rightarrow> bool" where
  "writer_ok w \<longleftrightarrow> (\<forall>i f. ws_approvals w i = Some f \<longrightarrow> fold_ok (ws_next_seq w) i f)"

lemma target_of_parts [simp]:
  "approval_target_of (approval_request_from_parts i s y re sc pa pr t) = t"
  by (auto simp: approval_target_of_def approval_request_from_parts_def
      split: option.split approval_target.split)

lemma approval_target_reread [simp]: "approval_target_of (reread r) = approval_target_of r"
  by (simp add: reread_def)

lemma reread_fields [simp]:
  "ar_approval_id (reread r) = ar_approval_id r" "ar_action_summary (reread r) = ar_action_summary r"
  "ar_justification (reread r) = ar_justification r" "ar_resource (reread r) = ar_resource r"
  "ar_available_scopes (reread r) = ar_available_scopes r"
  "ar_command_pattern (reread r) = ar_command_pattern r"
  "ar_command_prefix (reread r) = ar_command_prefix r"
  by (simp_all add: reread_def approval_request_from_parts_def)

lemma approval_item_reread [simp]: "approval_request_item (reread r) d = approval_request_item r d"
  by (simp add: approval_request_item_def)

lemma reread_parts [simp]:
  "reread (approval_request_from_parts i s y re sc pa pr t) = approval_request_from_parts i s y re sc pa pr t"
  by (simp add: reread_def) (simp add: approval_request_from_parts_def)

lemma reread_reread [simp]: "reread (reread r) = reread r"
  by (simp add: reread_def [of r])

lemma reread_fold_simps [simp]:
  "af_item (reread_fold f) = af_item f" "af_seq (reread_fold f) = af_seq f"
  "af_revision (reread_fold f) = af_revision f" "af_request (reread_fold f) = reread (af_request f)"
  by (simp_all add: reread_fold_def)

lemma essence_simps [simp]:
  "ws_next_seq (essence w) = ws_next_seq w" "ws_cwd (essence w) = ws_cwd w"
  "ws_next_settings_epoch (essence w) = ws_next_settings_epoch w"
  "ws_approvals (essence w) i = map_option reread_fold (ws_approvals w i)"
  by (simp_all add: essence_def)

lemma essence_eq:
  "essence v = essence w \<longleftrightarrow>
     ws_next_seq v = ws_next_seq w \<and> ws_next_settings_epoch v = ws_next_settings_epoch w \<and>
     ws_cwd v = ws_cwd w \<and>
     (\<forall>i. map_option reread_fold (ws_approvals v i) = map_option reread_fold (ws_approvals w i))"
  by (cases v; cases w) (auto simp: essence_def fun_eq_iff)

lemma essence_none: "essence v = essence w \<Longrightarrow> ws_approvals v i = None \<longleftrightarrow> ws_approvals w i = None"
  unfolding essence_eq by (metis option.map_disc_iff)

lemma essence_some:
  "\<lbrakk>essence v = essence w; ws_approvals w i = Some f\<rbrakk> \<Longrightarrow>
   \<exists>g. ws_approvals v i = Some g \<and> reread_fold g = reread_fold f"
  unfolding essence_eq by (metis map_option_eq_Some option.simps(9))


section \<open>One payload\<close>

text \<open>The answer to an approval, on a state that knows the request and on one that does not.\<close>

lemma project_decision_known:
  "ws_approvals w (aa_approval_id a) = Some f \<Longrightarrow>
   project_decision fresh now a (w, k) =
     (ProjFolded (af_item f) (af_seq f) (af_revision f + 1)
        (approval_request_item (af_request f)
           (Some \<lparr>ad_decision = decision_kind_of (aa_decision a),
                  ad_scope = decision_scope_of (aa_scope a),
                  ad_source = default_option ByUser (aa_source a), ad_decided_at = now\<rparr>)) ItemCompleted,
      w\<lparr>ws_approvals := (ws_approvals w)(aa_approval_id a \<mapsto> f\<lparr>af_revision := af_revision f + 1\<rparr>)\<rparr>, k)"
  by (simp add: project_decision_def Let_def)

lemma project_decision_orphan:
  "ws_approvals w (aa_approval_id a) = None \<Longrightarrow>
   project_decision fresh now a (w, k) =
     (ProjFolded (fresh k) (ws_next_seq w) 1 (orphan_warning a) ItemCompleted,
      w\<lparr>ws_next_seq := ws_next_seq w + 1\<rparr>, Suc k)"
  by (simp add: project_decision_def take_seq_def)

lemma payload_simulation:
  assumes ess: "essence v = essence w"
  shows "\<exists>l v' w' k'. payload_line lib fresh now rec i p (v, k) = (l, v', k') \<and>
    payload_line lib fresh now rec i p (w, k) = (l, w', k') \<and> essence v' = essence w'"
proof (cases "\<exists>a. p = TurnApprovalDecision a")
  case False
  then show ?thesis using ess
    by (cases p) (auto simp: payload_line_def Let_def take_seq_def essence_eq)
next
  case True
  then obtain a where p: "p = TurnApprovalDecision a" by blast
  show ?thesis
  proof (cases "ws_approvals w (aa_approval_id a)")
    case None
    then have "ws_approvals v (aa_approval_id a) = None" using essence_none [OF ess] by simp
    with None ess show ?thesis
      by (auto simp: p payload_line_def Let_def project_decision_orphan essence_eq)
  next
    case (Some f)
    from essence_some [OF ess this] obtain g
      where g: "ws_approvals v (aa_approval_id a) = Some g" "reread_fold g = reread_fold f" by blast
    then have same: "af_item g = af_item f" "af_seq g = af_seq f" "af_revision g = af_revision f"
      "reread (af_request g) = reread (af_request f)"
      by (metis reread_fold_simps)+
    have "approval_request_item (af_request g) d = approval_request_item (af_request f) d" for d
      using same(4) by (metis approval_item_reread)
    with Some g same ess show ?thesis
      by (auto simp: p payload_line_def Let_def project_decision_known essence_eq reread_fold_def)
  qed
qed

lemma observe_not_approval:
  "(\<And>a b c d e f g h i j. en_item env \<noteq> ApprovalItem a b c d e f g h i j) \<Longrightarrow>
   observe_approval env folds = folds"
  by (simp add: observe_approval.simps split: native_item.split)

lemma observe_request:
  "en_item env = approval_request_item r None \<Longrightarrow>
   observe_approval env folds = folds(ar_approval_id r \<mapsto> \<lparr>af_item = en_id env, af_seq = en_seq env,
     af_revision = en_revision env, af_request = reread r\<rparr>)"
  by (simp add: observe_approval.simps approval_request_item_def reread_def)

lemma observe_answer:
  "\<lbrakk>en_item env = approval_request_item r (Some d); folds (ar_approval_id r) = Some f\<rbrakk> \<Longrightarrow>
   observe_approval env folds =
     folds(ar_approval_id r \<mapsto> f\<lparr>af_revision := max (af_revision f) (en_revision env)\<rparr>)"
  by (simp add: observe_approval.simps approval_request_item_def)

text \<open>Observing the line a state has just written brings back the state.\<close>

lemma observe_written:
  assumes ok: "writer_ok w"
    and line: "payload_line lib fresh now rec i p (w, k) = (l, w', k')"
  shows "essence (observe_rollout_line w l) = essence w'"
proof (cases "\<exists>a f. p = TurnApprovalDecision a \<and> ws_approvals w (aa_approval_id a) = Some f")
  case True
  then obtain a f where p: "p = TurnApprovalDecision a" and f: "ws_approvals w (aa_approval_id a) = Some f"
    by blast
  have "fold_ok (ws_next_seq w) (aa_approval_id a) f" using ok f by (simp add: writer_ok_def)
  then show ?thesis using line f
    by (auto simp: p payload_line_def Let_def project_decision_known fold_ok_def essence_eq
        observe_answer [where r = "af_request f" and f = f] max_def)
next
  case False
  show ?thesis
  proof (cases "\<exists>r. p = TurnApprovalRequest r")
    case True
    then show ?thesis using line
      by (auto simp: payload_line_def Let_def take_seq_def essence_eq observe_request reread_fold_def)
  next
    case norequest: False
    show ?thesis using line False norequest
      by (cases p) (auto simp: payload_line_def Let_def take_seq_def essence_eq observe_not_approval
          project_decision_orphan orphan_warning_def)
  qed
qed


lemma writer_ok_essence: "essence v = essence w \<Longrightarrow> writer_ok v = writer_ok w"
proof -
  have "writer_ok u \<longleftrightarrow> (\<forall>i f. ws_approvals (essence u) i = Some f \<longrightarrow> fold_ok (ws_next_seq (essence u)) i f)"
    for u
    by (force simp: writer_ok_def fold_ok_def)
  then show "essence v = essence w \<Longrightarrow> writer_ok v = writer_ok w" by (simp only:)
qed

text \<open>Every open approval stands in the file with its latest revision.\<close>

definition grounded :: "write_state \<Rightarrow> rollout_line list \<Rightarrow> bool" where
  "grounded w ls \<longleftrightarrow> (\<forall>i f. ws_approvals w i = Some f \<longrightarrow>
     (\<exists>v t e. LineItem v t e \<in> set ls \<and> en_id e = af_item f \<and> en_seq e = af_seq f \<and>
       en_revision e = af_revision f))"

text \<open>A line that is not the first of its item repeats an earlier one with a higher revision.\<close>

definition revises :: "rollout_line list \<Rightarrow> rollout_line \<Rightarrow> bool" where
  "revises ls l \<longleftrightarrow> (\<exists>v t e v' t' e'. l = LineItem v t e \<and> LineItem v' t' e' \<in> set ls \<and>
     en_id e' = en_id e \<and> en_seq e' = en_seq e \<and> en_revision e' < en_revision e)"

lemma grounded_update:
  "\<lbrakk>grounded w ls; LineItem v t e \<in> set ls'; set ls \<subseteq> set ls'; en_id e = af_item f;
    en_seq e = af_seq f; en_revision e = af_revision f; ws_approvals w' = (ws_approvals w)(i \<mapsto> f)\<rbrakk> \<Longrightarrow>
   grounded w' ls'"
  unfolding grounded_def by (auto split: if_splits) blast+

lemma payload_numbers:
  assumes ok: "writer_ok w" and line: "payload_line lib fresh now rec i p (w, k) = (l, w', k')"
  shows "writer_ok w'"
    and "ws_next_seq w' = (if first_appearance l then Suc (ws_next_seq w) else ws_next_seq w)"
    and "first_appearance l \<Longrightarrow> line_seq l = ws_next_seq w"
    and "grounded w ls \<Longrightarrow> grounded w' (ls @ [l])"
    and "\<lbrakk>grounded w ls; \<not> first_appearance l\<rbrakk> \<Longrightarrow> revises ls l"
proof -
  have "writer_ok w' \<and>
    ws_next_seq w' = (if first_appearance l then Suc (ws_next_seq w) else ws_next_seq w) \<and>
    (first_appearance l \<longrightarrow> line_seq l = ws_next_seq w) \<and>
    (\<forall>ls. grounded w ls \<longrightarrow> grounded w' (ls @ [l]) \<and> (\<not> first_appearance l \<longrightarrow> revises ls l))"
  proof (cases "\<exists>a f. p = TurnApprovalDecision a \<and> ws_approvals w (aa_approval_id a) = Some f")
    case True
    then obtain a f where p: "p = TurnApprovalDecision a" and f: "ws_approvals w (aa_approval_id a) = Some f"
      by blast
    have fok: "fold_ok (ws_next_seq w) (aa_approval_id a) f" using ok f by (simp add: writer_ok_def)
    let ?f = "f\<lparr>af_revision := af_revision f + 1\<rparr>"
    have w': "w' = w\<lparr>ws_approvals := (ws_approvals w)(aa_approval_id a \<mapsto> ?f)\<rparr>"
      using line f by (auto simp: p payload_line_def Let_def project_decision_known)
    obtain v t e where l: "l = LineItem v t e" and e: "en_id e = af_item f" "en_seq e = af_seq f"
      "en_revision e = af_revision f + 1"
      using line f by (auto simp: p payload_line_def Let_def project_decision_known)
    have nf: "\<not> first_appearance l" using fok by (simp add: l e fold_ok_def)
    have "writer_ok w'" using ok fok by (simp add: w' writer_ok_def fold_ok_def)
    moreover have "revises ls l" if gr: "grounded w ls" for ls
    proof -
      obtain v' t' e' where e': "LineItem v' t' e' \<in> set ls" "en_id e' = af_item f" "en_seq e' = af_seq f"
          "en_revision e' = af_revision f"
        using gr f unfolding grounded_def by blast
      have "en_id e' = en_id e" "en_seq e' = en_seq e" "en_revision e' < en_revision e"
        using e e' by simp_all
      with e'(1) l show ?thesis unfolding revises_def by blast
    qed
    moreover have "grounded w' (ls @ [l])" if "grounded w ls" for ls
      by (rule grounded_update [OF that, of v t e _ ?f]) (use l e w' in auto)
    ultimately show ?thesis using nf by (simp add: w')
  next
    case False
    have step: "fold_ok n j f \<Longrightarrow> fold_ok (Suc n) j f" for n j f by (simp add: fold_ok_def)
    show ?thesis
    proof (cases "\<exists>r. p = TurnApprovalRequest r")
      case True
      then obtain r where p: "p = TurnApprovalRequest r" by blast
      let ?f = "\<lparr>af_item = i, af_seq = ws_next_seq w, af_revision = 1, af_request = r\<rparr>"
      have w': "w' = w\<lparr>ws_next_seq := Suc (ws_next_seq w),
          ws_approvals := (ws_approvals w)(ar_approval_id r \<mapsto> ?f)\<rparr>"
        using line by (auto simp: p payload_line_def Let_def take_seq_def)
      obtain v t e where l: "l = LineItem v t e" "en_id e = i" "en_seq e = ws_next_seq w"
          "en_revision e = 1"
        using line by (auto simp: p payload_line_def Let_def take_seq_def)
      have "writer_ok w'" using ok by (auto simp: w' writer_ok_def fold_ok_def less_SucI)
      moreover have "grounded w' (ls @ [l])" if "grounded w ls" for ls
        by (rule grounded_update [OF that, of v t e _ ?f]) (use l w' in auto)
      ultimately show ?thesis using l by (simp add: w')
    next
      case norequest: False
      have "writer_ok (w\<lparr>ws_next_seq := Suc (ws_next_seq w)\<rparr>)"
        using ok step by (auto simp: writer_ok_def)
      moreover have "grounded w ls \<Longrightarrow> grounded (w\<lparr>ws_next_seq := n\<rparr>) (ls @ [x])" for ls n x
        by (fastforce simp: grounded_def)
      ultimately show ?thesis using line False norequest
        by (cases p) (auto simp: payload_line_def Let_def take_seq_def project_decision_orphan)
    qed
  qed
  then show "writer_ok w'"
    and "ws_next_seq w' = (if first_appearance l then Suc (ws_next_seq w) else ws_next_seq w)"
    and "first_appearance l \<Longrightarrow> line_seq l = ws_next_seq w"
    and "grounded w ls \<Longrightarrow> grounded w' (ls @ [l])"
    and "\<lbrakk>grounded w ls; \<not> first_appearance l\<rbrakk> \<Longrightarrow> revises ls l" by blast+
qed

section \<open>Sequences of lines\<close>

text \<open>The states the writer goes through, one line at a time.\<close>

inductive appends :: "json_lib \<Rightarrow> (nat \<Rightarrow> item_id) \<Rightarrow> write_state \<Rightarrow> rollout_line list \<Rightarrow> write_state \<Rightarrow> bool"
  for lib fresh where
  appends_Nil: "appends lib fresh w [] w"
| appends_Cons: "\<lbrakk>payload_line lib fresh now rec i p (w, k) = (l, w', k'); appends lib fresh w' ls w''\<rbrakk> \<Longrightarrow>
    appends lib fresh w (l # ls) w''"

lemma appends_append:
  "\<lbrakk>appends lib fresh w xs w'; appends lib fresh w' ys w''\<rbrakk> \<Longrightarrow> appends lib fresh w (xs @ ys) w''"
  by (induction rule: appends.induct) (auto intro: appends_Cons)

lemma expand_appends:
  "expand_payloads lib fresh now rec first ps (w, k) = (ls, w', k') \<Longrightarrow> appends lib fresh w ls w'"
proof (induction ps arbitrary: first w k ls)
  case (Cons p ps)
  then show ?case
    by (auto simp: Let_def split: prod.splits if_splits intro!: appends_Cons)
qed (auto intro: appends_Nil)

lemma write_appends: "write_records lib fresh recs (w, k) = (ls, w', k') \<Longrightarrow> appends lib fresh w ls w'"
proof (induction recs arbitrary: w k ls)
  case (Cons r recs)
  then show ?case
    by (cases r) (auto simp: Let_def item_lines_from_record_def split: prod.splits
        intro!: appends_append dest: expand_appends)
qed (auto intro: appends_Nil)

lemma observe_approval_essence:
  assumes "\<forall>i. map_option reread_fold (f i) = map_option reread_fold (g i)"
  shows "map_option reread_fold (observe_approval e f i) = map_option reread_fold (observe_approval e g i)"
proof (cases "\<exists>a b c d r s p q t z. en_item e = ApprovalItem a b c d r s p q t (Some z)")
  case True
  then obtain a b c d r s p q t z where item: "en_item e = ApprovalItem a b c d r s p q t (Some z)" by blast
  have rel: "map_option reread_fold (f a) = map_option reread_fold (g a)" using assms by blast
  show ?thesis
  proof (cases "f a")
    case None
    with rel have "g a = None" by simp
    with None assms show ?thesis by (simp add: observe_approval.simps item)
  next
    case (Some x)
    with rel obtain y where y: "g a = Some y" "reread_fold x = reread_fold y" by (cases "g a") auto
    then have "reread_fold (x\<lparr>af_revision := max (af_revision x) n\<rparr>) =
        reread_fold (y\<lparr>af_revision := max (af_revision y) n\<rparr>)" for n
      by (cases x; cases y) (simp add: reread_fold_def)
    with Some y(1) assms show ?thesis by (cases "i = a") (simp_all add: observe_approval.simps item)
  qed
next
  case False
  show ?thesis
  proof (cases "\<exists>a b c d r s p q t. en_item e = ApprovalItem a b c d r s p q t None")
    case True
    then show ?thesis using assms by (auto simp: observe_approval.simps)
  next
    case none: False
    have "observe_approval e h = h" for h
      by (rule observe_not_approval) (metis False none option.exhaust)
    then show ?thesis using assms by simp
  qed
qed

lemma observe_essence:
  assumes "essence v = essence w"
  shows "essence (observe_rollout_line v l) = essence (observe_rollout_line w l)"
proof (cases l)
  case (LineItem n t env)
  show ?thesis using assms observe_approval_essence [of "ws_approvals v" "ws_approvals w" env]
    unfolding essence_eq by (simp add: LineItem)
next
  case (LineInternal n t sid turn seq entry)
  then show ?thesis using assms by (cases entry) (simp_all add: essence_eq)
qed (use assms in \<open>simp_all add: essence_eq\<close>)

lemma appends_observed:
  "\<lbrakk>appends lib fresh w ls w'; writer_ok w; essence v = essence w\<rbrakk> \<Longrightarrow>
   essence (foldl observe_rollout_line v ls) = essence w' \<and> writer_ok w'"
proof (induction arbitrary: v rule: appends.induct)
  case (appends_Cons now rec i p w k l w' k' ls w'')
  have "essence (observe_rollout_line w l) = essence w'"
    by (rule observe_written [OF appends_Cons.prems(1) appends_Cons.hyps(1)])
  moreover have "essence (observe_rollout_line v l) = essence (observe_rollout_line w l)"
    by (rule observe_essence [OF appends_Cons.prems(2)])
  ultimately have "essence (observe_rollout_line v l) = essence w'" by simp
  with appends_Cons.IH payload_numbers(1) [OF appends_Cons.prems(1) appends_Cons.hyps(1)]
  show ?case by simp
qed simp


lemma appends_numbers:
  "\<lbrakk>appends lib fresh w ls w'; writer_ok w; grounded w before\<rbrakk> \<Longrightarrow>
   ws_next_seq w \<le> ws_next_seq w' \<and>
   map line_seq (filter first_appearance ls) = [ws_next_seq w..<ws_next_seq w'] \<and>
   (\<forall>xs l ys. ls = xs @ l # ys \<and> \<not> first_appearance l \<longrightarrow> revises (before @ xs) l)"
proof (induction arbitrary: before rule: appends.induct)
  case (appends_Cons now rec i p w k l w' k' ls w'')
  note step = payload_numbers [OF appends_Cons.prems(1) appends_Cons.hyps(1)]
  have IH: "ws_next_seq w' \<le> ws_next_seq w''"
    "map line_seq (filter first_appearance ls) = [ws_next_seq w'..<ws_next_seq w'']"
    "\<And>xs l' ys. \<lbrakk>ls = xs @ l' # ys; \<not> first_appearance l'\<rbrakk> \<Longrightarrow> revises ((before @ [l]) @ xs) l'"
    using appends_Cons.IH [OF step(1) step(4) [OF appends_Cons.prems(2)]] by blast+
  have "revises (before @ xs) l'" if "l # ls = xs @ l' # ys" "\<not> first_appearance l'" for xs l' ys
    using that IH(3) step(5) [OF appends_Cons.prems(2)] by (cases xs) auto
  with IH step(2,3) show ?case by (auto simp: upt_rec split: if_splits)
qed simp

section \<open>Properties\<close>

text \<open>
  The writer numbers the lines of a session without gaps or repetitions: the lines that bring
  a new item (or an internal entry) carry 1, 2, 3 and so on in file order, and any other item line
  repeats the identifier and the number of an earlier line with a higher revision.
\<close>

theorem lines_numbered_without_gaps:
  assumes "write_records lib fresh recs (new_write_state, k) = (ls, w, k')"
  shows "map line_seq (filter first_appearance ls) = [1..<ws_next_seq w] \<and>
    (\<forall>xs l ys. ls = xs @ l # ys \<and> \<not> first_appearance l \<longrightarrow> revises xs l)"
proof -
  have "writer_ok new_write_state" "grounded new_write_state []"
    by (simp_all add: writer_ok_def grounded_def new_write_state_def)
  from appends_numbers [OF write_appends [OF assms] this] show ?thesis
    by (simp add: new_write_state_def)
qed

definition sample_lib :: json_lib where
  "sample_lib = \<lparr>lib_parse = (\<lambda>s. Inl JsonEof), lib_print = (\<lambda>j. [])\<rparr>"

definition sample_request :: approval_request where
  "sample_request =
     \<lparr>ar_approval_id = ''a'', ar_action_summary = ''run'', ar_justification = ''why'', ar_resource = None,
      ar_available_scopes = [''once''], ar_command_pattern = None, ar_command_prefix = None,
      ar_path = Some ''p'', ar_host = Some ''h'', ar_target = None\<rparr>"

definition sample_record :: item_record where
  "sample_record =
     \<lparr>ir_id = ''r'', ir_session = ''s'', ir_turn = ''t'', ir_timestamp = 5, ir_started_at = None,
      ir_input_items = [TurnUserMessage \<lparr>tx_text = ''hi'', tx_local_image_paths = []\<rparr>,
        TurnApprovalRequest sample_request],
      ir_output_items = [TurnTurnSummary \<lparr>tx_text = ''m'', tx_local_image_paths = []\<rparr>,
        TurnApprovalDecision \<lparr>aa_approval_id = ''a'', aa_decision = ''Allow'', aa_scope = ''once'',
          aa_source = None\<rparr>]\<rparr>"

lemmas sample_eval = sample_record_def sample_request_def item_lines_from_record_def payload_line_def
  project_decision_def take_seq_def new_write_state_def

lemma lines_numbered_without_gaps_witness:
  "\<exists>ls w k. write_records sample_lib (\<lambda>n. replicate n CHR ''x'') [(7, sample_record)] (new_write_state, 0)
      = (ls, w, k) \<and> map line_seq ls = [1, 2, 3, 2] \<and>
    map line_seq (filter first_appearance ls) = [1..<ws_next_seq w]"
proof -
  obtain ls w k where run: "write_records sample_lib (\<lambda>n. replicate n CHR ''x'') [(7, sample_record)]
      (new_write_state, 0) = (ls, w, k)" by (metis prod_cases3)
  moreover have "map line_seq (fst (write_records sample_lib (\<lambda>n. replicate n CHR ''x'')
      [(7, sample_record)] (new_write_state, 0))) = [1, 2, 3, 2]"
    by (simp add: sample_eval Let_def)
  ultimately show ?thesis using lines_numbered_without_gaps [OF run] by auto
qed



definition sample_session :: native_session where
  "sample_session =
     \<lparr>ns_id = ''s'', ns_version = 1, ns_cwd = ''/w'', ns_title = None,
      ns_model = \<lparr>mb_provider = ''p'', mb_model = ''m'', mb_variant = None, mb_reasoning_effort = None\<rparr>,
      ns_settings = \<lparr>st_permission_profile = ProfileDefault, st_reasoning_effort = None, st_mode = None,
        st_sandbox_profile = None, st_effective_context_window = None, st_auto_refine_enabled = None,
        st_auto_refine_turn_interval = None, st_python_cell_first_wait_ms = None\<rparr>\<rparr>"


end
