(* ===== verification/Rollout_File.thy ===== *)
theory Rollout_File
  imports Rollout "HOL-Library.Word"
begin

text \<open>
  The rollout file as bytes (\<open>server/src/persistence.rs\<close>): appending lines, and reading the file back
  before the first append of a process, which drops the rest of a line that a crash cut off.

  The serialiser, the parser of a line and the decoding of UTF-8 are arguments. A crash leaves a
  prefix of the bytes of the write it interrupts; a failed write leaves a prefix too, but the
  process goes on. The per-file lock makes each append one step.
\<close>

section \<open>Lines of bytes\<close>

type_synonym byte = "8 word"

definition newline :: byte where "newline = 10"
definition carriage :: byte where "carriage = 13"

text \<open>The lines that end in a newline, and what follows the last newline.\<close>

fun split_newlines :: "byte list \<Rightarrow> byte list list \<times> byte list" where
  "split_newlines [] = ([], [])"
| "split_newlines (b # bs) =
     (case split_newlines bs of (ls, rest) \<Rightarrow>
        if b = newline then ([] # ls, rest)
        else (case ls of [] \<Rightarrow> ([], b # rest) | l # ls' \<Rightarrow> ((b # l) # ls', rest)))"

definition strip_carriage :: "byte list \<Rightarrow> byte list" where
  "strip_carriage l = (if l \<noteq> [] \<and> last l = carriage then butlast l else l)"

text \<open>\<open>BufRead::lines\<close>: a last line without a newline keeps its bytes.\<close>

definition file_lines :: "byte list \<Rightarrow> byte list list" where
  "file_lines bytes =
     (case split_newlines bytes of (ls, rest) \<Rightarrow> map strip_carriage ls @ (if rest = [] then [] else [rest]))"

section \<open>Reading\<close>

datatype open_error = ReadFailed nat | DamagedAt nat line_error

record text_codec =
  cd_decode :: "byte list \<Rightarrow> string option"
  cd_lossy :: "byte list \<Rightarrow> string"
  cd_parse :: "string \<Rightarrow> line_error + rollout_line"
  cd_print :: "rollout_line \<Rightarrow> byte list"

definition blank_line :: "text_codec \<Rightarrow> byte list \<Rightarrow> bool" where
  "blank_line cd l \<longleftrightarrow> (case cd_decode cd l of None \<Rightarrow> False | Some s \<Rightarrow> trim s = [])"

text \<open>The lines of a file, and whether it ends in a crash tail.\<close>

fun visit_open_rollout_lines ::
  "text_codec \<Rightarrow> nat \<Rightarrow> byte list list \<Rightarrow> open_error + rollout_line list \<times> bool" where
  "visit_open_rollout_lines cd i [] = Inr ([], False)"
| "visit_open_rollout_lines cd i (raw # raws) =
     (case cd_decode cd raw of
        None \<Rightarrow> Inl (ReadFailed i)
      | Some s \<Rightarrow>
          if trim s = [] then visit_open_rollout_lines cd (Suc i) raws
          else
            (case cd_parse cd s of
               Inr l \<Rightarrow> map_sum id (\<lambda>(ls, tail). (l # ls, tail)) (visit_open_rollout_lines cd (Suc i) raws)
             | Inl TruncatedTail \<Rightarrow>
                 if list_all (blank_line cd) raws then Inr ([], True) else Inl (DamagedAt (i + 1) TruncatedTail)
             | Inl e \<Rightarrow> Inl (DamagedAt (i + 1) e)))"

section \<open>Dropping the crash tail\<close>

definition trim_end_carriage :: "string \<Rightarrow> string" where
  "trim_end_carriage s = rev (dropWhile (\<lambda>c. c = CHR 0x0D) (rev s))"

text \<open>How many bytes to keep, if the file is to be cut.\<close>

fun crash_cut :: "text_codec \<Rightarrow> nat \<Rightarrow> byte list list \<Rightarrow> byte list \<Rightarrow> nat option" where
  "crash_cut cd keep [] rest =
     (let s = trim_end_carriage (cd_lossy cd rest) in
      if trim s \<noteq> [] \<and> cd_parse cd s = Inl TruncatedTail then Some keep else None)"
| "crash_cut cd keep (l # ls) rest =
     (let s = trim_end_carriage (cd_lossy cd l) in
      if trim s = [] then crash_cut cd (keep + length l + 1) ls rest
      else
        (case cd_parse cd s of
           Inr _ \<Rightarrow> crash_cut cd (keep + length l + 1) ls rest
         | Inl TruncatedTail \<Rightarrow> Some keep
         | Inl _ \<Rightarrow> None))"

definition discard_crash_tail :: "text_codec \<Rightarrow> byte list \<Rightarrow> byte list" where
  "discard_crash_tail cd bytes =
     (case split_newlines bytes of (ls, rest) \<Rightarrow>
        (case crash_cut cd 0 ls rest of Some n \<Rightarrow> take n bytes | None \<Rightarrow> bytes))"

section \<open>Appending\<close>

record path_state =
  ps_write :: write_state
  ps_next_line :: nat

definition hydrate_write_state :: "text_codec \<Rightarrow> byte list \<Rightarrow> open_error + path_state \<times> byte list" where
  "hydrate_write_state cd bytes =
     (case visit_open_rollout_lines cd 0 (file_lines bytes) of
        Inl e \<Rightarrow> Inl e
      | Inr (ls, tail) \<Rightarrow>
          Inr (\<lparr>ps_write = foldl observe_rollout_line new_write_state ls, ps_next_line = length ls\<rparr>,
               if tail then discard_crash_tail cd bytes else bytes))"

definition line_bytes :: "text_codec \<Rightarrow> rollout_line list \<Rightarrow> byte list" where
  "line_bytes cd ls = concat (map (\<lambda>l. cd_print cd l @ [newline]) ls)"

text \<open>The write state of the process, if it has read the file, and the bytes of the file.\<close>

record rollout_file =
  rf_state :: "path_state option"
  rf_bytes :: "byte list"

definition opened :: "text_codec \<Rightarrow> rollout_file \<Rightarrow> open_error + path_state \<times> byte list" where
  "opened cd f = (case rf_state f of Some st \<Rightarrow> Inr (st, rf_bytes f) | None \<Rightarrow> hydrate_write_state cd (rf_bytes f))"

text \<open>
  \<open>build\<close> makes the lines under the lock and may advance the write state. The write reaches the
  disk up to \<open>stop\<close> bytes when it fails, and completely otherwise.
\<close>

definition append_rollout_lines_with ::
  "text_codec \<Rightarrow> (path_state \<Rightarrow> rollout_line list \<times> path_state) \<Rightarrow> nat option \<Rightarrow> rollout_file \<Rightarrow>
   (open_error + rollout_line list option) \<times> rollout_file" where
  "append_rollout_lines_with cd build stop f =
     (case opened cd f of
        Inl e \<Rightarrow> (Inl e, f)
      | Inr (st, bytes) \<Rightarrow>
          (case build st of (ls, st1) \<Rightarrow>
             (let st2 = st1\<lparr>ps_write := foldl observe_rollout_line (ps_write st1) ls\<rparr> in
              case stop of
                Some n \<Rightarrow> (Inr None, \<lparr>rf_state = Some st2, rf_bytes = bytes @ take n (line_bytes cd ls)\<rparr>)
              | None \<Rightarrow>
                  (Inr (Some ls),
                   \<lparr>rf_state = Some (st2\<lparr>ps_next_line := ps_next_line st2 + length ls\<rparr>),
                    rf_bytes = bytes @ line_bytes cd ls\<rparr>))))"

definition append_rollout_lines ::
  "text_codec \<Rightarrow> rollout_line list \<Rightarrow> nat option \<Rightarrow> rollout_file \<Rightarrow>
   (open_error + rollout_line list option) \<times> rollout_file" where
  "append_rollout_lines cd ls stop f = append_rollout_lines_with cd (\<lambda>st. (ls, st)) stop f"

text \<open>A patch of settings: every field gets an epoch of its own.\<close>

fun settings_batch ::
  "timestamp \<Rightarrow> string \<Rightarrow> (settings_field \<times> json) list \<Rightarrow> write_state \<Rightarrow> rollout_line list \<times> write_state" where
  "settings_batch now session [] w = ([], w)"
| "settings_batch now session ((field, v) # rest) w =
     (case allocate_settings_epoch w of (epoch, w1) \<Rightarrow>
        (case settings_batch now session rest w1 of (ls, w2) \<Rightarrow>
           (settings_line now session field v epoch # ls, w2)))"

definition append_session_settings_batch ::
  "text_codec \<Rightarrow> timestamp \<Rightarrow> string \<Rightarrow> (settings_field \<times> json) list \<Rightarrow> nat option \<Rightarrow> rollout_file \<Rightarrow>
   (open_error + rollout_line list option) \<times> rollout_file" where
  "append_session_settings_batch cd now session settings stop f =
     append_rollout_lines_with cd
       (\<lambda>st. case settings_batch now session settings (ps_write st) of (ls, w) \<Rightarrow> (ls, st\<lparr>ps_write := w\<rparr>)) stop f"

text \<open>The four lines of a compaction.\<close>

definition compaction_lines ::
  "timestamp \<Rightarrow> item_envelope \<Rightarrow> item_id list \<Rightarrow> context_occupancy option \<Rightarrow> item_id option \<Rightarrow> nat \<Rightarrow>
   rollout_line list" where
  "compaction_lines now item preserved occupancy parent epoch =
     [tree_edge_line now (en_session item) (en_id item) parent,
      LineItem ROLLOUT_FORMAT_VERSION now item,
      compaction_snapshot_line now (en_session item) (en_turn item) (en_id item) preserved occupancy,
      session_leaf_line now (en_session item) (Some (en_id item)) epoch]"



section \<open>What a crash leaves is read back\<close>

text \<open>
  A write that a crash interrupts after \<open>n\<close> bytes: the lines whose newline was written, and the
  part of the next one.
\<close>

fun complete_lines :: "text_codec \<Rightarrow> nat \<Rightarrow> rollout_line list \<Rightarrow> rollout_line list" where
  "complete_lines cd n [] = []"
| "complete_lines cd n (l # ls) =
     (if length (cd_print cd l) < n then l # complete_lines cd (n - length (cd_print cd l) - 1) ls else [])"

fun torn_line :: "text_codec \<Rightarrow> nat \<Rightarrow> rollout_line list \<Rightarrow> byte list" where
  "torn_line cd n [] = []"
| "torn_line cd n (l # ls) =
     (if length (cd_print cd l) < n then torn_line cd (n - length (cd_print cd l) - 1) ls
      else take n (cd_print cd l))"

text \<open>A printed line is one line of text that parses back.\<close>

definition reads_as :: "text_codec \<Rightarrow> byte list \<Rightarrow> line_error + rollout_line \<Rightarrow> bool" where
  "reads_as cd b r \<longleftrightarrow> newline \<notin> set b \<and> b \<noteq> [] \<and>
     (\<exists>s. cd_decode cd b = Some s \<and> cd_lossy cd b = s \<and> trim s \<noteq> [] \<and> trim_end_carriage s = s \<and> cd_parse cd s = r)"

definition wf_line :: "text_codec \<Rightarrow> rollout_line \<Rightarrow> bool" where
  "wf_line cd l \<longleftrightarrow> reads_as cd (cd_print cd l) (Inr l) \<and> last (cd_print cd l) \<noteq> carriage"

text \<open>The crash did not stop between a line and its newline, nor inside a character.\<close>

definition clean_cut :: "text_codec \<Rightarrow> byte list \<Rightarrow> bool" where
  "clean_cut cd t \<longleftrightarrow> t = [] \<or> reads_as cd t (Inl TruncatedTail)"

lemma line_bytes_simps [simp]:
  "line_bytes cd [] = []" "line_bytes cd (l # ls) = cd_print cd l @ newline # line_bytes cd ls"
  "line_bytes cd (ls @ ks) = line_bytes cd ls @ line_bytes cd ks"
  by (simp_all add: line_bytes_def)

lemma take_line_bytes: "take n (line_bytes cd ls) = line_bytes cd (complete_lines cd n ls) @ torn_line cd n ls"
proof (induction ls arbitrary: n)
  case (Cons l ls)
  show ?case
  proof (cases "length (cd_print cd l) < n")
    case True
    then obtain k where "n = length (cd_print cd l) + Suc k" using less_imp_Suc_add by auto
    then show ?thesis using Cons.IH [of k] by simp
  qed simp
qed simp

lemma split_rest: "newline \<notin> set t \<Longrightarrow> split_newlines t = ([], t)"
  by (induction t) auto

lemma split_line: "newline \<notin> set b \<Longrightarrow>
    split_newlines (b @ newline # bs) = (b # fst (split_newlines bs), snd (split_newlines bs))"
  by (induction b) (auto split: prod.split)

lemma split_lines:
  assumes "\<forall>l\<in>set ls. wf_line cd l" "newline \<notin> set t"
  shows "split_newlines (line_bytes cd ls @ t) = (map (cd_print cd) ls, t)"
  using assms(1) by (induction ls) (simp_all add: split_rest assms(2) split_line wf_line_def reads_as_def)

lemma visit_clean:
  assumes "\<forall>l\<in>set ls. wf_line cd l" "clean_cut cd t"
  shows "visit_open_rollout_lines cd i (map (cd_print cd) ls @ (if t = [] then [] else [t])) = Inr (ls, t \<noteq> [])"
  using assms(1)
proof (induction ls arbitrary: i)
  case Nil
  then show ?case using assms(2) by (auto simp: clean_cut_def reads_as_def)
next
  case (Cons l ls)
  then show ?case by (auto simp: wf_line_def reads_as_def)
qed

lemma cut_clean:
  assumes "\<forall>l\<in>set ls. wf_line cd l" "clean_cut cd t" "t \<noteq> []"
  shows "crash_cut cd keep (map (cd_print cd) ls) t = Some (keep + length (line_bytes cd ls))"
  using assms(1)
proof (induction ls arbitrary: keep)
  case Nil
  then show ?case using assms(2,3) by (auto simp: clean_cut_def reads_as_def Let_def)
next
  case (Cons l ls)
  then show ?case using Cons.IH [of "keep + length (cd_print cd l) + 1"]
    by (auto simp: wf_line_def reads_as_def Let_def)
qed

definition state_after :: "rollout_line list \<Rightarrow> path_state" where
  "state_after ls = \<lparr>ps_write = foldl observe_rollout_line new_write_state ls, ps_next_line = length ls\<rparr>"

lemma hydrate_clean:
  assumes wf: "\<forall>l\<in>set ls. wf_line cd l" and t: "clean_cut cd t"
  shows "hydrate_write_state cd (line_bytes cd ls @ t) = Inr (state_after ls, line_bytes cd ls)"
proof -
  have nl: "newline \<notin> set t" using t by (auto simp: clean_cut_def reads_as_def)
  have strip: "strip_carriage (cd_print cd l) = cd_print cd l" if "l \<in> set ls" for l
    using wf that by (auto simp: strip_carriage_def wf_line_def)
  then have "file_lines (line_bytes cd ls @ t) = map (cd_print cd) ls @ (if t = [] then [] else [t])"
    by (simp add: file_lines_def split_lines [OF wf nl])
  then show ?thesis
    using visit_clean [OF wf t] cut_clean [OF wf t, of 0]
    by (auto simp: hydrate_write_state_def state_after_def discard_crash_tail_def split_lines [OF wf nl])
qed

text \<open>The steps of a server: appends, a crash inside an append, and a restart.\<close>

datatype file_step = AppendStep "rollout_line list" | CrashStep "rollout_line list" nat | RestartStep

fun run_file :: "text_codec \<Rightarrow> rollout_file \<times> bool \<Rightarrow> file_step \<Rightarrow> rollout_file \<times> bool" where
  "run_file cd (f, ok) (AppendStep ls) =
     (case append_rollout_lines cd ls None f of (r, f') \<Rightarrow> (f', ok \<and> r = Inr (Some ls)))"
| "run_file cd (f, ok) (CrashStep ls n) =
     (case append_rollout_lines cd ls (Some n) f of (r, f') \<Rightarrow> (f'\<lparr>rf_state := None\<rparr>, ok \<and> r = Inr None))"
| "run_file cd (f, ok) RestartStep = (f\<lparr>rf_state := None\<rparr>, ok)"

fun durable_lines :: "text_codec \<Rightarrow> file_step \<Rightarrow> rollout_line list" where
  "durable_lines cd (AppendStep ls) = ls"
| "durable_lines cd (CrashStep ls n) = complete_lines cd n ls"
| "durable_lines cd RestartStep = []"

fun clean_step :: "text_codec \<Rightarrow> file_step \<Rightarrow> bool" where
  "clean_step cd (AppendStep ls) = list_all (wf_line cd) ls"
| "clean_step cd (CrashStep ls n) = (list_all (wf_line cd) ls \<and> clean_cut cd (torn_line cd n ls))"
| "clean_step cd RestartStep = True"

definition file_ok :: "text_codec \<Rightarrow> rollout_line list \<Rightarrow> rollout_file \<Rightarrow> bool" where
  "file_ok cd ls f \<longleftrightarrow> (\<forall>l\<in>set ls. wf_line cd l) \<and>
     (\<exists>t. rf_bytes f = line_bytes cd ls @ t \<and> clean_cut cd t \<and> (rf_state f \<noteq> None \<longrightarrow> t = [])) \<and>
     (rf_state f = None \<or> rf_state f = Some (state_after ls))"

lemma opened_ok: "file_ok cd ls f \<Longrightarrow> opened cd f = Inr (state_after ls, line_bytes cd ls)"
  using hydrate_clean [of ls cd] hydrate_clean [of ls cd "[]"]
  by (auto simp: file_ok_def opened_def split: option.splits)

lemma state_after_append:
  "state_after (ls @ ks) = \<lparr>ps_write = foldl observe_rollout_line (ps_write (state_after ls)) ks,
     ps_next_line = ps_next_line (state_after ls) + length ks\<rparr>"
  by (simp add: state_after_def)

lemma complete_lines_wf: "list_all (wf_line cd) ls \<Longrightarrow> \<forall>l\<in>set (complete_lines cd n ls). wf_line cd l"
  by (induction ls arbitrary: n) auto

lemma run_file_ok:
  assumes "file_ok cd ls f" "clean_step cd x"
  shows "\<exists>f'. run_file cd (f, ok) x = (f', ok) \<and> file_ok cd (ls @ durable_lines cd x) f'"
proof (cases x)
  case (AppendStep ks)
  have "clean_cut cd []" by (simp add: clean_cut_def)
  then show ?thesis using assms opened_ok [OF assms(1)]
    by (auto simp: AppendStep append_rollout_lines_def append_rollout_lines_with_def Let_def file_ok_def
        state_after_append list_all_iff)
next
  case (CrashStep ks n)
  then show ?thesis using assms opened_ok [OF assms(1)] complete_lines_wf [of cd ks n]
    by (auto simp: append_rollout_lines_def append_rollout_lines_with_def Let_def file_ok_def take_line_bytes)
next
  case RestartStep
  then show ?thesis using assms by (auto simp: file_ok_def)
qed



text \<open>Lines printed as an empty object.\<close>

definition sample_title :: rollout_line where
  "sample_title = title_line 0 ''s'' ''t'' None"

definition brace_text :: "byte list \<Rightarrow> string" where
  "brace_text bs = map (\<lambda>b. if b = 123 then CHR ''{'' else CHR ''}'') bs"

definition sample_codec :: text_codec where
  "sample_codec =
     \<lparr>cd_decode = (\<lambda>bs. Some (brace_text bs)), cd_lossy = brace_text,
      cd_parse = (\<lambda>s. if s = ''{}'' then Inr sample_title else if s = ''{'' then Inl TruncatedTail
                      else Inl (Damaged ''trailing characters'')),
      cd_print = (\<lambda>l. [123, 125])\<rparr>"

lemma sample_codec_facts:
  "wf_line sample_codec sample_title" "clean_cut sample_codec [123]"
  by (simp_all add: wf_line_def clean_cut_def reads_as_def sample_codec_def brace_text_def newline_def
      carriage_def trim_def trim_start_def trim_end_def trim_end_carriage_def is_ws_def)


section \<open>Where a crash does lose the file\<close>

text \<open>
  A crash between a line and its newline leaves a complete line: it is read, it is not a crash tail,
  and the next append continues on the same line. The append succeeds, and the file can not be
  opened again.
\<close>

lemma unterminated_line_spoils_next_append:
  assumes l: "wf_line cd l" and m: "newline \<notin> set (cd_print cd m)" "last (cd_print cd m) \<noteq> carriage" "cd_print cd m \<noteq> []"
    and joined: "cd_decode cd (cd_print cd l @ cd_print cd m) = Some s" "trim s \<noteq> []" "cd_parse cd s = Inl (Damaged e)"
    and run: "foldl (run_file cd) (\<lparr>rf_state = None, rf_bytes = []\<rparr>, True)
      [CrashStep [l] (length (cd_print cd l)), AppendStep [m]] = (f, ok)"
  shows "ok \<and> hydrate_write_state cd (rf_bytes f) = Inl (DamagedAt 1 (Damaged e))"
proof -
  have empty: "hydrate_write_state cd [] = Inr (state_after [], [])"
    using hydrate_clean [of "[]" cd "[]"] by (simp add: clean_cut_def)
  have whole: "hydrate_write_state cd (cd_print cd l) = Inr (state_after [l], cd_print cd l)"
    using l by (auto simp: hydrate_write_state_def file_lines_def split_rest wf_line_def reads_as_def state_after_def)
  have "ok" "rf_bytes f = (cd_print cd l @ cd_print cd m) @ newline # []"
    using run by (auto simp: append_rollout_lines_def append_rollout_lines_with_def opened_def Let_def empty whole)
  moreover have "file_lines ((cd_print cd l @ cd_print cd m) @ newline # []) = [cd_print cd l @ cd_print cd m]"
    using l m by (subst file_lines_def, subst split_line) (auto simp: wf_line_def reads_as_def strip_carriage_def)
  ultimately show ?thesis using joined by (simp add: hydrate_write_state_def)
qed

text \<open>A crash inside a character leaves bytes that are no text, and the file can not be opened again.\<close>

lemma torn_character_spoils_file:
  assumes "\<forall>l\<in>set ls. wf_line cd l" "cd_decode cd t = None" "newline \<notin> set t" "t \<noteq> []"
  shows "hydrate_write_state cd (line_bytes cd ls @ t) = Inl (ReadFailed (length ls))"
proof -
  have strip: "map strip_carriage (map (cd_print cd) ls) = map (cd_print cd) ls"
    using assms(1) by (auto simp: strip_carriage_def wf_line_def)
  have "visit_open_rollout_lines cd i (map (cd_print cd) ls @ [t]) = Inl (ReadFailed (i + length ls))" for i
    using assms(1,2) by (induction ls arbitrary: i) (auto simp: wf_line_def reads_as_def)
  then show ?thesis using strip assms(4)
    by (simp add: hydrate_write_state_def file_lines_def split_lines [OF assms(1,3)] del: map_map)
qed

text \<open>A crash inside the write of a compaction keeps the item without its snapshot.\<close>

lemma compaction_can_be_cut_apart:
  assumes "compaction_lines now item preserved occupancy parent epoch = [edge, line, snapshot, leaf]"
    and "n = length (line_bytes cd [edge, line])"
  shows "durable_lines cd (CrashStep (compaction_lines now item preserved occupancy parent epoch) n) = [edge, line]"
  using assms by simp

end
