(* ===== verification/Canonical_History.thy ===== *)
theory Canonical_History
  imports Rollout
begin

text \<open>
  The effective history of a session, read from its rollout file
  (\<open>core/src/conversation/history.rs\<close>): the fold of the lines, the reader of the whole history,
  and the two readers that skip the lines which cannot matter to them.

  A file is the list of its lines, each one read or an I/O error; opening it and bounding the read
  to the length seen then are outside the model.
\<close>

section \<open>The history and its fold\<close>

record canonical_history =
  ch_session :: "native_session option"
  ch_turns :: "native_turn list"
  ch_items :: "item_envelope list"
  ch_checkpoints :: "string \<rightharpoonup> json"
  ch_latest_occupancy :: "context_occupancy option"
  ch_tree_edges :: "(item_id \<times> item_id option) list"
  ch_leaf_id :: "item_id option"
  ch_leaf_epoch :: nat

definition default_history :: canonical_history where
  "default_history =
     \<lparr>ch_session = None, ch_turns = [], ch_items = [], ch_checkpoints = Map.empty,
      ch_latest_occupancy = None, ch_tree_edges = [], ch_leaf_id = None, ch_leaf_epoch = 0\<rparr>"

text \<open>\<open>serde_json::from_value\<close> at the types the settings use.\<close>

fun value_bool :: "json \<Rightarrow> bool option" where
  "value_bool (JBool b) = Some b"
| "value_bool _ = None"

definition value_u32 :: "json \<Rightarrow> nat option" where
  "value_u32 v = (case json_u64 v of Some n \<Rightarrow> (if n \<le> u32_max then Some n else None) | None \<Rightarrow> None)"

fun value_option_string :: "json \<Rightarrow> string option option" where
  "value_option_string JNull = Some None"
| "value_option_string (JStr s) = Some (Some s)"
| "value_option_string _ = None"

fun value_preset :: "json \<Rightarrow> permission_profile option" where
  "value_preset (JStr s) =
     (if s = ''default'' \<or> s = ''read-only'' then Some ProfileDefault
      else if s = ''auto-review'' then Some ProfileAutoReview
      else if s = ''full-access'' then Some ProfileFullAccess else None)"
| "value_preset _ = None"

definition normalize_reasoning_effort_literal :: "string \<Rightarrow> string" where
  "normalize_reasoning_effort_literal raw =
     (let s = to_ascii_lowercase (trim raw)
      in if s = ''disabled'' then ''off'' else if s = ''enabled'' then ''on'' else s)"

definition map_settings :: "(session_settings \<Rightarrow> session_settings) \<Rightarrow> native_session \<Rightarrow> native_session" where
  "map_settings f s = s\<lparr>ns_settings := f (ns_settings s)\<rparr>"

fun apply_settings :: "settings_field \<Rightarrow> json \<Rightarrow> native_session \<Rightarrow> native_session" where
  "apply_settings FieldPermissionPreset v s =
     (case value_preset v of
        Some p \<Rightarrow> map_settings (\<lambda>x. x\<lparr>st_permission_profile := p\<rparr>) s | None \<Rightarrow> s)"
| "apply_settings FieldSandboxProfile v s =
     (case json_str v of
        Some name \<Rightarrow> map_settings (\<lambda>x. x\<lparr>st_sandbox_profile := Some name\<rparr>) s | None \<Rightarrow> s)"
| "apply_settings FieldReasoningEffortSelection v s =
     (case value_option_string v of
        Some (Some raw) \<Rightarrow>
          (let normalized = normalize_reasoning_effort_literal raw
           in if normalized \<noteq> [] then map_settings (\<lambda>x. x\<lparr>st_reasoning_effort := Some normalized\<rparr>) s else s)
      | _ \<Rightarrow> s)"
| "apply_settings FieldCollaborationMode v s =
     (case json_str v of
        Some raw \<Rightarrow> map_settings (\<lambda>x. x\<lparr>st_mode := Some raw\<rparr>) s | None \<Rightarrow> s)"
| "apply_settings FieldModel v s =
     (case value_option_string v of
        Some (Some slug) \<Rightarrow> s\<lparr>ns_model := (ns_model s)\<lparr>mb_model := slug\<rparr>\<rparr> | _ \<Rightarrow> s)"
| "apply_settings FieldModelBindingId v s = s"
| "apply_settings FieldAutoRefineEnabled v s =
     (case value_bool v of
        Some b \<Rightarrow> map_settings (\<lambda>x. x\<lparr>st_auto_refine_enabled := Some b\<rparr>) s | None \<Rightarrow> s)"
| "apply_settings FieldAutoRefineTurnInterval v s =
     (case value_u32 v of
        Some n \<Rightarrow> map_settings (\<lambda>x. x\<lparr>st_auto_refine_turn_interval := Some (max n 1)\<rparr>) s | None \<Rightarrow> s)"
| "apply_settings FieldPythonCellFirstWaitMs v s =
     (case json_u64 v of
        Some ms \<Rightarrow> map_settings (\<lambda>x. x\<lparr>st_python_cell_first_wait_ms := Some ms\<rparr>) s | None \<Rightarrow> s)"

text \<open>A turn is written at its start and at its end: the record of the same turn is replaced.\<close>

fun upsert_turn :: "native_turn \<Rightarrow> native_turn list \<Rightarrow> native_turn list" where
  "upsert_turn t [] = [t]"
| "upsert_turn t (u # us) = (if nt_id u = nt_id t then t # us else u # upsert_turn t us)"

definition fold_session ::
  "(native_session \<Rightarrow> native_session) \<Rightarrow> canonical_history \<Rightarrow> canonical_history" where
  "fold_session f h = h\<lparr>ch_session := map_option f (ch_session h)\<rparr>"

definition note_occupancy :: "context_occupancy option \<Rightarrow> canonical_history \<Rightarrow> canonical_history" where
  "note_occupancy occ h =
     (case occ of Some x \<Rightarrow> h\<lparr>ch_latest_occupancy := Some x\<rparr> | None \<Rightarrow> h)"

fun apply_internal :: "internal_record \<Rightarrow> canonical_history \<Rightarrow> canonical_history" where
  "apply_internal (TurnApprovalCheckpoint i c) h = h\<lparr>ch_checkpoints := (ch_checkpoints h)(i \<mapsto> c)\<rparr>"
| "apply_internal (SessionSettingsRecord _ field v epoch) h =
     fold_session (\<lambda>s. let s' = apply_settings field v s
                       in s'\<lparr>ns_version := max (ns_version s') (epoch + 1)\<rparr>) h"
| "apply_internal (SessionLeaf epoch leaf) h =
     (if epoch \<ge> ch_leaf_epoch h then h\<lparr>ch_leaf_epoch := epoch, ch_leaf_id := leaf\<rparr> else h)"
| "apply_internal (TreeEdge child parent) h =
     h\<lparr>ch_tree_edges := al_insert child parent (ch_tree_edges h)\<rparr>"
| "apply_internal _ h = h"

fun apply_rollout_line :: "canonical_history \<Rightarrow> rollout_line \<Rightarrow> canonical_history" where
  "apply_rollout_line h (LineSessionMeta _ _ s _) = h\<lparr>ch_session := Some s\<rparr>"
| "apply_rollout_line h (LineTurn _ _ turn extras) =
     note_occupancy (Option.bind extras te_context_occupancy) (h\<lparr>ch_turns := upsert_turn turn (ch_turns h)\<rparr>)"
| "apply_rollout_line h (LineItem _ _ item) = h\<lparr>ch_items := ch_items h @ [item]\<rparr>"
| "apply_rollout_line h (LineInternal _ _ _ _ _ entry) = apply_internal entry h"
| "apply_rollout_line h (LineSessionTitleUpdated _ _ _ title _) = fold_session (\<lambda>s. s\<lparr>ns_title := Some title\<rparr>) h"
| "apply_rollout_line h (LineSessionRollback _ _ _ retained _ _) =
     h\<lparr>ch_turns := filter (\<lambda>t. nt_id t \<in> set retained) (ch_turns h),
       ch_items := filter (\<lambda>e. en_turn e \<in> set retained) (ch_items h)\<rparr>"
| "apply_rollout_line h (LineCompactionSnapshot _ _ _ _ _ _ occ) = note_occupancy occ h"
| "apply_rollout_line h _ = h"

section \<open>The readers\<close>

datatype history_error = HistIo string | DamagedLine nat line_error

text \<open>
  The loop over the lines of the file, peeking at the next one: an I/O error of the next line is
  returned before the present line is visited.
\<close>

fun visit_lines ::
  "(nat \<Rightarrow> string \<Rightarrow> bool \<Rightarrow> 's \<Rightarrow> history_error + 's) \<Rightarrow> nat \<Rightarrow> (string + string) list \<Rightarrow> 's \<Rightarrow>
   history_error + 's" where
  "visit_lines visit i [] s = Inr s"
| "visit_lines visit i (Inl e # ls) s = Inl (HistIo e)"
| "visit_lines visit i (Inr raw # ls) s =
     (case ls of
        Inl e # _ \<Rightarrow> Inl (HistIo e)
      | _ \<Rightarrow> (case visit i raw (ls = []) s of
                Inl err \<Rightarrow> Inl err
              | Inr s' \<Rightarrow> visit_lines visit (i + 1) ls s'))"

definition visit_parsed ::
  "(string \<Rightarrow> line_error + rollout_line) \<Rightarrow> nat \<Rightarrow> string \<Rightarrow> bool \<Rightarrow> canonical_history \<Rightarrow>
   history_error + canonical_history" where
  "visit_parsed parse i raw is_last h =
     (case parse raw of
        Inr line \<Rightarrow> Inr (apply_rollout_line h line)
      | Inl e \<Rightarrow> if e = TruncatedTail \<and> is_last then Inr h else Inl (DamagedLine i e))"

definition read_canonical_history ::
  "(string \<Rightarrow> line_error + rollout_line) \<Rightarrow> (string + string) list \<Rightarrow> history_error + canonical_history" where
  "read_canonical_history parse ls =
     visit_lines (\<lambda>i raw is_last h.
       if trim raw = [] then Inr h else visit_parsed parse i raw is_last h) 0 ls default_history"

text \<open>The shared shape of the two fast readers: lines without one of the tags are not parsed.\<close>

definition read_filtered ::
  "string list \<Rightarrow> (string \<Rightarrow> line_error + rollout_line) \<Rightarrow> (string + string) list \<Rightarrow>
   history_error + canonical_history" where
  "read_filtered tags parse ls =
     visit_lines (\<lambda>i raw is_last h.
       if \<not> list_ex (contains_str raw) tags then Inr h else visit_parsed parse i raw is_last h)
       0 ls default_history"

definition meta_tags :: "string list" where
  "meta_tags = [json_tag ''sessionMeta'', json_tag ''sessionSettings'', json_tag ''sessionTitleUpdated'']"

definition leaf_tags :: "string list" where
  "leaf_tags = [json_tag ''sessionLeaf'']"

definition read_rollout_session_meta ::
  "(string \<Rightarrow> line_error + rollout_line) \<Rightarrow> (string + string) list \<Rightarrow> history_error + native_session option" where
  "read_rollout_session_meta parse ls = map_sum id ch_session (read_filtered meta_tags parse ls)"

definition read_rollout_session_leaf ::
  "(string \<Rightarrow> line_error + rollout_line) \<Rightarrow> (string + string) list \<Rightarrow>
   history_error + (item_id option \<times> nat)" where
  "read_rollout_session_leaf parse ls =
     map_sum id (\<lambda>h. (ch_leaf_id h, ch_leaf_epoch h)) (read_filtered leaf_tags parse ls)"

section \<open>Skipping lines\<close>

text \<open>
  A part of the history that some lines leave alone and that the others change in a way depending
  on that part only can be read without the former.
\<close>

locale line_projection =
  fixes view :: "canonical_history \<Rightarrow> 'v"
    and relevant :: "rollout_line \<Rightarrow> bool"
  assumes untouched: "\<not> relevant l \<Longrightarrow> view (apply_rollout_line h l) = view h"
    and local_update: "view g = view h \<Longrightarrow> view (apply_rollout_line g l) = view (apply_rollout_line h l)"
begin

lemma filtered_view:
  assumes tagged: "\<And>raw l. \<lbrakk>parse raw = Inr l; relevant l\<rbrakk> \<Longrightarrow> list_ex (contains_str raw) tags"
    and blank: "\<And>raw. trim raw = [] \<Longrightarrow> \<not> list_ex (contains_str raw) tags"
    and full: "visit_lines (\<lambda>i raw is_last h.
       if trim raw = [] then Inr h else visit_parsed parse i raw is_last h) i ls h = Inr h'"
    and start: "view g = view h"
  shows "\<exists>g'. visit_lines (\<lambda>i raw is_last h.
       if \<not> list_ex (contains_str raw) tags then Inr h else visit_parsed parse i raw is_last h) i ls g
      = Inr g' \<and> view g' = view h'"
  using full start
proof (induction ls arbitrary: i g h)
  case (Cons x ls)
  then obtain raw where x: "x = Inr raw" by (cases x) auto
  have next_ok: "\<nexists>e rest. ls = Inl e # rest" using Cons.prems(1) by (auto simp: x)
  let ?full = "\<lambda>i raw is_last h. if trim raw = [] then Inr h else visit_parsed parse i raw is_last h"
  let ?fast = "\<lambda>i raw is_last h. if \<not> list_ex (contains_str raw) tags then Inr h
      else visit_parsed parse i raw is_last h"
  have unroll: "visit_lines f i (x # ls) s = (case f i raw (ls = []) s of Inl err \<Rightarrow> Inl err
      | Inr s' \<Rightarrow> visit_lines f (i + 1) ls s')" for f and s :: canonical_history
    using next_ok by (cases ls) (auto simp: x split: sum.split)
  obtain h1 where h1: "?full i raw (ls = []) h = Inr h1" "visit_lines ?full (i + 1) ls h1 = Inr h'"
    using Cons.prems(1) unfolding unroll by (auto split: sum.splits)
  have "\<exists>g1. ?fast i raw (ls = []) g = Inr g1 \<and> view g1 = view h1"
  proof (cases "trim raw = []")
    case True
    then show ?thesis using h1(1) blank Cons.prems(2) by simp
  next
    case False
    then have parsed: "visit_parsed parse i raw (ls = []) h = Inr h1" using h1(1) by simp
    show ?thesis
    proof (cases "parse raw")
      case (Inl e)
      then have "h1 = h" "e = TruncatedTail" "ls = []"
        using parsed by (auto simp: visit_parsed_def split: if_splits)
      then show ?thesis using Inl Cons.prems(2) by (auto simp: visit_parsed_def)
    next
      case (Inr l)
      then have "h1 = apply_rollout_line h l" using parsed by (simp add: visit_parsed_def)
      then show ?thesis
        using Inr Cons.prems(2) untouched local_update [of g h l] tagged [OF Inr]
        by (cases "relevant l") (auto simp: visit_parsed_def)
    qed
  qed
  then obtain g1 where g1: "?fast i raw (ls = []) g = Inr g1" "view g1 = view h1" by blast
  from Cons.IH [OF h1(2) g1(2)] show ?case unfolding unroll by (simp only: g1(1) sum.case)
qed simp

end


section \<open>The two fast readers\<close>

fun header_line :: "rollout_line \<Rightarrow> bool" where
  "header_line (LineSessionMeta _ _ _ _) = True"
| "header_line (LineSessionTitleUpdated _ _ _ _ _) = True"
| "header_line (LineInternal _ _ _ _ _ (SessionSettingsRecord _ _ _ _)) = True"
| "header_line _ = False"

fun leaf_line :: "rollout_line \<Rightarrow> bool" where
  "leaf_line (LineInternal _ _ _ _ _ (SessionLeaf _ _)) = True"
| "leaf_line _ = False"

lemma note_occupancy_simps [simp]:
  "ch_session (note_occupancy occ h) = ch_session h" "ch_turns (note_occupancy occ h) = ch_turns h"
  "ch_items (note_occupancy occ h) = ch_items h" "ch_leaf_id (note_occupancy occ h) = ch_leaf_id h"
  "ch_leaf_epoch (note_occupancy occ h) = ch_leaf_epoch h"
  "ch_tree_edges (note_occupancy occ h) = ch_tree_edges h"
  by (simp_all add: note_occupancy_def split: option.split)

lemma fold_session_simps [simp]:
  "ch_session (fold_session f h) = map_option f (ch_session h)" "ch_turns (fold_session f h) = ch_turns h"
  "ch_items (fold_session f h) = ch_items h" "ch_leaf_id (fold_session f h) = ch_leaf_id h"
  "ch_leaf_epoch (fold_session f h) = ch_leaf_epoch h" "ch_tree_edges (fold_session f h) = ch_tree_edges h"
  by (simp_all add: fold_session_def)

lemma apply_internal_keeps [simp]:
  "ch_turns (apply_internal r h) = ch_turns h" "ch_items (apply_internal r h) = ch_items h"
  by (cases r; simp)+

interpretation header: line_projection ch_session header_line
proof
  fix l g h
  show "\<not> header_line l \<Longrightarrow> ch_session (apply_rollout_line h l) = ch_session h"
  proof (cases l)
    case (LineInternal a b c d e r)
    then show "\<not> header_line l \<Longrightarrow> ch_session (apply_rollout_line h l) = ch_session h" by (cases r) simp_all
  qed simp_all
  show "ch_session g = ch_session h \<Longrightarrow>
      ch_session (apply_rollout_line g l) = ch_session (apply_rollout_line h l)"
  proof (cases l)
    case (LineInternal a b c d e r)
    then show "ch_session g = ch_session h \<Longrightarrow>
      ch_session (apply_rollout_line g l) = ch_session (apply_rollout_line h l)" by (cases r) simp_all
  qed simp_all
qed

interpretation leaf: line_projection "\<lambda>h. (ch_leaf_id h, ch_leaf_epoch h)" leaf_line
proof
  fix l g h
  show "\<not> leaf_line l \<Longrightarrow> (ch_leaf_id (apply_rollout_line h l), ch_leaf_epoch (apply_rollout_line h l)) =
      (ch_leaf_id h, ch_leaf_epoch h)"
  proof (cases l)
    case (LineInternal a b c d e r)
    then show "\<not> leaf_line l \<Longrightarrow> (ch_leaf_id (apply_rollout_line h l), ch_leaf_epoch (apply_rollout_line h l)) =
      (ch_leaf_id h, ch_leaf_epoch h)" by (cases r) simp_all
  qed simp_all
  show "(ch_leaf_id g, ch_leaf_epoch g) = (ch_leaf_id h, ch_leaf_epoch h) \<Longrightarrow>
      (ch_leaf_id (apply_rollout_line g l), ch_leaf_epoch (apply_rollout_line g l)) =
      (ch_leaf_id (apply_rollout_line h l), ch_leaf_epoch (apply_rollout_line h l))"
  proof (cases l)
    case (LineInternal a b c d e r)
    then show "(ch_leaf_id g, ch_leaf_epoch g) = (ch_leaf_id h, ch_leaf_epoch h) \<Longrightarrow>
      (ch_leaf_id (apply_rollout_line g l), ch_leaf_epoch (apply_rollout_line g l)) =
      (ch_leaf_id (apply_rollout_line h l), ch_leaf_epoch (apply_rollout_line h l))" by (cases r) simp_all
  qed simp_all
qed

lemma blank_has_no_tag:
  assumes "trim raw = []" "\<forall>t\<in>set tags. CHR 0x22 \<in> set t"
  shows "\<not> list_ex (contains_str raw) tags"
proof
  assume "list_ex (contains_str raw) tags"
  then obtain t where t: "t \<in> set tags" "sublist t raw" by (auto simp: list_ex_iff contains_str_iff)
  then have "CHR 0x22 \<in> set raw" using assms(2) set_mono_sublist by blast
  from trim_blank [OF assms(1) this] show False by (simp add: is_ws_def)
qed

text \<open>
  The two readers that skip lines by a substring test agree with the reader of the whole
  history, when a line of each kind they look for carries its tag.
\<close>

theorem fast_readers_agree:
  assumes full: "read_canonical_history parse ls = Inr h"
    and meta: "\<And>raw l. \<lbrakk>parse raw = Inr l; header_line l\<rbrakk> \<Longrightarrow> list_ex (contains_str raw) meta_tags"
    and leaf: "\<And>raw l. \<lbrakk>parse raw = Inr l; leaf_line l\<rbrakk> \<Longrightarrow> list_ex (contains_str raw) leaf_tags"
  shows "read_rollout_session_meta parse ls = Inr (ch_session h) \<and>
    read_rollout_session_leaf parse ls = Inr (ch_leaf_id h, ch_leaf_epoch h)"
proof -
  have tags: "\<forall>t\<in>set meta_tags. CHR 0x22 \<in> set t" "\<forall>t\<in>set leaf_tags. CHR 0x22 \<in> set t"
    by (auto simp: meta_tags_def leaf_tags_def json_tag_def)
  note full' = full [unfolded read_canonical_history_def]
  from header.filtered_view [OF meta blank_has_no_tag [OF _ tags(1)] full' refl]
  have m: "\<exists>g. read_filtered meta_tags parse ls = Inr g \<and> ch_session g = ch_session h"
    by (simp only: read_filtered_def)
  from leaf.filtered_view [OF leaf blank_has_no_tag [OF _ tags(2)] full' refl]
  have "\<exists>g. read_filtered leaf_tags parse ls = Inr g \<and>
      (ch_leaf_id g, ch_leaf_epoch g) = (ch_leaf_id h, ch_leaf_epoch h)"
    by (simp only: read_filtered_def)
  with m show ?thesis
    by (auto simp: read_rollout_session_meta_def read_rollout_session_leaf_def)
qed

text \<open>A parser of two texts, for an example.\<close>

definition sample_parse :: "string \<Rightarrow> line_error + rollout_line" where
  "sample_parse raw =
     (if raw = json_tag ''sessionLeaf'' then Inr (LineInternal 2 0 ''s'' None 0 (SessionLeaf 3 (Some ''i'')))
      else if raw = ''note'' then Inr (LineInternal 2 0 ''s'' None 0 (TreeEdge ''i'' None))
      else Inl TruncatedTail)"

lemma fast_readers_agree_witness:
  "\<exists>h. read_canonical_history sample_parse [Inr ''note'', Inr (json_tag ''sessionLeaf''), Inr ''cut''] = Inr h \<and>
     read_rollout_session_meta sample_parse [Inr ''note'', Inr (json_tag ''sessionLeaf''), Inr ''cut'']
       = Inr (ch_session h) \<and>
     read_rollout_session_leaf sample_parse [Inr ''note'', Inr (json_tag ''sessionLeaf''), Inr ''cut'']
       = Inr (Some ''i'', 3)"
proof -
  let ?ls = "[Inr ''note'', Inr (json_tag ''sessionLeaf''), Inr ''cut''] :: (string + string) list"
  have "trim ''note'' \<noteq> []" "trim (json_tag ''sessionLeaf'') \<noteq> []" "trim ''cut'' \<noteq> []" by code_simp+
  then have run: "read_canonical_history sample_parse ?ls =
      Inr (default_history\<lparr>ch_tree_edges := [(''i'', None)], ch_leaf_epoch := 3, ch_leaf_id := Some ''i''\<rparr>)"
    by (simp add: read_canonical_history_def visit_parsed_def sample_parse_def json_tag_def
        default_history_def al_insert_def)
  have leaf: "list_ex (contains_str (json_tag ''sessionLeaf'')) leaf_tags" by code_simp
  have "sample_parse raw = Inr l \<Longrightarrow> header_line l \<Longrightarrow> list_ex (contains_str raw) meta_tags"
    "sample_parse raw = Inr l \<Longrightarrow> leaf_line l \<Longrightarrow> list_ex (contains_str raw) leaf_tags" for raw l
    using leaf by (auto simp: sample_parse_def split: if_splits)
  from fast_readers_agree [OF run this] show ?thesis using run by (auto simp: default_history_def)
qed

section \<open>Rollbacks and turns\<close>

text \<open>The items a file holds in the end: those that every later rollback retains.\<close>

fun retained_by :: "rollout_line list \<Rightarrow> string \<Rightarrow> bool" where
  "retained_by [] t = True"
| "retained_by (LineSessionRollback _ _ _ retained _ _ # ls) t = (t \<in> set retained \<and> retained_by ls t)"
| "retained_by (_ # ls) t = retained_by ls t"

fun surviving_items :: "rollout_line list \<Rightarrow> item_envelope list" where
  "surviving_items [] = []"
| "surviving_items (LineItem _ _ e # ls) =
     (if retained_by ls (en_turn e) then e # surviving_items ls else surviving_items ls)"
| "surviving_items (_ # ls) = surviving_items ls"

lemma fold_items:
  "ch_items (foldl apply_rollout_line h ls) =
     filter (\<lambda>e. retained_by ls (en_turn e)) (ch_items h) @ surviving_items ls"
proof (induction ls arbitrary: h)
  case (Cons l ls)
  then show ?case by (cases l) (auto intro: filter_cong)
qed simp

lemma upsert_ids: "nt_id ` set (upsert_turn t us) = insert (nt_id t) (nt_id ` set us)"
  by (induction us) auto

lemma upsert_distinct: "distinct (map nt_id us) \<Longrightarrow> distinct (map nt_id (upsert_turn t us))"
  by (induction us) (auto simp: upsert_ids)

interpretation turn_ids: guarded_invariant apply_rollout_line
  "\<lambda>h. distinct (map nt_id (ch_turns h))" "\<lambda>l. False"
proof
  fix h l
  show "\<lbrakk>distinct (map nt_id (ch_turns h)); \<not> False\<rbrakk> \<Longrightarrow>
      distinct (map nt_id (ch_turns (apply_rollout_line h l)))"
    by (cases l) (simp_all add: upsert_distinct distinct_map_filter)
qed

text \<open>
  The history of a file holds exactly the items that every later rollback retains, in file
  order, and one record per turn, whatever the lines are.
\<close>

theorem history_is_what_survives:
  "ch_items (foldl apply_rollout_line default_history ls) = surviving_items ls \<and>
   distinct (map nt_id (ch_turns (foldl apply_rollout_line default_history ls)))"
  using fold_items [of default_history ls] turn_ids.kept_by_all [of default_history ls]
  by (simp add: default_history_def)


section \<open>Settings on resume\<close>

text \<open>
  The replay that rebuilds the running session collects the settings lines first; a line of the
  permission preset removes an explicit sandbox profile collected before it
  (\<open>server/src/persistence.rs\<close>).
\<close>

definition replay_setting :: "(settings_field \<rightharpoonup> json) \<Rightarrow> settings_field \<times> json \<Rightarrow> (settings_field \<rightharpoonup> json)" where
  "replay_setting m l =
     (case l of (field, v) \<Rightarrow>
       (let m' = (if field = FieldPermissionPreset then m(FieldSandboxProfile := None) else m)
        in m'(field \<mapsto> v)))"

definition sandbox_profile_override :: "(settings_field \<rightharpoonup> json) \<Rightarrow> string option" where
  "sandbox_profile_override m = Option.bind (m FieldSandboxProfile) json_str"

definition fold_settings :: "native_session \<Rightarrow> (settings_field \<times> json) list \<Rightarrow> native_session" where
  "fold_settings s ls = foldl (\<lambda>s (field, v). apply_settings field v s) s ls"

text \<open>
  The session read from the history departs from the replay and from the documentation of the
  fold: a preset line leaves an earlier sandbox profile in place, which the replay drops; a cleared
  reasoning effort does not win over an earlier one; and an answered approval stands in the items
  twice, once per revision.
\<close>

theorem history_fold_gaps:
  "st_sandbox_profile (ns_settings (fold_settings s
      [(FieldSandboxProfile, JStr n), (FieldPermissionPreset, JStr ''default'')])) = Some n \<and>
   sandbox_profile_override (foldl replay_setting Map.empty
      [(FieldSandboxProfile, JStr n), (FieldPermissionPreset, JStr ''default'')]) = None \<and>
   st_reasoning_effort (ns_settings (fold_settings s
      [(FieldReasoningEffortSelection, JStr ''high''), (FieldReasoningEffortSelection, JNull)])) = Some ''high'' \<and>
   ch_items (foldl apply_rollout_line default_history
      [LineItem 2 t (e\<lparr>en_id := i, en_revision := 1\<rparr>), LineItem 2 t (e\<lparr>en_id := i, en_revision := 2\<rparr>)]) =
     [e\<lparr>en_id := i, en_revision := 1\<rparr>, e\<lparr>en_id := i, en_revision := 2\<rparr>]"
proof -
  have "normalize_reasoning_effort_literal ''high'' = ''high''" by code_simp
  then show ?thesis
    by (simp add: fold_settings_def map_settings_def replay_setting_def sandbox_profile_override_def
        default_history_def)
qed

end
