(* ===== verification/Session_Tree.thy ===== *)
theory Session_Tree
  imports Canonical_History
begin

text \<open>
  The transcript tree of a session (\<open>core/src/conversation/session_tree.rs\<close>): the parents of the
  items, the current leaf, the active path, and the tree a client reads.

  The map of parents is an association list with distinct keys, since its length bounds a loop.
  The recursion that assembles the tree takes fuel: \<open>None\<close> is a recursion that has not ended, as
  opposed to the \<open>Some None\<close> of a node that is missing. The rendering of time stamps belongs to a
  library and is an argument.
\<close>

section \<open>Parents and leaf\<close>

fun is_tree_visible_item :: "native_item \<Rightarrow> bool" where
  "is_tree_visible_item (UserMessageItem _ _ _) = True"
| "is_tree_visible_item (AssistantMessageItem _) = True"
| "is_tree_visible_item (ReasoningItem _ _) = True"
| "is_tree_visible_item (BranchSummaryItem _ _) = True"
| "is_tree_visible_item (ToolCallItem _ _ _ _ _) = True"
| "is_tree_visible_item (ToolResultItem _ _ _ _ _) = True"
| "is_tree_visible_item (CommandExecutionItem _ _ _ _ _ _ _ _ _ _ _ _) = True"
| "is_tree_visible_item (ContextCompactionItem _ _ _ _) = True"
| "is_tree_visible_item _ = False"

fun is_compaction_row :: "native_item \<Rightarrow> bool" where
  "is_compaction_row (ContextCompactionItem _ _ _ _) = True"
| "is_compaction_row _ = False"

abbreviation is_visible :: "item_envelope \<Rightarrow> bool" where
  "is_visible e \<equiv> is_tree_visible_item (en_item e)"

type_synonym parents = "(item_id \<times> item_id option) list"

definition parent_of :: "parents \<Rightarrow> item_id \<Rightarrow> item_id option" where
  "parent_of ps i = Option.bind (map_of ps i) id"

definition claim_parents :: "item_envelope list \<Rightarrow> parents \<Rightarrow> parents" where
  "claim_parents items ps =
     foldl (\<lambda>ps e. case en_parent e of Some p \<Rightarrow> al_insert (en_id e) (Some p) ps | None \<Rightarrow> ps) ps items"

definition explicit_ids :: "canonical_history \<Rightarrow> item_id set" where
  "explicit_ids h =
     fst ` set (ch_tree_edges h) \<union> en_id ` set (filter (\<lambda>e. en_parent e \<noteq> None) (ch_items h))"

definition visible_by_seq :: "canonical_history \<Rightarrow> item_envelope list" where
  "visible_by_seq h = sort_key en_seq (filter is_visible (ch_items h))"

text \<open>The linear chain, for items without an edge of their own.\<close>

fun infer_parents :: "item_envelope list \<Rightarrow> item_id option \<Rightarrow> parents \<Rightarrow> parents" where
  "infer_parents [] prev ps = ps"
| "infer_parents (e # es) prev ps =
     infer_parents es (Some (en_id e))
       (if map_of ps (en_id e) = None then al_insert (en_id e) prev ps else ps)"

text \<open>
  The pass that puts a run of compaction rows without edges on the chain: \<open>run\<close> is the run,
  \<open>only\<close> whether it consists of compactions, \<open>anchor\<close> the parent of its first row.
\<close>

fun stitch ::
  "item_id set \<Rightarrow> item_envelope list \<Rightarrow> item_id list \<Rightarrow> bool \<Rightarrow> item_id option \<Rightarrow> parents \<Rightarrow> parents" where
  "stitch ex [] run only anchor ps = ps"
| "stitch ex (e # es) run only anchor ps =
     (let i = en_id e in
      if i \<in> ex then
        stitch ex es [] True None
          (if run \<noteq> [] \<and> only \<and> anchor \<noteq> None \<and> parent_of ps i = anchor
           then al_insert i (Some (last run)) ps else ps)
      else if run = [] then
        stitch ex es [i] (is_compaction_row (en_item e)) (parent_of ps i) ps
      else
        stitch ex es (run @ [i]) (only \<and> is_compaction_row (en_item e)) anchor ps)"

definition resolve_parent_map :: "canonical_history \<Rightarrow> parents" where
  "resolve_parent_map h =
     (let vis = visible_by_seq h
      in stitch (explicit_ids h) vis [] True None
           (infer_parents vis None (claim_parents (ch_items h) (ch_tree_edges h))))"

text \<open>\<open>max_by_key\<close>: the last of the items with the greatest number.\<close>

fun last_max_by :: "('a \<Rightarrow> nat) \<Rightarrow> 'a list \<Rightarrow> 'a option" where
  "last_max_by f [] = None"
| "last_max_by f (x # xs) =
     (case last_max_by f xs of
        None \<Rightarrow> Some x
      | Some y \<Rightarrow> if f x > f y then Some x else Some y)"

definition resolve_leaf_id :: "canonical_history \<Rightarrow> parents \<Rightarrow> item_id option" where
  "resolve_leaf_id h ps =
     (case ch_leaf_id h of
        Some leaf \<Rightarrow>
          if map_of ps leaf \<noteq> None \<or> list_ex (\<lambda>e. en_id e = leaf) (ch_items h) then Some leaf
          else map_option en_id (last_max_by en_seq (filter is_visible (ch_items h)))
      | None \<Rightarrow> map_option en_id (last_max_by en_seq (filter is_visible (ch_items h))))"

section \<open>The active path\<close>

text \<open>The walk up the parents, stopping at an item seen before.\<close>

function walk_up :: "parents \<Rightarrow> item_id list \<Rightarrow> item_id option \<Rightarrow> item_id list" where
  "walk_up ps seen None = []"
| "walk_up ps seen (Some i) =
     (if i \<in> set seen then [] else i # walk_up ps (i # seen) (parent_of ps i))"
  by pat_completeness auto

lemma parent_of_Some: "parent_of ps i = Some p \<Longrightarrow> i \<in> fst ` set ps"
  by (force simp: parent_of_def dest: map_of_SomeD split: bind_splits)

termination walk_up
proof (relation "measure (\<lambda>(ps, seen, cur). case cur of None \<Rightarrow> 0
    | Some i \<Rightarrow> Suc (card (fst ` set ps - set seen)))", simp)
  fix ps :: parents and seen :: "item_id list" and i :: item_id
  assume new: "i \<notin> set seen"
  show "((ps, i # seen, parent_of ps i), ps, seen, Some i)
      \<in> measure (\<lambda>(ps, seen, cur). case cur of None \<Rightarrow> 0 | Some i \<Rightarrow> Suc (card (fst ` set ps - set seen)))"
  proof (cases "parent_of ps i")
    case (Some p)
    then have "i \<in> fst ` set ps - set seen" using new parent_of_Some by simp
    then have "card (fst ` set ps - set seen - {i}) < card (fst ` set ps - set seen)"
      by (intro card_Diff1_less) auto
    moreover have "fst ` set ps - set (i # seen) = fst ` set ps - set seen - {i}" by auto
    ultimately show ?thesis by (simp only: Some in_measure prod.case option.case Suc_less_eq)
  qed simp
qed

definition path_root_to_leaf :: "item_id option \<Rightarrow> parents \<Rightarrow> item_id list" where
  "path_root_to_leaf leaf ps = rev (walk_up ps [] leaf)"

definition active_path_item_ids :: "canonical_history \<Rightarrow> item_id set" where
  "active_path_item_ids h =
     (let ps = resolve_parent_map h in set (path_root_to_leaf (resolve_leaf_id h ps) ps))"

definition active_path_items :: "canonical_history \<Rightarrow> item_envelope list option" where
  "active_path_items h =
     (let active = active_path_item_ids h in
      if active = {} then None
      else
        let turns = en_turn ` set (filter (\<lambda>e. en_id e \<in> active) (ch_items h))
        in Some (filter (\<lambda>e. en_id e \<in> active \<or> (\<not> is_visible e \<and> en_turn e \<in> turns)) (ch_items h)))"

section \<open>The tree\<close>

datatype tree_node = TreeNode (node_entry: json) (node_label: "string option")
  (node_children: "tree_node list")

definition user_text :: "user_input list \<Rightarrow> string" where
  "user_text content = join [LF] (List.map_filter (\<lambda>p. case p of UserText t \<Rightarrow> Some t | _ \<Rightarrow> None) content)"

definition compacted_summary_text :: "string option \<Rightarrow> string" where
  "compacted_summary_text summary =
     (let text = default_option [] summary;
          stripped = trim (default_option text (strip_prefix ''<compaction_summary>'' text))
      in default_option [] (find (\<lambda>l. trim l \<noteq> []) (rust_lines stripped)))"

fun item_label :: "native_item \<Rightarrow> string option" where
  "item_label (UserMessageItem _ content _) = Some (take 80 (user_text content))"
| "item_label (AssistantMessageItem text) = Some (take 80 text)"
| "item_label (ReasoningItem text _) = Some (''thinking: '' @ take 60 text)"
| "item_label (BranchSummaryItem summary _) = Some (take 80 summary)"
| "item_label (ToolCallItem _ tool _ _ _) = Some (''tool: '' @ tool)"
| "item_label (ToolResultItem call _ _ _ _) = Some (''result: '' @ call)"
| "item_label (CommandExecutionItem _ cmd _ _ _ _ _ _ _ _ _ _) = Some (''$ '' @ take 70 cmd)"
| "item_label (ContextCompactionItem _ _ _ summary) =
     Some (''compacted: '' @ take 70 (compacted_summary_text summary))"
| "item_label _ = None"

definition opt_json :: "string option \<Rightarrow> json" where
  "opt_json s = (case s of None \<Rightarrow> JNull | Some x \<Rightarrow> JStr x)"

definition text_part :: "string \<Rightarrow> string \<Rightarrow> json" where
  "text_part kind text = JObj [(''type'', JStr kind), (kind, JStr text)]"

definition message_json :: "string \<Rightarrow> json list \<Rightarrow> json" where
  "message_json role parts = JObj [(''role'', JStr role), (''content'', JArr parts)]"

text \<open>The type of an entry and the fields it has beside identifier, parent and time.\<close>

fun entry_fields :: "native_item \<Rightarrow> string \<times> (string \<times> json) list" where
  "entry_fields (UserMessageItem _ content _) = (''message'', [(''message'', message_json ''user''
     (List.map_filter (\<lambda>p. case p of UserText t \<Rightarrow> Some (text_part ''text'' t) | _ \<Rightarrow> None) content))])"
| "entry_fields (AssistantMessageItem text) =
     (''message'', [(''message'', message_json ''assistant'' [text_part ''text'' text])])"
| "entry_fields (ReasoningItem text _) =
     (''message'', [(''message'', message_json ''assistant'' [text_part ''thinking'' text])])"
| "entry_fields (BranchSummaryItem summary details) =
     (''branch_summary'', [(''summary'', JStr summary), (''details'', opt_json details)])"
| "entry_fields (ToolCallItem call tool _ _ _) =
     (''message'', [(''message'', message_json ''assistant'' [JObj [(''type'', JStr ''toolCall''),
       (''id'', JStr call), (''name'', JStr tool), (''arguments'', JObj [])]])])"
| "entry_fields (ToolResultItem call _ _ _ _) =
     (''message'', [(''message'', JObj [(''role'', JStr ''toolResult''), (''toolCallId'', JStr call),
       (''toolName'', JStr ''tool''), (''content'', JArr [text_part ''text'' []])])])"
| "entry_fields (CommandExecutionItem _ cmd _ _ _ _ _ _ _ _ _ _) =
     (''message'', [(''message'', message_json ''assistant'' [JObj [(''type'', JStr ''bash''),
       (''command'', JStr cmd)]])])"
| "entry_fields (ContextCompactionItem _ before _ summary) =
     (''compaction'', [(''summary'', opt_json summary), (''tokensBefore'', JInt (int (cx_total_tokens before)))])"
| "entry_fields _ = (''custom'', [(''customType'', JStr ''item'')])"

definition project_tree_entry :: "(timestamp \<Rightarrow> string) \<Rightarrow> item_envelope \<Rightarrow> item_id option \<Rightarrow> json" where
  "project_tree_entry fmt e parent =
     (case entry_fields (en_item e) of (kind, extra) \<Rightarrow>
       JObj ([(''type'', JStr kind), (''id'', JStr (en_id e)), (''parentId'', opt_json parent),
              (''timestamp'', JStr (fmt (en_created_at e)))] @ extra))"

text \<open>The climb to the nearest visible ancestor; the loop runs once more than there are edges.\<close>

fun climb :: "parents \<Rightarrow> item_id set \<Rightarrow> nat \<Rightarrow> item_id \<Rightarrow> item_id option" where
  "climb ps vis 0 cursor = None"
| "climb ps vis (Suc n) cursor =
     (if cursor \<in> vis then Some cursor
      else (case parent_of ps cursor of None \<Rightarrow> None | Some c \<Rightarrow> climb ps vis n c))"

definition nearest_visible_ancestor :: "parents \<Rightarrow> item_id set \<Rightarrow> item_id \<Rightarrow> item_id option" where
  "nearest_visible_ancestor ps vis i =
     (case parent_of ps i of None \<Rightarrow> None | Some c \<Rightarrow> climb ps vis (Suc (length ps)) c)"

definition attachment :: "parents \<Rightarrow> item_id list \<Rightarrow> nat \<Rightarrow> item_id option" where
  "attachment ps order k =
     or_else (nearest_visible_ancestor ps (set order) (order ! k))
       (find (\<lambda>c. c \<in> set order) (rev (take k order)))"

definition children_of :: "parents \<Rightarrow> item_id list \<Rightarrow> item_id \<Rightarrow> item_id list" where
  "children_of ps order i =
     map (\<lambda>k. order ! k) (filter (\<lambda>k. attachment ps order k = Some i) [0..<length order])"

definition tree_roots :: "parents \<Rightarrow> item_id list \<Rightarrow> item_id list" where
  "tree_roots ps order =
     map (\<lambda>k. order ! k) (filter (\<lambda>k. attachment ps order k = None) [0..<length order])"

text \<open>\<open>filter_map\<close> over the results of a recursion, which fails to end if one of them does.\<close>

definition collect_nodes :: "'a option option list \<Rightarrow> 'a list option" where
  "collect_nodes rs = (if None \<in> set rs then None else Some (List.map_filter (\<lambda>r. Option.bind r id) rs))"

fun assemble ::
  "nat \<Rightarrow> (timestamp \<Rightarrow> string) \<Rightarrow> (item_id \<rightharpoonup> item_envelope) \<Rightarrow> (item_id \<Rightarrow> item_id list) \<Rightarrow>
   item_id option \<Rightarrow> item_id \<Rightarrow> tree_node option option" where
  "assemble 0 fmt by_id kids parent i = None"
| "assemble (Suc n) fmt by_id kids parent i =
     (case by_id i of
        None \<Rightarrow> Some None
      | Some e \<Rightarrow>
          map_option (\<lambda>cs. Some (TreeNode (project_tree_entry fmt e parent) (item_label (en_item e)) cs))
            (collect_nodes (map (assemble n fmt by_id kids (Some i)) (kids i))))"

definition build_session_tree ::
  "nat \<Rightarrow> (timestamp \<Rightarrow> string) \<Rightarrow> canonical_history \<Rightarrow> (tree_node list \<times> item_id option) option" where
  "build_session_tree fuel fmt h =
     (let ps = resolve_parent_map h;
          vis = filter is_visible (ch_items h);
          order = map en_id vis;
          by_id = map_of (rev (map (\<lambda>e. (en_id e, e)) vis))
      in map_option (\<lambda>tree. (tree, resolve_leaf_id h ps))
           (collect_nodes (map (assemble fuel fmt by_id (children_of ps order) None) (tree_roots ps order))))"

end
