(* ===== verification/Tree_Facts.thy ===== *)
theory Tree_Facts
  imports Session_Tree
begin

text \<open>
  What the transcript tree of \<open>Session_Tree\<close> guarantees: the active path is a path, and in a
  journal whose edges point to what was written before, the tree is one connected tree holding
  every visible item once.
\<close>

section \<open>The walk up the parents\<close>

lemma walk_up_facts:
  "distinct (walk_up ps seen cur) \<and> set (walk_up ps seen cur) \<inter> set seen = {} \<and>
   (\<forall>k. Suc k < length (walk_up ps seen cur) \<longrightarrow>
      parent_of ps (walk_up ps seen cur ! k) = Some (walk_up ps seen cur ! Suc k)) \<and>
   (walk_up ps seen cur \<noteq> [] \<longrightarrow> cur = Some (hd (walk_up ps seen cur)) \<and>
      (case parent_of ps (last (walk_up ps seen cur)) of None \<Rightarrow> True
       | Some p \<Rightarrow> p \<in> set seen \<union> set (walk_up ps seen cur)))"
proof (induction ps seen cur rule: walk_up.induct)
  case (2 ps seen i)
  show ?case
  proof (cases "i \<in> set seen")
    case False
    let ?w = "walk_up ps (i # seen) (parent_of ps i)"
    note IH = 2 [OF False]
    have edge: "parent_of ps ((i # ?w) ! k) = Some ((i # ?w) ! Suc k)" if "Suc k < length (i # ?w)" for k
      using that IH by (cases k; cases ?w) auto
    have "case parent_of ps (last (i # ?w)) of None \<Rightarrow> True | Some p \<Rightarrow> p \<in> set seen \<union> set (i # ?w)"
    proof (cases "?w = []")
      case True
      then show ?thesis
        by (cases "parent_of ps i") (auto split: if_splits)
    next
      case nonempty: False
      then show ?thesis using IH by (auto split: option.splits)
    qed
    moreover have "walk_up ps seen (Some i) = i # ?w" using False by simp
    ultimately show ?thesis using IH edge False by (simp only: list.simps distinct.simps) auto
  qed simp
qed simp

text \<open>
  The active path is a path of the tree: without repetition, every item followed by one whose
  parent it is, ending in the leaf; it starts at an item without a parent, or at one whose parent
  is on the path already. The walk always ends.
\<close>

theorem active_path_is_a_path:
  "let path = path_root_to_leaf (Some leaf) ps in
     path \<noteq> [] \<and> distinct path \<and> last path = leaf \<and>
     (\<forall>k. Suc k < length path \<longrightarrow> parent_of ps (path ! Suc k) = Some (path ! k)) \<and>
     (parent_of ps (hd path) = None \<or> (\<exists>p\<in>set path. parent_of ps (hd path) = Some p))"
proof -
  let ?w = "walk_up ps [] (Some leaf)"
  note facts = walk_up_facts [of ps "[]" "Some leaf"]
  have ne: "?w \<noteq> []" by simp
  have step: "parent_of ps (rev ?w ! Suc k) = Some (rev ?w ! k)" if k: "Suc k < length ?w" for k
  proof -
    have "rev ?w ! Suc k = ?w ! (length ?w - Suc (Suc k))" using k by (intro rev_nth) simp
    moreover have "rev ?w ! k = ?w ! (length ?w - Suc k)" using k by (intro rev_nth) simp
    moreover have "length ?w - Suc k = Suc (length ?w - Suc (Suc k))" using k by simp
    moreover have "Suc (length ?w - Suc (Suc k)) < length ?w" using k by simp
    ultimately show ?thesis using facts by metis
  qed
  have "hd ?w = leaf" using facts ne by simp
  then have "last (rev ?w) = leaf" using ne by (simp only: last_rev)
  moreover have "parent_of ps (hd (rev ?w)) = None \<or> (\<exists>p\<in>set (rev ?w). parent_of ps (hd (rev ?w)) = Some p)"
    using facts ne by (simp only: hd_rev) (auto split: option.splits)
  ultimately show ?thesis
    unfolding path_root_to_leaf_def Let_def using facts ne step by (simp only: distinct_rev length_rev) simp
qed


lemma active_path_is_a_path_witness:
  "path_root_to_leaf (Some ''c'') [(''c'', Some ''b''), (''b'', Some ''a''), (''a'', None)] = [''a'', ''b'', ''c''] \<and>
   distinct (path_root_to_leaf (Some ''c'') [(''c'', Some ''b''), (''b'', Some ''a''), (''a'', None)])"
  using active_path_is_a_path [of "''c''" "[(''c'', Some ''b''), (''b'', Some ''a''), (''a'', None)]"]
  by (simp add: Let_def) (simp add: path_root_to_leaf_def parent_of_def)

section \<open>Journals whose edges point back\<close>

text \<open>
  \<open>rank\<close> gives every identifier its place in time: edges point to what is older, the visible items
  stand in the file from old to new, and where one of two visible items has no edge of its own,
  their sequence numbers agree with the rank.
\<close>

definition points_back :: "(item_id \<Rightarrow> nat) \<Rightarrow> canonical_history \<Rightarrow> bool" where
  "points_back rank h \<longleftrightarrow>
     (\<forall>c p. (c, Some p) \<in> set (ch_tree_edges h) \<longrightarrow> rank p < rank c) \<and>
     (\<forall>e\<in>set (ch_items h). \<forall>p. en_parent e = Some p \<longrightarrow> rank p < rank (en_id e)) \<and>
     sorted_wrt (\<lambda>a b. rank (en_id a) < rank (en_id b)) (filter is_visible (ch_items h)) \<and>
     (\<forall>a\<in>set (filter is_visible (ch_items h)). \<forall>b\<in>set (filter is_visible (ch_items h)).
        en_seq a < en_seq b \<and> (en_id a \<notin> explicit_ids h \<or> en_id b \<notin> explicit_ids h) \<longrightarrow>
        rank (en_id a) < rank (en_id b))"

definition descends :: "(item_id \<Rightarrow> nat) \<Rightarrow> parents \<Rightarrow> bool" where
  "descends rank ps \<longleftrightarrow> (\<forall>c p. parent_of ps c = Some p \<longrightarrow> rank p < rank c)"

lemma parent_of_insert [simp]:
  "parent_of (al_insert k v ps) i = (if i = k then v else parent_of ps i)"
  by (simp add: parent_of_def)

lemma descends_insert:
  "\<lbrakk>descends rank ps; \<And>p. v = Some p \<Longrightarrow> rank p < rank k\<rbrakk> \<Longrightarrow> descends rank (al_insert k v ps)"
  by (simp add: descends_def)

lemma sorted_wrt_insort_key:
  "\<lbrakk>sorted_wrt (\<lambda>a b. f a < f b \<or> (f a = f b \<and> P a b)) ys; \<forall>y\<in>set ys. P x y\<rbrakk> \<Longrightarrow>
   sorted_wrt (\<lambda>a b. f a < f b \<or> (f a = f b \<and> P a b)) (insort_key f x ys)"
  for f :: "'a \<Rightarrow> nat"
  by (induction ys) (auto simp: set_insort_key)

lemma sorted_wrt_sort_key:
  "sorted_wrt P xs \<Longrightarrow> sorted_wrt (\<lambda>a b. f a < f b \<or> (f a = f b \<and> P a b)) (sort_key f xs)"
  for f :: "'a \<Rightarrow> nat"
  by (induction xs) (auto simp: sorted_wrt_insort_key)

definition later :: "(item_id \<Rightarrow> nat) \<Rightarrow> item_id set \<Rightarrow> item_envelope \<Rightarrow> item_envelope \<Rightarrow> bool" where
  "later rank ex a b \<longleftrightarrow> (en_id a \<in> ex \<and> en_id b \<in> ex) \<or> rank (en_id a) < rank (en_id b)"

lemma visible_later:
  assumes "points_back rank h"
  shows "sorted_wrt (later rank (explicit_ids h)) (visible_by_seq h)"
proof -
  let ?v = "filter is_visible (ch_items h)"
  have "sorted_wrt (\<lambda>a b. en_seq a < en_seq b \<or> (en_seq a = en_seq b \<and> rank (en_id a) < rank (en_id b)))
      (visible_by_seq h)"
    unfolding visible_by_seq_def
    by (rule sorted_wrt_sort_key) (use assms in \<open>simp add: points_back_def\<close>)
  then show ?thesis
    by (rule sorted_wrt_mono_rel [rotated])
       (use assms in \<open>auto simp: visible_by_seq_def later_def points_back_def\<close>)
qed

lemma claim_parents_descends:
  "\<lbrakk>descends rank ps; \<forall>e\<in>set items. \<forall>p. en_parent e = Some p \<longrightarrow> rank p < rank (en_id e)\<rbrakk> \<Longrightarrow>
   descends rank (claim_parents items ps)"
  unfolding claim_parents_def
proof (induction items arbitrary: ps)
  case (Cons e items)
  have "descends rank (case en_parent e of Some p \<Rightarrow> al_insert (en_id e) (Some p) ps | None \<Rightarrow> ps)"
    using Cons.prems by (auto intro!: descends_insert split: option.split)
  with Cons.IH Cons.prems(2) show ?case by simp
qed simp

lemma claim_parents_dom:
  "fst ` set ps \<union> en_id ` set (filter (\<lambda>e. en_parent e \<noteq> None) items) \<subseteq> dom (map_of (claim_parents items ps))"
proof (induction items arbitrary: ps)
  case (Cons e items)
  have "dom (map_of ps) \<subseteq> dom (map_of (claim_parents items ps))" for ps
    using Cons [of ps] by (auto simp: dom_map_of_conv_image_fst)
  moreover have "claim_parents (e # items) ps = claim_parents items
      (case en_parent e of Some p \<Rightarrow> al_insert (en_id e) (Some p) ps | None \<Rightarrow> ps)"
    by (simp add: claim_parents_def)
  ultimately show ?case
    using Cons [of ps] Cons [of "al_insert (en_id e) (en_parent e) ps"]
    by (cases "en_parent e") (auto simp: dom_map_of_conv_image_fst)
qed (auto simp: claim_parents_def dom_map_of_conv_image_fst)

lemma infer_parents_descends:
  "\<lbrakk>descends rank ps; ex \<subseteq> dom (map_of ps); sorted_wrt (later rank ex) es;
    \<And>p e. \<lbrakk>prev = Some p; e \<in> set es; en_id e \<notin> ex\<rbrakk> \<Longrightarrow> rank p < rank (en_id e)\<rbrakk> \<Longrightarrow>
   descends rank (infer_parents es prev ps)"
proof (induction es arbitrary: prev ps)
  case (Cons e es)
  let ?ps = "if map_of ps (en_id e) = None then al_insert (en_id e) prev ps else ps"
  have "descends rank ?ps" using Cons.prems by (auto intro!: descends_insert)
  moreover have "ex \<subseteq> dom (map_of ?ps)" using Cons.prems(2) by auto
  moreover have "rank (en_id e) < rank (en_id b)" if "b \<in> set es" "en_id b \<notin> ex" for b
    using that Cons.prems(3) by (auto simp: later_def)
  moreover have "sorted_wrt (later rank ex) es" using Cons.prems(3) by simp
  ultimately have "descends rank (infer_parents es (Some (en_id e)) ?ps)"
    by (intro Cons.IH) simp_all
  then show ?case by (simp only: infer_parents.simps)
qed simp

lemma stitch_descends:
  "\<lbrakk>descends rank ps; sorted_wrt (later rank ex) es;
    run \<noteq> [] \<Longrightarrow> \<forall>e\<in>set es. rank (last run) < rank (en_id e)\<rbrakk> \<Longrightarrow>
   descends rank (stitch ex es run only anchor ps)"
proof (induction es arbitrary: run only anchor ps)
  case (Cons e es)
  show ?case
  proof (cases "en_id e \<in> ex")
    case True
    have "descends rank (if run \<noteq> [] \<and> only \<and> anchor \<noteq> None \<and> parent_of ps (en_id e) = anchor
        then al_insert (en_id e) (Some (last run)) ps else ps)"
      using Cons.prems by (auto intro!: descends_insert)
    moreover have "sorted_wrt (later rank ex) es" using Cons.prems(2) by simp
    ultimately have "descends rank (stitch ex es [] True None
        (if run \<noteq> [] \<and> only \<and> anchor \<noteq> None \<and> parent_of ps (en_id e) = anchor
         then al_insert (en_id e) (Some (last run)) ps else ps))"
      by (intro Cons.IH) simp_all
    then show ?thesis using True by (simp only: stitch.simps Let_def if_True)
  next
    case False
    then have "\<forall>b\<in>set es. rank (en_id e) < rank (en_id b)"
      using Cons.prems(2) by (auto simp: later_def)
    then show ?thesis using Cons.IH Cons.prems(1,2) False by (simp add: Let_def)
  qed
qed simp

lemma resolved_descends:
  assumes pb: "points_back rank h"
  shows "descends rank (resolve_parent_map h)"
proof -
  let ?edges = "ch_tree_edges h" and ?ex = "explicit_ids h"
  have "descends rank ?edges"
    using pb by (auto simp: descends_def points_back_def parent_of_def dest!: map_of_SomeD split: bind_splits)
  then have claimed: "descends rank (claim_parents (ch_items h) ?edges)"
    by (rule claim_parents_descends) (use pb in \<open>simp add: points_back_def\<close>)
  have "?ex \<subseteq> dom (map_of (claim_parents (ch_items h) ?edges))"
    unfolding explicit_ids_def by (rule claim_parents_dom)
  note inferred = infer_parents_descends [OF claimed this visible_later [OF pb], of None]
  show ?thesis
    unfolding resolve_parent_map_def Let_def
    by (rule stitch_descends [OF inferred visible_later [OF pb]]) simp_all
qed


section \<open>Trees over the indices of a list\<close>

text \<open>What hangs under an index when \<open>par\<close> gives the index an index hangs under.\<close>

inductive_set under :: "(nat \<Rightarrow> nat option) \<Rightarrow> nat \<Rightarrow> nat set" for par k where
  self: "k \<in> under par k"
| step: "\<lbrakk>m \<in> under par k; par j = Some m\<rbrakk> \<Longrightarrow> j \<in> under par k"

definition indexed_tree :: "nat \<Rightarrow> (nat \<Rightarrow> nat option) \<Rightarrow> bool" where
  "indexed_tree N par \<longleftrightarrow> (\<forall>j m. par j = Some m \<longrightarrow> m < j \<and> j < N)"

definition kids :: "nat \<Rightarrow> (nat \<Rightarrow> nat option) \<Rightarrow> nat \<Rightarrow> nat list" where
  "kids N par k = filter (\<lambda>j. par j = Some k) [0..<N]"

lemma under_ge: "\<lbrakk>indexed_tree N par; j \<in> under par k\<rbrakk> \<Longrightarrow> k \<le> j \<and> (k < N \<longrightarrow> j < N)"
  by (rotate_tac 1, induction rule: under.induct) (auto simp: indexed_tree_def dest: order_trans less_imp_le)

lemma under_finite: "\<lbrakk>indexed_tree N par; k < N\<rbrakk> \<Longrightarrow> finite (under par k)"
  by (rule finite_subset [of _ "{..<N}"]) (auto dest: under_ge)

lemma under_trans: "\<lbrakk>i \<in> under par j; j \<in> under par k\<rbrakk> \<Longrightarrow> i \<in> under par k"
  by (induction rule: under.induct) (auto intro: under.step)

lemma under_split:
  assumes it: "indexed_tree N par"
  shows "under par k = insert k (\<Union>j\<in>set (kids N par k). under par j)"
proof
  show "insert k (\<Union>j\<in>set (kids N par k). under par j) \<subseteq> under par k"
    using under_trans [OF _ under.step [OF under.self]] by (auto simp: kids_def intro: under.self)
  show "under par k \<subseteq> insert k (\<Union>j\<in>set (kids N par k). under par j)"
  proof
    fix i assume "i \<in> under par k"
    then show "i \<in> insert k (\<Union>j\<in>set (kids N par k). under par j)"
    proof induction
      case (step m j)
      show ?case
      proof (cases "m = k")
        case True
        then have "j \<in> set (kids N par k)" using step.hyps(2) it by (auto simp: kids_def indexed_tree_def)
        then show ?thesis using under.self by blast
      next
        case False
        then show ?thesis using step.IH step.hyps(2) by (auto intro: under.step)
      qed
    qed simp
  qed
qed

lemma under_disjoint:
  assumes it: "indexed_tree N par" and ab: "par a = Some k" "par b = Some k" "a \<noteq> b"
  shows "under par a \<inter> under par b = {}"
proof -
  have "\<lbrakk>i \<in> under par a; i \<in> under par b\<rbrakk> \<Longrightarrow> False" for i
  proof (induction i rule: less_induct)
    case (less i)
    have k: "k < a" "k < b" using it ab by (auto simp: indexed_tree_def)
    from less.prems(1) show False
    proof cases
      case self
      from less.prems(2) show False
      proof cases
        case self
        then show False using \<open>i = a\<close> ab(3) by simp
      next
        case (step m)
        then show False using \<open>i = a\<close> ab(1) k under_ge [OF it step(1)] by simp
      qed
    next
      case (step m)
      note m = this
      from less.prems(2) show False
      proof cases
        case self
        then show False using m ab(2) k under_ge [OF it m(1)] by simp
      next
        case (step m')
        then have "m' = m" using m(2) by simp
        moreover have "m < i" using m(2) it by (auto simp: indexed_tree_def)
        ultimately show False using less.IH m(1) step(1) by blast
      qed
    qed
  qed
  then show ?thesis by blast
qed

lemma mset_union_list:
  "\<lbrakk>distinct js; \<forall>j\<in>set js. finite (D j); \<forall>a\<in>set js. \<forall>b\<in>set js. a \<noteq> b \<longrightarrow> D a \<inter> D b = {}\<rbrakk> \<Longrightarrow>
   mset_set (\<Union>j\<in>set js. D j) = sum_list (map (\<lambda>j. mset_set (D j)) js)"
proof (induction js)
  case (Cons j js)
  have "D j \<inter> (\<Union>a\<in>set js. D a) = {}" using Cons.prems by fastforce
  then have "mset_set (\<Union>a\<in>set (j # js). D a) = mset_set (D j) + mset_set (\<Union>a\<in>set js. D a)"
    using Cons.prems(2) by (simp add: mset_set_Union)
  then show ?case using Cons by simp
qed simp

lemma under_mset:
  assumes it: "indexed_tree N par" and k: "k < N"
  shows "mset_set (under par k) = add_mset k (sum_list (map (\<lambda>j. mset_set (under par j)) (kids N par k)))"
proof -
  let ?U = "\<Union>j\<in>set (kids N par k). under par j"
  have lt: "j < N \<and> par j = Some k" if "j \<in> set (kids N par k)" for j using that by (simp add: kids_def)
  have "finite ?U" using under_finite [OF it] lt by blast
  moreover have "k \<notin> ?U"
  proof
    assume "k \<in> ?U"
    then obtain j where "par j = Some k" "k \<in> under par j" using lt by blast
    then show False using under_ge [OF it, of k j] it unfolding indexed_tree_def by (metis leD)
  qed
  ultimately have "mset_set (under par k) = add_mset k (mset_set ?U)"
    by (simp add: under_split [OF it, of k])
  also have "mset_set ?U = sum_list (map (\<lambda>j. mset_set (under par j)) (kids N par k))"
    by (rule mset_union_list) (use lt under_finite [OF it] under_disjoint [OF it] in \<open>auto simp: kids_def\<close>)
  finally show ?thesis .
qed

lemma under_root:
  "\<lbrakk>indexed_tree N par; \<forall>k. 0 < k \<and> k < N \<longrightarrow> par k \<noteq> None; 0 < N\<rbrakk> \<Longrightarrow> under par 0 = {..<N}"
proof (rule set_eqI, rule iffI)
  fix i
  assume it: "indexed_tree N par" and up: "\<forall>k. 0 < k \<and> k < N \<longrightarrow> par k \<noteq> None" and N: "0 < N"
  show "i \<in> under par 0 \<Longrightarrow> i \<in> {..<N}" using under_ge [OF it, of i 0] N by simp
  show "i \<in> {..<N} \<Longrightarrow> i \<in> under par 0"
  proof (induction i rule: less_induct)
    case (less i)
    show ?case
    proof (cases "i = 0")
      case False
      then obtain m where m: "par i = Some m" using up less.prems by fastforce
      then have "m < i" using it by (simp add: indexed_tree_def)
      then show ?thesis using less m by (auto intro: under.step)
    qed (simp add: under.self)
  qed
qed


section \<open>The attachment of the visible items\<close>

lemma climb_older:
  "\<lbrakk>descends rank ps; climb ps vis n c = Some p\<rbrakk> \<Longrightarrow> p \<in> vis \<and> rank p \<le> rank c"
  by (induction ps vis n c rule: climb.induct)
     (fastforce simp: descends_def split: if_splits option.splits)+

lemma nearest_older:
  "\<lbrakk>descends rank ps; nearest_visible_ancestor ps vis i = Some p\<rbrakk> \<Longrightarrow> p \<in> vis \<and> rank p < rank i"
proof -
  assume desc: "descends rank ps" and near: "nearest_visible_ancestor ps vis i = Some p"
  then obtain c where c: "parent_of ps i = Some c" "climb ps vis (Suc (length ps)) c = Some p"
    by (auto simp: nearest_visible_ancestor_def simp del: climb.simps split: option.splits)
  have "rank c < rank i" using desc c(1) by (simp add: descends_def)
  with climb_older [OF desc c(2)] show ?thesis by simp
qed

lemma attachment_older:
  assumes desc: "descends rank ps" and sorted: "sorted_wrt (\<lambda>a b. rank a < rank b) order"
    and k: "k < length order"
  shows "case attachment ps order k of None \<Rightarrow> k = 0 | Some p \<Rightarrow> \<exists>j<k. p = order ! j"
proof (cases "nearest_visible_ancestor ps (set order) (order ! k)")
  case (Some p)
  from nearest_older [OF desc Some] obtain j where j: "j < length order" "p = order ! j"
      and less: "rank p < rank (order ! k)" by (auto simp: in_set_conv_nth)
  have "j < k"
  proof (rule ccontr)
    assume "\<not> j < k"
    then have "j = k \<or> k < j" by auto
    then show False using less j sorted_wrt_nth_less [OF sorted, of k j] by auto
  qed
  then show ?thesis using Some j by (auto simp: attachment_def or_else_def)
next
  case None
  show ?thesis
  proof (cases k)
    case (Suc m)
    have "take k order = take m order @ [order ! m]" using Suc k by (simp add: take_Suc_conv_app_nth)
    then have "attachment ps order k = Some (order ! m)"
      using None Suc k by (simp add: attachment_def or_else_def)
    then show ?thesis using Suc by auto
  next
    case 0
    then have "attachment ps order k = None" using None by (simp add: attachment_def or_else_def)
    then show ?thesis using 0 by simp
  qed
qed


definition par_of :: "parents \<Rightarrow> item_id list \<Rightarrow> nat \<Rightarrow> nat option" where
  "par_of ps order k =
     (if k < length order then find (\<lambda>j. attachment ps order k = Some (order ! j)) [0..<length order]
      else None)"

lemma par_of_Some:
  assumes "distinct order"
  shows "par_of ps order k = Some j \<longleftrightarrow>
    k < length order \<and> j < length order \<and> attachment ps order k = Some (order ! j)"
proof
  assume "par_of ps order k = Some j"
  then show "k < length order \<and> j < length order \<and> attachment ps order k = Some (order ! j)"
    by (auto simp: par_of_def dest!: find_SomeD split: if_splits)
next
  assume r: "k < length order \<and> j < length order \<and> attachment ps order k = Some (order ! j)"
  then have "find (\<lambda>j. attachment ps order k = Some (order ! j)) [0..<length order] \<noteq> None"
    by (auto simp: find_None_iff)
  then obtain m where m: "find (\<lambda>j. attachment ps order k = Some (order ! j)) [0..<length order] = Some m"
    by blast
  from find_SomeD [OF m] r have "order ! m = order ! j" "m < length order" by auto
  then have "m = j" using assms r nth_eq_iff_index_eq by blast
  then show "par_of ps order k = Some j" using m r by (simp add: par_of_def)
qed

text \<open>The shape of the visible items: one root, everything else under something older.\<close>

lemma attachment_shape:
  assumes desc: "descends rank ps" and sorted: "sorted_wrt (\<lambda>a b. rank a < rank b) order"
  shows "distinct order" "indexed_tree (length order) (par_of ps order)"
    "\<forall>k. 0 < k \<and> k < length order \<longrightarrow> par_of ps order k \<noteq> None"
    "order \<noteq> [] \<Longrightarrow> tree_roots ps order = [order ! 0]"
    "k < length order \<Longrightarrow>
     children_of ps order (order ! k) = map ((!) order) (kids (length order) (par_of ps order) k)"
proof -
  show d: "distinct order"
  proof (rule distinct_conv_nth [THEN iffD2], intro allI impI)
    fix i j assume "i < length order" "j < length order" "i \<noteq> j"
    then show "order ! i \<noteq> order ! j"
      using sorted_wrt_nth_less [OF sorted, of i j] sorted_wrt_nth_less [OF sorted, of j i]
      by (cases i j rule: linorder_cases) auto
  qed
  note att = attachment_older [OF desc sorted]
  have lt: "m < j" if "par_of ps order j = Some m" for j m
  proof -
    from that have r: "j < length order" "m < length order" "attachment ps order j = Some (order ! m)"
      using par_of_Some [OF d] by blast+
    then obtain i where i: "i < j" "order ! m = order ! i" using att [of j] by auto
    have "m = i" using d r i by (simp add: nth_eq_iff_index_eq)
    then show ?thesis using i by simp
  qed
  show "indexed_tree (length order) (par_of ps order)"
    using lt par_of_Some [OF d] by (simp add: indexed_tree_def)
  show "\<forall>k. 0 < k \<and> k < length order \<longrightarrow> par_of ps order k \<noteq> None"
  proof (intro allI impI)
    fix k assume k: "0 < k \<and> k < length order"
    then obtain p where p: "attachment ps order k = Some p" using att [of k] by (cases "attachment ps order k") auto
    then obtain j where "j < k" "p = order ! j" using att [of k] k by auto
    then have "par_of ps order k = Some j" using p k by (simp add: par_of_Some [OF d])
    then show "par_of ps order k \<noteq> None" by simp
  qed
  show "tree_roots ps order = [order ! 0]" if ne: "order \<noteq> []"
  proof -
    have "attachment ps order k = None \<longleftrightarrow> k = 0" if "k < length order" for k
      using att [OF that] by (auto split: option.splits)
    then have "filter (\<lambda>k. attachment ps order k = None) [0..<length order] =
        filter (\<lambda>k. k = 0) [0..<length order]" by (intro filter_cong) simp_all
    also have "\<dots> = [0]" using ne by (simp add: upt_conv_Cons)
    finally show ?thesis by (simp only: tree_roots_def list.map)
  qed
  show "children_of ps order (order ! k) = map ((!) order) (kids (length order) (par_of ps order) k)"
    if "k < length order"
    unfolding children_of_def kids_def
    by (rule arg_cong2 [of _ _ _ _ map]) (use that par_of_Some [OF d] in \<open>auto intro!: filter_cong\<close>)
qed

section \<open>The assembled tree\<close>

definition entry_id :: "json \<Rightarrow> item_id option" where
  "entry_id entry = Option.bind (json_get entry ''id'') json_str"

text \<open>The identifiers of a tree, and whether every entry names the node it hangs under.\<close>

fun tree_ids :: "tree_node \<Rightarrow> item_id list" where
  "tree_ids (TreeNode entry _ cs) =
     (case entry_id entry of Some i \<Rightarrow> [i] | None \<Rightarrow> []) @ concat (map tree_ids cs)"

fun hangs_under :: "item_id option \<Rightarrow> tree_node \<Rightarrow> bool" where
  "hangs_under parent (TreeNode entry _ cs) =
     (json_get entry ''parentId'' = Some (opt_json parent) \<and>
      (\<forall>c\<in>set cs. hangs_under (entry_id entry) c))"

lemma entry_id_projected [simp]: "entry_id (project_tree_entry fmt e parent) = Some (en_id e)"
  by (cases "entry_fields (en_item e)") (simp add: entry_id_def project_tree_entry_def)

lemma entry_parent_projected [simp]:
  "json_get (project_tree_entry fmt e parent) ''parentId'' = Some (opt_json parent)"
  by (cases "entry_fields (en_item e)") (simp add: project_tree_entry_def)

lemma collect_children_Some:
  "\<forall>x\<in>set xs. f x = Some (Some (g x)) \<Longrightarrow> collect_nodes (map f xs) = Some (map g xs)"
proof -
  assume all: "\<forall>x\<in>set xs. f x = Some (Some (g x))"
  then have "None \<notin> set (map f xs)" by auto
  moreover have "List.map_filter (\<lambda>r. Option.bind r id) (map f xs) = map g xs"
    using all by (induction xs) (auto simp: List.map_filter_simps)
  ultimately show ?thesis by (simp add: collect_nodes_def)
qed

lemma mset_concat_image:
  "\<forall>j\<in>set js. mset (t (g j)) = image_mset f (M j) \<Longrightarrow>
   mset (concat (map t (map g js))) = image_mset f (sum_list (map M js))"
  by (induction js) auto

lemma assemble_complete:
  assumes shape: "descends rank ps" "sorted_wrt (\<lambda>a b. rank a < rank b) order"
    and by_id: "\<forall>i\<in>set order. \<exists>e. by_id i = Some e \<and> en_id e = i"
  shows "\<lbrakk>k < length order; length order - k \<le> n\<rbrakk> \<Longrightarrow>
    \<exists>node. assemble n fmt by_id (children_of ps order) parent (order ! k) = Some (Some node) \<and>
      hangs_under parent node \<and>
      mset (tree_ids node) = image_mset ((!) order) (mset_set (under (par_of ps order) k))"
proof (induction n arbitrary: k parent)
  case (Suc n)
  let ?par = "par_of ps order" and ?kids = "kids (length order) (par_of ps order) k"
  let ?run = "assemble n fmt by_id (children_of ps order) (Some (order ! k))"
  note it = attachment_shape(2) [OF shape]
  obtain e where e: "by_id (order ! k) = Some e" "en_id e = order ! k" using by_id Suc.prems(1) by fastforce
  have "\<exists>node. ?run (order ! j) = Some (Some node) \<and> hangs_under (Some (order ! k)) node \<and>
      mset (tree_ids node) = image_mset ((!) order) (mset_set (under ?par j))" if "j \<in> set ?kids" for j
  proof -
    have "k < j" "j < length order" using that it by (auto simp: kids_def indexed_tree_def)
    then show ?thesis using Suc by simp
  qed
  then obtain g where g: "\<And>j. j \<in> set ?kids \<Longrightarrow> ?run (order ! j) = Some (Some (g j)) \<and>
      hangs_under (Some (order ! k)) (g j) \<and>
      mset (tree_ids (g j)) = image_mset ((!) order) (mset_set (under ?par j))" by metis
  have "collect_nodes (map (?run \<circ> (!) order) ?kids) = Some (map g ?kids)"
    by (rule collect_children_Some) (use g in simp)
  then have run: "collect_nodes (map ?run (children_of ps order (order ! k))) = Some (map g ?kids)"
    by (simp add: attachment_shape(5) [OF shape Suc.prems(1)])
  let ?node = "TreeNode (project_tree_entry fmt e parent) (item_label (en_item e)) (map g ?kids)"
  have "mset (concat (map tree_ids (map g ?kids))) =
      image_mset ((!) order) (sum_list (map (\<lambda>j. mset_set (under ?par j)) ?kids))"
    by (rule mset_concat_image) (use g in simp)
  then have "mset (tree_ids ?node) = image_mset ((!) order) (mset_set (under ?par k))"
    by (simp add: under_mset [OF it Suc.prems(1)] e)
  moreover have "hangs_under parent ?node" using g e by simp
  ultimately show ?case using run e by (intro exI [of _ ?node]) simp
qed simp



definition sample_item :: "item_id \<Rightarrow> nat \<Rightarrow> native_item \<Rightarrow> item_envelope" where
  "sample_item i seq item =
     \<lparr>en_id = i, en_session = ''s'', en_turn = ''t'', en_seq = seq, en_revision = 1, en_created_at = 0,
      en_updated_at = 0, en_state = ItemCompleted, en_item = item, en_parent = None\<rparr>"

definition sample_history :: "(item_id \<times> item_id option) list \<Rightarrow> canonical_history" where
  "sample_history edges = default_history\<lparr>ch_tree_edges := edges,
     ch_items := [sample_item ''a'' 1 (AssistantMessageItem ''A''), sample_item ''p'' 2 (WarningItem [] [] False),
       sample_item ''b'' 3 (AssistantMessageItem ''B'')]\<rparr>"


lemmas sample_defs = sample_history_def sample_item_def default_history_def explicit_ids_def
  visible_by_seq_def resolve_parent_map_def claim_parents_def al_insert_def resolve_leaf_id_def Let_def

lemmas tree_defs = children_of_def tree_roots_def attachment_def nearest_visible_ancestor_def
  or_else_def collect_nodes_def parent_of_def List.map_filter_simps

lemma sample_rewound:
  "resolve_parent_map (sample_history [(''b'', None)]) = [(''a'', None), (''b'', None)]"
  "resolve_leaf_id (sample_history edges) ps = Some ''b''"
  by (simp_all add: sample_defs)

lemma sample_cycle:
  "resolve_parent_map (sample_history [(''a'', Some ''b''), (''b'', Some ''a'')]) =
     [(''a'', Some ''b''), (''b'', Some ''a'')]"
  by (simp add: sample_defs)

text \<open>
  Where the tree departs from the path. A message whose edge says it starts a conversation of
  its own still hangs under the item before it in the file, so walking the tree from the leaf
  leaves the active path; a recorded leaf of none, the tip of an emptied conversation, is read as
  the last visible item; and two items that name each other as parent vanish from the tree.
\<close>

theorem tree_gaps:
  "active_path_item_ids (sample_history [(''b'', None)]) = {''b''} \<and>
   (\<exists>entry label child. build_session_tree 2 (\<lambda>t. []) (sample_history [(''b'', None)]) =
      Some ([TreeNode entry label [child]], Some ''b'') \<and> entry_id entry = Some ''a'' \<and>
      tree_ids child = [''b''] \<and> hangs_under (Some ''a'') child) \<and>
   ch_leaf_id (foldl apply_rollout_line (sample_history [])
      [session_leaf_line 0 ''s'' (Some ''a'') 1, session_leaf_line 0 ''s'' None 2]) = None \<and>
   resolve_leaf_id (foldl apply_rollout_line (sample_history [])
      [session_leaf_line 0 ''s'' (Some ''a'') 1, session_leaf_line 0 ''s'' None 2]) ps = Some ''b'' \<and>
   build_session_tree fuel (\<lambda>t. []) (sample_history [(''a'', Some ''b''), (''b'', Some ''a'')]) =
      Some ([], Some ''b'')"
proof -
  have one: "active_path_item_ids (sample_history [(''b'', None)]) = {''b''}"
    by (simp add: active_path_item_ids_def sample_rewound path_root_to_leaf_def parent_of_def)
  have two: "\<exists>entry label child. build_session_tree 2 (\<lambda>t. []) (sample_history [(''b'', None)]) =
      Some ([TreeNode entry label [child]], Some ''b'') \<and> entry_id entry = Some ''a'' \<and>
      tree_ids child = [''b''] \<and> hangs_under (Some ''a'') child"
    unfolding build_session_tree_def sample_rewound Let_def
    by (simp add: tree_defs sample_history_def sample_item_def numeral_2_eq_2)
  have three: "build_session_tree fuel (\<lambda>t. []) (sample_history [(''a'', Some ''b''), (''b'', Some ''a'')]) =
      Some ([], Some ''b'')"
    unfolding build_session_tree_def sample_rewound sample_cycle Let_def
    by (simp add: tree_defs sample_history_def sample_item_def)
  have four: "resolve_leaf_id (foldl apply_rollout_line (sample_history [])
      [session_leaf_line 0 ''s'' (Some ''a'') 1, session_leaf_line 0 ''s'' None 2]) ps = Some ''b''"
    "ch_leaf_id (foldl apply_rollout_line (sample_history [])
      [session_leaf_line 0 ''s'' (Some ''a'') 1, session_leaf_line 0 ''s'' None 2]) = None"
    by (simp_all add: session_leaf_line_def session_marker_def sample_defs)
  show ?thesis using one two three four by blast
qed

end
