(* ===== verification/Tool_Journal.thy ===== *)
theory Tool_Journal
  imports Rollout
begin

text \<open>
  The journal of a turn: the reader of its lines (\<open>core/src/durable_execution.rs\<close>), the reader of
  the output references of a session (\<open>core/src/output_replay.rs\<close>), and the journal that writes
  (\<open>server/src/runtime/turn_exec/journal.rs\<close>).

  The parser of lines is an argument, as in the readers of the history. A file is the list of its
  lines; errors of the file system abort an operation and are not part of the model.
\<close>

section \<open>Reading\<close>

datatype replay_error = ReplayLine line_error | ReplayRejected string

fun apply_line :: "string \<Rightarrow> rollout_line \<Rightarrow> execution_replay \<Rightarrow> replay_error + execution_replay" where
  "apply_line turn (LineInternal _ _ _ (Some owner) _ (Execution r)) s =
     (if owner = turn then
        (case apply_record r s of (Some e, _) \<Rightarrow> Inl (ReplayRejected e) | (None, s') \<Rightarrow> Inr s')
      else Inr s)"
| "apply_line turn (LineCompactionSnapshot _ _ _ _ _ _ _) s = Inr (s\<lparr>er_has_checkpoint := False\<rparr>)"
| "apply_line turn _ s = Inr s"

definition replay_prefilter :: "string \<Rightarrow> string \<Rightarrow> bool" where
  "replay_prefilter turn raw \<longleftrightarrow>
     (contains_str raw (json_tag ''execution'') \<and> contains_str raw turn) \<or>
     contains_str raw (json_tag ''compactionSnapshot'')"

fun replay_lines ::
  "(string \<Rightarrow> line_error + rollout_line) \<Rightarrow> string \<Rightarrow> nat option \<Rightarrow> nat \<Rightarrow> string list \<Rightarrow>
   execution_replay \<Rightarrow> replay_error + execution_replay" where
  "replay_lines parse turn checkpoint i [] s = Inr s"
| "replay_lines parse turn checkpoint i (raw # raws) s =
     (if trim raw = [] \<or> is_superseded_checkpoint_line raw i checkpoint turn \<or> \<not> replay_prefilter turn raw
      then replay_lines parse turn checkpoint (Suc i) raws s
      else
        (case parse raw of
           Inr l \<Rightarrow>
             (case apply_line turn l s of
                Inl e \<Rightarrow> Inl e
              | Inr s' \<Rightarrow> replay_lines parse turn checkpoint (Suc i) raws s')
         | Inl TruncatedTail \<Rightarrow>
             if list_all (\<lambda>x. trim x = []) raws then Inr s else Inl (ReplayLine TruncatedTail)
         | Inl e \<Rightarrow> Inl (ReplayLine e)))"

definition read_execution_replay ::
  "(string \<Rightarrow> line_error + rollout_line) \<Rightarrow> string \<Rightarrow> string list \<Rightarrow> replay_error + execution_replay" where
  "read_execution_replay parse turn raws =
     replay_lines parse turn (last_prompt_checkpoint_line turn raws) 0 raws default_replay"

text \<open>The references of a whole session: artifacts of every turn.\<close>

fun apply_reference :: "rollout_line \<Rightarrow> execution_replay \<Rightarrow> replay_error + execution_replay" where
  "apply_reference (LineInternal _ _ _ _ _ (Execution (OutputArtifacts as))) s =
     (case apply_record (OutputArtifacts as) s of
        (Some e, _) \<Rightarrow> Inl (ReplayRejected e) | (None, s') \<Rightarrow> Inr s')"
| "apply_reference _ s = Inr s"

fun reference_lines ::
  "(string \<Rightarrow> line_error + rollout_line) \<Rightarrow> string list \<Rightarrow> execution_replay \<Rightarrow> replay_error + execution_replay"
where
  "reference_lines parse [] s = Inr s"
| "reference_lines parse (raw # raws) s =
     (if trim raw = [] then reference_lines parse raws s
      else
        (case parse raw of
           Inr l \<Rightarrow>
             (case apply_reference l s of Inl e \<Rightarrow> Inl e | Inr s' \<Rightarrow> reference_lines parse raws s')
         | Inl TruncatedTail \<Rightarrow>
             if list_all (\<lambda>x. trim x = []) raws then Inr s else Inl (ReplayLine TruncatedTail)
         | Inl e \<Rightarrow> Inl (ReplayLine e)))"

definition read_output_references ::
  "(string \<Rightarrow> line_error + rollout_line) \<Rightarrow> string list \<Rightarrow> replay_error + (string \<rightharpoonup> output_artifact)" where
  "read_output_references parse raws = map_sum id er_artifacts (reference_lines parse raws default_replay)"

section \<open>Writing\<close>

text \<open>A checkpoint that only appends to the acknowledged prompt is written as the new tail.\<close>

fun encode_prompt_checkpoint :: "execution_replay \<Rightarrow> execution_record \<Rightarrow> execution_record" where
  "encode_prompt_checkpoint previous (PromptCheckpoint items counters) =
     (if length (er_items previous) \<le> length items \<and>
         take (length (er_items previous)) items = er_items previous
      then LegCheckpoint (length (er_items previous)) (drop (length (er_items previous)) items) counters
      else PromptCheckpoint items counters)"
| "encode_prompt_checkpoint previous r = r"

definition journal_line :: "string \<Rightarrow> string \<Rightarrow> timestamp \<Rightarrow> execution_record \<Rightarrow> rollout_line" where
  "journal_line session turn now r = LineInternal 2 now session (Some turn) 0 (Execution r)"

text \<open>
  A commit on the lines of the file and the replay the journal holds in memory: the replay is read
  at the first commit, and a record that changes nothing is not written.
\<close>

definition journal_commit ::
  "(rollout_line list \<Rightarrow> replay_error + execution_replay) \<Rightarrow> string \<Rightarrow> string \<Rightarrow> timestamp \<Rightarrow>
   execution_record \<Rightarrow> rollout_line list \<times> execution_replay option \<Rightarrow>
   replay_error option \<times> rollout_line list \<times> execution_replay option" where
  "journal_commit read session turn now r st =
     (case st of (file, memory) \<Rightarrow>
        (case (case memory of Some p \<Rightarrow> Inr p | None \<Rightarrow> read file) of
           Inl e \<Rightarrow> (Some e, file, None)
         | Inr previous \<Rightarrow>
             (let r' = encode_prompt_checkpoint previous r
              in case apply_record r' previous of
                   (Some e, _) \<Rightarrow> (Some (ReplayRejected e), file, Some previous)
                 | (None, updated) \<Rightarrow>
                     if updated = previous then (None, file, Some previous)
                     else (None, file @ [journal_line session turn now r'], Some updated))))"


section \<open>The fast reader agrees with the plain one\<close>

text \<open>The reader that applies every line.\<close>

fun replay_all_lines :: "string \<Rightarrow> rollout_line list \<Rightarrow> execution_replay \<Rightarrow> replay_error + execution_replay" where
  "replay_all_lines turn [] s = Inr s"
| "replay_all_lines turn (l # ls) s =
     (case apply_line turn l s of Inl e \<Rightarrow> Inl e | Inr s' \<Rightarrow> replay_all_lines turn ls s')"

fun record_of :: "string \<Rightarrow> rollout_line \<Rightarrow> execution_record option" where
  "record_of turn (LineInternal _ _ _ (Some owner) _ (Execution r)) = (if owner = turn then Some r else None)"
| "record_of turn _ = None"

fun is_snapshot :: "rollout_line \<Rightarrow> bool" where
  "is_snapshot (LineCompactionSnapshot _ _ _ _ _ _ _) = True"
| "is_snapshot _ = False"

fun checkpoint_tag :: "execution_record \<Rightarrow> string option" where
  "checkpoint_tag (PromptCheckpoint _ _) = Some ''promptCheckpoint''"
| "checkpoint_tag (LegCheckpoint _ _ _) = Some ''legCheckpoint''"
| "checkpoint_tag _ = None"

fun is_final :: "execution_record \<Rightarrow> bool" where
  "is_final (ModelCompleted _ _) = True"
| "is_final _ = False"

text \<open>
  What the reader relies on in the printed form of a line: it is not blank and parses to the line,
  a line that matters passes the prefilter, and the scan finds a checkpoint tag exactly on the
  checkpoints of the turn.
\<close>

definition faithful_line ::
  "(string \<Rightarrow> line_error + rollout_line) \<Rightarrow> (rollout_line \<Rightarrow> string) \<Rightarrow> string \<Rightarrow> rollout_line \<Rightarrow> bool" where
  "faithful_line parse print turn l \<longleftrightarrow>
     parse (print l) = Inr l \<and> trim (print l) \<noteq> [] \<and>
     (record_of turn l \<noteq> None \<or> is_snapshot l \<longrightarrow> replay_prefilter turn (print l)) \<and>
     Option.bind (record_of turn l) checkpoint_tag =
       (if execution_record_variant turn (print l) \<in> {Some ''promptCheckpoint'', Some ''legCheckpoint''}
        then execution_record_variant turn (print l) else None)"

text \<open>What a crash may leave behind the last complete line.\<close>

definition torn_tail :: "(string \<Rightarrow> line_error + rollout_line) \<Rightarrow> string \<Rightarrow> string list \<Rightarrow> bool" where
  "torn_tail parse turn tail \<longleftrightarrow>
     length tail \<le> 1 \<and> (\<forall>t\<in>set tail. parse t = Inl TruncatedTail \<and> \<not> is_balanced_json_line t)"

lemma apply_line_cases:
  "apply_line turn l s =
     (case record_of turn l of
        Some r \<Rightarrow> (case apply_record r s of (Some e, _) \<Rightarrow> Inl (ReplayRejected e) | (None, s') \<Rightarrow> Inr s')
      | None \<Rightarrow> Inr (if is_snapshot l then s\<lparr>er_has_checkpoint := False\<rparr> else s))"
proof (cases l)
  case (LineInternal v t ses owner q entry)
  then show ?thesis by (cases owner; cases entry) auto
qed auto


text \<open>Replays that differ at most in what a full checkpoint replaces.\<close>

definition same_facts :: "execution_replay \<Rightarrow> execution_replay \<Rightarrow> bool" where
  "same_facts s g \<longleftrightarrow> er_artifacts g = er_artifacts s \<and> er_completed g = er_completed s \<and>
     er_stop_reason g = er_stop_reason s \<and> er_recovery g = er_recovery s \<and> er_committed g = er_committed s"

definition finals :: "string \<Rightarrow> rollout_line list \<Rightarrow> nat" where
  "finals turn ls = length (filter is_final (List.map_filter (record_of turn) ls))"

lemma finals_simps [simp]:
  "finals turn [] = 0"
  "finals turn (l # ls) =
     (case record_of turn l of Some r \<Rightarrow> if is_final r then 1 else 0 | None \<Rightarrow> 0) + finals turn ls"
  "finals turn (ls @ ks) = finals turn ls + finals turn ks"
  by (simp_all add: finals_def List.map_filter_def split: option.split)

lemma commit_entry_facts [simp]:
  "er_artifacts (commit_entry e s) = er_artifacts s" "er_completed (commit_entry e s) = er_completed s"
  "er_stop_reason (commit_entry e s) = er_stop_reason s" "er_recovery (commit_entry e s) = er_recovery s"
  "er_counters (commit_entry e s) = er_counters s" "er_has_checkpoint (commit_entry e s) = er_has_checkpoint s"
  "er_committed (commit_entry e s) = (er_committed s)(fst e \<mapsto> snd e)"
  by (simp_all add: commit_entry_def)

lemma commit_entries_facts [simp]:
  "er_artifacts (fold commit_entry es s) = er_artifacts s"
  "er_completed (fold commit_entry es s) = er_completed s"
  "er_stop_reason (fold commit_entry es s) = er_stop_reason s"
  "er_recovery (fold commit_entry es s) = er_recovery s"
  by (induction es arbitrary: s) simp_all

lemma commit_entries_committed:
  "er_committed s = er_committed g \<Longrightarrow> er_committed (fold commit_entry es s) = er_committed (fold commit_entry es g)"
  by (induction es arbitrary: s g) simp_all

lemma same_facts_batch:
  assumes "apply_batch k xs s = (None, t)" "same_facts s g"
  shows "\<exists>t'. apply_batch k xs g = (None, t') \<and> same_facts t t'"
proof -
  obtain es where es: "accept_batch k (er_committed s) [] xs = Inr es" "t = fold commit_entry es s"
    using assms(1) by (auto simp: apply_batch_def split: sum.splits)
  then show ?thesis using assms(2) commit_entries_committed [of g s es]
    by (auto simp: apply_batch_def same_facts_def)
qed

lemma same_facts_record:
  assumes "apply_record r s = (None, t)" "same_facts s g"
    and "checkpoint_tag r = None" "is_final r \<longrightarrow> \<not> er_completed s"
  shows "\<exists>t'. apply_record r g = (None, t') \<and> same_facts t t'"
  using assms same_facts_batch
  by (cases r) (auto simp: same_facts_def split: if_splits option.splits)

lemma completed_record:
  "apply_record r s = (None, t) \<Longrightarrow> er_completed t \<longleftrightarrow> er_completed s \<or> is_final r"
  by (cases r) (auto simp: apply_batch_def split: if_splits option.splits sum.splits)

lemma same_facts_line:
  assumes "apply_line turn l s = Inr t" "same_facts s g"
    and "Option.bind (record_of turn l) checkpoint_tag = None"
    and "finals turn [l] = 0 \<or> \<not> er_completed s"
  shows "\<exists>t'. apply_line turn l g = Inr t' \<and> same_facts t t'"
proof (cases "record_of turn l")
  case None
  then show ?thesis using assms(1,2) by (auto simp: apply_line_cases same_facts_def split: if_splits)
next
  case (Some r)
  then have "apply_record r s = (None, t)"
    using assms(1) by (auto simp: apply_line_cases split: option.splits prod.splits)
  moreover have "is_final r \<longrightarrow> \<not> er_completed s" using assms(4) Some by (auto split: if_splits)
  ultimately obtain t' where "apply_record r g = (None, t')" "same_facts t t'"
    using same_facts_record assms(2,3) Some by fastforce
  then show ?thesis using Some by (auto simp: apply_line_cases)
qed

lemma completed_line:
  "apply_line turn l s = Inr t \<Longrightarrow> er_completed t \<longleftrightarrow> er_completed s \<or> finals turn [l] > 0"
  using completed_record by (auto simp: apply_line_cases split: option.splits prod.splits if_splits)

text \<open>A checkpoint forgets where the replays differ.\<close>

lemma checkpoint_joins:
  assumes "apply_line turn l s = Inr t" "same_facts s g"
    and "Option.bind (record_of turn l) checkpoint_tag = Some ''promptCheckpoint''"
  shows "apply_line turn l g = Inr t"
proof -
  obtain r where r: "record_of turn l = Some r" "checkpoint_tag r = Some ''promptCheckpoint''"
    using assms(3) by (cases "record_of turn l") auto
  then obtain items counters where "r = PromptCheckpoint items counters" by (cases r) auto
  then show ?thesis using assms(1,2) r(1) by (auto simp: apply_line_cases same_facts_def)
qed

lemma skipped_line:
  assumes "same_facts s g" "apply_line turn l s = Inr t" "Option.bind (record_of turn l) checkpoint_tag \<noteq> None"
  shows "same_facts t g"
proof -
  obtain r where r: "record_of turn l = Some r" "checkpoint_tag r \<noteq> None"
    using assms(3) by (cases "record_of turn l") auto
  then show ?thesis using assms(1,2)
    by (cases r) (auto simp: apply_line_cases same_facts_def split: if_splits)
qed

text \<open>From the last checkpoint on nothing is skipped that matters.\<close>

lemma replay_after_checkpoint:
  assumes "replay_all_lines turn ls s = Inr t" "\<forall>l\<in>set ls. faithful_line parse print turn l"
    and "torn_tail parse turn tail" "\<forall>k. checkpoint = Some k \<longrightarrow> k \<le> i"
  shows "replay_lines parse turn checkpoint i (map print ls @ tail) s = Inr t"
  using assms
proof (induction ls arbitrary: i s)
  case Nil
  then show ?case
    by (cases tail) (auto simp: torn_tail_def split: sum.splits)
next
  case (Cons l ls)
  obtain s' where s': "apply_line turn l s = Inr s'" "replay_all_lines turn ls s' = Inr t"
    using Cons.prems(1) by (auto split: sum.splits)
  have f: "faithful_line parse print turn l" using Cons.prems(2) by simp
  have rest: "replay_lines parse turn checkpoint (Suc i) (map print ls @ tail) s' = Inr t"
    using Cons.prems(2-) by (intro Cons.IH s'(2)) (auto dest!: le_SucI)
  have old: "\<not> is_superseded_checkpoint_line (print l) i checkpoint turn"
    using Cons.prems(4) by (auto simp: is_superseded_checkpoint_line_def split: option.splits)
  show ?case
  proof (cases "replay_prefilter turn (print l)")
    case True
    then show ?thesis using f old s'(1) rest by (simp add: faithful_line_def)
  next
    case False
    then have "s' = s" using f s'(1) by (simp add: faithful_line_def apply_line_cases)
    then show ?thesis using False rest by simp
  qed
qed

lemma replay_before_checkpoint:
  assumes "replay_all_lines turn ls s = Inr t" "\<forall>l\<in>set ls. faithful_line parse print turn l"
    and "same_facts s g" "finals turn ls + (if er_completed s then 1 else 0) \<le> 1" "i + length ls \<le> k"
  shows "\<exists>g'. replay_lines parse turn (Some k) i (map print ls @ rest) g =
      replay_lines parse turn (Some k) (i + length ls) rest g' \<and> same_facts t g'"
  using assms
proof (induction ls arbitrary: i s g)
  case (Cons l ls)
  obtain s' where s': "apply_line turn l s = Inr s'" "replay_all_lines turn ls s' = Inr t"
    using Cons.prems(1) by (auto split: sum.splits)
  have f: "faithful_line parse print turn l" using Cons.prems(2) by simp
  have one: "finals turn [l] = 0 \<or> \<not> er_completed s"
    and one': "finals turn ls + (if er_completed s' then 1 else 0) \<le> 1"
    using Cons.prems(4) completed_line [OF s'(1)] by (auto split: if_splits option.splits)
  have step: "\<exists>g'. replay_lines parse turn (Some k) (Suc i) (map print ls @ rest) g0 =
      replay_lines parse turn (Some k) (i + length (l # ls)) rest g' \<and> same_facts t g'"
    if "same_facts s' g0" for g0
    using Cons.IH [OF s'(2) _ that one', of "Suc i"] Cons.prems(2,5) by simp
  show ?case
  proof (cases "is_superseded_checkpoint_line (print l) i (Some k) turn")
    case True
    then have "Option.bind (record_of turn l) checkpoint_tag \<noteq> None"
      using f by (auto simp: faithful_line_def is_superseded_checkpoint_line_def)
    then have "same_facts s' g" using skipped_line [OF Cons.prems(3) s'(1)] by simp
    then show ?thesis using step True by simp
  next
    case False
    then have plain: "Option.bind (record_of turn l) checkpoint_tag = None"
      using f Cons.prems(5) by (auto simp: faithful_line_def is_superseded_checkpoint_line_def)
    obtain g0 where g0: "apply_line turn l g = Inr g0" "same_facts s' g0"
      using same_facts_line [OF s'(1) Cons.prems(3) plain one] by blast
    show ?thesis
    proof (cases "replay_prefilter turn (print l)")
      case True
      then show ?thesis using f False g0(1) step [OF g0(2)] by (simp add: faithful_line_def)
    next
      case filtered: False
      then have "g0 = g" using f g0(1) by (simp add: faithful_line_def apply_line_cases)
      then show ?thesis using filtered step [OF g0(2)] by simp
    qed
  qed
qed (auto simp: exI)


lemma last_checkpoint_Some:
  "last_checkpoint_from turn i found raws = Some k \<Longrightarrow>
   found = Some k \<or> (i \<le> k \<and> k < i + length raws \<and>
     execution_record_variant turn (raws ! (k - i)) = Some ''promptCheckpoint'' \<and>
     is_balanced_json_line (raws ! (k - i)))"
proof (induction raws arbitrary: i found)
  case (Cons raw raws)
  show ?case
    using Cons.IH [of "Suc i"] Cons.prems
    by (fastforce simp: nth_Cons' Suc_diff_le split: if_splits)
qed simp

lemma apply_lines_append:
  "replay_all_lines turn (ls @ ks) s =
     (case replay_all_lines turn ls s of Inl e \<Rightarrow> Inl e | Inr s' \<Rightarrow> replay_all_lines turn ks s')"
  by (induction ls arbitrary: s) (simp_all split: sum.split)

lemma fast_reader_agrees:
  assumes full: "replay_all_lines turn ls default_replay = Inr t"
    and faithful: "\<forall>l\<in>set ls. faithful_line parse print turn l"
    and tail: "torn_tail parse turn tail" and one: "finals turn ls \<le> 1"
  shows "read_execution_replay parse turn (map print ls @ tail) = Inr t"
proof (cases "last_prompt_checkpoint_line turn (map print ls @ tail)")
  case None
  then show ?thesis using replay_after_checkpoint [OF full faithful tail] by (simp add: read_execution_replay_def)
next
  case (Some k)
  let ?raws = "map print ls @ tail"
  have k: "k < length ?raws" "execution_record_variant turn (?raws ! k) = Some ''promptCheckpoint''"
    "is_balanced_json_line (?raws ! k)"
    using last_checkpoint_Some [of turn 0 None ?raws k] Some by (simp_all add: last_prompt_checkpoint_line_def)
  have "k < length ls"
    using k(1,3) tail by (cases tail) (auto simp: torn_tail_def nth_append less_Suc_eq split: if_splits)
  then obtain pre x post where ls: "ls = pre @ x # post" "length pre = k" by (metis id_take_nth_drop length_take min.absorb4)
  have "?raws ! k = print x" by (simp add: ls nth_append flip: ls(2))
  then have x: "Option.bind (record_of turn x) checkpoint_tag = Some ''promptCheckpoint''"
    "faithful_line parse print turn x"
    using k(2) faithful by (auto simp: ls faithful_line_def)
  then have pf: "replay_prefilter turn (print x)" by (cases "record_of turn x") (auto simp: faithful_line_def)
  obtain s s' where s: "replay_all_lines turn pre default_replay = Inr s" "apply_line turn x s = Inr s'"
    "replay_all_lines turn post s' = Inr t"
    using full by (auto simp: ls(1) apply_lines_append split: sum.splits)
  have "same_facts default_replay default_replay" by (simp add: same_facts_def)
  from replay_before_checkpoint [OF s(1) _ this, of parse print 0 k "print x # map print post @ tail"]
  obtain g where g: "read_execution_replay parse turn ?raws =
      replay_lines parse turn (Some k) k (print x # map print post @ tail) g" "same_facts s g"
    using faithful one ls Some
    by (auto simp: read_execution_replay_def default_replay_def split: option.splits)
  have "apply_line turn x g = Inr s'" by (rule checkpoint_joins [OF s(2) g(2) x(1)])
  moreover have "replay_lines parse turn (Some k) (Suc k) (map print post @ tail) s' = Inr t"
    using faithful by (intro replay_after_checkpoint [OF s(3) _ tail]) (simp_all add: ls(1))
  ultimately show ?thesis
    using g(1) x(2) pf by (simp add: faithful_line_def is_superseded_checkpoint_line_def)
qed

section \<open>The file holds what was acknowledged\<close>

datatype journal_step = Commit timestamp execution_record | OtherLine rollout_line | Restart

text \<open>The lines of the file, the replay in memory, and the records whose commit succeeded.\<close>

fun run_journal ::
  "(rollout_line list \<Rightarrow> replay_error + execution_replay) \<Rightarrow> string \<Rightarrow> string \<Rightarrow>
   rollout_line list \<times> execution_replay option \<times> execution_record list \<Rightarrow> journal_step \<Rightarrow>
   rollout_line list \<times> execution_replay option \<times> execution_record list" where
  "run_journal read session turn (file, memory, acked) (Commit now r) =
     (case journal_commit read session turn now r (file, memory) of (err, file', memory') \<Rightarrow>
        (file', memory', if err = None then acked @ [r] else acked))"
| "run_journal read session turn (file, memory, acked) (OtherLine l) =
     (if record_of turn l = None \<and> \<not> is_snapshot l then file @ [l] else file, memory, acked)"
| "run_journal read session turn (file, memory, acked) Restart = (file, None, acked)"

definition acknowledged :: "execution_record list \<Rightarrow> execution_replay" where
  "acknowledged acked = foldl (\<lambda>s r. snd (apply_record r s)) default_replay acked"

lemma encode_same:
  "apply_record (encode_prompt_checkpoint s r) s = apply_record r s"
  by (cases r) (auto simp: append_eq_conv_conj dest: sym)

lemma encode_final [simp]: "is_final (encode_prompt_checkpoint s r) = is_final r"
  by (cases r) auto

lemma final_once: "\<lbrakk>apply_record r s = (None, t); is_final r; er_completed s\<rbrakk> \<Longrightarrow> t = s"
  by (cases r) (auto split: if_splits)

definition journal_ok ::
  "string \<Rightarrow> rollout_line list \<times> execution_replay option \<times> execution_record list \<Rightarrow> bool" where
  "journal_ok turn st \<longleftrightarrow> (case st of (file, memory, acked) \<Rightarrow>
     replay_all_lines turn file default_replay = Inr (acknowledged acked) \<and>
     finals turn file = (if er_completed (acknowledged acked) then 1 else 0) \<and>
     (memory = None \<or> memory = Some (acknowledged acked)))"

lemma journal_ok_commit:
  assumes ok: "journal_ok turn (file, memory, acked)"
    and read: "read file = Inr (acknowledged acked)"
  shows "journal_ok turn (run_journal read session turn (file, memory, acked) (Commit now r))"
proof -
  let ?s = "acknowledged acked" and ?r = "encode_prompt_checkpoint (acknowledged acked) r"
  have prev: "(case memory of Some p \<Rightarrow> Inr p | None \<Rightarrow> read file) = Inr ?s"
    using ok read by (auto simp: journal_ok_def)
  have rec: "record_of turn (journal_line session turn now ?r) = Some ?r" by (simp add: journal_line_def)
  show ?thesis
  proof (cases "apply_record r ?s")
    case (Pair err t)
    then have enc: "apply_record ?r ?s = (err, t)" by (simp add: encode_same)
    have next_ack: "acknowledged (acked @ [r]) = t" using Pair by (simp add: acknowledged_def)
    show ?thesis
    proof (cases "err = None \<and> t \<noteq> ?s")
      case True
      then have "is_final r \<longrightarrow> \<not> er_completed ?s" using final_once Pair by blast
      moreover have "er_completed t \<longleftrightarrow> er_completed ?s \<or> is_final r" using completed_record Pair True by blast
      ultimately show ?thesis using ok True prev enc next_ack rec
        by (auto simp: journal_ok_def journal_commit_def Let_def apply_lines_append apply_line_cases)
    next
      case False
      then show ?thesis using ok prev enc next_ack
        by (auto simp: journal_ok_def journal_commit_def Let_def split: option.split)
    qed
  qed
qed

lemma run_journal_grows:
  "set ls \<subseteq> set (fst (foldl (run_journal read session turn) (ls, memory, acked) steps))"
proof (induction steps arbitrary: ls memory acked)
  case (Cons x steps)
  obtain f' m' a' where st: "run_journal read session turn (ls, memory, acked) x = (f', m', a')"
    by (cases "run_journal read session turn (ls, memory, acked) x") auto
  then have "set ls \<subseteq> set f'"
    by (cases x) (auto simp: journal_commit_def Let_def split: sum.splits prod.splits option.splits if_splits)
  then show ?case using Cons.IH [of f' m' a'] st by auto
qed simp

lemma journal_ok_run:
  assumes "journal_ok turn (ls, memory, acked)"
    and "\<forall>l\<in>set (fst (foldl (run_journal read session turn) (ls, memory, acked) steps)).
      faithful_line parse print turn l"
    and "read = (\<lambda>ls. read_execution_replay parse turn (map print ls))"
  shows "journal_ok turn (foldl (run_journal read session turn) (ls, memory, acked) steps)"
  using assms(1,2)
proof (induction steps arbitrary: ls memory acked)
  case (Cons x steps)
  have faithful: "\<forall>l\<in>set ls. faithful_line parse print turn l"
    using Cons.prems(2) run_journal_grows [of ls read session turn memory acked "x # steps"] by blast
  have "read ls = Inr (acknowledged acked)"
    using fast_reader_agrees [of turn ls "acknowledged acked" parse print "[]"] Cons.prems(1) faithful
    by (auto simp: assms(3) journal_ok_def torn_tail_def split: if_splits)
  then have "journal_ok turn (run_journal read session turn (ls, memory, acked) x)"
    using Cons.prems(1) journal_ok_commit
    by (cases x) (auto simp: journal_ok_def apply_lines_append apply_line_cases)
  then show ?case using Cons.IH Cons.prems(2) by (cases "run_journal read session turn (ls, memory, acked) x") auto
qed simp



definition raw_execution :: "string \<Rightarrow> string" where
  "raw_execution tag =
     ''{\"turnId\":\"t1\",\"entry\":{\"type\":\"execution\",\"record\":{\"type\":\"'' @ tag @ ''\"}}}''"

definition call_a :: "json response_item" where "call_a = ToolCall ''a'' ''shell'' JNull"
definition output_a :: "json response_item" where "output_a = ToolCallOutput ''a'' ''ok'' False"

definition sample_commits :: "journal_step list" where
  "sample_commits =
     [Commit 0 (IntentBatch [call_a]), Commit 0 (PromptCheckpoint [call_a, output_a] None), Restart,
      Commit 0 (IntentBatch [call_a]), Commit 0 (PromptCheckpoint [output_a] None)]"

definition sample_lines :: "rollout_line list" where
  "sample_lines =
     [journal_line ''s'' ''t1'' 0 (IntentBatch [call_a]),
      journal_line ''s'' ''t1'' 0 (LegCheckpoint 1 [output_a] None),
      journal_line ''s'' ''t1'' 0 (PromptCheckpoint [output_a] None)]"

definition sample_print :: "rollout_line \<Rightarrow> string" where
  "sample_print l = raw_execution (case record_of ''t1'' l of
     Some (IntentBatch _) \<Rightarrow> ''intentBatch'' | Some (LegCheckpoint _ _ _) \<Rightarrow> ''legCheckpoint''
   | _ \<Rightarrow> ''promptCheckpoint'')"

definition sample_line_parse :: "string \<Rightarrow> line_error + rollout_line" where
  "sample_line_parse raw =
     (case find (\<lambda>l. sample_print l = raw) sample_lines of Some l \<Rightarrow> Inr l | None \<Rightarrow> Inl TruncatedTail)"

lemmas scan_defs = execution_record_variant_def turn_field_def entry_field_def execution_prefix_def
  type_prefix_def quote_def starts_with_def replay_prefilter_def contains_str_def json_tag_def
  raw_execution_def

lemma sample_variant:
  "execution_record_variant ''t1'' (raw_execution ''intentBatch'') = Some ''intentBatch''"
  "execution_record_variant ''t1'' (raw_execution ''legCheckpoint'') = Some ''legCheckpoint''"
  "execution_record_variant ''t1'' (raw_execution ''promptCheckpoint'') = Some ''promptCheckpoint''"
  by (simp_all add: scan_defs)

lemma sample_filter:
  "replay_prefilter ''t1'' (raw_execution ''intentBatch'')"
  "replay_prefilter ''t1'' (raw_execution ''legCheckpoint'')"
  "replay_prefilter ''t1'' (raw_execution ''promptCheckpoint'')"
  by (simp_all add: scan_defs)

lemma raw_execution_simps [simp]:
  "trim (raw_execution x) \<noteq> []" "raw_execution x = raw_execution y \<longleftrightarrow> x = y"
  using trim_blank [of "raw_execution x" "CHR ''{''"] by (auto simp: raw_execution_def is_ws_def)

lemma sample_faithful: "\<forall>l\<in>set sample_lines. faithful_line sample_line_parse sample_print ''t1'' l"
  by (simp add: sample_lines_def faithful_line_def sample_line_parse_def sample_print_def journal_line_def
      sample_variant sample_filter)


lemma sample_run:
  assumes "read [] = Inr default_replay"
    and "read (take 2 sample_lines) = replay_all_lines ''t1'' (take 2 sample_lines) default_replay"
  shows "fst (foldl (run_journal read ''s'' ''t1'') ([], None, []) sample_commits) = sample_lines"
    "length (snd (snd (foldl (run_journal read ''s'' ''t1'') ([], None, []) sample_commits))) = 4"
  using assms
  by (simp_all add: sample_commits_def sample_lines_def journal_commit_def Let_def default_replay_def
      journal_line_def apply_batch_def commit_entry_def call_a_def output_a_def or_else_def)

lemma sample_reads:
  "read_execution_replay sample_line_parse ''t1'' [] = Inr default_replay"
  "read_execution_replay sample_line_parse ''t1'' (map sample_print (take 2 sample_lines)) =
     replay_all_lines ''t1'' (take 2 sample_lines) default_replay"
proof -
  show "read_execution_replay sample_line_parse ''t1'' [] = Inr default_replay"
    by (simp add: read_execution_replay_def)
  obtain t where t: "replay_all_lines ''t1'' (take 2 sample_lines) default_replay = Inr t"
    by (simp add: sample_lines_def journal_line_def apply_batch_def call_a_def or_else_def
        commit_entry_def default_replay_def)
  have "\<forall>l\<in>set (take 2 sample_lines). faithful_line sample_line_parse sample_print ''t1'' l"
    using sample_faithful by (meson in_set_takeD)
  from fast_reader_agrees [OF t this, of "[]"] t
  show "read_execution_replay sample_line_parse ''t1'' (map sample_print (take 2 sample_lines)) =
     replay_all_lines ''t1'' (take 2 sample_lines) default_replay"
    by (simp add: torn_tail_def sample_lines_def journal_line_def)
qed


section \<open>Where the replay falls short\<close>

text \<open>
  A tool call may carry any object as its input. One that looks like the entry of a checkpoint
  makes the line of the call pass for the last full checkpoint of the turn: every checkpoint
  before it is skipped, and a later delta no longer fits.
\<close>

definition forged_call :: string where
  "forged_call =
     ''{\"item\":{\"turnId\":\"t1\",\"item\":{\"type\":\"toolCall\",\"input\":{\"entry\":{\"type\":\"execution\",\"record\":{\"type\":\"promptCheckpoint\"}}}}}}''"

lemma forged_checkpoint_loses_the_turn:
  assumes "parse (raw_execution ''promptCheckpoint'') = Inr (journal_line ''s'' ''t1'' 0 (PromptCheckpoint [call_a, output_a] None))"
    and "parse (raw_execution ''legCheckpoint'') = Inr (journal_line ''s'' ''t1'' 0 (LegCheckpoint 2 [call_a] None))"
    and "parse forged_call = Inr (LineItem 2 0 env)"
  shows "read_execution_replay parse ''t1'' [raw_execution ''promptCheckpoint'', forged_call] = Inr default_replay"
    and "read_execution_replay parse ''t1''
        [raw_execution ''promptCheckpoint'', forged_call, raw_execution ''legCheckpoint''] =
      Inl (ReplayRejected ''leg checkpoint base exceeds replay length'')"
proof -
  have forged: "execution_record_variant ''t1'' forged_call = Some ''promptCheckpoint''"
    "is_balanced_json_line forged_call" "replay_prefilter ''t1'' forged_call" "trim forged_call \<noteq> []"
    using trim_blank [of forged_call "CHR ''{''"]
    by (auto simp: scan_defs forged_call_def is_balanced_json_line_def is_ws_def)
  have checkpoint: "last_prompt_checkpoint_line ''t1'' (raw_execution ''promptCheckpoint'' # forged_call # rest) =
      last_checkpoint_from ''t1'' 2 (Some 1) rest" for rest
    by (simp add: last_prompt_checkpoint_line_def forged numeral_2_eq_2)
  show "read_execution_replay parse ''t1'' [raw_execution ''promptCheckpoint'', forged_call] = Inr default_replay"
    using assms by (simp add: read_execution_replay_def checkpoint is_superseded_checkpoint_line_def
        sample_variant sample_filter forged)
  show "read_execution_replay parse ''t1''
        [raw_execution ''promptCheckpoint'', forged_call, raw_execution ''legCheckpoint''] =
      Inl (ReplayRejected ''leg checkpoint base exceeds replay length'')"
    using assms by (simp add: read_execution_replay_def checkpoint is_superseded_checkpoint_line_def
        sample_variant sample_filter forged journal_line_def default_replay_def)
qed

text \<open>A refused delta leaves the counters changed; every other refusal leaves the replay alone.\<close>

lemma refusal_keeps_replay:
  "apply_record r s = (Some e, t) \<Longrightarrow>
   t = (case r of LegCheckpoint _ _ counters \<Rightarrow> s\<lparr>er_counters := counters\<rparr> | _ \<Rightarrow> s)"
  by (cases r) (auto simp: apply_batch_def split: if_splits option.splits sum.splits)

end
