(* ===== verification/Turn_Recovery.thy ===== *)
theory Turn_Recovery
  imports Tool_Journal
begin

text \<open>
  The recovery of an unfinished turn (\<open>server/src/runtime/turn_exec/recovery.rs\<close>): which turn can be
  resumed, and the decisions to cancel it, to offer it again or to resume it, with the
  idempotency of the resume request.

  The world holds what the handlers read: whether a turn runs, the latest turn of the session, the
  replay of each turn's journal and the results remembered by request key. Every handler runs
  under the recovery gate of its session, so it is one step; \<open>Tool_Journal\<close> relates a replay to
  the file. Persisting the line of the turn and spawning the run are not modelled.
\<close>

section \<open>The world\<close>

datatype run_status = RunInProgress | RunWaitingApproval | RunCompleted | RunInterrupted | RunFailed

datatype run_kind = RunRegular | RunCompaction | RunGoalContinuation

record latest_turn =
  lt_id :: string
  lt_status :: run_status
  lt_kind :: run_kind
  lt_max_requests :: bool

record saved_recovery =
  sv_turn :: latest_turn
  sv_revision :: nat
  sv_attempt :: nat
  sv_reason :: string
  sv_execution :: execution_replay

record recovery_world =
  rw_active :: bool
  rw_latest :: "latest_turn option"
  rw_replay :: "string \<Rightarrow> execution_replay"
  rw_results :: "string \<rightharpoonup> string \<times> nat"

section \<open>Decisions\<close>

definition is_canceled :: "recovery_state option \<Rightarrow> bool" where
  "is_canceled r \<longleftrightarrow> (case r of None \<Rightarrow> False | Some s \<Rightarrow> rv_disposition s = Canceled)"

definition saved_turn :: "recovery_world \<Rightarrow> saved_recovery option" where
  "saved_turn w =
     (if rw_active w then None
      else
        (case rw_latest w of
           None \<Rightarrow> None
         | Some t \<Rightarrow>
             if lt_status t \<in> {RunCompleted, RunWaitingApproval} \<or> lt_kind t = RunCompaction \<or>
                lt_max_requests t then None
             else
               (let execution = rw_replay w (lt_id t); recovery = er_recovery execution in
                if is_canceled recovery then None
                else if lt_status t = RunInterrupted \<and> recovery = None then None
                else
                  (case recovery of
                     None \<Rightarrow> Some \<lparr>sv_turn = t, sv_revision = 1, sv_attempt = 0,
                                   sv_reason = ''Execution ended unexpectedly.'', sv_execution = execution\<rparr>
                   | Some s \<Rightarrow> Some \<lparr>sv_turn = t, sv_revision = rv_revision s, sv_attempt = rv_attempt s,
                                     sv_reason = rv_reason s, sv_execution = execution\<rparr>))))"

text \<open>A commit to the journal of a turn, on what the journal's file is read as.\<close>

definition commit_to :: "string \<Rightarrow> execution_record \<Rightarrow> recovery_world \<Rightarrow> string option \<times> recovery_world" where
  "commit_to turn r w =
     (case apply_record (encode_prompt_checkpoint (rw_replay w turn) r) (rw_replay w turn) of
        (Some e, _) \<Rightarrow> (Some e, w)
      | (None, updated) \<Rightarrow> (None, w\<lparr>rw_replay := (rw_replay w)(turn := updated)\<rparr>))"

definition cancel_saved_turn :: "recovery_world \<Rightarrow> (string + bool) \<times> recovery_world" where
  "cancel_saved_turn w =
     (case saved_turn w of
        None \<Rightarrow> (Inr False, w)
      | Some saved \<Rightarrow>
          (case commit_to (lt_id (sv_turn saved))
              (Recovery \<lparr>rv_revision = sv_revision saved + 1, rv_attempt = sv_attempt saved,
                         rv_disposition = Canceled, rv_reason = ''Canceled by user.'', rv_key = None\<rparr>) w of
             (Some e, w') \<Rightarrow> (Inl e, w')
           | (None, w') \<Rightarrow>
               (Inr True, w'\<lparr>rw_latest := Some ((sv_turn saved)\<lparr>lt_status := RunInterrupted\<rparr>)\<rparr>)))"

definition persist_recovery_disposition ::
  "string \<Rightarrow> recovery_disposition \<Rightarrow> string \<Rightarrow> recovery_world \<Rightarrow> string option \<times> recovery_world" where
  "persist_recovery_disposition turn disposition reason w =
     (let previous = er_recovery (rw_replay w turn) in
      if is_canceled previous then (None, w)
      else commit_to turn
        (Recovery \<lparr>rv_revision = (case previous of None \<Rightarrow> 1 | Some s \<Rightarrow> rv_revision s + 1),
                   rv_attempt = (case previous of None \<Rightarrow> 0 | Some s \<Rightarrow> rv_attempt s),
                   rv_disposition = disposition, rv_reason = reason, rv_key = None\<rparr>) w)"

definition materialize_abandoned :: "recovery_world \<Rightarrow> string option \<times> recovery_world" where
  "materialize_abandoned w =
     (case saved_turn w of
        None \<Rightarrow> (None, w)
      | Some saved \<Rightarrow>
          if er_recovery (sv_execution saved) \<noteq> None then (None, w)
          else persist_recovery_disposition (lt_id (sv_turn saved)) Available
                 ''Execution was lost while the application was not running.'' w)"

text \<open>
  The result is the turn and the number of the attempt; \<open>claimed\<close> is what the registry of active
  turns answers.
\<close>

definition resume_saved_turn ::
  "bool \<Rightarrow> string \<Rightarrow> string \<Rightarrow> nat \<Rightarrow> recovery_world \<Rightarrow> (string + string \<times> nat) \<times> recovery_world" where
  "resume_saved_turn claimed key expected revision w =
     (if trim key = [] then (Inl ''idempotency key is required'', w)
      else
        (case rw_results w key of
           Some (turn, attempt) \<Rightarrow>
             if turn = expected then (Inr (turn, attempt), w)
             else (Inl ''idempotency key conflicts with another turn'', w)
         | None \<Rightarrow>
             (case saved_turn w of
                None \<Rightarrow> (Inl ''turn is not recoverable or is already running'', w)
              | Some saved \<Rightarrow>
                  if lt_id (sv_turn saved) \<noteq> expected \<or> sv_revision saved \<noteq> revision
                  then (Inl ''recovery state changed; refresh the session'', w)
                  else if \<not> claimed then (Inl ''turn already active'', w)
                  else
                    (let turn = lt_id (sv_turn saved); attempt = sv_attempt saved + 1 in
                     case commit_to turn (Outcomes (interrupted_outcomes (sv_execution saved))) w of
                       (Some e, w1) \<Rightarrow> (Inl e, w1)
                     | (None, w1) \<Rightarrow>
                         (case commit_to turn
                             (Recovery \<lparr>rv_revision = sv_revision saved + 1, rv_attempt = attempt,
                                rv_disposition = Resuming,
                                rv_reason = ''Previous execution ended unexpectedly.'',
                                rv_key = Some key\<rparr>) w1 of
                            (Some e, w2) \<Rightarrow> (Inl e, w2)
                          | (None, w2) \<Rightarrow>
                              (Inr (turn, attempt),
                               w2\<lparr>rw_active := True,
                                  rw_latest := Some ((sv_turn saved)\<lparr>lt_status := RunInProgress,
                                                                     lt_max_requests := False\<rparr>),
                                  rw_results := (rw_results w2)(key \<mapsto> (turn, attempt))\<rparr>))))))"

text \<open>
  The messages a resumed turn starts from: the items of the last checkpoint and the outcomes of the
  calls that were cut off, or nothing when there is no checkpoint.
\<close>

definition restored_items :: "saved_recovery \<Rightarrow> json response_item list option" where
  "restored_items saved =
     (if er_has_checkpoint (sv_execution saved)
      then Some (er_items (sv_execution saved) @ interrupted_outcomes (sv_execution saved)) else None)"


section \<open>Attempts are counted\<close>

datatype recovery_step =
    CancelStep
  | PersistStep string recovery_disposition string
  | MaterializeStep
  | ResumeStep bool string string nat
  | RecordStep string execution_record
  | StartStep string run_kind
  | EndStep run_status bool

fun not_recovery :: "execution_record \<Rightarrow> bool" where
  "not_recovery (Recovery _) = False"
| "not_recovery _ = True"

text \<open>
  One step; the list collects the attempts that were started. The journal of a turn commits any
  other record, a new turn becomes the latest one, and a running turn ends with some status.
\<close>

fun recovery_next :: "recovery_world \<times> (string \<times> nat) list \<Rightarrow> recovery_step \<Rightarrow> recovery_world \<times> (string \<times> nat) list" where
  "recovery_next (w, started) CancelStep = (snd (cancel_saved_turn w), started)"
| "recovery_next (w, started) (PersistStep turn d reason) =
     (snd (persist_recovery_disposition turn d reason w), started)"
| "recovery_next (w, started) MaterializeStep = (snd (materialize_abandoned w), started)"
| "recovery_next (w, started) (ResumeStep claimed key expected revision) =
     (case resume_saved_turn claimed key expected revision w of
        (Inl _, w') \<Rightarrow> (w', started)
      | (Inr r, w') \<Rightarrow> (w', if rw_results w key = None then started @ [r] else started))"
| "recovery_next (w, started) (RecordStep turn r) =
     (if not_recovery r then snd (commit_to turn r w) else w, started)"
| "recovery_next (w, started) (StartStep turn kind) =
     (w\<lparr>rw_active := True,
        rw_latest := Some \<lparr>lt_id = turn, lt_status = RunInProgress, lt_kind = kind, lt_max_requests = False\<rparr>\<rparr>,
      started)"
| "recovery_next (w, started) (EndStep status limit) =
     (w\<lparr>rw_active := False,
        rw_latest := map_option (\<lambda>t. t\<lparr>lt_status := status, lt_max_requests := limit\<rparr>) (rw_latest w)\<rparr>, started)"

definition new_world :: recovery_world where
  "new_world =
     \<lparr>rw_active = False, rw_latest = None, rw_replay = (\<lambda>_. default_replay), rw_results = Map.empty\<rparr>"

definition attempt_of :: "recovery_state option \<Rightarrow> nat" where
  "attempt_of r = (case r of None \<Rightarrow> 0 | Some s \<Rightarrow> rv_attempt s)"

definition recovery_ok :: "recovery_world \<times> (string \<times> nat) list \<Rightarrow> bool" where
  "recovery_ok s \<longleftrightarrow> (case s of (w, started) \<Rightarrow>
     (\<forall>t. map snd (filter (\<lambda>a. fst a = t) started) = [1..<Suc (attempt_of (er_recovery (rw_replay w t)))]) \<and>
     (\<forall>key t n. rw_results w key = Some (t, n) \<longrightarrow> (t, n) \<in> set started))"

lemma recovery_kept: "\<lbrakk>not_recovery r; apply_record r s = (None, t)\<rbrakk> \<Longrightarrow> er_recovery t = er_recovery s"
  by (cases r) (auto simp: apply_batch_def split: if_splits sum.splits)

lemma not_recovery_encode [simp]: "not_recovery (encode_prompt_checkpoint s r) = not_recovery r"
  by (cases r) auto

lemma commit_to_cases:
  assumes "commit_to turn r w = (err, w')"
  obtains "err \<noteq> None" "w' = w"
  | s where "err = None" "apply_record r (rw_replay w turn) = (None, s)"
      "w' = w\<lparr>rw_replay := (rw_replay w)(turn := s)\<rparr>"
  using assms by (auto simp: commit_to_def encode_same split: prod.splits option.splits)

text \<open>What a step may do to the recovery record of a turn.\<close>

lemma persist_recovery:
  assumes "persist_recovery_disposition turn d reason w = (err, w')"
  shows "rw_results w' = rw_results w" "rw_active w' = rw_active w" "rw_latest w' = rw_latest w"
    "attempt_of (er_recovery (rw_replay w' t)) = attempt_of (er_recovery (rw_replay w t))"
    "is_canceled (er_recovery (rw_replay w t)) \<Longrightarrow> er_recovery (rw_replay w' t) = er_recovery (rw_replay w t)"
  using assms
  by (auto simp: persist_recovery_disposition_def Let_def commit_to_def attempt_of_def
      split: if_splits option.splits prod.splits)


lemma materialize_recovery:
  "rw_results (snd (materialize_abandoned w)) = rw_results w"
  "attempt_of (er_recovery (rw_replay (snd (materialize_abandoned w)) t)) =
     attempt_of (er_recovery (rw_replay w t))"
  "is_canceled (er_recovery (rw_replay w t)) \<Longrightarrow>
     is_canceled (er_recovery (rw_replay (snd (materialize_abandoned w)) t))"
proof -
  have persist: "rw_results (snd (persist_recovery_disposition turn d reason w)) = rw_results w"
    "attempt_of (er_recovery (rw_replay (snd (persist_recovery_disposition turn d reason w)) t)) =
       attempt_of (er_recovery (rw_replay w t))"
    "is_canceled (er_recovery (rw_replay w t)) \<Longrightarrow>
       is_canceled (er_recovery (rw_replay (snd (persist_recovery_disposition turn d reason w)) t))" for turn d reason
    using persist_recovery [of turn d reason w "fst (persist_recovery_disposition turn d reason w)"
        "snd (persist_recovery_disposition turn d reason w)"] by simp_all
  show "rw_results (snd (materialize_abandoned w)) = rw_results w"
    "attempt_of (er_recovery (rw_replay (snd (materialize_abandoned w)) t)) =
       attempt_of (er_recovery (rw_replay w t))"
    "is_canceled (er_recovery (rw_replay w t)) \<Longrightarrow>
       is_canceled (er_recovery (rw_replay (snd (materialize_abandoned w)) t))"
    using persist by (auto simp: materialize_abandoned_def split: option.split)
qed

lemma saved_turn_fields:
  assumes "saved_turn w = Some saved"
  shows "sv_execution saved = rw_replay w (lt_id (sv_turn saved))"
    "sv_attempt saved = attempt_of (er_recovery (sv_execution saved))"
    "\<not> is_canceled (er_recovery (sv_execution saved))"
    "er_recovery (sv_execution saved) = Some st \<Longrightarrow> sv_revision saved = rv_revision st"
  using assms by (auto simp: saved_turn_def Let_def attempt_of_def split: if_splits option.splits)

lemma cancel_recovery:
  assumes "cancel_saved_turn w = (res, w')"
  shows "rw_results w' = rw_results w"
    "attempt_of (er_recovery (rw_replay w' t)) = attempt_of (er_recovery (rw_replay w t))"
    "is_canceled (er_recovery (rw_replay w t)) \<Longrightarrow> is_canceled (er_recovery (rw_replay w' t))"
  using assms saved_turn_fields
  by (auto simp: cancel_saved_turn_def commit_to_def attempt_of_def is_canceled_def
      split: option.splits prod.splits if_splits)

lemma commit_other:
  assumes "commit_to turn r w = (err, w')" "not_recovery r"
  shows "rw_results w' = rw_results w" "er_recovery (rw_replay w' t) = er_recovery (rw_replay w t)"
  using assms recovery_kept by (auto elim!: commit_to_cases)

text \<open>A resume that starts an attempt.\<close>

lemma resume_fresh:
  assumes "resume_saved_turn claimed key expected revision w = (Inr (turn, n), w')" "rw_results w key = None"
  shows "n = Suc (attempt_of (er_recovery (rw_replay w turn)))"
    "\<not> is_canceled (er_recovery (rw_replay w turn))"
    "attempt_of (er_recovery (rw_replay w' t)) =
       (if t = turn then n else attempt_of (er_recovery (rw_replay w t)))"
    "t \<noteq> turn \<Longrightarrow> er_recovery (rw_replay w' t) = er_recovery (rw_replay w t)"
    "rw_results w' = (rw_results w)(key \<mapsto> (turn, n))"
proof -
  obtain saved where saved: "saved_turn w = Some saved" "lt_id (sv_turn saved) = turn" "n = sv_attempt saved + 1"
    using assms by (auto simp: resume_saved_turn_def Let_def split: if_splits option.splits prod.splits)
  let ?r = "Recovery \<lparr>rv_revision = sv_revision saved + 1, rv_attempt = n, rv_disposition = Resuming,
      rv_reason = ''Previous execution ended unexpectedly.'', rv_key = Some key\<rparr>"
  obtain w1 w2 where w1: "commit_to turn (Outcomes (interrupted_outcomes (sv_execution saved))) w = (None, w1)"
    and w2: "commit_to turn ?r w1 = (None, w2)"
    and w': "rw_replay w' = rw_replay w2" "rw_results w' = (rw_results w2)(key \<mapsto> (turn, n))"
    using assms saved by (auto simp: resume_saved_turn_def Let_def split: if_splits option.splits prod.splits)
  have one: "rw_results w1 = rw_results w" "\<And>t. er_recovery (rw_replay w1 t) = er_recovery (rw_replay w t)"
    using commit_other [OF w1] by simp_all
  have two: "rw_results w2 = rw_results w1" "er_recovery (rw_replay w2 turn) = Some (case ?r of Recovery x \<Rightarrow> x)"
    "\<And>t. t \<noteq> turn \<Longrightarrow> rw_replay w2 t = rw_replay w1 t"
    using w2 by (auto elim!: commit_to_cases split: if_splits option.splits)
  show "n = Suc (attempt_of (er_recovery (rw_replay w turn)))" "\<not> is_canceled (er_recovery (rw_replay w turn))"
    using saved saved_turn_fields [OF saved(1)] by simp_all
  show "attempt_of (er_recovery (rw_replay w' t)) =
       (if t = turn then n else attempt_of (er_recovery (rw_replay w t)))"
    using one two w' by (simp add: attempt_of_def)
  show "t \<noteq> turn \<Longrightarrow> er_recovery (rw_replay w' t) = er_recovery (rw_replay w t)"
    "rw_results w' = (rw_results w)(key \<mapsto> (turn, n))"
    using one two w' by simp_all
qed

text \<open>A resume that starts nothing.\<close>

lemma resume_idle:
  assumes "resume_saved_turn claimed key expected revision w = (res, w')" "isl res \<or> rw_results w key \<noteq> None"
  shows "rw_results w' = rw_results w" "er_recovery (rw_replay w' t) = er_recovery (rw_replay w t)"
proof -
  have refused: "w2 = w1" if "commit_to turn r w1 = (Some e, w2)" for turn r w1 e w2
    using that by (auto elim!: commit_to_cases)
  have kept: "rw_results w' = rw_results w \<and> (\<forall>t. er_recovery (rw_replay w' t) = er_recovery (rw_replay w t))"
    using assms commit_other [where r = "Outcomes _"] refused
    by (fastforce simp: resume_saved_turn_def Let_def split: if_splits option.splits prod.splits)
  then show "rw_results w' = rw_results w" "er_recovery (rw_replay w' t) = er_recovery (rw_replay w t)"
    by simp_all
qed


text \<open>One step keeps the count, and starts nothing for a turn that was canceled.\<close>

lemma recovery_next_ok:
  assumes ok: "recovery_ok (w, started)" and "recovery_next (w, started) x = (w', started')"
  shows "recovery_ok (w', started')"
    "is_canceled (er_recovery (rw_replay w t)) \<Longrightarrow>
       is_canceled (er_recovery (rw_replay w' t)) \<and>
       filter (\<lambda>a. fst a = t) started' = filter (\<lambda>a. fst a = t) started"
proof -
  let ?goal = "recovery_ok (w', started') \<and> (is_canceled (er_recovery (rw_replay w t)) \<longrightarrow>
       is_canceled (er_recovery (rw_replay w' t)) \<and>
       filter (\<lambda>a. fst a = t) started' = filter (\<lambda>a. fst a = t) started)"
  have idle: ?goal if "started' = started" "rw_results w' = rw_results w"
    "\<And>t. attempt_of (er_recovery (rw_replay w' t)) = attempt_of (er_recovery (rw_replay w t))"
    "\<And>t. is_canceled (er_recovery (rw_replay w t)) \<Longrightarrow> is_canceled (er_recovery (rw_replay w' t))"
    using ok that by (simp add: recovery_ok_def)
  have ?goal
  proof (cases x)
    case CancelStep
    then show ?thesis using assms(2) cancel_recovery [of w "fst (cancel_saved_turn w)" w'] by (intro idle) auto
  next
    case (PersistStep turn d reason)
    then show ?thesis
      using assms(2) persist_recovery [of turn d reason w "fst (persist_recovery_disposition turn d reason w)" w']
      by (intro idle) auto
  next
    case MaterializeStep
    then show ?thesis using assms(2) materialize_recovery [of w] by (intro idle) auto
  next
    case (RecordStep turn r)
    then show ?thesis using assms(2) commit_other [of turn r w "fst (commit_to turn r w)" w']
      by (intro idle) (auto split: if_splits)
  next
    case (StartStep turn kind)
    then show ?thesis using assms(2) by (intro idle) auto
  next
    case (EndStep status limit)
    then show ?thesis using assms(2) by (intro idle) auto
  next
    case (ResumeStep claimed key expected revision)
    obtain res where res: "resume_saved_turn claimed key expected revision w = (res, w')"
      using assms(2) ResumeStep by (auto split: prod.splits sum.splits)
    show ?thesis
    proof (cases "isl res \<or> rw_results w key \<noteq> None")
      case True
      then have "started' = started" using assms(2) ResumeStep res by (cases res) auto
      then show ?thesis using resume_idle [OF res True] by (intro idle) simp_all
    next
      case False
      then obtain turn n where r: "res = Inr (turn, n)" "rw_results w key = None" by (cases res) force+
      note fresh = resume_fresh [OF res [unfolded r(1)] r(2)]
      have st: "started' = started @ [(turn, n)]" using assms(2) ResumeStep res r by simp
      show ?thesis using ok fresh by (auto simp: recovery_ok_def st upt_Suc_append)
    qed
  qed
  then show "recovery_ok (w', started')"
    "is_canceled (er_recovery (rw_replay w t)) \<Longrightarrow>
       is_canceled (er_recovery (rw_replay w' t)) \<and>
       filter (\<lambda>a. fst a = t) started' = filter (\<lambda>a. fst a = t) started" by simp_all
qed

lemma recovery_run_ok:
  assumes "recovery_ok (w, started)" "foldl recovery_next (w, started) xs = (w', started')"
  shows "recovery_ok (w', started') \<and> (is_canceled (er_recovery (rw_replay w t)) \<longrightarrow>
       is_canceled (er_recovery (rw_replay w' t)) \<and>
       filter (\<lambda>a. fst a = t) started' = filter (\<lambda>a. fst a = t) started)"
  using assms
proof (induction xs arbitrary: w started)
  case (Cons x xs)
  obtain w1 s1 where x: "recovery_next (w, started) x = (w1, s1)" by fastforce
  from Cons.prems(2) have "foldl recovery_next (w1, s1) xs = (w', started')" by (simp add: x)
  from Cons.IH [OF recovery_next_ok(1) [OF Cons.prems(1) x] this]
    recovery_next_ok(2) [OF Cons.prems(1) x, of t]
  show ?case by simp
qed simp_all


text \<open>A turn that failed, is resumed twice with one key, fails again and is canceled.\<close>

definition sample_recovery :: "recovery_step list" where
  "sample_recovery =
     [StartStep ''t1'' RunRegular, RecordStep ''t1'' (IntentBatch [call_a]), EndStep RunFailed False,
      ResumeStep True ''k'' ''t1'' 1, ResumeStep True ''k'' ''t1'' 1, EndStep RunFailed False,
      ResumeStep True ''m'' ''t1'' 2, EndStep RunFailed False, CancelStep]"

lemmas recovery_step_defs = saved_turn_def resume_saved_turn_def commit_to_def cancel_saved_turn_def
  persist_recovery_disposition_def materialize_abandoned_def is_canceled_def Let_def attempt_of_def
  apply_batch_def interrupted_outcomes_def map_filter_simps or_else_def commit_entry_def



section \<open>Interrupted calls are reported once\<close>

definition cut_off :: "string \<Rightarrow> json response_item" where
  "cut_off i = ToolCallOutput i interrupted_notice True"

definition answered :: "json response_item list \<Rightarrow> string set" where
  "answered xs = set (List.map_filter tool_call_output_id xs)"

definition unanswered :: "json response_item list \<Rightarrow> string list" where
  "unanswered xs = filter (\<lambda>i. i \<notin> answered xs) (List.map_filter tool_call_id xs)"

lemma interrupted_outcomes_eq: "interrupted_outcomes s = map cut_off (unanswered (er_items s))"
proof -
  have "List.map_filter (interrupted_outcome D) xs = map cut_off (filter (\<lambda>i. i \<notin> D) (List.map_filter tool_call_id xs))"
    for D and xs :: "json response_item list"
  proof (induction xs)
    case (Cons x xs)
    then show ?case by (cases x) (simp_all add: map_filter_simps cut_off_def)
  qed (simp add: map_filter_simps)
  then show ?thesis by (simp add: interrupted_outcomes_def unanswered_def answered_def)
qed

lemma accept_cut_off:
  assumes "\<forall>i\<in>set is. committed (''result:'' @ i) = None" "distinct js"
  shows "\<exists>ks. accept_batch ResultBatch committed (map (\<lambda>i. (''result:'' @ i, cut_off i)) js) (map cut_off is) =
      Inr (map (\<lambda>i. (''result:'' @ i, cut_off i)) ks) \<and> distinct ks \<and> set ks = set js \<union> set is"
  using assms
proof (induction "is" arbitrary: js)
  case (Cons i "is")
  have key: "map_of (map (\<lambda>i. (''result:'' @ i, cut_off i)) js) (''result:'' @ i) =
      (if i \<in> set js then Some (cut_off i) else None)"
    by (induction js) auto
  show ?case
  proof (cases "i \<in> set js")
    case True
    then show ?thesis using Cons.IH [of js] Cons.prems key
      by (auto simp: cut_off_def or_else_def insert_absorb)
  next
    case False
    then show ?thesis using Cons.IH [of "js @ [i]"] Cons.prems key
      by (simp add: cut_off_def or_else_def)
  qed
qed auto

lemma commit_cut_off:
  assumes "distinct ks" "\<forall>i\<in>set ks. cut_off i \<notin> set (er_items s)"
  shows "er_items (fold commit_entry (map (\<lambda>i. (''result:'' @ i, cut_off i)) ks) s) = er_items s @ map cut_off ks"
  using assms
proof (induction ks arbitrary: s)
  case (Cons k ks)
  let ?s = "commit_entry (''result:'' @ k, cut_off k) s"
  have new: "er_items ?s = er_items s @ [cut_off k]" using Cons.prems(2) by (simp add: commit_entry_def)
  have "\<forall>i\<in>set ks. cut_off i \<notin> set (er_items ?s)" using Cons.prems unfolding new by (auto simp: cut_off_def)
  then show ?case using Cons.IH [of ?s] Cons.prems(1) new by simp
qed simp

text \<open>
  The outcomes that a resume reports are accepted: every call that has no result gets exactly
  one, which says that the call was not run again, no call that has a result gets another, the
  items before stay as they are, and afterwards no call is open.
\<close>

theorem interrupted_calls_reported_once:
  assumes "\<forall>i x. er_committed s (''result:'' @ i) = Some x \<longrightarrow> i \<in> answered (er_items s)"
  shows "\<exists>t ks. apply_record (Outcomes (interrupted_outcomes s)) s = (None, t) \<and>
    er_items t = er_items s @ map cut_off ks \<and> distinct ks \<and>
    set ks = set (List.map_filter tool_call_id (er_items s)) - answered (er_items s) \<and>
    interrupted_outcomes t = []"
proof -
  let ?is = "unanswered (er_items s)"
  have is_set: "set ?is = set (List.map_filter tool_call_id (er_items s)) - answered (er_items s)"
    by (auto simp: unanswered_def)
  have "\<forall>i\<in>set ?is. er_committed s (''result:'' @ i) = None"
    using assms is_set by (metis Diff_iff not_None_eq)
  from accept_cut_off [OF this, of "[]"] obtain ks where
    acc: "accept_batch ResultBatch (er_committed s) [] (map cut_off ?is) =
      Inr (map (\<lambda>i. (''result:'' @ i, cut_off i)) ks)" and ks: "distinct ks" "set ks = set ?is"
    by auto
  let ?t = "fold commit_entry (map (\<lambda>i. (''result:'' @ i, cut_off i)) ks) s"
  have "cut_off i \<notin> set (er_items s)" if "i \<in> set ks" for i
  proof
    assume "cut_off i \<in> set (er_items s)"
    then have "i \<in> answered (er_items s)"
      by (force simp: answered_def cut_off_def List.map_filter_def)
    then show False using that ks(2) is_set by blast
  qed
  then have items: "er_items ?t = er_items s @ map cut_off ks" using ks(1) by (intro commit_cut_off) simp_all
  have "List.map_filter tool_call_id (map cut_off ks) = []"
    "set (List.map_filter tool_call_output_id (map cut_off ks)) = set ks"
    by (induction ks) (simp_all add: cut_off_def map_filter_simps)
  then have "unanswered (er_items ?t) = []"
    using ks(2) is_set unfolding items unanswered_def answered_def
    by (auto simp: List.map_filter_def filter_empty_conv)
  then show ?thesis using acc ks items is_set by (auto simp: interrupted_outcomes_eq apply_batch_def)
qed

theorem interrupted_calls_reported_once_witness:
  "\<exists>t. apply_record (Outcomes (interrupted_outcomes (acknowledged [IntentBatch [call_a]])))
       (acknowledged [IntentBatch [call_a]]) = (None, t) \<and>
     er_items t = [call_a, cut_off ''a''] \<and> interrupted_outcomes t = []"
proof -
  let ?s = "acknowledged [IntentBatch [call_a]]"
  have items: "er_items ?s = [call_a]" and com: "\<And>i. er_committed ?s (''result:'' @ i) = None"
    by (simp_all add: acknowledged_def default_replay_def apply_batch_def call_a_def or_else_def commit_entry_def)
  obtain t ks where t: "apply_record (Outcomes (interrupted_outcomes ?s)) ?s = (None, t)"
    "er_items t = er_items ?s @ map cut_off ks" "distinct ks"
    "set ks = set (List.map_filter tool_call_id (er_items ?s)) - answered (er_items ?s)"
    "interrupted_outcomes t = []"
    using interrupted_calls_reported_once [of ?s] com by auto
  have "set ks = {''a''}" using t(4) unfolding items by (simp add: call_a_def answered_def map_filter_simps)
  moreover have "length ks = 1" using distinct_card [OF t(3)] calculation by simp
  ultimately have "ks = [''a'']" by (cases ks) auto
  then show ?thesis using t items by auto
qed

end
