(* ===== verification/Subagents.thy ===== *)
theory Subagents
  imports Prelude
begin

text \<open>
  Subagents (\<open>server/src/subagent.rs\<close>): the registry of the children of a session, the mailbox of
  an agent, the buffer of a parent that collects what its children say, and the wait for that
  output with the cursor of \<open>server/src/runtime/agents/coordinator.rs\<close>.

  Every method runs under the lock of its structure, so it is a function on the state; the result
  of a failed \<open>try_lock\<close> is an argument. The wait is split into its looks at the buffer: the
  cancellation and the elapsed time it sees are arguments, and \<open>None\<close> is a look that goes back to
  sleep. Session identifiers are strings, time stamps integers.
\<close>

section \<open>The registry\<close>

datatype subagent_status =
    SubSpawning | SubRunning | SubWaitingForInput | SubCompleted | SubFailed | SubInterrupted
  | SubCanceled | SubClosed

fun subagent_status_str :: "subagent_status \<Rightarrow> string" where
  "subagent_status_str SubSpawning = ''spawning''"
| "subagent_status_str SubRunning = ''running''"
| "subagent_status_str SubWaitingForInput = ''waiting_for_input''"
| "subagent_status_str SubCompleted = ''completed''"
| "subagent_status_str SubFailed = ''failed''"
| "subagent_status_str SubInterrupted = ''interrupted''"
| "subagent_status_str SubCanceled = ''canceled''"
| "subagent_status_str SubClosed = ''closed''"

record subagent_metadata =
  sm_session :: string
  sm_parent :: string
  sm_path :: string
  sm_nickname :: string
  sm_role :: string
  sm_status :: subagent_status
  sm_spawned_at :: int
  sm_closed_at :: "int option"
  sm_last_task :: "string option"
  sm_close_requested :: bool
  sm_session_dir :: "string option"

record agent_info =
  ai_session :: string
  ai_parent :: "string option"
  ai_path :: string
  ai_nickname :: string
  ai_role :: string
  ai_status :: string
  ai_last_task :: "string option"

definition to_agent_info :: "subagent_metadata \<Rightarrow> agent_info" where
  "to_agent_info m =
     \<lparr>ai_session = sm_session m, ai_parent = Some (sm_parent m), ai_path = sm_path m,
      ai_nickname = sm_nickname m, ai_role = sm_role m,
      ai_status = subagent_status_str (sm_status m), ai_last_task = sm_last_task m\<rparr>"

record agent_registry =
  rg_agents :: "string \<rightharpoonup> subagent_metadata"
  rg_children :: "string \<rightharpoonup> string list"
  rg_parent :: "string \<rightharpoonup> string"

definition new_registry :: agent_registry where
  "new_registry = \<lparr>rg_agents = Map.empty, rg_children = Map.empty, rg_parent = Map.empty\<rparr>"

definition agent_children :: "agent_registry \<Rightarrow> string \<Rightarrow> string list" where
  "agent_children r p = (case rg_children r p of None \<Rightarrow> [] | Some cs \<Rightarrow> cs)"

definition register :: "string \<Rightarrow> string \<Rightarrow> subagent_metadata \<Rightarrow> agent_registry \<Rightarrow> agent_registry" where
  "register parent child m r =
     r\<lparr>rg_agents := (rg_agents r)(child \<mapsto> m),
       rg_children := (rg_children r)(parent \<mapsto> agent_children r parent @ [child]),
       rg_parent := (rg_parent r)(child \<mapsto> parent)\<rparr>"

definition unregister :: "string \<Rightarrow> agent_registry \<Rightarrow> agent_registry" where
  "unregister child r =
     (let r' = r\<lparr>rg_agents := (rg_agents r)(child := None), rg_parent := (rg_parent r)(child := None)\<rparr>
      in case rg_parent r child of
           None \<Rightarrow> r'
         | Some parent \<Rightarrow>
             (case rg_children r parent of
                None \<Rightarrow> r'
              | Some cs \<Rightarrow> r'\<lparr>rg_children := (rg_children r)(parent \<mapsto> filter (\<lambda>c. c \<noteq> child) cs)\<rparr>))"

definition is_terminal_status :: "subagent_status \<Rightarrow> bool" where
  "is_terminal_status s \<longleftrightarrow> s \<in> {SubCompleted, SubFailed, SubInterrupted, SubCanceled, SubClosed}"

definition update_agent_status :: "int \<Rightarrow> string \<Rightarrow> subagent_status \<Rightarrow> agent_registry \<Rightarrow> agent_registry" where
  "update_agent_status now child status r =
     (case rg_agents r child of
        None \<Rightarrow> r
      | Some m \<Rightarrow>
          (let m1 = m\<lparr>sm_status := status\<rparr>;
               m2 = (if is_terminal_status status
                     then m1\<lparr>sm_closed_at := (case sm_closed_at m1 of None \<Rightarrow> Some now | Some t \<Rightarrow> Some t)\<rparr>
                     else m1)
           in r\<lparr>rg_agents := (rg_agents r)(child \<mapsto> m2)\<rparr>))"

definition find_child :: "agent_registry \<Rightarrow> string \<Rightarrow> string \<Rightarrow> string option" where
  "find_child r parent target =
     (let t = trim target in
      if rg_agents r t \<noteq> None then Some t
      else find (\<lambda>c. case rg_agents r c of
             None \<Rightarrow> False
           | Some m \<Rightarrow> sm_path m = t \<or> sm_nickname m = t \<or> sm_session m = t) (agent_children r parent))"

definition list_children :: "agent_registry \<Rightarrow> string \<Rightarrow> string option \<Rightarrow> agent_info list" where
  "list_children r parent path_prefix =
     map to_agent_info
       (filter (\<lambda>m. case path_prefix of None \<Rightarrow> True | Some p \<Rightarrow> starts_with (sm_path m) p)
         (List.map_filter (rg_agents r) (agent_children r parent)))"

text \<open>Agent paths: everything before the last slash, and the name after it.\<close>

definition agent_path_parent :: "string \<Rightarrow> string option" where
  "agent_path_parent s =
     (if CHR ''/'' \<in> set s
      then Some (rev (tl (dropWhile (\<lambda>c. c \<noteq> CHR ''/'') (rev s)))) else None)"

definition agent_path_join :: "string \<Rightarrow> string \<Rightarrow> string" where
  "agent_path_join p name = p @ ''/'' @ name"

definition path_nickname :: "string \<Rightarrow> string" where
  "path_nickname s = rev (takeWhile (\<lambda>c. c \<noteq> CHR ''/'') (rev s))"

section \<open>Mailboxes\<close>

record mailbox_message =
  mm_id :: string
  mm_from :: string
  mm_to :: string
  mm_from_path :: string
  mm_to_path :: string
  mm_content :: string
  mm_sequence :: nat
  mm_created :: int

record mailbox =
  mx_next :: nat
  mx_pending :: "mailbox_message list"

definition new_mailbox :: mailbox where
  "new_mailbox = \<lparr>mx_next = 1, mx_pending = []\<rparr>"

definition send_mail :: "mailbox_message \<Rightarrow> mailbox \<Rightarrow> mailbox_message \<times> mailbox" where
  "send_mail m mx =
     (let m' = m\<lparr>mm_sequence := mx_next mx,
                 mm_id := (if mm_id m = [] then ''mail-'' @ decimal (mx_next mx) else mm_id m)\<rparr>
      in (m', mx\<lparr>mx_next := sat_add_u64 (mx_next mx) 1, mx_pending := mx_pending mx @ [m']\<rparr>))"

definition drain_mail :: "mailbox \<Rightarrow> mailbox_message list \<times> mailbox" where
  "drain_mail mx = (mx_pending mx, mx\<lparr>mx_pending := []\<rparr>)"

text \<open>
  A wait that finds the mailbox empty sleeps: \<open>between\<close> is what is sent before it sleeps or while it
  does, \<open>woken\<close> whether a sender wakes it before the time is over.
\<close>

definition wait_mail ::
  "bool \<Rightarrow> mailbox_message list \<Rightarrow> mailbox \<Rightarrow> (mailbox_message list \<times> bool) \<times> mailbox" where
  "wait_mail woken between mx =
     (case drain_mail mx of (messages, mx1) \<Rightarrow>
        if messages \<noteq> [] then ((messages, False), mx1)
        else
          (let mx2 = fold (\<lambda>m x. snd (send_mail m x)) between mx1 in
           if \<not> woken then (([], True), mx2)
           else (case drain_mail mx2 of (late, mx3) \<Rightarrow> ((late, False), mx3))))"

section \<open>The output of children\<close>

datatype output_kind = AssistantDelta | AssistantMessage | StatusEvent

record output_event =
  oe_sequence :: nat
  oe_child :: string
  oe_path :: string
  oe_turn :: "string option"
  oe_kind :: output_kind
  oe_text :: "string option"
  oe_status :: "string option"
  oe_created :: int

record output_buffer =
  ob_next :: nat
  ob_events :: "output_event list"

definition new_output_buffer :: output_buffer where
  "new_output_buffer = \<lparr>ob_next = 1, ob_events = []\<rparr>"

definition is_assistant_text :: "output_kind \<Rightarrow> bool" where
  "is_assistant_text k \<longleftrightarrow> k = AssistantDelta \<or> k = AssistantMessage"

definition merges_into :: "output_event \<Rightarrow> output_event \<Rightarrow> bool" where
  "merges_into e l \<longleftrightarrow> oe_kind l = AssistantMessage \<and> oe_child l = oe_child e \<and> oe_turn l = oe_turn e \<and>
     oe_status l = None"

text \<open>The text of an event appended to the last message.\<close>

definition merge_event :: "output_event \<Rightarrow> output_event \<Rightarrow> output_event" where
  "merge_event e l =
     l\<lparr>oe_text := (case oe_text e of
          None \<Rightarrow> oe_text l
        | Some delta \<Rightarrow> Some ((case oe_text l of None \<Rightarrow> [] | Some t \<Rightarrow> t) @ delta)),
       oe_created := oe_created e\<rparr>"

definition append_event :: "output_event \<Rightarrow> output_buffer \<Rightarrow> output_event \<times> output_buffer" where
  "append_event e b =
     (let e' = e\<lparr>oe_sequence := ob_next b\<rparr>
      in (e', b\<lparr>ob_next := sat_add_u64 (ob_next b) 1, ob_events := ob_events b @ [e']\<rparr>))"

definition push_event :: "output_event \<Rightarrow> output_buffer \<Rightarrow> output_event \<times> output_buffer" where
  "push_event e b =
     (if is_assistant_text (oe_kind e) then
        (let e1 = e\<lparr>oe_kind := AssistantMessage\<rparr> in
         if ob_events b \<noteq> [] \<and> merges_into e1 (last (ob_events b)) then
           (e1\<lparr>oe_text := None\<rparr>,
            b\<lparr>ob_events := butlast (ob_events b) @ [merge_event e1 (last (ob_events b))]\<rparr>)
         else append_event e1 b)
      else append_event e b)"

text \<open>\<open>busy\<close>: the lock of the buffer is taken.\<close>

definition try_push_text_delta :: "bool \<Rightarrow> output_event \<Rightarrow> output_buffer \<Rightarrow> bool \<times> output_buffer" where
  "try_push_text_delta busy e b =
     (if busy then (False, b)
      else
        (let e1 = e\<lparr>oe_kind := AssistantMessage\<rparr> in
         if ob_events b \<noteq> [] \<and> merges_into e1 (last (ob_events b)) then
           (True, b\<lparr>ob_events := butlast (ob_events b) @ [merge_event e1 (last (ob_events b))]\<rparr>)
         else (True, snd (append_event e1 b))))"

definition is_terminal_event :: "output_event \<Rightarrow> bool" where
  "is_terminal_event e \<longleftrightarrow> oe_kind e = StatusEvent \<and>
     (case oe_status e of None \<Rightarrow> False
      | Some s \<Rightarrow> s \<in> {''completed'', ''failed'', ''interrupted'', ''canceled'', ''closed''})"

definition events_after :: "nat \<Rightarrow> string set \<Rightarrow> output_buffer \<Rightarrow> output_event list \<times> nat" where
  "events_after after targets b =
     (filter (\<lambda>e. oe_child e \<in> targets) (filter (\<lambda>e. oe_sequence e > after) (ob_events b)), ob_next b)"

text \<open>
  One look of the wait: \<open>cancelled\<close> is the token at the head of the loop, \<open>elapsed\<close> whether the
  time is over after it. A notification goes round the loop again; a sleep that runs out or is
  cancelled answers like a cancelled look.
\<close>

definition wait_look ::
  "nat \<Rightarrow> string set \<Rightarrow> bool \<Rightarrow> bool \<Rightarrow> output_buffer \<Rightarrow> (output_event list \<times> nat \<times> bool) option" where
  "wait_look after targets cancelled elapsed b =
     (if targets = {} then Some ([], ob_next b, True)
      else if cancelled then Some ([], snd (events_after after targets b), True)
      else
        (case events_after after targets b of (events, next) \<Rightarrow>
           if list_ex is_terminal_event events then Some (events, next, False)
           else if elapsed then Some ([], next, True)
           else None))"

text \<open>
  The wait of a parent with its cursor: without a sequence number of its own the wait continues
  after what it has consumed, and remembers the greatest number it returns.
\<close>

definition wait_agent ::
  "nat option \<Rightarrow> string set \<Rightarrow> bool \<Rightarrow> bool \<Rightarrow> output_buffer \<Rightarrow> nat \<Rightarrow>
   (output_event list \<times> nat \<times> bool) option \<times> nat" where
  "wait_agent after targets cancelled elapsed b cursor =
     (case wait_look (case after of Some n \<Rightarrow> n | None \<Rightarrow> cursor) targets cancelled elapsed b of
        None \<Rightarrow> (None, cursor)
      | Some (events, next, timed_out) \<Rightarrow>
          (Some (events, next, timed_out),
           if events \<noteq> [] \<and> after = None
           then (let consumed = Max (set (map oe_sequence events))
                 in if consumed = 0 then cursor else consumed)
           else cursor))"

text \<open>The key of a cursor, the child's name a parent sees, and the state of a task.\<close>

definition wait_agent_cursor_key :: "string option \<Rightarrow> string" where
  "wait_agent_cursor_key target = (case target of None \<Rightarrow> [] | Some t \<Rightarrow> trim t)"

datatype task_state = TaskRunning | TaskWaitingApproval | TaskCompleted | TaskFailed | TaskCanceled

definition task_state_from_agent_status :: "string \<Rightarrow> task_state" where
  "task_state_from_agent_status s =
     (if s \<in> {''completed'', ''waiting_for_input''} then TaskCompleted
      else if s = ''failed'' then TaskFailed
      else if s \<in> {''interrupted'', ''canceled'', ''closed''} then TaskCanceled
      else if s \<in> {''spawning'', ''running''} then TaskRunning
      else TaskFailed)"

definition resolve_wait_agent_timeout :: "nat option \<Rightarrow> nat" where
  "resolve_wait_agent_timeout t = min (case t of None \<Rightarrow> 5 | Some n \<Rightarrow> n) 120"


section \<open>The registry is a forest\<close>

definition registry_ok :: "agent_registry \<Rightarrow> bool" where
  "registry_ok r \<longleftrightarrow>
     (\<forall>c p. c \<in> set (agent_children r p) \<longleftrightarrow> rg_parent r c = Some p) \<and>
     (\<forall>p. distinct (agent_children r p)) \<and> dom (rg_agents r) = dom (rg_parent r)"

datatype registry_step =
    RegisterAgent string string subagent_metadata
  | UnregisterAgent string
  | UpdateStatus int string subagent_status

fun registry_next :: "agent_registry \<Rightarrow> registry_step \<Rightarrow> agent_registry" where
  "registry_next r (RegisterAgent p c m) = (if rg_agents r c = None then register p c m r else r)"
| "registry_next r (UnregisterAgent c) = unregister c r"
| "registry_next r (UpdateStatus now c s) = update_agent_status now c s r"

lemma children_register:
  "agent_children (register p c m r) q = (if q = p then agent_children r p @ [c] else agent_children r q)"
  by (simp add: register_def agent_children_def)

lemma registry_ok_register:
  assumes ok: "registry_ok r" and new: "rg_agents r c = None"
  shows "registry_ok (register p c m r)"
proof -
  have np: "rg_parent r c = None" using ok new unfolding registry_ok_def by blast
  have parent: "rg_parent (register p c m r) = (rg_parent r)(c \<mapsto> p)"
    "rg_agents (register p c m r) = (rg_agents r)(c \<mapsto> m)" by (simp_all add: register_def)
  show ?thesis using ok np unfolding registry_ok_def parent children_register by auto
qed

lemma children_unregister:
  "registry_ok r \<Longrightarrow> agent_children (unregister c r) q = filter (\<lambda>d. d \<noteq> c) (agent_children r q)"
proof (cases "rg_parent r c")
  case None
  assume "registry_ok r"
  then have "c \<notin> set (agent_children r q)" using None by (simp add: registry_ok_def)
  then have "filter (\<lambda>d. d \<noteq> c) (agent_children r q) = agent_children r q" by (auto simp: filter_id_conv)
  then show ?thesis using None by (simp add: unregister_def agent_children_def)
next
  case (Some p)
  assume ok: "registry_ok r"
  have "c \<notin> set (agent_children r q)" if "q \<noteq> p" using ok Some that by (simp add: registry_ok_def)
  then have "filter (\<lambda>d. d \<noteq> c) (agent_children r q) = agent_children r q" if "q \<noteq> p"
    using that by (auto simp: filter_id_conv)
  then show ?thesis using Some
    by (cases "q = p") (auto simp: unregister_def agent_children_def Let_def split: option.splits)
qed

lemma registry_ok_unregister: "registry_ok r \<Longrightarrow> registry_ok (unregister c r)"
proof -
  assume ok: "registry_ok r"
  have maps: "rg_parent (unregister c r) = (rg_parent r)(c := None)"
    "rg_agents (unregister c r) = (rg_agents r)(c := None)"
    by (simp_all add: unregister_def Let_def split: option.split)
  show ?thesis using ok unfolding registry_ok_def maps children_unregister [OF ok] by auto
qed

lemma registry_ok_update: "registry_ok r \<Longrightarrow> registry_ok (update_agent_status now c s r)"
  by (auto simp: update_agent_status_def registry_ok_def agent_children_def Let_def split: option.split)

interpretation registry: guarded_invariant registry_next registry_ok "\<lambda>x. False"
proof
  fix r x
  show "\<lbrakk>registry_ok r; \<not> False\<rbrakk> \<Longrightarrow> registry_ok (registry_next r x)"
    by (cases x) (simp_all add: registry_ok_register registry_ok_unregister registry_ok_update)
qed

text \<open>
  However children are registered, removed and updated, as long as no child is registered
  twice, the registry is a forest: a child is listed once under the one parent recorded for it,
  exactly the listed children have metadata, and what a session lists are its live children.
\<close>

theorem registry_stays_a_forest:
  "let r = foldl registry_next new_registry steps in
     registry_ok r \<and> map ai_session (list_children r p None) =
       map (\<lambda>c. sm_session (the (rg_agents r c))) (agent_children r p) \<and>
     (rg_parent r c = Some p \<longleftrightarrow> c \<in> set (agent_children r p))"
proof -
  let ?r = "foldl registry_next new_registry steps"
  have "registry_ok new_registry"
    by (simp add: registry_ok_def new_registry_def agent_children_def)
  then have ok: "registry_ok ?r" using registry.kept_by_all [of new_registry steps] by simp
  have "\<forall>d\<in>set (agent_children ?r p). \<exists>m. rg_agents ?r d = Some m"
    using ok unfolding registry_ok_def by (metis domD domI)
  then have "List.map_filter (rg_agents ?r) (agent_children ?r p) =
      map (\<lambda>d. the (rg_agents ?r d)) (agent_children ?r p)"
    by (auto simp: List.map_filter_def intro!: filter_True)
  then have "map ai_session (list_children ?r p None) =
      map (\<lambda>d. sm_session (the (rg_agents ?r d))) (agent_children ?r p)"
    by (simp add: list_children_def to_agent_info_def)
  with ok show ?thesis by (simp add: Let_def registry_ok_def)
qed

text \<open>A name joined to a path is found again.\<close>

lemma agent_path_join_parts:
  assumes "CHR ''/'' \<notin> set name"
  shows "agent_path_parent (agent_path_join p name) = Some p" "path_nickname (agent_path_join p name) = name"
proof -
  have all: "\<And>c. c \<in> set (rev name) \<Longrightarrow> c \<noteq> CHR ''/''" using assms by auto
  have rv: "rev (agent_path_join p name) = rev name @ CHR ''/'' # rev p" by (simp add: agent_path_join_def)
  show "agent_path_parent (agent_path_join p name) = Some p"
    using dropWhile_append2 [of "rev name" "\<lambda>c. c \<noteq> CHR ''/''" "CHR ''/'' # rev p"] all
    by (simp add: agent_path_parent_def rv) (simp add: agent_path_join_def)
  show "path_nickname (agent_path_join p name) = name"
    using takeWhile_append2 [of "rev name" "\<lambda>c. c \<noteq> CHR ''/''" "CHR ''/'' # rev p"] all
    by (simp add: path_nickname_def rv)
qed


section \<open>What the waits of a parent see\<close>

datatype output_step = PushStep output_event | TryStep bool output_event | WaitStep bool bool

text \<open>The buffer, the cursor and what the waits have returned so far.\<close>

fun run_output ::
  "string set \<Rightarrow> output_buffer \<times> nat \<times> output_event list \<Rightarrow> output_step \<Rightarrow>
   output_buffer \<times> nat \<times> output_event list" where
  "run_output ts (b, c, out) (PushStep e) = (snd (push_event e b), c, out)"
| "run_output ts (b, c, out) (TryStep busy e) = (snd (try_push_text_delta busy e b), c, out)"
| "run_output ts (b, c, out) (WaitStep cancelled elapsed) =
     (case wait_agent None ts cancelled elapsed b c of
        (None, c') \<Rightarrow> (b, c', out)
      | (Some (events, _, _), c') \<Rightarrow> (b, c', out @ events))"

text \<open>\<open>d\<close> is what was returned of the event that now stands as \<open>e\<close> in the buffer.\<close>

definition seen_as :: "output_event \<Rightarrow> output_event \<Rightarrow> bool" where
  "seen_as d e \<longleftrightarrow> oe_sequence d = oe_sequence e \<and> oe_child d = oe_child e \<and> oe_kind d = oe_kind e \<and>
     oe_status d = oe_status e \<and> (oe_kind e = StatusEvent \<longrightarrow> d = e) \<and>
     (case (oe_text d, oe_text e) of (Some x, Some y) \<Rightarrow> prefix x y | (Some x, None) \<Rightarrow> False | _ \<Rightarrow> True)"

definition buffer_ok :: "output_buffer \<Rightarrow> bool" where
  "buffer_ok b \<longleftrightarrow> sorted_wrt (\<lambda>d e. oe_sequence d < oe_sequence e) (ob_events b) \<and>
     (\<forall>e\<in>set (ob_events b). 0 < oe_sequence e \<and> oe_sequence e < ob_next b) \<and> 0 < ob_next b"

definition output_ok :: "string set \<Rightarrow> output_buffer \<times> nat \<times> output_event list \<Rightarrow> bool" where
  "output_ok ts s \<longleftrightarrow> (case s of (b, c, out) \<Rightarrow>
     buffer_ok b \<and> c < ob_next b \<and> sorted_wrt (\<lambda>d e. oe_sequence d < oe_sequence e) out \<and>
     (\<forall>d\<in>set out. oe_sequence d \<le> c \<and> oe_child d \<in> ts) \<and>
     (\<forall>e\<in>set (ob_events b). oe_child e \<in> ts \<and> oe_sequence e \<le> c \<longrightarrow> (\<exists>d\<in>set out. seen_as d e)))"

lemma seen_as_refl [simp]: "seen_as e e"
  by (simp add: seen_as_def split: option.split)

lemma seen_as_merge:
  assumes "seen_as d l" "merges_into e l"
  shows "seen_as d (merge_event e l)"
  using assms by (auto simp: seen_as_def merges_into_def merge_event_def prefix_def split: option.splits)

lemma merge_event_simps [simp]:
  "oe_sequence (merge_event e l) = oe_sequence l" "oe_child (merge_event e l) = oe_child l"
  by (simp_all add: merge_event_def)

lemma output_ok_append:
  assumes ok: "output_ok ts (b, c, out)" and room: "ob_next b < u64_max"
  shows "output_ok ts (snd (append_event e b), c, out)"
proof -
  have next_eq: "sat_add_u64 (ob_next b) (Suc 0) = Suc (ob_next b)"
    using room sat_add_u64_exact [of "ob_next b" 1] by simp
  show ?thesis using ok
    by (auto simp: output_ok_def buffer_ok_def append_event_def Let_def next_eq sorted_wrt_append less_SucI)
qed

lemma output_ok_merge:
  assumes ok: "output_ok ts (b, c, out)" and ne: "ob_events b \<noteq> []" and m: "merges_into e (last (ob_events b))"
  shows "output_ok ts (b\<lparr>ob_events := butlast (ob_events b) @ [merge_event e (last (ob_events b))]\<rparr>, c, out)"
proof -
  obtain es l where b: "ob_events b = es @ [l]" using ne by (metis append_butlast_last_id)
  have seen: "\<exists>d\<in>set out. seen_as d (merge_event e l)" if "\<exists>d\<in>set out. seen_as d l"
    using that seen_as_merge m by (auto simp: b)
  show ?thesis using ok seen unfolding output_ok_def buffer_ok_def
    by (auto simp: b sorted_wrt_append)
qed

lemma output_ok_push:
  "\<lbrakk>output_ok ts (b, c, out); ob_next b < u64_max\<rbrakk> \<Longrightarrow> output_ok ts (snd (push_event e b), c, out)"
  using output_ok_append output_ok_merge by (simp add: push_event_def Let_def)

lemma output_ok_try:
  "\<lbrakk>output_ok ts (b, c, out); ob_next b < u64_max\<rbrakk> \<Longrightarrow>
   output_ok ts (snd (try_push_text_delta busy e b), c, out)"
  using output_ok_append output_ok_merge by (simp add: try_push_text_delta_def Let_def)

lemma events_after_filter:
  "fst (events_after c ts b) = filter (\<lambda>e. c < oe_sequence e \<and> oe_child e \<in> ts) (ob_events b)"
  by (simp add: events_after_def conj_commute)

text \<open>What a wait that does not time out returns, and the cursor after it.\<close>

lemma wait_returns:
  assumes "wait_agent None ts cancelled elapsed b c = (Some (events, n, timed_out), c')"
  shows "events = [] \<and> c' = c \<or>
    events \<noteq> [] \<and> events = fst (events_after c ts b) \<and> c' = Max (set (map oe_sequence events))"
proof -
  have pos: "0 < Max (set (map oe_sequence es))" if es: "es = fst (events_after c ts b)" and ne: "es \<noteq> []" for es
  proof -
    obtain e where "e \<in> set es" using ne by (cases es) auto
    moreover from this have "0 < oe_sequence e" using es by (auto simp: events_after_filter)
    ultimately show ?thesis by (subst Max_gr_iff) auto
  qed
  show ?thesis using assms pos
    by (auto simp: wait_agent_def wait_look_def Let_def split: if_splits option.splits prod.splits)
qed

lemma wait_none: "wait_agent None ts cancelled elapsed b c = (None, c') \<Longrightarrow> c' = c"
  by (auto simp: wait_agent_def split: option.splits)

lemma output_ok_wait:
  assumes ok: "output_ok ts (b, c, out)"
    and w: "wait_agent None ts cancelled elapsed b c = (Some (events, n, timed_out), c')"
  shows "output_ok ts (b, c', out @ events)"
proof (cases "events = []")
  case True
  then show ?thesis using ok wait_returns [OF w] by simp
next
  case False
  then have ev: "events = filter (\<lambda>e. c < oe_sequence e \<and> oe_child e \<in> ts) (ob_events b)"
    and c': "c' = Max (oe_sequence ` set events)"
    using wait_returns [OF w] by (simp_all add: events_after_filter)
  have le: "oe_sequence e \<le> c'" if "e \<in> set events" for e using that by (simp add: c')
  obtain m where m: "m \<in> set events" "c' = oe_sequence m"
  proof -
    have "c' \<in> oe_sequence ` set events" unfolding c' using False by (intro Max_in) simp_all
    then show thesis using that by auto
  qed
  have sorted: "sorted_wrt (\<lambda>d e. oe_sequence d < oe_sequence e) events"
    using ok by (simp add: ev output_ok_def buffer_ok_def sorted_wrt_filter)
  have up: "c < c'" using m by (auto simp: ev)
  have bound: "c' < ob_next b" using ok m by (auto simp: ev output_ok_def buffer_ok_def)
  have seen: "\<exists>d\<in>set (out @ events). seen_as d e"
    if e: "e \<in> set (ob_events b)" "oe_child e \<in> ts" "oe_sequence e \<le> c'" for e
  proof (cases "oe_sequence e \<le> c")
    case True
    then have "\<exists>d\<in>set out. seen_as d e" using ok e by (simp add: output_ok_def)
    then show ?thesis by auto
  next
    case False
    then have "e \<in> set events" using e by (simp add: ev)
    then show ?thesis by (auto intro: bexI [of _ e])
  qed
  have low: "\<forall>d\<in>set out. oe_sequence d \<le> c \<and> oe_child d \<in> ts" using ok by (simp add: output_ok_def)
  have high: "\<forall>e\<in>set events. c < oe_sequence e \<and> oe_child e \<in> ts" by (simp add: ev)
  have all: "\<forall>d\<in>set (out @ events). oe_sequence d \<le> c' \<and> oe_child d \<in> ts"
    using low high le up by (meson Un_iff less_imp_le order.trans set_append [THEN equalityD1, THEN subsetD])
  have "sorted_wrt (\<lambda>d e. oe_sequence d < oe_sequence e) (out @ events)"
    using ok sorted low high by (fastforce simp: sorted_wrt_append output_ok_def)
  then show ?thesis using ok bound seen all by (simp add: output_ok_def)
qed

lemma output_ok_run:
  "\<lbrakk>output_ok ts (b, c, out); ob_next b + length steps \<le> u64_max\<rbrakk> \<Longrightarrow>
   output_ok ts (foldl (run_output ts) (b, c, out) steps)"
proof (induction steps arbitrary: b c out)
  case (Cons x steps)
  have room: "ob_next b < u64_max" using Cons.prems(2) by simp
  have nxt: "ob_next (snd (append_event e b)) \<le> ob_next b + 1" for e
    by (simp add: append_event_def Let_def sat_add_u64_def)
  show ?case
  proof (cases x)
    case (PushStep e)
    have "ob_next (snd (push_event e b)) \<le> ob_next b + 1" using nxt by (simp add: push_event_def Let_def)
    then show ?thesis using Cons.IH [OF output_ok_push [OF Cons.prems(1) room]] Cons.prems(2)
      by (simp add: PushStep)
  next
    case (TryStep busy e)
    have "ob_next (snd (try_push_text_delta busy e b)) \<le> ob_next b + 1"
      using nxt by (simp add: try_push_text_delta_def Let_def)
    then show ?thesis using Cons.IH [OF output_ok_try [OF Cons.prems(1) room]] Cons.prems(2)
      by (simp add: TryStep)
  next
    case (WaitStep cancelled elapsed)
    obtain r c' where w: "wait_agent None ts cancelled elapsed b c = (r, c')" by fastforce
    show ?thesis
    proof (cases r)
      case None
      then have "c' = c" using w by (simp add: wait_none)
      then show ?thesis using Cons None w by (simp add: WaitStep)
    next
      case (Some a)
      then obtain events n timed_out where "r = Some (events, n, timed_out)" by (cases a) auto
      then show ?thesis using Cons.IH [OF output_ok_wait [OF Cons.prems(1)]] Cons.prems(2) w
        by (simp add: WaitStep)
    qed
  qed
qed simp


text \<open>A child that reports, ends its turn, is waited for, and reports again.\<close>

definition sample_event :: "output_kind \<Rightarrow> string \<Rightarrow> string option \<Rightarrow> string option \<Rightarrow> output_event" where
  "sample_event k child txt st =
     \<lparr>oe_sequence = 0, oe_child = child, oe_path = ''root/'' @ child, oe_turn = Some ''t1'', oe_kind = k,
      oe_text = txt, oe_status = st, oe_created = 0\<rparr>"

definition sample_output :: "output_step list" where
  "sample_output =
     [PushStep (sample_event AssistantDelta ''b'' (Some ''x'') None),
      PushStep (sample_event StatusEvent ''b'' None (Some ''completed'')), WaitStep False False,
      PushStep (sample_event AssistantDelta ''b'' (Some ''y'') None),
      PushStep (sample_event StatusEvent ''b'' None (Some ''failed''))]"

lemmas output_run_defs = sample_event_def new_output_buffer_def push_event_def append_event_def
  is_assistant_text_def merges_into_def merge_event_def Let_def sat_add_u64_def wait_agent_def
  wait_look_def events_after_def is_terminal_event_def


text \<open>
  A message that the waits have already returned still grows: when another child ends the wait
  between two deltas of a message, the text after the cursor is merged into the event behind it
  and no wait returns it.
\<close>

lemma late_text_is_lost:
  "case foldl (run_output {''a'', ''b''}) (new_output_buffer, 0, [])
     [PushStep (sample_event StatusEvent ''a'' None (Some ''completed'')),
      PushStep (sample_event AssistantDelta ''b'' (Some ''x'') None), WaitStep False False,
      PushStep (sample_event AssistantDelta ''b'' (Some ''y'') None),
      PushStep (sample_event StatusEvent ''b'' None (Some ''completed'')), WaitStep False False]
   of (b, c, out) \<Rightarrow>
     map oe_text out = [None, Some ''x'', None] \<and>
     map oe_text (ob_events b) = [None, Some ''xy'', None] \<and> c = 3"
  by (simp add: output_run_defs u64_max_def)


section \<open>Mailboxes deliver in order\<close>

datatype mail_step = SendStep mailbox_message | DrainStep

fun run_mail :: "mailbox \<times> mailbox_message list \<Rightarrow> mail_step \<Rightarrow> mailbox \<times> mailbox_message list" where
  "run_mail (mx, got) (SendStep m) = (snd (send_mail m mx), got)"
| "run_mail (mx, got) DrainStep = (snd (drain_mail mx), got @ fst (drain_mail mx))"

fun sent_mail :: "mail_step list \<Rightarrow> mailbox_message list" where
  "sent_mail [] = []"
| "sent_mail (SendStep m # xs) = m # sent_mail xs"
| "sent_mail (DrainStep # xs) = sent_mail xs"

lemma run_mail_contents:
  assumes "foldl run_mail (mx, got) steps = (mx', got')" and "mx_next mx + length (sent_mail steps) \<le> u64_max"
  shows "map mm_content (got' @ mx_pending mx') = map mm_content (got @ mx_pending mx @ sent_mail steps) \<and>
    map mm_sequence (got' @ mx_pending mx') =
      map mm_sequence (got @ mx_pending mx) @ [mx_next mx..<mx_next mx + length (sent_mail steps)]"
  using assms
proof (induction steps arbitrary: mx got)
  case (Cons x steps)
  show ?case
  proof (cases x)
    case (SendStep m)
    have "sat_add_u64 (mx_next mx) (Suc 0) = Suc (mx_next mx)"
      using Cons.prems(2) sat_add_u64_exact [of "mx_next mx" 1] by (simp add: SendStep)
    then show ?thesis using Cons.IH [of "snd (send_mail m mx)" got] Cons.prems
      by (simp add: SendStep send_mail_def Let_def upt_conv_Cons del: upt_Suc)
  next
    case DrainStep
    then show ?thesis using Cons.IH [of "snd (drain_mail mx)"] Cons.prems by (simp add: drain_mail_def)
  qed
qed simp

text \<open>
  What an agent drains from its mailbox, together with what still waits in it, is what was
  sent to it, in the order of sending and numbered one after the other from 1.
\<close>

theorem mailbox_is_fifo:
  assumes "foldl run_mail (new_mailbox, []) steps = (mx, got)" and "length (sent_mail steps) < u64_max"
  shows "map mm_content (got @ mx_pending mx) = map mm_content (sent_mail steps) \<and>
    map mm_sequence (got @ mx_pending mx) = [1..<1 + length (sent_mail steps)]"
  using run_mail_contents [OF assms(1)] assms(2) by (simp add: new_mailbox_def)

definition sample_mail :: "string \<Rightarrow> mailbox_message" where
  "sample_mail c =
     \<lparr>mm_id = [], mm_from = ''p'', mm_to = ''c'', mm_from_path = ''root'', mm_to_path = ''root/c'',
      mm_content = c, mm_sequence = 0, mm_created = 0\<rparr>"

theorem mailbox_is_fifo_witness:
  "case foldl run_mail (new_mailbox, []) [SendStep (sample_mail ''x''), DrainStep, SendStep (sample_mail ''y'')]
   of (mx, got) \<Rightarrow> map mm_content (got @ mx_pending mx) = [''x'', ''y''] \<and>
     map mm_sequence (got @ mx_pending mx) = [1, 2]"
proof -
  obtain mx got where run: "foldl run_mail (new_mailbox, [])
      [SendStep (sample_mail ''x''), DrainStep, SendStep (sample_mail ''y'')] = (mx, got)"
    by (cases "foldl run_mail (new_mailbox, [])
      [SendStep (sample_mail ''x''), DrainStep, SendStep (sample_mail ''y'')]") auto
  have "length (sent_mail [SendStep (sample_mail ''x''), DrainStep, SendStep (sample_mail ''y'')]) < u64_max"
    by (simp add: u64_max_def)
  from mailbox_is_fifo [OF run this] show ?thesis
    unfolding run by (simp add: sample_mail_def)
qed

end
