(* ===== verification/Usage_Ledger.thy ===== *)
theory Usage_Ledger
  imports Prelude
begin

text \<open>
  The usage of a session and its children (\<open>server/src/runtime/subagent_usage.rs\<close>): one ledger for
  the turns of parents and the turns of the children they spawned, and the totals that are shown
  for the parent's turn and session.

  The ledger is behind one lock, so every method is a step. Token counts are \<open>usize\<close> on 64 bits
  with the code's saturating arithmetic; hash maps whose values are added up are association
  lists.
\<close>

section \<open>Totals\<close>

record usage_totals =
  ut_input :: nat
  ut_output :: nat
  ut_total :: nat
  ut_cache_creation :: nat
  ut_cache_read :: nat
  ut_reasoning :: nat

definition no_usage :: usage_totals where
  "no_usage = \<lparr>ut_input = 0, ut_output = 0, ut_total = 0, ut_cache_creation = 0, ut_cache_read = 0, ut_reasoning = 0\<rparr>"

definition usage_add :: "usage_totals \<Rightarrow> usage_totals \<Rightarrow> usage_totals" where
  "usage_add a b =
     \<lparr>ut_input = sat_add_u64 (ut_input a) (ut_input b), ut_output = sat_add_u64 (ut_output a) (ut_output b),
      ut_total = sat_add_u64 (ut_total a) (ut_total b),
      ut_cache_creation = sat_add_u64 (ut_cache_creation a) (ut_cache_creation b),
      ut_cache_read = sat_add_u64 (ut_cache_read a) (ut_cache_read b),
      ut_reasoning = sat_add_u64 (ut_reasoning a) (ut_reasoning b)\<rparr>"

definition usage_sub :: "usage_totals \<Rightarrow> usage_totals \<Rightarrow> usage_totals" where
  "usage_sub a b =
     \<lparr>ut_input = ut_input a - ut_input b, ut_output = ut_output a - ut_output b, ut_total = ut_total a - ut_total b,
      ut_cache_creation = ut_cache_creation a - ut_cache_creation b,
      ut_cache_read = ut_cache_read a - ut_cache_read b, ut_reasoning = ut_reasoning a - ut_reasoning b\<rparr>"

text \<open>The counts of one query; the aggregate falls back to input plus output.\<close>

definition totals_from_query :: "nat \<Rightarrow> nat \<Rightarrow> nat \<Rightarrow> nat \<Rightarrow> nat \<Rightarrow> nat \<Rightarrow> usage_totals" where
  "totals_from_query agg inp out creation cached reasoning =
     \<lparr>ut_input = inp, ut_output = out, ut_total = (if agg > 0 then agg else sat_add_u64 inp out),
      ut_cache_creation = creation, ut_cache_read = cached, ut_reasoning = reasoning\<rparr>"

text \<open>The summary of a session has no count of reasoning tokens.\<close>

definition totals_from_summary :: "usage_totals \<Rightarrow> usage_totals" where
  "totals_from_summary s = s\<lparr>ut_reasoning := 0\<rparr>"

section \<open>The ledger\<close>

datatype usage_kind = InFlight | CompletedLeg

record parent_usage =
  pu_base_session :: usage_totals
  pu_base_child :: usage_totals
  pu_usage :: usage_totals
  pu_inflight :: usage_totals
  pu_latest :: usage_totals
  pu_window :: "nat option"

record child_owner =
  co_parent :: string
  co_turn :: "string option"

record child_usage =
  cu_parent :: string
  cu_turn :: "string option"
  cu_usage :: usage_totals
  cu_inflight :: usage_totals

record usage_ledger =
  ul_parents :: "((string \<times> string) \<times> parent_usage) list"
  ul_owners :: "string \<rightharpoonup> child_owner"
  ul_children :: "((string \<times> string) \<times> child_usage) list"

record usage_snapshot =
  us_session :: string
  us_turn :: string
  us_turn_usage :: usage_totals
  us_latest :: usage_totals
  us_session_totals :: usage_totals
  us_window :: "nat option"

definition new_ledger :: usage_ledger where
  "new_ledger = \<lparr>ul_parents = [], ul_owners = Map.empty, ul_children = []\<rparr>"

definition apply_usage_update :: "usage_kind \<Rightarrow> usage_totals \<Rightarrow> usage_totals \<times> usage_totals \<Rightarrow> usage_totals \<times> usage_totals" where
  "apply_usage_update kind u s =
     (case s of (committed, inflight) \<Rightarrow>
        (case kind of InFlight \<Rightarrow> (committed, u) | CompletedLeg \<Rightarrow> (usage_add committed u, no_usage)))"

definition child_total :: "child_usage \<Rightarrow> usage_totals" where
  "child_total c = usage_add (cu_usage c) (cu_inflight c)"

definition sum_children :: "(child_usage \<Rightarrow> bool) \<Rightarrow> usage_ledger \<Rightarrow> usage_totals" where
  "sum_children P l = foldl (\<lambda>t c. usage_add t (child_total c)) no_usage (filter P (map snd (ul_children l)))"

definition child_totals_for_parent_session :: "string \<Rightarrow> usage_ledger \<Rightarrow> usage_totals" where
  "child_totals_for_parent_session s l = sum_children (\<lambda>c. cu_parent c = s) l"

definition child_totals_for_parent_turn :: "string \<Rightarrow> string \<Rightarrow> usage_ledger \<Rightarrow> usage_totals" where
  "child_totals_for_parent_turn s t l = sum_children (\<lambda>c. cu_parent c = s \<and> cu_turn c = Some t) l"

definition parent_turn_started :: "string \<Rightarrow> string \<Rightarrow> usage_ledger \<Rightarrow> bool" where
  "parent_turn_started s t l \<longleftrightarrow> map_of (ul_parents l) (s, t) \<noteq> None"

definition begin_parent_turn ::
  "string \<Rightarrow> string \<Rightarrow> usage_totals \<Rightarrow> nat option \<Rightarrow> usage_ledger \<Rightarrow> usage_ledger" where
  "begin_parent_turn s t base window l =
     (case map_of (ul_parents l) (s, t) of
        Some p \<Rightarrow>
          (let p1 = (if pu_base_session p = no_usage \<and> pu_usage p = no_usage \<and> pu_inflight p = no_usage \<and>
                        base \<noteq> no_usage then p\<lparr>pu_base_session := base\<rparr> else p);
               p2 = (if window \<noteq> None then p1\<lparr>pu_window := window\<rparr> else p1)
           in l\<lparr>ul_parents := al_insert (s, t) p2 (ul_parents l)\<rparr>)
      | None \<Rightarrow>
          l\<lparr>ul_parents := al_insert (s, t)
              \<lparr>pu_base_session = base, pu_base_child = child_totals_for_parent_session s l, pu_usage = no_usage,
               pu_inflight = no_usage, pu_latest = no_usage, pu_window = window\<rparr> (ul_parents l)\<rparr>)"

definition register_child_owner :: "string \<Rightarrow> string \<Rightarrow> string option \<Rightarrow> usage_ledger \<Rightarrow> usage_ledger" where
  "register_child_owner parent child t l =
     l\<lparr>ul_owners := (ul_owners l)(child \<mapsto> \<lparr>co_parent = parent, co_turn = t\<rparr>)\<rparr>"

definition snapshot_for_parent_turn :: "string \<Rightarrow> string \<Rightarrow> usage_ledger \<Rightarrow> usage_snapshot option" where
  "snapshot_for_parent_turn s t l =
     (case map_of (ul_parents l) (s, t) of
        None \<Rightarrow> None
      | Some p \<Rightarrow>
          (let own = usage_add (pu_usage p) (pu_inflight p);
               delta = usage_sub (child_totals_for_parent_session s l) (pu_base_child p)
           in Some \<lparr>us_session = s, us_turn = t,
                    us_turn_usage = usage_add own (child_totals_for_parent_turn s t l),
                    us_latest = pu_latest p,
                    us_session_totals = usage_add (usage_add (pu_base_session p) own) delta,
                    us_window = pu_window p\<rparr>))"

definition record_parent_turn_usage ::
  "string \<Rightarrow> string \<Rightarrow> usage_totals \<Rightarrow> nat option \<Rightarrow> usage_kind \<Rightarrow> usage_ledger \<Rightarrow>
   usage_snapshot option \<times> usage_ledger" where
  "record_parent_turn_usage s t u window kind l =
     (case map_of (ul_parents l) (s, t) of
        None \<Rightarrow> (None, l)
      | Some p \<Rightarrow>
          (case apply_usage_update kind u (pu_usage p, pu_inflight p) of (committed, inflight) \<Rightarrow>
             (let p1 = p\<lparr>pu_usage := committed, pu_inflight := inflight, pu_latest := u\<rparr>;
                  p2 = (if window \<noteq> None then p1\<lparr>pu_window := window\<rparr> else p1);
                  l' = l\<lparr>ul_parents := al_insert (s, t) p2 (ul_parents l)\<rparr>
              in (snapshot_for_parent_turn s t l', l'))))"

text \<open>The entry of a child's turn: the one there is, or one for its registered owner.\<close>

definition child_entry :: "string \<Rightarrow> string \<Rightarrow> usage_ledger \<Rightarrow> child_usage option" where
  "child_entry child t l =
     (case map_of (ul_children l) (child, t) of
        Some c \<Rightarrow> Some c
      | None \<Rightarrow> map_option (\<lambda>ow. \<lparr>cu_parent = co_parent ow, cu_turn = co_turn ow, cu_usage = no_usage,
                                  cu_inflight = no_usage\<rparr>) (ul_owners l child))"

definition record_child_turn_usage ::
  "string \<Rightarrow> string \<Rightarrow> usage_totals \<Rightarrow> usage_kind \<Rightarrow> usage_ledger \<Rightarrow> usage_snapshot option \<times> usage_ledger" where
  "record_child_turn_usage child t u kind l =
     (case child_entry child t l of
        None \<Rightarrow> (None, l)
      | Some c \<Rightarrow>
          (case apply_usage_update kind u (cu_usage c, cu_inflight c) of (committed, inflight) \<Rightarrow>
             (let l1 = l\<lparr>ul_children := al_insert (child, t)
                           (c\<lparr>cu_usage := committed, cu_inflight := inflight\<rparr>) (ul_children l)\<rparr>
              in case cu_turn c of
                   None \<Rightarrow> (None, l1)
                 | Some pt \<Rightarrow>
                     (let l2 = (case map_of (ul_parents l1) (cu_parent c, pt) of
                                  None \<Rightarrow> l1
                                | Some p \<Rightarrow> l1\<lparr>ul_parents := al_insert (cu_parent c, pt) (p\<lparr>pu_latest := u\<rparr>) (ul_parents l1)\<rparr>)
                      in (snapshot_for_parent_turn (cu_parent c) pt l2, l2)))))"

definition commit_child_inflight_usage ::
  "string \<Rightarrow> string \<Rightarrow> usage_ledger \<Rightarrow> usage_snapshot option \<times> usage_ledger" where
  "commit_child_inflight_usage child t l =
     (case map_of (ul_children l) (child, t) of
        None \<Rightarrow> (None, l)
      | Some c \<Rightarrow>
          (let l' = l\<lparr>ul_children := al_insert (child, t)
                        (c\<lparr>cu_usage := usage_add (cu_usage c) (cu_inflight c), cu_inflight := no_usage\<rparr>)
                        (ul_children l)\<rparr>
           in case cu_turn c of
                None \<Rightarrow> (None, l')
              | Some pt \<Rightarrow> (snapshot_for_parent_turn (cu_parent c) pt l', l')))"

section \<open>Publishing\<close>

text \<open>
  The ledger and the summary of each session. Publishing begins the turn with the totals of the
  summary when the ledger does not have it, and writes the session totals of the snapshot back.
  A publication is one step here: that the mailbox of a session may be full and drop a snapshot,
  and that other calls may run between its locks, is left out. Of the summary only the cumulative
  counts are kept.
\<close>

record usage_world =
  uw_ledger :: usage_ledger
  uw_summary :: "string \<Rightarrow> usage_totals"

definition begin_parent_usage_turn :: "string \<Rightarrow> string \<Rightarrow> nat option \<Rightarrow> usage_world \<Rightarrow> usage_world" where
  "begin_parent_usage_turn s t window w =
     (if parent_turn_started s t (uw_ledger w) then w
      else w\<lparr>uw_ledger := begin_parent_turn s t (totals_from_summary (uw_summary w s)) window (uw_ledger w)\<rparr>)"

definition apply_snapshot :: "usage_snapshot option \<Rightarrow> usage_world \<Rightarrow> usage_world" where
  "apply_snapshot snap w =
     (case snap of
        None \<Rightarrow> w
      | Some x \<Rightarrow> w\<lparr>uw_summary := (uw_summary w)(us_session x := totals_from_summary (us_session_totals x))\<rparr>)"

definition publish_parent_turn_usage ::
  "string \<Rightarrow> string \<Rightarrow> usage_totals \<Rightarrow> nat option \<Rightarrow> usage_kind \<Rightarrow> usage_world \<Rightarrow> usage_world" where
  "publish_parent_turn_usage s t u window kind w =
     (let w1 = begin_parent_usage_turn s t window w in
      case record_parent_turn_usage s t u window kind (uw_ledger w1) of
        (snap, l) \<Rightarrow> apply_snapshot snap (w1\<lparr>uw_ledger := l\<rparr>))"

definition publish_subagent_turn_usage ::
  "string \<Rightarrow> string \<Rightarrow> usage_totals \<Rightarrow> usage_kind \<Rightarrow> usage_world \<Rightarrow> usage_world" where
  "publish_subagent_turn_usage child t u kind w =
     (let w1 = (case ul_owners (uw_ledger w) child of
                  None \<Rightarrow> w
                | Some ow \<Rightarrow> (case co_turn ow of None \<Rightarrow> w | Some pt \<Rightarrow> begin_parent_usage_turn (co_parent ow) pt None w))
      in case record_child_turn_usage child t u kind (uw_ledger w1) of
           (snap, l) \<Rightarrow> apply_snapshot snap (w1\<lparr>uw_ledger := l\<rparr>))"

definition commit_subagent_inflight_usage :: "string \<Rightarrow> string \<Rightarrow> usage_world \<Rightarrow> usage_world" where
  "commit_subagent_inflight_usage child t w =
     (case commit_child_inflight_usage child t (uw_ledger w) of
        (snap, l) \<Rightarrow> apply_snapshot snap (w\<lparr>uw_ledger := l\<rparr>))"



section \<open>Nothing that is reported in time is lost\<close>

datatype usage_step =
    TurnBegins string "nat option"
  | ChildSpawned string
  | ParentReports usage_totals "nat option" usage_kind
  | ChildReports string string usage_totals usage_kind
  | ChildCommits string string

text \<open>The steps of one session: the world and the turn that runs.\<close>

fun run_usage :: "string \<Rightarrow> usage_world \<times> string option \<Rightarrow> usage_step \<Rightarrow> usage_world \<times> string option" where
  "run_usage s (w, cur) (TurnBegins t window) = (begin_parent_usage_turn s t window w, Some t)"
| "run_usage s (w, cur) (ChildSpawned c) =
     (w\<lparr>uw_ledger := register_child_owner s c cur (uw_ledger w)\<rparr>, cur)"
| "run_usage s (w, cur) (ParentReports u window kind) =
     ((case cur of None \<Rightarrow> w | Some t \<Rightarrow> publish_parent_turn_usage s t u window kind w), cur)"
| "run_usage s (w, cur) (ChildReports c t u kind) = (publish_subagent_turn_usage c t u kind w, cur)"
| "run_usage s (w, cur) (ChildCommits c t) = (commit_subagent_inflight_usage c t w, cur)"

text \<open>A turn begins once, and a child reports while the turn that spawned it is the current one.\<close>

fun on_time :: "string \<Rightarrow> usage_world \<times> string option \<Rightarrow> usage_step \<Rightarrow> bool" where
  "on_time s (w, cur) (TurnBegins t window) \<longleftrightarrow> \<not> parent_turn_started s t (uw_ledger w)"
| "on_time s (w, cur) (ChildReports c t u kind) \<longleftrightarrow>
     (case child_entry c t (uw_ledger w) of None \<Rightarrow> True | Some e \<Rightarrow> cur \<noteq> None \<and> cu_turn e = cur)"
| "on_time s (w, cur) (ChildCommits c t) \<longleftrightarrow>
     (case map_of (ul_children (uw_ledger w)) (c, t) of None \<Rightarrow> True | Some e \<Rightarrow> cur \<noteq> None \<and> cu_turn e = cur)"
| "on_time s (w, cur) _ \<longleftrightarrow> True"

fun punctual :: "string \<Rightarrow> usage_world \<times> string option \<Rightarrow> usage_step list \<Rightarrow> bool" where
  "punctual s st [] \<longleftrightarrow> True"
| "punctual s st (x # xs) \<longleftrightarrow> on_time s st x \<and> punctual s (run_usage s st x) xs"

fun reported :: "(usage_totals \<Rightarrow> nat) \<Rightarrow> usage_step \<Rightarrow> nat" where
  "reported f (ParentReports u _ _) = f u"
| "reported f (ChildReports _ _ u _) = f u"
| "reported f _ = 0"

definition parent_sum :: "(usage_totals \<Rightarrow> nat) \<Rightarrow> ((string \<times> string) \<times> parent_usage) list \<Rightarrow> nat" where
  "parent_sum f ps = sum_list (map (\<lambda>(k, p). f (pu_usage p) + f (pu_inflight p)) ps)"

definition child_sum :: "(usage_totals \<Rightarrow> nat) \<Rightarrow> ((string \<times> string) \<times> child_usage) list \<Rightarrow> nat" where
  "child_sum f cs = sum_list (map (\<lambda>(k, c). f (cu_usage c) + f (cu_inflight c)) cs)"

lemma sum_list_remove:
  assumes "distinct (map fst xs)" "map_of xs k = Some v"
  shows "sum_list (map (\<lambda>(k, x). g x) xs) =
    (g v + sum_list (map (\<lambda>(k, x). g x) (filter (\<lambda>p. fst p \<noteq> k) xs)) :: nat)"
  using assms
proof (induction xs)
  case (Cons p xs)
  show ?case
  proof (cases "fst p = k")
    case True
    then have "filter (\<lambda>q. fst q \<noteq> k) xs = xs" using Cons.prems(1)
      by (simp add: filter_id_conv) (metis image_eqI)
    then show ?thesis using True Cons.prems(2) by (cases p) auto
  qed (use Cons in \<open>cases p, auto\<close>)
qed simp

lemma filter_absent: "map_of xs k = None \<Longrightarrow> filter (\<lambda>p. fst p \<noteq> k) xs = xs"
  by (force simp: filter_id_conv map_of_eq_None_iff)

lemma distinct_al_insert: "distinct (map fst xs) \<Longrightarrow> distinct (map fst (al_insert k v xs))"
  by (auto simp: al_insert_def distinct_map_filter)

text \<open>The entries other than the one of a key.\<close>

lemma parent_sum_insert:
  "parent_sum f (al_insert k p ps) = f (pu_usage p) + f (pu_inflight p) + parent_sum f (al_remove k ps)"
  by (simp add: parent_sum_def al_insert_def al_remove_def)

lemma child_sum_insert:
  "child_sum f (al_insert k c cs) = f (cu_usage c) + f (cu_inflight c) + child_sum f (al_remove k cs)"
  by (simp add: child_sum_def al_insert_def al_remove_def)

lemma parent_sum_remove:
  "\<lbrakk>distinct (map fst ps); map_of ps k = Some p\<rbrakk> \<Longrightarrow>
   parent_sum f ps = f (pu_usage p) + f (pu_inflight p) + parent_sum f (al_remove k ps)"
  using sum_list_remove [of ps k p "\<lambda>p. f (pu_usage p) + f (pu_inflight p)"]
  by (simp add: parent_sum_def al_remove_def)

lemma child_sum_remove:
  "\<lbrakk>distinct (map fst cs); map_of cs k = Some c\<rbrakk> \<Longrightarrow>
   child_sum f cs = f (cu_usage c) + f (cu_inflight c) + child_sum f (al_remove k cs)"
  using sum_list_remove [of cs k c "\<lambda>c. f (cu_usage c) + f (cu_inflight c)"]
  by (simp add: child_sum_def al_remove_def)

lemma al_remove_absent: "map_of xs k = None \<Longrightarrow> al_remove k xs = xs"
  by (simp add: al_remove_def filter_absent)


text \<open>The entries of children that a turn did not spawn.\<close>

abbreviation other_children :: "string \<Rightarrow> ((string \<times> string) \<times> child_usage) list \<Rightarrow> ((string \<times> string) \<times> child_usage) list" where
  "other_children t cs \<equiv> filter (\<lambda>(k, c). cu_turn c \<noteq> Some t) cs"

text \<open>
  The invariant, for one of the counts: the summary holds what it held at the start and the sum of
  all entries, and the base of the current turn is that sum without the turn's own entries.
\<close>

definition ledger_shape :: "string \<Rightarrow> usage_ledger \<Rightarrow> bool" where
  "ledger_shape s l \<longleftrightarrow> distinct (map fst (ul_parents l)) \<and> distinct (map fst (ul_children l)) \<and>
     (\<forall>c\<in>snd ` set (ul_children l). cu_parent c = s) \<and>
     (\<forall>c ow t. ul_owners l c = Some ow \<longrightarrow> co_parent ow = s \<and>
        (co_turn ow = Some t \<longrightarrow> map_of (ul_parents l) (s, t) \<noteq> None)) \<and>
     (\<forall>c t. c \<in> snd ` set (ul_children l) \<longrightarrow> cu_turn c = Some t \<longrightarrow> map_of (ul_parents l) (s, t) \<noteq> None)"

definition ledger_sum :: "(usage_totals \<Rightarrow> nat) \<Rightarrow> usage_ledger \<Rightarrow> nat" where
  "ledger_sum f l = parent_sum f (ul_parents l) + child_sum f (ul_children l)"

definition current_base :: "(usage_totals \<Rightarrow> nat) \<Rightarrow> string \<Rightarrow> nat \<Rightarrow> usage_ledger \<Rightarrow> string option \<Rightarrow> bool" where
  "current_base f s init l cur \<longleftrightarrow> (\<forall>t. cur = Some t \<longrightarrow> (\<exists>p. map_of (ul_parents l) (s, t) = Some p \<and>
     f (pu_base_child p) = child_sum f (other_children t (ul_children l)) \<and>
     f (pu_base_session p) = init + parent_sum f (al_remove (s, t) (ul_parents l)) + f (pu_base_child p)))"

definition ledger_ok :: "(usage_totals \<Rightarrow> nat) \<Rightarrow> string \<Rightarrow> nat \<Rightarrow> nat \<Rightarrow> usage_world \<times> string option \<Rightarrow> bool" where
  "ledger_ok f s init bound st \<longleftrightarrow> (case st of (w, cur) \<Rightarrow>
     ledger_shape s (uw_ledger w) \<and> f (uw_summary w s) = init + ledger_sum f (uw_ledger w) \<and>
     ledger_sum f (uw_ledger w) \<le> bound \<and> current_base f s init (uw_ledger w) cur)"

text \<open>A count: a component that the arithmetic of totals treats pointwise.\<close>

locale usage_count =
  fixes f :: "usage_totals \<Rightarrow> nat"
  assumes count_zero: "f no_usage = 0"
    and count_add: "f (usage_add a b) = sat_add_u64 (f a) (f b)"
    and count_sub: "f (usage_sub a b) = f a - f b"
    and count_summary: "f (totals_from_summary a) = f a"
begin

lemma count_fold:
  "f a + sum_list (map (\<lambda>c. f (cu_usage c) + f (cu_inflight c)) cs) \<le> u64_max \<Longrightarrow>
   f (foldl (\<lambda>t c. usage_add t (child_total c)) a cs) =
     f a + sum_list (map (\<lambda>c. f (cu_usage c) + f (cu_inflight c)) cs)"
proof (induction cs arbitrary: a)
  case (Cons c cs)
  have "f (usage_add a (child_total c)) = f a + (f (cu_usage c) + f (cu_inflight c))"
    using Cons.prems by (simp add: count_add child_total_def sat_add_u64_exact)
  then show ?case using Cons by simp
qed simp

lemma count_children:
  assumes "child_sum f (filter (\<lambda>(k, c). P c) (ul_children l)) \<le> u64_max"
  shows "f (sum_children P l) = child_sum f (filter (\<lambda>(k, c). P c) (ul_children l))"
proof -
  have "filter P (map snd (ul_children l)) = map snd (filter (\<lambda>(k, c). P c) (ul_children l))"
    by (simp add: filter_map o_def case_prod_unfold)
  then show ?thesis using assms count_fold [of no_usage]
    by (simp add: sum_children_def child_sum_def count_zero case_prod_unfold comp_def)
qed

lemma count_session_children:
  assumes "ledger_shape s l" "child_sum f (ul_children l) \<le> u64_max"
  shows "f (child_totals_for_parent_session s l) = child_sum f (ul_children l)"
proof -
  have "filter (\<lambda>(k, c). cu_parent c = s) (ul_children l) = ul_children l"
    using assms(1) by (force simp: ledger_shape_def filter_id_conv)
  then show ?thesis using assms(2) count_children [of "\<lambda>c. cu_parent c = s" l]
    by (simp add: child_totals_for_parent_session_def)
qed

lemma child_sum_split:
  "child_sum f cs = child_sum f (other_children t cs) + child_sum f (filter (\<lambda>(k, c). cu_turn c = Some t) cs)"
  by (induction cs) (auto simp: child_sum_def)

text \<open>The session totals shown for the current turn.\<close>

lemma snapshot_total:
  assumes "ledger_shape s l" "current_base f s init l (Some t)" "init + ledger_sum f l \<le> u64_max"
  shows "\<exists>snap. snapshot_for_parent_turn s t l = Some snap \<and> us_session snap = s \<and>
    f (us_session_totals snap) = init + ledger_sum f l"
proof -
  obtain p where p: "map_of (ul_parents l) (s, t) = Some p"
    "f (pu_base_child p) = child_sum f (other_children t (ul_children l))"
    "f (pu_base_session p) = init + parent_sum f (al_remove (s, t) (ul_parents l)) + f (pu_base_child p)"
    using assms(2) by (auto simp: current_base_def)
  have ps: "parent_sum f (ul_parents l) =
      f (pu_usage p) + f (pu_inflight p) + parent_sum f (al_remove (s, t) (ul_parents l))"
    using assms(1) p(1) by (intro parent_sum_remove) (simp_all add: ledger_shape_def)
  have cs: "f (child_totals_for_parent_session s l) = child_sum f (ul_children l)"
    using assms(1,3) by (intro count_session_children) (simp_all add: ledger_sum_def)
  have le: "f (pu_base_child p) \<le> child_sum f (ul_children l)"
    using child_sum_split [of "ul_children l" t] p(2) by simp
  show ?thesis using p(1,3) assms(3) ps cs le
    by (simp add: snapshot_for_parent_turn_def Let_def count_add count_sub ledger_sum_def sat_add_u64_exact)
qed

end

interpretation count_input: usage_count ut_input
  by unfold_locales (simp_all add: no_usage_def usage_add_def usage_sub_def totals_from_summary_def)
interpretation count_output: usage_count ut_output
  by unfold_locales (simp_all add: no_usage_def usage_add_def usage_sub_def totals_from_summary_def)
interpretation count_total: usage_count ut_total
  by unfold_locales (simp_all add: no_usage_def usage_add_def usage_sub_def totals_from_summary_def)
interpretation count_creation: usage_count ut_cache_creation
  by unfold_locales (simp_all add: no_usage_def usage_add_def usage_sub_def totals_from_summary_def)
interpretation count_read: usage_count ut_cache_read
  by unfold_locales (simp_all add: no_usage_def usage_add_def usage_sub_def totals_from_summary_def)


text \<open>What one entry changes.\<close>

lemma ledger_shapeI:
  assumes "distinct (map fst (ul_parents l))" "distinct (map fst (ul_children l))"
    and "\<And>c. c \<in> snd ` set (ul_children l) \<Longrightarrow> cu_parent c = s"
    and "\<And>c t. \<lbrakk>c \<in> snd ` set (ul_children l); cu_turn c = Some t\<rbrakk> \<Longrightarrow> map_of (ul_parents l) (s, t) \<noteq> None"
    and "\<And>k ow. ul_owners l k = Some ow \<Longrightarrow> co_parent ow = s"
    and "\<And>k ow t. \<lbrakk>ul_owners l k = Some ow; co_turn ow = Some t\<rbrakk> \<Longrightarrow> map_of (ul_parents l) (s, t) \<noteq> None"
  shows "ledger_shape s l"
  unfolding ledger_shape_def
  by (intro conjI ballI allI impI) (erule (1) assms | erule assms | rule assms)+

lemma ledger_shapeD:
  assumes "ledger_shape s l"
  shows "c \<in> snd ` set (ul_children l) \<Longrightarrow> cu_parent c = s"
    and "\<lbrakk>c \<in> snd ` set (ul_children l); cu_turn c = Some t\<rbrakk> \<Longrightarrow> map_of (ul_parents l) (s, t) \<noteq> None"
    and "ul_owners l k = Some ow \<Longrightarrow> co_parent ow = s"
    and "\<lbrakk>ul_owners l k = Some ow; co_turn ow = Some t\<rbrakk> \<Longrightarrow> map_of (ul_parents l) (s, t) \<noteq> None"
  using assms unfolding ledger_shape_def by blast+

lemma al_remove_insert [simp]: "al_remove k (al_insert k v xs) = al_remove k xs"
  by (simp add: al_remove_def al_insert_def)

lemma update_parent:
  assumes shape: "ledger_shape s l" and p: "map_of (ul_parents l) (s, t) = Some p"
    and l': "l' = l\<lparr>ul_parents := al_insert (s, t) p' (ul_parents l)\<rparr>"
    and bases: "pu_base_session p' = pu_base_session p" "pu_base_child p' = pu_base_child p"
  shows "ledger_shape s l'"
    and "ledger_sum f l' + f (pu_usage p) + f (pu_inflight p) = ledger_sum f l + f (pu_usage p') + f (pu_inflight p')"
    and "current_base f s init l (Some t) \<Longrightarrow> current_base f s init l' (Some t)"
proof -
  show "ledger_shape s l'" using shape by (auto simp: l' ledger_shape_def distinct_al_insert)
  show "ledger_sum f l' + f (pu_usage p) + f (pu_inflight p) = ledger_sum f l + f (pu_usage p') + f (pu_inflight p')"
    using parent_sum_remove [OF _ p, of f] shape by (simp add: l' ledger_sum_def parent_sum_insert ledger_shape_def)
  show "current_base f s init l (Some t) \<Longrightarrow> current_base f s init l' (Some t)"
    using p bases by (simp add: l' current_base_def)
qed

lemma other_children_insert:
  assumes "distinct (map fst cs)" "\<And>e. map_of cs k = Some e \<Longrightarrow> cu_turn e = Some t" "cu_turn e' = Some t"
  shows "other_children t (al_insert k e' cs) = other_children t cs"
proof -
  have "cu_turn (snd p) = Some t" if "p \<in> set cs" "fst p = k" for p
    using assms(1,2) that by (metis map_of_is_SomeI prod.collapse)
  then show ?thesis using assms(3) by (force simp: al_insert_def intro!: filter_cong)
qed

lemma update_child:
  assumes shape: "ledger_shape s l" and e: "child_entry c ct l = Some e" "cu_turn e = Some t"
    and l': "l' = l\<lparr>ul_children := al_insert (c, ct) e' (ul_children l)\<rparr>"
    and same: "cu_parent e' = cu_parent e" "cu_turn e' = cu_turn e"
  shows "ledger_shape s l'" "cu_parent e = s" "map_of (ul_parents l) (s, t) \<noteq> None"
    and "f no_usage = 0 \<Longrightarrow>
      ledger_sum f l' + f (cu_usage e) + f (cu_inflight e) = ledger_sum f l + f (cu_usage e') + f (cu_inflight e')"
    and "current_base f s init l (Some t) \<Longrightarrow> current_base f s init l' (Some t)"
proof -
  have "cu_parent e = s \<and> map_of (ul_parents l) (s, t) \<noteq> None"
  proof (cases "map_of (ul_children l) (c, ct)")
    case None
    then obtain ow where ow: "ul_owners l c = Some ow" "cu_parent e = co_parent ow" "co_turn ow = Some t"
      using e by (auto simp: child_entry_def)
    then show ?thesis using ledger_shapeD(3,4) [OF shape ow(1)] by simp
  next
    case (Some x)
    then have "e \<in> snd ` set (ul_children l)" using e(1) map_of_SomeD [OF Some] by (force simp: child_entry_def)
    then show ?thesis using ledger_shapeD(1,2) [OF shape] e(2) by blast
  qed
  then show par: "cu_parent e = s" "map_of (ul_parents l) (s, t) \<noteq> None" by simp_all
  have "snd ` set (ul_children l') \<subseteq> insert e' (snd ` set (ul_children l))" by (auto simp: l' al_insert_def)
  then have old: "d \<in> snd ` set (ul_children l)" if "d \<in> snd ` set (ul_children l')" "d \<noteq> e'" for d
    using that by blast
  have kids: "cu_parent d = s \<and> (\<forall>u. cu_turn d = Some u \<longrightarrow> map_of (ul_parents l) (s, u) \<noteq> None)"
    if "d \<in> snd ` set (ul_children l')" for d
  proof (cases "d = e'")
    case True
    then show ?thesis using par e(2) same by simp
  next
    case False
    then show ?thesis using ledger_shapeD(1,2) [OF shape old [OF that]] by blast
  qed
  have keys: "distinct (map fst (ul_children l'))" "distinct (map fst (ul_parents l'))"
    "ul_parents l' = ul_parents l" "ul_owners l' = ul_owners l"
    using shape by (simp_all add: l' ledger_shape_def distinct_al_insert)
  show "ledger_shape s l'"
  proof (rule ledger_shapeI)
    show "distinct (map fst (ul_parents l'))" "distinct (map fst (ul_children l'))" by fact+
    show "cu_parent d = s" if "d \<in> snd ` set (ul_children l')" for d using kids [OF that] by blast
    show "map_of (ul_parents l') (s, u) \<noteq> None" if "d \<in> snd ` set (ul_children l')" "cu_turn d = Some u" for d u
      unfolding keys(3) using kids [OF that(1)] that(2) by blast
    show "co_parent ow = s" if "ul_owners l' k = Some ow" for k ow
      using that unfolding keys(4) by (rule ledger_shapeD(3) [OF shape])
    show "map_of (ul_parents l') (s, u) \<noteq> None" if "ul_owners l' k = Some ow" "co_turn ow = Some u" for k ow u
      using that unfolding keys(3,4) by (rule ledger_shapeD(4) [OF shape])
  qed
  show "ledger_sum f l' + f (cu_usage e) + f (cu_inflight e) = ledger_sum f l + f (cu_usage e') + f (cu_inflight e')"
    if "f no_usage = 0"
  proof (cases "map_of (ul_children l) (c, ct)")
    case None
    then have "cu_usage e = no_usage" "cu_inflight e = no_usage" using e(1) by (auto simp: child_entry_def)
    then show ?thesis using that by (simp add: l' ledger_sum_def child_sum_insert al_remove_absent [OF None])
  next
    case (Some x)
    then have "x = e" using e(1) by (simp add: child_entry_def)
    then show ?thesis using child_sum_remove [OF _ Some, of f] shape
      by (simp add: l' ledger_sum_def child_sum_insert ledger_shape_def)
  qed
  have "other_children t (ul_children l') = other_children t (ul_children l)"
    unfolding l' using shape e same
    by (simp, intro other_children_insert) (auto simp: ledger_shape_def child_entry_def)
  then show "current_base f s init l (Some t) \<Longrightarrow> current_base f s init l' (Some t)"
    by (simp add: l' current_base_def)
qed

context usage_count
begin

lemma count_update:
  assumes "apply_usage_update kind u (a, b) = (a', b')" "f a + f u \<le> u64_max"
  shows "f a' + f b' \<le> f a + f b + f u"
  using assms by (cases kind) (auto simp: apply_usage_update_def count_add count_zero sat_add_u64_exact)

text \<open>The summary after a snapshot of the current turn.\<close>

lemma ledger_ok_snapshot:
  assumes "ledger_shape s l" "current_base f s init l (Some t)" "ledger_sum f l \<le> bound" "init + bound \<le> u64_max"
  shows "ledger_ok f s init bound (apply_snapshot (snapshot_for_parent_turn s t l) (w\<lparr>uw_ledger := l\<rparr>), Some t)"
  using snapshot_total [OF assms(1,2)] assms
  by (fastforce simp: ledger_ok_def apply_snapshot_def count_summary)

lemma ledger_ok_begin:
  assumes ok: "ledger_ok f s init bound (w, cur)" and fresh: "\<not> parent_turn_started s t (uw_ledger w)"
    and room: "init + bound \<le> u64_max"
  shows "ledger_ok f s init bound (begin_parent_usage_turn s t window w, Some t)"
proof -
  let ?l = "uw_ledger w"
  have new: "map_of (ul_parents ?l) (s, t) = None" using fresh by (simp add: parent_turn_started_def)
  have shape: "ledger_shape s ?l" using ok by (simp add: ledger_ok_def)
  have "cu_turn c \<noteq> Some t" if "c \<in> snd ` set (ul_children ?l)" for c
    using ledger_shapeD(2) [OF shape that] new by blast
  then have others: "other_children t (ul_children ?l) = ul_children ?l"
    by (force simp: filter_id_conv)
  have cs: "f (child_totals_for_parent_session s ?l) = child_sum f (ul_children ?l)"
    using shape ok room by (intro count_session_children) (auto simp: ledger_ok_def ledger_sum_def)
  show ?thesis
    using ok fresh new others cs
    by (auto simp: ledger_ok_def begin_parent_usage_turn_def begin_parent_turn_def ledger_shape_def
        distinct_al_insert ledger_sum_def parent_sum_insert al_remove_absent count_zero current_base_def
        count_summary)
qed

lemma ledger_ok_parent:
  assumes ok: "ledger_ok f s init bound (w, Some t)" and room: "init + (bound + f u) \<le> u64_max"
  shows "ledger_ok f s init (bound + f u) (publish_parent_turn_usage s t u window kind w, Some t)"
proof -
  let ?l = "uw_ledger w"
  obtain p where p: "map_of (ul_parents ?l) (s, t) = Some p" using ok by (auto simp: ledger_ok_def current_base_def)
  have shape: "ledger_shape s ?l" and base: "current_base f s init ?l (Some t)" and le: "ledger_sum f ?l \<le> bound"
    using ok by (simp_all add: ledger_ok_def)
  obtain a b where ab: "apply_usage_update kind u (pu_usage p, pu_inflight p) = (a, b)" by fastforce
  define p' where "p' = (let q = p\<lparr>pu_usage := a, pu_inflight := b, pu_latest := u\<rparr>
    in if window \<noteq> None then q\<lparr>pu_window := window\<rparr> else q)"
  define l' where "l' = ?l\<lparr>ul_parents := al_insert (s, t) p' (ul_parents ?l)\<rparr>"
  have p': "pu_base_session p' = pu_base_session p" "pu_base_child p' = pu_base_child p"
    "pu_usage p' = a" "pu_inflight p' = b" by (simp_all add: p'_def Let_def)
  note upd = update_parent [OF shape p l'_def p'(1,2)]
  have "f (pu_usage p) + f (pu_inflight p) \<le> ledger_sum f ?l"
    using parent_sum_remove [OF _ p, of f] shape by (simp add: ledger_sum_def ledger_shape_def)
  then have "ledger_sum f l' \<le> bound + f u"
    using count_update [OF ab] upd(2) [of f] le room by (simp add: p'(3,4))
  moreover have "publish_parent_turn_usage s t u window kind w =
      apply_snapshot (snapshot_for_parent_turn s t l') (w\<lparr>uw_ledger := l'\<rparr>)"
    using p ab by (simp add: publish_parent_turn_usage_def begin_parent_usage_turn_def parent_turn_started_def
        record_parent_turn_usage_def Let_def l'_def p'_def)
  ultimately show ?thesis using ledger_ok_snapshot [OF upd(1) upd(3) [OF base] _ room] by simp
qed


text \<open>A child of the current turn reports, or its stream is cut off.\<close>

lemma ledger_ok_entry:
  assumes ok: "ledger_ok f s init bound (w, Some t)" and room: "init + (bound + d) \<le> u64_max"
    and e: "child_entry c ct (uw_ledger w) = Some e" "cu_turn e = Some t"
    and e': "cu_parent e' = cu_parent e" "cu_turn e' = cu_turn e"
    and more: "f (cu_usage e') + f (cu_inflight e') \<le> f (cu_usage e) + f (cu_inflight e) + d"
    and l1: "l1 = (uw_ledger w)\<lparr>ul_children := al_insert (c, ct) e' (ul_children (uw_ledger w))\<rparr>"
    and l2: "l2 = l1 \<or> (\<exists>p u. map_of (ul_parents l1) (s, t) = Some p \<and>
      l2 = l1\<lparr>ul_parents := al_insert (s, t) (p\<lparr>pu_latest := u\<rparr>) (ul_parents l1)\<rparr>)"
  shows "ledger_ok f s init (bound + d) (apply_snapshot (snapshot_for_parent_turn s t l2) (w\<lparr>uw_ledger := l2\<rparr>), Some t)"
proof -
  have shape: "ledger_shape s (uw_ledger w)" and base: "current_base f s init (uw_ledger w) (Some t)"
    and le: "ledger_sum f (uw_ledger w) \<le> bound" using ok by (simp_all add: ledger_ok_def)
  note upd = update_child [OF shape e l1 e']
  have one: "ledger_shape s l1" "current_base f s init l1 (Some t)" "ledger_sum f l1 \<le> bound + d"
    using upd(1) upd(5) [OF base] upd(4) [of f] count_zero more le by simp_all
  have "ledger_shape s l2 \<and> current_base f s init l2 (Some t) \<and> ledger_sum f l2 = ledger_sum f l1"
    using l2
  proof (elim disjE exE conjE)
    fix p u
    assume p: "map_of (ul_parents l1) (s, t) = Some p"
      and l2': "l2 = l1\<lparr>ul_parents := al_insert (s, t) (p\<lparr>pu_latest := u\<rparr>) (ul_parents l1)\<rparr>"
    from update_parent [OF one(1) p l2'] one(2) show ?thesis by simp
  qed (use one in simp)
  then show ?thesis using ledger_ok_snapshot [of s l2 init t "bound + d" w] one(3) room by simp
qed

lemma ledger_ok_child:
  assumes ok: "ledger_ok f s init bound (w, Some t)" and room: "init + (bound + f u) \<le> u64_max"
    and e: "child_entry c ct (uw_ledger w) = Some e" "cu_turn e = Some t"
  shows "ledger_ok f s init (bound + f u) (publish_subagent_turn_usage c ct u kind w, Some t)"
proof -
  let ?l = "uw_ledger w"
  have shape: "ledger_shape s ?l" and le: "ledger_sum f ?l \<le> bound" using ok by (simp_all add: ledger_ok_def)
  have started: "map_of (ul_parents ?l) (s, t) \<noteq> None"
    using ok by (auto simp: ledger_ok_def current_base_def)
  have idle: "begin_parent_usage_turn (co_parent ow) pt None w = w" if "ul_owners ?l c = Some ow" "co_turn ow = Some pt" for ow pt
    using ledger_shapeD(3) [OF shape that(1)] ledger_shapeD(4) [OF shape that]
    by (simp add: begin_parent_usage_turn_def parent_turn_started_def)
  obtain a b where ab: "apply_usage_update kind u (cu_usage e, cu_inflight e) = (a, b)" by fastforce
  let ?e = "e\<lparr>cu_usage := a, cu_inflight := b\<rparr>"
  let ?l1 = "?l\<lparr>ul_children := al_insert (c, ct) ?e (ul_children ?l)\<rparr>"
  note upd = update_child [OF shape e refl, of ?e]
  obtain p where p: "map_of (ul_parents ?l1) (s, t) = Some p" using started by auto
  let ?l2 = "?l1\<lparr>ul_parents := al_insert (s, t) (p\<lparr>pu_latest := u\<rparr>) (ul_parents ?l1)\<rparr>"
  have eq: "publish_subagent_turn_usage c ct u kind w =
      apply_snapshot (snapshot_for_parent_turn s t ?l2) (w\<lparr>uw_ledger := ?l2\<rparr>)"
    using idle e ab p upd(2)
    by (simp add: publish_subagent_turn_usage_def record_child_turn_usage_def Let_def split: option.split)
  have "f (cu_usage e) + f (cu_inflight e) \<le> ledger_sum f ?l"
  proof (cases "map_of (ul_children ?l) (c, ct)")
    case None
    then have "cu_usage e = no_usage" "cu_inflight e = no_usage" using e(1) by (auto simp: child_entry_def)
    then show ?thesis by (simp add: count_zero)
  next
    case (Some x)
    then show ?thesis using child_sum_remove [OF _ Some, of f] shape e(1)
      by (simp add: child_entry_def ledger_sum_def ledger_shape_def)
  qed
  then have "f a + f b \<le> f (cu_usage e) + f (cu_inflight e) + f u"
    using count_update [OF ab] le room by simp
  then show ?thesis unfolding eq using ok room e p
    by (intro ledger_ok_entry [OF ok room e, of ?e ?l1 ?l2]) auto
qed

lemma ledger_ok_commit:
  assumes ok: "ledger_ok f s init bound (w, Some t)" and room: "init + bound \<le> u64_max"
    and e: "map_of (ul_children (uw_ledger w)) (c, ct) = Some e" "cu_turn e = Some t"
  shows "ledger_ok f s init bound (commit_subagent_inflight_usage c ct w, Some t)"
proof -
  let ?e = "e\<lparr>cu_usage := usage_add (cu_usage e) (cu_inflight e), cu_inflight := no_usage\<rparr>"
  let ?l = "(uw_ledger w)\<lparr>ul_children := al_insert (c, ct) ?e (ul_children (uw_ledger w))\<rparr>"
  have entry: "child_entry c ct (uw_ledger w) = Some e" using e(1) by (simp add: child_entry_def)
  have shape: "ledger_shape s (uw_ledger w)" using ok by (simp add: ledger_ok_def)
  have "cu_parent e = s" using update_child(2) [OF shape entry e(2) refl refl refl] .
  then have eq: "commit_subagent_inflight_usage c ct w =
      apply_snapshot (snapshot_for_parent_turn s t ?l) (w\<lparr>uw_ledger := ?l\<rparr>)"
    using e by (simp add: commit_subagent_inflight_usage_def commit_child_inflight_usage_def Let_def)
  have "f (usage_add (cu_usage e) (cu_inflight e)) \<le> f (cu_usage e) + f (cu_inflight e)"
    by (simp add: count_add sat_add_u64_def)
  then show ?thesis unfolding eq using ok room entry e(2)
    using ledger_ok_entry [OF ok, of 0 c ct e ?e ?l ?l] by (simp add: count_zero)
qed

lemma ledger_ok_step:
  assumes ok: "ledger_ok f s init bound (w, cur)" and now: "on_time s (w, cur) x"
    and room: "init + (bound + reported f x) \<le> u64_max"
  shows "ledger_ok f s init (bound + reported f x) (run_usage s (w, cur) x)"
proof (cases x)
  case (TurnBegins t window)
  then show ?thesis using ledger_ok_begin [OF ok] now room by simp
next
  case (ChildSpawned c)
  have shape: "ledger_shape s (uw_ledger w)" using ok by (simp add: ledger_ok_def)
  have "map_of (ul_parents (uw_ledger w)) (s, t) \<noteq> None" if "cur = Some t" for t
    using ok that by (auto simp: ledger_ok_def current_base_def)
  then have "ledger_shape s (register_child_owner s c cur (uw_ledger w))"
    using shape by (intro ledger_shapeI)
      (auto simp: register_child_owner_def ledger_shape_def split: if_splits)
  then show ?thesis using ok
    by (simp add: ChildSpawned ledger_ok_def register_child_owner_def ledger_sum_def current_base_def)
next
  case (ParentReports u window kind)
  then show ?thesis using ok room ledger_ok_parent by (cases cur) (auto simp: ledger_ok_def)
next
  case (ChildReports c ct u kind)
  show ?thesis
  proof (cases "child_entry c ct (uw_ledger w)")
    case None
    then have "map_of (ul_children (uw_ledger w)) (c, ct) = None" "ul_owners (uw_ledger w) c = None"
      by (auto simp: child_entry_def split: option.splits)
    then have "publish_subagent_turn_usage c ct u kind w = w"
      using None by (simp add: publish_subagent_turn_usage_def record_child_turn_usage_def apply_snapshot_def)
    then show ?thesis using ok by (auto simp: ChildReports ledger_ok_def)
  next
    case (Some e)
    then obtain t where "cur = Some t" "cu_turn e = Some t" using now by (auto simp: ChildReports)
    then show ?thesis using ledger_ok_child [of s init bound w t u c ct e kind] ok room Some
      by (simp add: ChildReports)
  qed
next
  case (ChildCommits c ct)
  show ?thesis
  proof (cases "map_of (ul_children (uw_ledger w)) (c, ct)")
    case None
    then have "commit_subagent_inflight_usage c ct w = w"
      by (simp add: commit_subagent_inflight_usage_def commit_child_inflight_usage_def apply_snapshot_def)
    then show ?thesis using ok by (simp add: ChildCommits)
  next
    case (Some e)
    then obtain t where "cur = Some t" "cu_turn e = Some t" using now by (auto simp: ChildCommits)
    then show ?thesis using ledger_ok_commit [of s init bound w t c ct e] ok room Some
      by (simp add: ChildCommits)
  qed
qed

lemma ledger_ok_run:
  assumes "ledger_ok f s init bound st" "punctual s st xs"
    and "init + (bound + sum_list (map (reported f) xs)) \<le> u64_max"
  shows "ledger_ok f s init (bound + sum_list (map (reported f) xs)) (foldl (run_usage s) st xs)"
  using assms
proof (induction xs arbitrary: st bound)
  case (Cons x xs)
  obtain w cur where st: "st = (w, cur)" by fastforce
  have "ledger_ok f s init (bound + reported f x) (run_usage s st x)"
    using ledger_ok_step [of s init bound w cur x] Cons.prems by (simp add: st)
  from Cons.IH [OF this] Cons.prems show ?case by (simp add: add.assoc)
qed simp

end


definition usage_counts :: "(usage_totals \<Rightarrow> nat) set" where
  "usage_counts = {ut_input, ut_output, ut_total, ut_cache_creation, ut_cache_read}"


text \<open>Two turns with a child each, the second with a call that still runs.\<close>

definition tokens :: "nat \<Rightarrow> usage_totals" where
  "tokens n = \<lparr>ut_input = n, ut_output = 0, ut_total = n, ut_cache_creation = 0, ut_cache_read = 0, ut_reasoning = 0\<rparr>"

definition fresh_world :: usage_world where
  "fresh_world = \<lparr>uw_ledger = new_ledger, uw_summary = (\<lambda>_. tokens 100)\<rparr>"

definition sample_usage :: "usage_step list" where
  "sample_usage =
     [TurnBegins ''t1'' None, ChildSpawned ''c'', ParentReports (tokens 10) None CompletedLeg,
      ChildReports ''c'' ''x'' (tokens 3) InFlight, ChildCommits ''c'' ''x'',
      TurnBegins ''t2'' None, ParentReports (tokens 5) None InFlight, ParentReports (tokens 7) None InFlight]"

lemmas usage_step_defs = begin_parent_usage_turn_def begin_parent_turn_def parent_turn_started_def
  register_child_owner_def publish_parent_turn_usage_def record_parent_turn_usage_def
  publish_subagent_turn_usage_def record_child_turn_usage_def child_entry_def apply_usage_update_def
  commit_subagent_inflight_usage_def commit_child_inflight_usage_def snapshot_for_parent_turn_def
  child_totals_for_parent_session_def child_totals_for_parent_turn_def sum_children_def child_total_def
  apply_snapshot_def totals_from_summary_def usage_add_def usage_sub_def no_usage_def tokens_def
  fresh_world_def new_ledger_def al_insert_def sat_add_u64_def u64_max_def Let_def


text \<open>
  A child that outlives the turn that spawned it reports for that turn: the summary falls back to
  the totals of the old turn, and what a later turn used is missing from then on.
\<close>

lemma late_child_erases_usage:
  "case foldl (run_usage ''s'') (fresh_world, None)
     [TurnBegins ''t1'' None, ChildSpawned ''c'', ParentReports (tokens 10) None CompletedLeg,
      TurnBegins ''t2'' None, ParentReports (tokens 5) None CompletedLeg,
      ChildReports ''c'' ''x'' (tokens 1) CompletedLeg,
      TurnBegins ''t3'' None, ParentReports (tokens 2) None CompletedLeg]
   of (w, cur) \<Rightarrow> ut_input (uw_summary w ''s'') = 113 \<and> ledger_sum ut_input (uw_ledger w) = 18"
  by (simp add: usage_step_defs ledger_sum_def parent_sum_def child_sum_def)

end
