(* ===== verification/Schedule_Store.thy ===== *)
theory Schedule_Store
  imports Prelude "HOL-Library.Char_ord" "HOL-Library.List_Lexorder" "HOL-Library.Product_Lexorder"
begin

text \<open>
  Scheduled jobs (\<open>server/src/schedule_store.rs\<close>) and the outbox of their occurrences
  (\<open>server/src/schedule_store/outbox.rs\<close>).

  Both files are replaced by an atomic rename under one lock, so an operation either leaves a
  file as it was or writes it in full; a claim writes first the outbox and then the jobs, and
  may be cut between the two. A time is the number of nanoseconds since the epoch; the largest
  time that the date library can represent is the parameter \<open>tmax\<close>, the clock is the
  parameter \<open>now\<close> and the identifier of a new job is the parameter \<open>fresh\<close>.
\<close>

section \<open>Jobs\<close>

type_synonym time = int

datatype job_kind = Cron | Heartbeat

datatype delivery_mode = DeliverSteer | DeliverFollowUp

datatype job_status = JobActive | JobPaused | JobStopped

datatype update_action = ActionPause | ActionResume | ActionStop

record schedule_job =
  sj_id :: string
  sj_kind :: job_kind
  sj_status :: job_status
  sj_session :: string
  sj_cwd :: "string option"
  sj_schedule :: "string option"
  sj_interval :: "nat option"
  sj_prompt :: "string option"
  sj_instruction :: "string option"
  sj_delivery :: delivery_mode
  sj_label :: "string option"
  sj_created :: time
  sj_updated :: time
  sj_next :: "time option"
  sj_last :: "time option"
  sj_count :: nat

record upsert_params =
  up_kind :: job_kind
  up_session :: string
  up_job :: "string option"
  up_cwd :: "string option"
  up_schedule :: "string option"
  up_interval :: "nat option"
  up_prompt :: "string option"
  up_instruction :: "string option"
  up_delivery :: delivery_mode
  up_label :: "string option"

datatype schedule_error =
    NotAnInterval "string option"
  | OutsideDateRange
  | JobNotFound string
  | StoppedIsTerminal

section \<open>Intervals\<close>

text \<open>\<open>num.parse::<u64>()\<close> of a string of digits: empty and too large strings are refused.\<close>

definition digits_value :: "string \<Rightarrow> nat" where
  "digits_value s = foldl (\<lambda>n c. 10 * n + (of_char c - 48)) 0 s"

definition parse_digits :: "string \<Rightarrow> nat option" where
  "parse_digits s = (if s \<noteq> [] \<and> list_all is_ascii_digit s \<and> digits_value s \<le> u64_max then Some (digits_value s) else None)"

definition unit_multiplier :: "string \<Rightarrow> nat option" where
  "unit_multiplier u =
     (if u \<in> {''s'', ''sec'', ''secs'', ''second'', ''seconds''} then Some 1000
      else if u \<in> {''m'', ''min'', ''mins'', ''minute'', ''minutes''} then Some 60000
      else if u \<in> {''h'', ''hr'', ''hrs'', ''hour'', ''hours''} then Some 3600000
      else None)"

definition checked_mul_u64 :: "nat \<Rightarrow> nat \<Rightarrow> nat option" where
  "checked_mul_u64 a b = (if a * b \<le> u64_max then Some (a * b) else None)"

definition parse_interval_ms :: "string \<Rightarrow> nat option" where
  "parse_interval_ms schedule =
     (let trimmed = to_ascii_lowercase (trim schedule);
          rest = trim (case strip_prefix ''every '' trimmed of None \<Rightarrow> trimmed | Some r \<Rightarrow> r)
      in if rest = [] then None
         else case parse_digits (takeWhile is_ascii_digit rest) of
                None \<Rightarrow> None
              | Some amount \<Rightarrow>
                  (case unit_multiplier (trim (dropWhile is_ascii_digit rest)) of
                     None \<Rightarrow> None
                   | Some m \<Rightarrow> checked_mul_u64 amount m))"

text \<open>
  The time after an interval. The conversions to the duration type fail only for intervals that
  leave the range of dates anyway.
\<close>

definition next_run_from_interval :: "time \<Rightarrow> nat option \<Rightarrow> time \<Rightarrow> time option" where
  "next_run_from_interval tmax interval from_time =
     (case interval of
        None \<Rightarrow> None
      | Some ms \<Rightarrow>
          (if ms > 0 \<and> from_time + int ms * 1000000 \<le> tmax then Some (from_time + int ms * 1000000) else None))"

section \<open>Reading and changing the jobs\<close>

fun update_first :: "('a \<Rightarrow> bool) \<Rightarrow> ('a \<Rightarrow> 'a) \<Rightarrow> 'a list \<Rightarrow> 'a list" where
  "update_first P f [] = []"
| "update_first P f (x # xs) = (if P x then f x # xs else x # update_first P f xs)"

definition update_last :: "('a \<Rightarrow> bool) \<Rightarrow> ('a \<Rightarrow> 'a) \<Rightarrow> 'a list \<Rightarrow> 'a list" where
  "update_last P f xs = rev (update_first P f (rev xs))"

definition list_filtered :: "string option \<Rightarrow> string option \<Rightarrow> bool \<Rightarrow> schedule_job list \<Rightarrow> schedule_job list" where
  "list_filtered session cwd include_stopped jobs =
     filter (\<lambda>j. (include_stopped \<or> sj_status j \<noteq> JobStopped) \<and>
                 (case session of None \<Rightarrow> True | Some s \<Rightarrow> sj_session j = s) \<and>
                 (case cwd of None \<Rightarrow> True
                  | Some d \<Rightarrow> (case sj_cwd j of None \<Rightarrow> True | Some jd \<Rightarrow> jd = d))) jobs"

definition get_job :: "string \<Rightarrow> schedule_job list \<Rightarrow> schedule_job option" where
  "get_job i jobs = find (\<lambda>j. sj_id j = i) jobs"

definition some_text :: "string \<Rightarrow> string option" where
  "some_text s = (if s = [] then None else Some s)"

definition unlabeled :: "string option \<Rightarrow> bool" where
  "unlabeled label = (case label of None \<Rightarrow> True | Some l \<Rightarrow> trim l = [])"

text \<open>The heartbeat that \<open>/heartbeat\<close> speaks of: not labelled and not stopped.\<close>

definition user_heartbeat :: "string \<Rightarrow> schedule_job \<Rightarrow> bool" where
  "user_heartbeat session j \<longleftrightarrow>
     sj_kind j = Heartbeat \<and> sj_session j = session \<and> unlabeled (sj_label j) \<and>
     sj_status j \<in> {JobActive, JobPaused}"

definition new_job :: "string \<Rightarrow> upsert_params \<Rightarrow> string \<Rightarrow> nat option \<Rightarrow> time option \<Rightarrow> time \<Rightarrow> schedule_job" where
  "new_job fresh p txt interval next_run now =
     \<lparr>sj_id = fresh, sj_kind = up_kind p, sj_status = JobActive, sj_session = up_session p, sj_cwd = up_cwd p,
      sj_schedule = up_schedule p, sj_interval = interval,
      sj_prompt = (case up_kind p of Cron \<Rightarrow> some_text txt | Heartbeat \<Rightarrow> None),
      sj_instruction = (case up_kind p of Cron \<Rightarrow> None | Heartbeat \<Rightarrow> some_text txt),
      sj_delivery = up_delivery p, sj_label = up_label p, sj_created = now, sj_updated = now,
      sj_next = next_run, sj_last = None, sj_count = 0\<rparr>"

text \<open>The change to the job that the parameters name.\<close>

definition overwrite_job :: "upsert_params \<Rightarrow> string \<Rightarrow> nat option \<Rightarrow> time option \<Rightarrow> time \<Rightarrow> schedule_job \<Rightarrow> schedule_job" where
  "overwrite_job p txt interval next_run now j =
     (let j1 = j\<lparr>sj_kind := up_kind p, sj_session := up_session p, sj_cwd := up_cwd p,
                 sj_schedule := up_schedule p, sj_interval := interval\<rparr>;
          j2 = (case up_kind p of
                  Cron \<Rightarrow> j1\<lparr>sj_prompt := some_text txt, sj_instruction := None\<rparr>
                | Heartbeat \<Rightarrow> j1\<lparr>sj_instruction := some_text txt, sj_prompt := None\<rparr>);
          j3 = j2\<lparr>sj_delivery := up_delivery p, sj_label := up_label p, sj_updated := now\<rparr>
      in if sj_status j3 = JobActive then j3\<lparr>sj_next := next_run\<rparr> else j3)"

text \<open>The change to the user heartbeat that a new one replaces.\<close>

definition replace_heartbeat :: "upsert_params \<Rightarrow> string \<Rightarrow> nat option \<Rightarrow> time option \<Rightarrow> time \<Rightarrow> schedule_job \<Rightarrow> schedule_job" where
  "replace_heartbeat p txt interval next_run now j =
     j\<lparr>sj_cwd := up_cwd p, sj_schedule := up_schedule p, sj_interval := interval,
       sj_instruction := some_text txt, sj_prompt := None, sj_delivery := up_delivery p,
       sj_label := up_label p, sj_status := JobActive, sj_updated := now, sj_next := next_run\<rparr>"

definition upsert_text :: "upsert_params \<Rightarrow> string" where
  "upsert_text p = (case up_prompt p of Some t \<Rightarrow> t | None \<Rightarrow> (case up_instruction p of Some t \<Rightarrow> t | None \<Rightarrow> []))"

definition upsert_interval :: "upsert_params \<Rightarrow> nat option" where
  "upsert_interval p =
     (case (case up_interval p of Some ms \<Rightarrow> Some ms | None \<Rightarrow> Option.bind (up_schedule p) parse_interval_ms) of
        None \<Rightarrow> None
      | Some ms \<Rightarrow> (if ms > 0 then Some ms else None))"

type_synonym job_result = "(schedule_error + schedule_job) \<times> schedule_job list"

definition upsert :: "time \<Rightarrow> time \<Rightarrow> string \<Rightarrow> upsert_params \<Rightarrow> schedule_job list \<Rightarrow> job_result" where
  "upsert tmax now fresh p jobs =
     (case upsert_interval p of
        None \<Rightarrow> (Inl (NotAnInterval (up_schedule p)), jobs)
      | Some ms \<Rightarrow>
          (case next_run_from_interval tmax (Some ms) now of
             None \<Rightarrow> (Inl OutsideDateRange, jobs)
           | Some next_run \<Rightarrow>
               (let txt = upsert_text p;
                    create = new_job fresh p txt (Some ms) (Some next_run) now;
                    overwrite = overwrite_job p txt (Some ms) (Some next_run) now;
                    replace = replace_heartbeat p txt (Some ms) (Some next_run) now
                in case up_job p of
                     Some i \<Rightarrow>
                       (case find (\<lambda>j. sj_id j = i) jobs of
                          None \<Rightarrow> (Inl (JobNotFound i), jobs)
                        | Some j \<Rightarrow> (Inr (overwrite j), update_first (\<lambda>j. sj_id j = i) overwrite jobs))
                   | None \<Rightarrow>
                       (if up_kind p = Heartbeat then
                          (case (if unlabeled (up_label p) then find (user_heartbeat (up_session p)) (rev jobs)
                                 else None) of
                             Some j \<Rightarrow> (Inr (replace j), update_last (user_heartbeat (up_session p)) replace jobs)
                           | None \<Rightarrow> (Inr create, jobs @ [create]))
                        else (Inr create, jobs @ [create])))))"

definition update_job :: "time \<Rightarrow> time \<Rightarrow> string \<Rightarrow> update_action \<Rightarrow> schedule_job list \<Rightarrow> job_result" where
  "update_job tmax now i action jobs =
     (case find (\<lambda>j. sj_id j = i) jobs of
        None \<Rightarrow> (Inl (JobNotFound i), jobs)
      | Some j \<Rightarrow>
          (if sj_status j = JobStopped \<and> action \<noteq> ActionStop then (Inl StoppedIsTerminal, jobs)
           else
             (let store = (\<lambda>j'. (Inr (j'\<lparr>sj_updated := now\<rparr>),
                                 update_first (\<lambda>j. sj_id j = i) (\<lambda>_. j'\<lparr>sj_updated := now\<rparr>) jobs))
              in case action of
                   ActionPause \<Rightarrow> store (j\<lparr>sj_status := JobPaused, sj_next := None\<rparr>)
                 | ActionResume \<Rightarrow>
                     (case next_run_from_interval tmax (sj_interval j) now of
                        None \<Rightarrow> (Inl OutsideDateRange, jobs)
                      | Some next_run \<Rightarrow> store (j\<lparr>sj_status := JobActive, sj_next := Some next_run\<rparr>))
                 | ActionStop \<Rightarrow> store (j\<lparr>sj_status := JobStopped, sj_next := None\<rparr>))))"

fun remove_first :: "('a \<Rightarrow> bool) \<Rightarrow> 'a list \<Rightarrow> 'a list" where
  "remove_first P [] = []"
| "remove_first P (x # xs) = (if P x then xs else x # remove_first P xs)"

definition delete_job :: "time \<Rightarrow> string \<Rightarrow> schedule_job list \<Rightarrow> job_result" where
  "delete_job now i jobs =
     (case find (\<lambda>j. sj_id j = i) jobs of
        None \<Rightarrow> (Inl (JobNotFound i), jobs)
      | Some j \<Rightarrow> (Inr (j\<lparr>sj_status := JobStopped, sj_updated := now, sj_next := None\<rparr>),
                   remove_first (\<lambda>j. sj_id j = i) jobs))"

section \<open>The outbox\<close>

record occurrence =
  oc_id :: string
  oc_scheduled :: time
  oc_job :: schedule_job
  oc_attempts :: nat
  oc_retry :: "time option"
  oc_attempted :: "time option"

definition signed_decimal :: "int \<Rightarrow> string" where
  "signed_decimal i = (if i < 0 then ''-'' @ decimal (nat (- i)) else decimal (nat i))"

definition schedule_occurrence_id :: "string \<Rightarrow> time \<Rightarrow> string" where
  "schedule_occurrence_id i t = ''schedule:'' @ i @ '':'' @ signed_decimal (t div 1000)"

definition new_occurrence :: "schedule_job \<Rightarrow> time \<Rightarrow> occurrence" where
  "new_occurrence j t =
     \<lparr>oc_id = schedule_occurrence_id (sj_id j) t, oc_scheduled = t, oc_job = j, oc_attempts = 0,
      oc_retry = None, oc_attempted = None\<rparr>"

text \<open>The jobs file, the outbox, and the in-flight map, which is only in memory.\<close>

record schedule_store =
  ss_jobs :: "schedule_job list"
  ss_outbox :: "occurrence list"
  ss_inflight :: "string \<rightharpoonup> time"

definition attempts_max :: nat where "attempts_max = 2 ^ 32 - 1"

fun persist_occurrences :: "occurrence list \<Rightarrow> occurrence list \<Rightarrow> occurrence list" where
  "persist_occurrences [] outbox = outbox"
| "persist_occurrences (x # xs) outbox =
     persist_occurrences xs (if list_ex (\<lambda>e. oc_id e = oc_id x) outbox then outbox else outbox @ [x])"

definition is_due :: "time \<Rightarrow> schedule_job \<Rightarrow> bool" where
  "is_due now j \<longleftrightarrow> sj_status j = JobActive \<and> (case sj_next j of None \<Rightarrow> False | Some t \<Rightarrow> t \<le> now)"

definition advance_job :: "time \<Rightarrow> time \<Rightarrow> schedule_job \<Rightarrow> schedule_job" where
  "advance_job tmax now j =
     j\<lparr>sj_last := Some now, sj_count := sat_add_u64 (sj_count j) 1,
       sj_next := next_run_from_interval tmax (sj_interval j) now, sj_updated := now\<rparr>"

fun claim_jobs :: "time \<Rightarrow> time \<Rightarrow> schedule_job list \<Rightarrow> schedule_job list \<times> occurrence list" where
  "claim_jobs tmax now [] = ([], [])"
| "claim_jobs tmax now (j # js) =
     (case claim_jobs tmax now js of (js', occs) \<Rightarrow>
        if is_due now j then
          (advance_job tmax now j # js', new_occurrence (advance_job tmax now j) (the (sj_next j)) # occs)
        else (j # js', occs))"

text \<open>A claim; \<open>cut\<close> is a crash or a failure after the outbox is written.\<close>

definition claim_due_with_outbox :: "time \<Rightarrow> time \<Rightarrow> bool \<Rightarrow> schedule_store \<Rightarrow> schedule_store" where
  "claim_due_with_outbox tmax now cut_off st =
     (case claim_jobs tmax now (ss_jobs st) of (jobs, occs) \<Rightarrow>
        if occs = [] then st
        else (let st' = st\<lparr>ss_outbox := persist_occurrences occs (ss_outbox st)\<rparr>
              in if cut_off then st' else st'\<lparr>ss_jobs := jobs\<rparr>))"

definition pending_occurrences :: "time \<Rightarrow> schedule_store \<Rightarrow> occurrence list" where
  "pending_occurrences now st =
     sort_key (\<lambda>x. (oc_scheduled x, oc_id x))
       (filter (\<lambda>x. case oc_retry x of None \<Rightarrow> True | Some t \<Rightarrow> t \<le> now) (ss_outbox st))"

definition clear_inflight :: "string \<Rightarrow> schedule_store \<Rightarrow> schedule_store" where
  "clear_inflight i st = st\<lparr>ss_inflight := (ss_inflight st)(i := None)\<rparr>"

definition acknowledge_occurrence :: "string \<Rightarrow> schedule_store \<Rightarrow> bool \<times> schedule_store" where
  "acknowledge_occurrence i st =
     (let kept = filter (\<lambda>x. oc_id x \<noteq> i) (ss_outbox st)
      in if length kept = length (ss_outbox st) then (False, st)
         else (True, clear_inflight i (st\<lparr>ss_outbox := kept\<rparr>)))"

definition mark_delivery_attempted :: "string \<Rightarrow> time \<Rightarrow> schedule_store \<Rightarrow> bool \<times> schedule_store" where
  "mark_delivery_attempted i t st =
     (if list_ex (\<lambda>x. oc_id x = i) (ss_outbox st) then
        (True, st\<lparr>ss_outbox := update_first (\<lambda>x. oc_id x = i)
                    (\<lambda>x. x\<lparr>oc_attempted := Some t, oc_retry := None\<rparr>) (ss_outbox st)\<rparr>)
      else (False, st))"

definition retry_occurrence :: "string \<Rightarrow> time \<Rightarrow> schedule_store \<Rightarrow> bool \<times> schedule_store" where
  "retry_occurrence i t st =
     (if list_ex (\<lambda>x. oc_id x = i) (ss_outbox st) then
        (True, clear_inflight i (st\<lparr>ss_outbox := update_first (\<lambda>x. oc_id x = i)
                    (\<lambda>x. x\<lparr>oc_attempts := min (oc_attempts x + 1) attempts_max, oc_retry := Some t\<rparr>) (ss_outbox st)\<rparr>))
      else (False, st))"

definition mark_inflight :: "string \<Rightarrow> time \<Rightarrow> schedule_store \<Rightarrow> schedule_store" where
  "mark_inflight i t st =
     (if ss_inflight st i = None then st\<lparr>ss_inflight := (ss_inflight st)(i \<mapsto> t)\<rparr> else st)"

definition try_reserve :: "string \<Rightarrow> time \<Rightarrow> schedule_store \<Rightarrow> bool \<times> schedule_store" where
  "try_reserve i t st =
     (if ss_inflight st i \<noteq> None then (False, st)
      else (True, st\<lparr>ss_inflight := (ss_inflight st)(i \<mapsto> t)\<rparr>))"

text \<open>A restart of the server loses the in-flight map.\<close>

definition restart_store :: "schedule_store \<Rightarrow> schedule_store" where
  "restart_store st = st\<lparr>ss_inflight := Map.empty\<rparr>"

section \<open>Intervals are read as written\<close>

lemma digits_value_append: "digits_value (s @ [c]) = 10 * digits_value s + (of_char c - 48)"
  by (simp add: digits_value_def)

lemma digits_decimal: "list_all is_ascii_digit (decimal n) \<and> digits_value (decimal n) = n \<and> decimal n \<noteq> []"
proof (induction n rule: decimal.induct)
  case (1 n)
  have digit: "is_ascii_digit (char_of (48 + k :: nat)) \<and> of_char (char_of (48 + k :: nat) :: char) - 48 = k" if "k < 10" for k
    using that by (simp add: is_ascii_digit_def of_char_of)
  show ?case
  proof (cases "n < 10")
    case True
    then show ?thesis using digit [of n] by (simp add: decimal.simps [of n] digits_value_def)
  next
    case False
    then show ?thesis using 1 digit [of "n mod 10"]
      by (simp add: decimal.simps [of n] digits_value_append)
  qed
qed

lemma digit_not_ws: "is_ascii_digit c \<Longrightarrow> \<not> is_ws c"
  by (simp add: is_ascii_digit_def is_ws_def Let_def)

lemma lower_digit: "is_ascii_digit c \<Longrightarrow> ascii_lower c = c"
  by (simp add: is_ascii_digit_def ascii_lower_def Let_def)

definition unit_names :: "string list" where
  "unit_names = [''s'', ''sec'', ''secs'', ''second'', ''seconds'', ''m'', ''min'', ''mins'', ''minute'', ''minutes'',
     ''h'', ''hr'', ''hrs'', ''hour'', ''hours'']"

definition plain_unit :: "string \<Rightarrow> bool" where
  "plain_unit u \<longleftrightarrow> u \<noteq> [] \<and> \<not> is_ascii_digit (hd u) \<and> \<not> is_ws (hd u) \<and> \<not> is_ws (last u) \<and> to_ascii_lowercase u = u"

lemma unit_names_plain: "list_all plain_unit unit_names"
  by code_simp

lemma unit_multiplier_plain:
  assumes "unit_multiplier u = Some m"
  shows "plain_unit u" and "0 < m"
proof -
  have "u \<in> set unit_names" using assms by (auto simp: unit_multiplier_def unit_names_def split: if_splits)
  then show "plain_unit u" using unit_names_plain by (auto simp: list_all_iff)
qed (use assms in \<open>auto simp: unit_multiplier_def split: if_splits\<close>)

lemma trim_id: "\<lbrakk>s \<noteq> []; \<not> is_ws (hd s); \<not> is_ws (last s)\<rbrakk> \<Longrightarrow> trim s = s"
  by (cases s rule: rev_cases) (auto simp: trim_def trim_start_id trim_end_def)

lemma trim_space: "trim (CHR '' '' # s) = trim s"
  by (simp add: trim_def trim_start_def is_ws_def)

lemma digits_prefix:
  assumes "list_all is_ascii_digit d" "r \<noteq> []" "\<not> is_ascii_digit (hd r)"
  shows "takeWhile is_ascii_digit (d @ r) = d" and "dropWhile is_ascii_digit (d @ r) = r"
  using assms by (cases r; auto simp: list_all_iff takeWhile_append dropWhile_append)+

lemma number_and_unit_read:
  assumes "unit_multiplier u = Some m" "pre \<in> {[], ''every ''}" "gap \<in> {[], '' ''}"
  shows "parse_interval_ms (pre @ decimal n @ gap @ u) = (if n * m \<le> u64_max then Some (n * m) else None)"
proof -
  define body where "body = decimal n @ gap @ u"
  have d: "list_all is_ascii_digit (decimal n)" "digits_value (decimal n) = n" "decimal n \<noteq> []"
    using digits_decimal by blast+
  have u: "plain_unit u" "0 < m" using unit_multiplier_plain [OF assms(1)] by blast+
  have hd: "is_ascii_digit (hd (decimal n))" using d(1,3) by (cases "decimal n") auto
  have body: "body \<noteq> []" "\<not> is_ws (hd body)" "\<not> is_ws (last body)" "hd body = hd (decimal n)"
    using d(3) u(1) digit_not_ws [OF hd] by (auto simp: body_def plain_unit_def)
  have gap: "gap @ u \<noteq> []" "\<not> is_ascii_digit (hd (gap @ u))" "trim (gap @ u) = u" "map ascii_lower gap = gap"
    using assms(3) u(1) by (auto simp: plain_unit_def is_ascii_digit_def trim_id trim_space ascii_lower_def)
  have lower: "to_ascii_lowercase body = body"
    using d(1) u(1) gap(4) lower_digit
    by (simp add: body_def to_ascii_lowercase_def plain_unit_def list_all_iff map_idI)
  have "\<not> is_ascii_digit (CHR ''e'')" by (simp add: is_ascii_digit_def)
  then have "hd body \<noteq> CHR ''e''" using hd body(4) by metis
  then have "strip_prefix ''every '' body = None" using body(1) by (cases body) auto
  moreover have "trim (pre @ body) = pre @ body"
    using assms(2) body by (auto intro!: trim_id simp: is_ws_def)
  moreover have "to_ascii_lowercase (pre @ body) = pre @ body"
    using assms(2) lower by (auto simp: to_ascii_lowercase_def ascii_lower_def)
  ultimately have rest: "trim (case strip_prefix ''every '' (to_ascii_lowercase (trim (pre @ body))) of
      None \<Rightarrow> to_ascii_lowercase (trim (pre @ body)) | Some r \<Rightarrow> r) = body"
    using assms(2) trim_id [OF body(1-3)] by auto
  have le: "n \<le> u64_max" if "n * m \<le> u64_max"
    using that mult_le_mono2 [of 1 m n] u(2) by linarith
  have "parse_interval_ms (pre @ body) =
      (case parse_digits (decimal n) of None \<Rightarrow> None | Some a \<Rightarrow> checked_mul_u64 a m)"
    using rest body(1) digits_prefix [OF d(1) gap(1,2)] gap(3) assms(1)
    by (simp add: parse_interval_ms_def Let_def body_def [symmetric] split: option.splits)
  also have "\<dots> = (if n * m \<le> u64_max then Some (n * m) else None)"
    using d le by (auto simp: parse_digits_def checked_mul_u64_def)
  finally show ?thesis by (simp add: body_def)
qed

text \<open>
  A schedule written as a number and a unit, with or without the word "every" before it and a
  space between them, is read as that many milliseconds, and one whose number of milliseconds does
  not fit 64 bits is refused.
\<close>

theorem interval_is_read_as_written:
  assumes "unit_multiplier u = Some m" "pre \<in> {[], ''every ''}" "gap \<in> {[], '' ''}"
  shows "parse_interval_ms (pre @ decimal n @ gap @ u) = (if n * m \<le> u64_max then Some (n * m) else None)"
  using assms by (rule number_and_unit_read)

theorem interval_is_read_as_written_witness:
  "parse_interval_ms (''every '' @ decimal 5 @ '' '' @ ''min'') = Some 300000"
  using interval_is_read_as_written [of "''min''" 60000 "''every ''" "'' ''" 5]
  by (simp add: unit_multiplier_def u64_max_def)

section \<open>Identifiers of occurrences\<close>

lemma decimal_inj: "decimal a = decimal b \<Longrightarrow> a = b"
  using digits_decimal [of a] digits_decimal [of b] by metis

lemma colon_free_signed: "CHR '':'' \<notin> set (signed_decimal i)"
  using digits_decimal [of "nat i"] digits_decimal [of "nat (- i)"]
  by (auto simp: signed_decimal_def list_all_iff is_ascii_digit_def)

lemma signed_decimal_inj:
  assumes "signed_decimal a = signed_decimal b"
  shows "a = b"
proof -
  have no_sign: "hd (decimal n) \<noteq> CHR ''-''" for n
    using digits_decimal [of n] by (cases "decimal n") (auto simp: is_ascii_digit_def)
  have neg: "a < 0 \<longleftrightarrow> b < 0"
    using assms no_sign [of "nat a"] no_sign [of "nat b"] by (auto simp: signed_decimal_def split: if_splits) (metis list.sel(1))+
  then show ?thesis
    using assms by (auto simp: signed_decimal_def dest!: decimal_inj split: if_splits)
qed

lemma occurrence_id_inj:
  assumes "schedule_occurrence_id i t = schedule_occurrence_id i' t'"
  shows "i = i' \<and> t div 1000 = t' div 1000"
proof -
  have eq: "i @ CHR '':'' # signed_decimal (t div 1000) = i' @ CHR '':'' # signed_decimal (t' div 1000)"
    using assms by (simp add: schedule_occurrence_id_def)
  have "rev (takeWhile (\<lambda>c. c \<noteq> CHR '':'') (rev (i @ CHR '':'' # signed_decimal (t div 1000)))) = signed_decimal (t div 1000)"
    "rev (takeWhile (\<lambda>c. c \<noteq> CHR '':'') (rev (i' @ CHR '':'' # signed_decimal (t' div 1000)))) = signed_decimal (t' div 1000)"
    using colon_free_signed by (auto simp: takeWhile_append)
  then have "signed_decimal (t div 1000) = signed_decimal (t' div 1000)" using eq by simp
  then show ?thesis using eq signed_decimal_inj by auto
qed

section \<open>Claims\<close>

lemma claim_jobs_eq:
  "claim_jobs tmax now js =
     (map (\<lambda>j. if is_due now j then advance_job tmax now j else j) js,
      map (\<lambda>j. new_occurrence (advance_job tmax now j) (the (sj_next j))) (filter (is_due now) js))"
  by (induction js) auto

lemma holds_id: "list_ex (\<lambda>e. oc_id e = i) xs \<longleftrightarrow> i \<in> oc_id ` set xs"
  by (induction xs) auto

lemma persist_ids:
  "set (map oc_id (persist_occurrences xs outbox)) = oc_id ` set outbox \<union> oc_id ` set xs"
  by (induction xs outbox rule: persist_occurrences.induct) (auto simp: holds_id)

lemma persist_distinct:
  "distinct (map oc_id outbox) \<Longrightarrow> distinct (map oc_id (persist_occurrences xs outbox))"
  by (induction xs outbox rule: persist_occurrences.induct) (simp_all add: holds_id)

lemma persist_keeps: "set outbox \<subseteq> set (persist_occurrences xs outbox)"
  by (induction xs outbox rule: persist_occurrences.induct) (auto split: if_splits)

definition due_id :: "schedule_job \<Rightarrow> string" where
  "due_id j = schedule_occurrence_id (sj_id j) (the (sj_next j))"

lemma claim_ids:
  "oc_id ` set (ss_outbox (claim_due_with_outbox tmax now c st)) =
     oc_id ` set (ss_outbox st) \<union> due_id ` {j \<in> set (ss_jobs st). is_due now j}"
  using persist_ids [of _ "ss_outbox st"]
  by (auto simp: claim_due_with_outbox_def claim_jobs_eq Let_def image_image new_occurrence_def due_id_def
      advance_job_def filter_empty_conv)

lemma claim_distinct:
  "distinct (map oc_id (ss_outbox st)) \<Longrightarrow> distinct (map oc_id (ss_outbox (claim_due_with_outbox tmax now c st)))"
  by (simp add: claim_due_with_outbox_def Let_def persist_distinct split: prod.split)

lemma claim_jobs_after:
  "ss_jobs (claim_due_with_outbox tmax now c st) =
     (if c then ss_jobs st else map (\<lambda>j. if is_due now j then advance_job tmax now j else j) (ss_jobs st))"
  by (auto simp: claim_due_with_outbox_def claim_jobs_eq Let_def filter_empty_conv map_idI)

lemma advanced_not_due: "\<not> is_due now (advance_job tmax now j)"
  by (auto simp: is_due_def advance_job_def next_run_from_interval_def split: option.splits)

text \<open>
  C6: A claim may be cut off after it wrote the outbox, any number of times; the next claim that
  completes leaves exactly one occurrence for every job that was due, with the identifier of its
  scheduled time, next to what the outbox held before, and no job is due any more.
\<close>

theorem interrupted_claims_admit_once:
  assumes "distinct (map oc_id (ss_outbox st))" "\<forall>t\<in>set ts. t \<le> now"
    and "st' = claim_due_with_outbox tmax now False (foldl (\<lambda>s t. claim_due_with_outbox tmax t True s) st ts)"
  shows "distinct (map oc_id (ss_outbox st')) \<and>
    oc_id ` set (ss_outbox st') = oc_id ` set (ss_outbox st) \<union>
      (\<lambda>j. schedule_occurrence_id (sj_id j) (the (sj_next j))) ` {j \<in> set (ss_jobs st). is_due now j} \<and>
    (\<forall>j\<in>set (ss_jobs st'). \<not> is_due now j)"
proof -
  let ?mid = "foldl (\<lambda>s t. claim_due_with_outbox tmax t True s) st ts"
  have mid: "ss_jobs ?mid = ss_jobs st \<and> distinct (map oc_id (ss_outbox ?mid)) \<and>
      oc_id ` set (ss_outbox st) \<subseteq> oc_id ` set (ss_outbox ?mid) \<and>
      oc_id ` set (ss_outbox ?mid) \<subseteq> oc_id ` set (ss_outbox st) \<union> due_id ` {j \<in> set (ss_jobs st). is_due now j}"
    using assms(2)
  proof (induction ts rule: rev_induct)
    case (snoc t ts)
    have "{j \<in> set (ss_jobs st). is_due t j} \<subseteq> {j \<in> set (ss_jobs st). is_due now j}"
      using snoc.prems by (auto simp: is_due_def split: option.splits)
    then show ?case using snoc by (auto simp: claim_ids claim_jobs_after claim_distinct)
  qed (simp add: assms(1))
  then show ?thesis
    using claim_distinct [of ?mid tmax now False] claim_ids [of tmax now False ?mid] advanced_not_due
    unfolding assms(3) by (auto simp: claim_jobs_after due_id_def)
qed

definition sample_job :: schedule_job where
  "sample_job =
     \<lparr>sj_id = ''job1'', sj_kind = Cron, sj_status = JobActive, sj_session = ''s'', sj_cwd = None,
      sj_schedule = Some ''every 5m'', sj_interval = Some 300000, sj_prompt = Some ''go'', sj_instruction = None,
      sj_delivery = DeliverFollowUp, sj_label = None, sj_created = 0, sj_updated = 0,
      sj_next = Some 5000, sj_last = None, sj_count = 0\<rparr>"

definition sample_store :: schedule_store where
  "sample_store = \<lparr>ss_jobs = [sample_job], ss_outbox = [], ss_inflight = Map.empty\<rparr>"

theorem interrupted_claims_admit_once_witness:
  "oc_id ` set (ss_outbox (claim_due_with_outbox 10000000000000 7000 False
      (foldl (\<lambda>s t. claim_due_with_outbox 10000000000000 t True s) sample_store [5000, 6000]))) =
   {''schedule:job1:5''}"
proof -
  have "schedule_occurrence_id ''job1'' 5000 = ''schedule:job1:5''"
    by code_simp
  then have "schedule_occurrence_id (sj_id sample_job) (the (sj_next sample_job)) = ''schedule:job1:5''"
    by (simp add: sample_job_def)
  moreover have "is_due 7000 sample_job" by (simp add: is_due_def sample_job_def)
  then have "{j \<in> set (ss_jobs sample_store). is_due 7000 j} = {sample_job}" by (auto simp: sample_store_def)
  ultimately have "(\<lambda>j. schedule_occurrence_id (sj_id j) (the (sj_next j))) `
      {j \<in> set (ss_jobs sample_store). is_due 7000 j} = {''schedule:job1:5''}" by simp
  then show ?thesis
    using interrupted_claims_admit_once [of sample_store "[5000, 6000]" 7000, OF _ _ refl]
    by (simp add: sample_store_def)
qed

section \<open>The operations keep the store well formed\<close>

datatype store_op =
    OpUpsert time string upsert_params
  | OpUpdate time string update_action
  | OpDelete time string
  | OpClaim time bool
  | OpAcknowledge string
  | OpAttempted string time
  | OpRetry string time
  | OpInflight string time
  | OpReserve string time
  | OpRestart

fun apply_op :: "time \<Rightarrow> schedule_store \<Rightarrow> store_op \<Rightarrow> schedule_store" where
  "apply_op tmax st (OpUpsert now fresh p) = st\<lparr>ss_jobs := snd (upsert tmax now fresh p (ss_jobs st))\<rparr>"
| "apply_op tmax st (OpUpdate now i a) = st\<lparr>ss_jobs := snd (update_job tmax now i a (ss_jobs st))\<rparr>"
| "apply_op tmax st (OpDelete now i) = st\<lparr>ss_jobs := snd (delete_job now i (ss_jobs st))\<rparr>"
| "apply_op tmax st (OpClaim now c) = claim_due_with_outbox tmax now c st"
| "apply_op tmax st (OpAcknowledge i) = snd (acknowledge_occurrence i st)"
| "apply_op tmax st (OpAttempted i t) = snd (mark_delivery_attempted i t st)"
| "apply_op tmax st (OpRetry i t) = snd (retry_occurrence i t st)"
| "apply_op tmax st (OpInflight i t) = mark_inflight i t st"
| "apply_op tmax st (OpReserve i t) = snd (try_reserve i t st)"
| "apply_op tmax st OpRestart = restart_store st"

text \<open>A job runs next an interval after its last change when it is active, and never otherwise.\<close>

definition job_scheduled :: "time \<Rightarrow> schedule_job \<Rightarrow> bool" where
  "job_scheduled tmax j \<longleftrightarrow>
     (case sj_interval j of None \<Rightarrow> False | Some ms \<Rightarrow> 0 < ms) \<and>
     sj_next j = (if sj_status j = JobActive then next_run_from_interval tmax (sj_interval j) (sj_updated j) else None)"

definition occurrence_named :: "occurrence \<Rightarrow> bool" where
  "occurrence_named x \<longleftrightarrow> oc_id x = schedule_occurrence_id (sj_id (oc_job x)) (oc_scheduled x)"

definition store_wf :: "time \<Rightarrow> schedule_store \<Rightarrow> bool" where
  "store_wf tmax st \<longleftrightarrow>
     list_all (job_scheduled tmax) (ss_jobs st) \<and> distinct (map oc_id (ss_outbox st)) \<and>
     list_all occurrence_named (ss_outbox st)"

lemma update_first_all:
  "\<lbrakk>list_all Q xs; \<And>x. \<lbrakk>x \<in> set xs; P x; Q x\<rbrakk> \<Longrightarrow> Q (f x)\<rbrakk> \<Longrightarrow> list_all Q (update_first P f xs)"
  by (induction xs) auto

lemma update_last_all:
  "\<lbrakk>list_all Q xs; \<And>x. \<lbrakk>x \<in> set xs; P x; Q x\<rbrakk> \<Longrightarrow> Q (f x)\<rbrakk> \<Longrightarrow> list_all Q (update_last P f xs)"
  using update_first_all [of Q "rev xs" P f] by (simp add: update_last_def)

lemma update_first_map: "(\<And>x. g (f x) = g x) \<Longrightarrow> map g (update_first P f xs) = map g xs"
  by (induction xs) auto

lemma remove_first_all: "list_all Q xs \<Longrightarrow> list_all Q (remove_first P xs)"
  by (induction xs) auto

lemma upsert_interval_pos: "upsert_interval p = Some ms \<Longrightarrow> 0 < ms"
  by (auto simp: upsert_interval_def split: option.splits if_splits)

lemma upsert_keeps_scheduled:
  assumes "list_all (job_scheduled tmax) jobs"
  shows "list_all (job_scheduled tmax) (snd (upsert tmax now fresh p jobs))"
proof (cases "upsert_interval p")
  case (Some ms)
  note ms = Some upsert_interval_pos [OF Some]
  show ?thesis
  proof (cases "next_run_from_interval tmax (Some ms) now")
    case (Some t)
    have new: "job_scheduled tmax (new_job fresh p b (Some ms) (Some t) now)" for b
      using ms Some by (simp add: new_job_def job_scheduled_def)
    have over: "job_scheduled tmax (overwrite_job p b (Some ms) (Some t) now j)" if "job_scheduled tmax j" for b j
      using ms Some that by (simp add: overwrite_job_def job_scheduled_def Let_def split: job_kind.split)
    have repl: "job_scheduled tmax (replace_heartbeat p b (Some ms) (Some t) now j)" for b j
      using ms Some by (simp add: replace_heartbeat_def job_scheduled_def)
    show ?thesis using ms Some assms new over repl
      by (auto simp: upsert_def Let_def intro!: update_first_all update_last_all split: option.split)
  qed (simp add: upsert_def Some assms)
qed (simp add: upsert_def assms)

lemma update_keeps_scheduled:
  assumes "list_all (job_scheduled tmax) jobs"
  shows "list_all (job_scheduled tmax) (snd (update_job tmax now i a jobs))"
proof (cases "find (\<lambda>j. sj_id j = i) jobs")
  case (Some j)
  then have "job_scheduled tmax j" using assms find_SomeD [OF Some] by (auto simp: list_all_iff)
  then show ?thesis using assms Some
    by (auto simp: update_job_def Let_def job_scheduled_def
        intro!: update_first_all split: update_action.split option.splits)
qed (simp add: update_job_def assms)

lemma claim_keeps_scheduled:
  "list_all (job_scheduled tmax) (ss_jobs st) \<Longrightarrow>
   list_all (job_scheduled tmax) (ss_jobs (claim_due_with_outbox tmax now c st))"
  by (auto simp: claim_jobs_after list_all_iff job_scheduled_def advance_job_def is_due_def)

lemma persist_sub: "set (persist_occurrences xs outbox) \<subseteq> set outbox \<union> set xs"
proof (induction xs outbox rule: persist_occurrences.induct)
  case (2 x xs outbox)
  then show ?case by (cases "list_ex (\<lambda>e. oc_id e = oc_id x) outbox") auto
qed simp

lemma claim_keeps_named:
  assumes "list_all occurrence_named (ss_outbox st)"
  shows "list_all occurrence_named (ss_outbox (claim_due_with_outbox tmax now c st))"
proof -
  have "occurrence_named (new_occurrence j t)" for j t
    by (simp add: occurrence_named_def new_occurrence_def)
  then have new: "\<forall>x\<in>set (snd (claim_jobs tmax now (ss_jobs st))). occurrence_named x"
    by (auto simp: claim_jobs_eq)
  obtain jobs occs where "claim_jobs tmax now (ss_jobs st) = (jobs, occs)" by fastforce
  then show ?thesis using assms new persist_sub [of occs "ss_outbox st"]
    by (auto simp: claim_due_with_outbox_def Let_def list_all_iff)
qed

lemma named_update:
  "\<lbrakk>list_all occurrence_named xs; \<And>x. occurrence_named (f x) = occurrence_named x\<rbrakk> \<Longrightarrow>
   list_all occurrence_named (update_first P f xs)"
  by (rule update_first_all) auto

lemma apply_op_wf:
  assumes "store_wf tmax st"
  shows "store_wf tmax (apply_op tmax st x)"
proof (cases x)
  case (OpClaim now c)
  then show ?thesis using assms claim_keeps_scheduled claim_distinct claim_keeps_named by (simp add: store_wf_def)
next
  case (OpUpsert now fresh p)
  then show ?thesis using assms by (simp add: store_wf_def upsert_keeps_scheduled)
next
  case (OpUpdate now i a)
  then show ?thesis using assms by (simp add: store_wf_def update_keeps_scheduled)
next
  case (OpDelete now i)
  then show ?thesis using assms by (simp add: store_wf_def delete_job_def remove_first_all split: option.split)
next
  case (OpAcknowledge i)
  then show ?thesis using assms
    by (auto simp: store_wf_def acknowledge_occurrence_def clear_inflight_def Let_def distinct_map_filter list_all_iff)
next
  case (OpAttempted i t)
  then show ?thesis using assms
    by (simp add: store_wf_def mark_delivery_attempted_def update_first_map named_update occurrence_named_def)
next
  case (OpRetry i t)
  then show ?thesis using assms
    by (simp add: store_wf_def retry_occurrence_def clear_inflight_def update_first_map named_update occurrence_named_def)
qed (use assms in \<open>simp_all add: store_wf_def mark_inflight_def try_reserve_def restart_store_def\<close>)

interpretation store: guarded_invariant "apply_op tmax" "store_wf tmax" "\<lambda>_. False" for tmax
  by unfold_locales (rule apply_op_wf)

definition empty_store :: schedule_store where
  "empty_store = \<lparr>ss_jobs = [], ss_outbox = [], ss_inflight = Map.empty\<rparr>"

text \<open>
  Whatever operations, claims that were cut off and restarts the store went through, an active
  job runs next exactly one positive interval after its last change (or never, when that leaves
  the range of dates), a paused or stopped one has no next run, and the outbox holds every
  occurrence once, under the name of its job and time.
\<close>

theorem store_operations_keep_schedule:
  "store_wf tmax (foldl (apply_op tmax) empty_store ops)"
  by (rule store.kept_by_all) (auto simp: store_wf_def empty_store_def)

end
