(* ===== verification/Heartbeats.thy ===== *)
theory Heartbeats
  imports Schedule_Store Native_Items
begin

text \<open>
  Heartbeats: the user's \<open>/heartbeat\<close> command (\<open>server/src/heartbeat_command.rs\<close>) and the
  requests of the kernel (\<open>server/src/runtime/kernel_host_heartbeat.rs\<close>), both of which parse
  their input and change the schedule store. A panic of the parser is \<open>None\<close>.
\<close>

section \<open>Strings\<close>

definition eq_ignore_ascii_case :: "string \<Rightarrow> string \<Rightarrow> bool" where
  "eq_ignore_ascii_case a b \<longleftrightarrow> to_ascii_lowercase a = to_ascii_lowercase b"

text \<open>\<open>split_once\<close> at the first whitespace character.\<close>

fun split_once_ws :: "string \<Rightarrow> (string \<times> string) option" where
  "split_once_ws [] = None"
| "split_once_ws (c # cs) =
     (if is_ws c then Some ([], cs) else map_option (\<lambda>(a, b). (c # a, b)) (split_once_ws cs))"

fun split_once_char :: "char \<Rightarrow> string \<Rightarrow> (string \<times> string) option" where
  "split_once_char d [] = None"
| "split_once_char d (c # cs) =
     (if c = d then Some ([], cs) else map_option (\<lambda>(a, b). (c # a, b)) (split_once_char d cs))"

text \<open>The string cut after \<open>n\<close> bytes; \<open>None\<close> inside a character.\<close>

fun split_bytes :: "nat \<Rightarrow> string \<Rightarrow> (string \<times> string) option" where
  "split_bytes n [] = (if n = 0 then Some ([], []) else None)"
| "split_bytes n (c # cs) =
     (if n = 0 then Some ([], c # cs)
      else (let k = utf8_len [c] in
            if k \<le> n then map_option (\<lambda>(a, b). (c # a, b)) (split_bytes (n - k) cs) else None))"

text \<open>\<open>strip_prefix_ci\<close>: slicing inside a character panics (the outer \<open>None\<close>).\<close>

definition strip_prefix_ci :: "string \<Rightarrow> string \<Rightarrow> string option option" where
  "strip_prefix_ci s p =
     (if utf8_len p \<le> utf8_len s then
        (case split_bytes (utf8_len p) s of
           None \<Rightarrow> None
         | Some (a, b) \<Rightarrow> Some (if eq_ignore_ascii_case a p then Some b else None))
      else Some None)"

section \<open>Parsing \<open>/heartbeat\<close>\<close>

datatype heartbeat_error =
    HeartbeatUsage
  | BadDeliveryMode
  | UnclosedQuote
  | InvalidHeartbeatSchedule string
  | HeartbeatStore schedule_error

datatype heartbeat_command =
    CmdStatus
  | CmdPause
  | CmdResume
  | CmdClear
  | CmdSet string string delivery_mode

definition default_schedule :: string where
  "default_schedule = ''every 5m''"

definition is_duration_unit :: "string \<Rightarrow> bool" where
  "is_duration_unit u \<longleftrightarrow> to_ascii_lowercase u \<in> set unit_names"

definition is_bare_duration :: "string \<Rightarrow> bool" where
  "is_bare_duration s \<longleftrightarrow>
     (let lower = to_ascii_lowercase s in
      takeWhile is_ascii_digit lower \<noteq> [] \<and> is_duration_unit (trim (dropWhile is_ascii_digit lower)))"

definition normalize_heartbeat_schedule :: "string \<Rightarrow> string" where
  "normalize_heartbeat_schedule input =
     (let s = trim input in
      if s = [] then default_schedule else if is_bare_duration s then ''every '' @ s else s)"

definition parse_delivery_mode_token :: "string \<Rightarrow> heartbeat_error + delivery_mode" where
  "parse_delivery_mode_token tok =
     (let s = map (\<lambda>c. if c = CHR ''-'' then CHR ''_'' else c) (to_ascii_lowercase tok) in
      if s = ''steer'' then Inr DeliverSteer
      else if s = ''follow_up'' then Inr DeliverFollowUp
      else Inl BadDeliveryMode)"

text \<open>The loop over the tokens: flags are removed, the other tokens are kept in order.\<close>

fun extract_tokens :: "delivery_mode \<Rightarrow> string list \<Rightarrow> heartbeat_error + (delivery_mode \<times> string list)" where
  "extract_tokens mode [] = Inr (mode, [])"
| "extract_tokens mode (tok # toks) =
     (let lower = to_ascii_lowercase tok in
      if lower = ''--steer'' then extract_tokens DeliverSteer toks
      else if lower = ''--follow-up'' \<or> lower = ''--follow_up'' then extract_tokens DeliverFollowUp toks
      else (case strip_prefix ''--deliver='' lower of
              Some v \<Rightarrow>
                (case parse_delivery_mode_token v of Inl e \<Rightarrow> Inl e | Inr m \<Rightarrow> extract_tokens m toks)
            | None \<Rightarrow>
                (if lower = ''--deliver'' then
                   (case toks of
                      [] \<Rightarrow> Inl BadDeliveryMode
                    | v # rest \<Rightarrow>
                        (case parse_delivery_mode_token v of Inl e \<Rightarrow> Inl e | Inr m \<Rightarrow> extract_tokens m rest))
                 else (case extract_tokens mode toks of
                         Inl e \<Rightarrow> Inl e
                       | Inr (m, kept) \<Rightarrow> Inr (m, tok # kept)))))"

definition extract_delivery_mode :: "string \<Rightarrow> heartbeat_error + (delivery_mode \<times> string)" where
  "extract_delivery_mode s =
     (case extract_tokens DeliverSteer (split_whitespace s) of
        Inl e \<Rightarrow> Inl e
      | Inr (m, kept) \<Rightarrow> Inr (m, join '' '' kept))"

definition split_leading_every :: "string \<Rightarrow> (string \<times> string) option" where
  "split_leading_every s =
     (let lower = to_ascii_lowercase s;
          after = (if starts_with lower ''every '' then Some (drop 6 s)
                   else if starts_with lower ''each '' then Some (drop 5 s) else None)
      in case Option.bind after split_once_ws of
           None \<Rightarrow> None
         | Some (amount, rest) \<Rightarrow>
             (if amount = [] \<or> \<not> is_ascii_digit (hd amount) then None
              else if list_all is_ascii_digit amount then
                (let (u, instruction) = (case split_once_ws rest of None \<Rightarrow> (rest, []) | Some p \<Rightarrow> p)
                 in if is_duration_unit u then Some (''every '' @ amount @ u, trim instruction) else None)
              else if is_bare_duration amount then Some (''every '' @ amount, trim rest)
              else None))"

definition split_first_interval_token :: "string \<Rightarrow> heartbeat_error + (string \<times> string)" where
  "split_first_interval_token s =
     (let s' = trim s in
      if s' = [] then Inl HeartbeatUsage
      else case strip_prefix [CHR 0x22] s' of
             Some rest \<Rightarrow>
               (case split_once_char (CHR 0x22) rest of
                  None \<Rightarrow> Inl UnclosedQuote
                | Some (a, b) \<Rightarrow> Inr (a, trim b))
           | None \<Rightarrow>
               (case split_once_ws s' of
                  None \<Rightarrow> Inr (s', [])
                | Some (a, b) \<Rightarrow> Inr (a, trim b)))"

definition split_leading_bare_duration :: "string \<Rightarrow> (string \<times> string) option" where
  "split_leading_bare_duration s =
     (let (first, rest) = (case split_once_ws s of None \<Rightarrow> (s, []) | Some (a, b) \<Rightarrow> (a, trim b))
      in if is_bare_duration first then Some (first, rest) else None)"

definition command_text :: "string \<Rightarrow> string" where
  "command_text input =
     (case strip_prefix ''/heartbeat'' (trim input) of None \<Rightarrow> trim input | Some r \<Rightarrow> trim r)"

definition set_command :: "string \<Rightarrow> string \<Rightarrow> delivery_mode \<Rightarrow> heartbeat_error + heartbeat_command" where
  "set_command schedule instruction mode =
     (if instruction = [] then Inl HeartbeatUsage
      else Inr (CmdSet (normalize_heartbeat_schedule schedule) instruction mode))"

text \<open>The text after \<open>--every\<close>: an equals sign or one whitespace character is dropped.\<close>

definition after_every_flag :: "string \<Rightarrow> string" where
  "after_every_flag rest =
     trim_start (case rest of
                   [] \<Rightarrow> []
                 | c # cs \<Rightarrow> (if c = CHR ''='' \<or> is_ws c then cs else rest))"

definition parse_remaining :: "delivery_mode \<Rightarrow> string \<Rightarrow> (heartbeat_error + heartbeat_command) option" where
  "parse_remaining mode remaining =
     (if remaining = [] then Some (Inl HeartbeatUsage)
      else case split_leading_every remaining of
             Some (schedule, instruction) \<Rightarrow> Some (set_command schedule instruction mode)
           | None \<Rightarrow>
               (case strip_prefix_ci remaining ''--every'' of
                  None \<Rightarrow> None
                | Some (Some rest) \<Rightarrow>
                    (case split_first_interval_token (after_every_flag rest) of
                       Inl e \<Rightarrow> Some (Inl e)
                     | Inr (schedule, instruction) \<Rightarrow> Some (set_command schedule instruction mode))
                | Some None \<Rightarrow>
                    (case split_leading_bare_duration remaining of
                       Some (schedule, instruction) \<Rightarrow> Some (set_command schedule instruction mode)
                     | None \<Rightarrow> Some (Inr (CmdSet default_schedule remaining mode)))))"

definition parse_heartbeat_command :: "string \<Rightarrow> (heartbeat_error + heartbeat_command) option" where
  "parse_heartbeat_command input =
     (let s = command_text input in
      if s = [] \<or> eq_ignore_ascii_case s ''status'' then Some (Inr CmdStatus)
      else if eq_ignore_ascii_case s ''pause'' then Some (Inr CmdPause)
      else if eq_ignore_ascii_case s ''resume'' then Some (Inr CmdResume)
      else if eq_ignore_ascii_case s ''clear'' \<or> eq_ignore_ascii_case s ''stop'' then Some (Inr CmdClear)
      else case extract_delivery_mode s of
             Inl e \<Rightarrow> Some (Inl e)
           | Inr (mode, remaining) \<Rightarrow> parse_remaining mode (trim remaining))"

section \<open>Running \<open>/heartbeat\<close>\<close>

definition find_user_heartbeat :: "string \<Rightarrow> schedule_job list \<Rightarrow> schedule_job option" where
  "find_user_heartbeat session jobs =
     find (\<lambda>j. sj_kind j = Heartbeat \<and> unlabeled (sj_label j) \<and> sj_status j \<in> {JobActive, JobPaused})
       (rev (list_filtered (Some session) None False jobs))"

type_synonym heartbeat_result = "(heartbeat_error + schedule_job option) \<times> schedule_job list"

definition heartbeat_reply :: "job_result \<Rightarrow> heartbeat_result" where
  "heartbeat_reply r = (case r of (Inl e, jobs) \<Rightarrow> (Inl (HeartbeatStore e), jobs) | (Inr j, jobs) \<Rightarrow> (Inr (Some j), jobs))"

definition mutate_user_heartbeat :: "time \<Rightarrow> time \<Rightarrow> string \<Rightarrow> update_action \<Rightarrow> schedule_job list \<Rightarrow> heartbeat_result" where
  "mutate_user_heartbeat tmax now session action jobs =
     (case find_user_heartbeat session jobs of
        None \<Rightarrow> (Inr None, jobs)
      | Some j \<Rightarrow> heartbeat_reply (update_job tmax now (sj_id j) action jobs))"

definition set_params :: "string \<Rightarrow> string option \<Rightarrow> string \<Rightarrow> string \<Rightarrow> delivery_mode \<Rightarrow> upsert_params" where
  "set_params session cwd schedule instruction mode =
     \<lparr>up_kind = Heartbeat, up_session = session, up_job = None, up_cwd = cwd, up_schedule = Some schedule,
      up_interval = None, up_prompt = None, up_instruction = Some instruction, up_delivery = mode, up_label = None\<rparr>"

definition run_command :: "time \<Rightarrow> time \<Rightarrow> string \<Rightarrow> string \<Rightarrow> string option \<Rightarrow> heartbeat_command \<Rightarrow>
    schedule_job list \<Rightarrow> heartbeat_result" where
  "run_command tmax now fresh session cwd cmd jobs =
     (case cmd of
        CmdStatus \<Rightarrow> (Inr (find_user_heartbeat session jobs), jobs)
      | CmdPause \<Rightarrow> mutate_user_heartbeat tmax now session ActionPause jobs
      | CmdResume \<Rightarrow> mutate_user_heartbeat tmax now session ActionResume jobs
      | CmdClear \<Rightarrow>
          (case find_user_heartbeat session jobs of
             None \<Rightarrow> (Inr None, jobs)
           | Some j \<Rightarrow> heartbeat_reply (delete_job now (sj_id j) jobs))
      | CmdSet schedule instruction mode \<Rightarrow>
          (if parse_interval_ms schedule = None then (Inl (InvalidHeartbeatSchedule schedule), jobs)
           else heartbeat_reply (upsert tmax now fresh (set_params session cwd schedule instruction mode) jobs)))"

definition run_heartbeat_command :: "time \<Rightarrow> time \<Rightarrow> string \<Rightarrow> string \<Rightarrow> string option \<Rightarrow> string \<Rightarrow>
    schedule_job list \<Rightarrow> heartbeat_result option" where
  "run_heartbeat_command tmax now fresh session cwd args jobs =
     (case parse_heartbeat_command args of
        None \<Rightarrow> None
      | Some (Inl e) \<Rightarrow> Some (Inl e, jobs)
      | Some (Inr cmd) \<Rightarrow> Some (run_command tmax now fresh session cwd cmd jobs))"

section \<open>Requests of the kernel\<close>

datatype kernel_error =
    InvalidSession
  | InstructionMissing
  | IntervalInvalid string
  | IdMissing
  | StatusInvalid string
  | NotThisSessions string
  | KernelStore schedule_error

definition get_str :: "json \<Rightarrow> string \<Rightarrow> string option" where
  "get_str v k = Option.bind (json_get v k) json_str"

text \<open>The first key that is present decides, even when its value is not a string.\<close>

fun first_present :: "json \<Rightarrow> string list \<Rightarrow> json option" where
  "first_present v [] = None"
| "first_present v (k # ks) = (case json_get v k of Some x \<Rightarrow> Some x | None \<Rightarrow> first_present v ks)"

definition non_blank :: "string option \<Rightarrow> string option" where
  "non_blank s = Option.bind s (\<lambda>x. some_text (trim x))"

definition kernel_delivery_mode :: "json option \<Rightarrow> delivery_mode" where
  "kernel_delivery_mode v =
     (case Option.bind v json_str of
        None \<Rightarrow> DeliverSteer
      | Some s \<Rightarrow> (if s \<in> {''follow_up'', ''follow-up'', ''followUp''} then DeliverFollowUp else DeliverSteer))"

definition normalize_every_schedule :: "string \<Rightarrow> string" where
  "normalize_every_schedule interval =
     (let s = trim interval in if starts_with (to_ascii_lowercase s) ''every '' then s else ''every '' @ s)"

definition kernel_result :: "job_result \<Rightarrow> (kernel_error + schedule_job) \<times> schedule_job list" where
  "kernel_result r = (case r of (Inl e, jobs) \<Rightarrow> (Inl (KernelStore e), jobs) | (Inr j, jobs) \<Rightarrow> (Inr j, jobs))"

definition require_session_heartbeat :: "string \<Rightarrow> string \<Rightarrow> schedule_job list \<Rightarrow> schedule_job option" where
  "require_session_heartbeat session i jobs =
     find (\<lambda>j. sj_id j = i \<and> sj_kind j = Heartbeat) (list_filtered (Some session) None False jobs)"

definition heartbeat_list :: "string \<Rightarrow> json \<Rightarrow> schedule_job list \<Rightarrow> schedule_job list" where
  "heartbeat_list session params jobs =
     (let inactive = (case first_present params [''include_inactive'', ''includeInactive''] of Some (JBool b) \<Rightarrow> b | _ \<Rightarrow> False)
      in filter (\<lambda>j. inactive \<or> sj_status j \<in> {JobActive, JobPaused})
           (filter (\<lambda>j. sj_kind j = Heartbeat) (list_filtered (Some session) None inactive jobs)))"

definition heartbeat_create :: "time \<Rightarrow> time \<Rightarrow> string \<Rightarrow> string \<Rightarrow> json \<Rightarrow> schedule_job list \<Rightarrow>
    (kernel_error + schedule_job) \<times> schedule_job list" where
  "heartbeat_create tmax now fresh session params jobs =
     (case non_blank (Option.bind (first_present params [''instruction'', ''prompt'']) json_str) of
        None \<Rightarrow> (Inl InstructionMissing, jobs)
      | Some instruction \<Rightarrow>
          (let interval = (case non_blank (get_str params ''interval'') of None \<Rightarrow> ''5m'' | Some s \<Rightarrow> s)
           in case parse_interval_ms interval of
                None \<Rightarrow> (Inl (IntervalInvalid interval), jobs)
              | Some ms \<Rightarrow>
                  kernel_result (upsert tmax now fresh
                    \<lparr>up_kind = Heartbeat, up_session = session, up_job = None, up_cwd = None,
                     up_schedule = Some (normalize_every_schedule interval), up_interval = Some ms, up_prompt = None,
                     up_instruction = Some instruction,
                     up_delivery = kernel_delivery_mode (json_get params ''delivery_mode''),
                     up_label = non_blank (get_str params ''label'')\<rparr> jobs)))"

definition heartbeat_update :: "time \<Rightarrow> time \<Rightarrow> string \<Rightarrow> string \<Rightarrow> json \<Rightarrow> schedule_job list \<Rightarrow>
    (kernel_error + schedule_job) \<times> schedule_job list" where
  "heartbeat_update tmax now fresh session params jobs =
     (case Option.bind (first_present params [''id'', ''job_id'', ''jobId'']) json_str of
        None \<Rightarrow> (Inl IdMissing, jobs)
      | Some i \<Rightarrow>
          (case get_str params ''status'' of
             Some status \<Rightarrow>
               (if status = ''pause'' \<or> status = ''resume'' then
                  (case require_session_heartbeat session i jobs of
                     None \<Rightarrow> (Inl (NotThisSessions i), jobs)
                   | Some _ \<Rightarrow> kernel_result (update_job tmax now i
                                (if status = ''pause'' then ActionPause else ActionResume) jobs))
                else (Inl (StatusInvalid status), jobs))
           | None \<Rightarrow>
               (case require_session_heartbeat session i jobs of
                  None \<Rightarrow> (Inl (NotThisSessions i), jobs)
                | Some old \<Rightarrow>
                    (let upserted = (\<lambda>schedule interval. kernel_result (upsert tmax now fresh
                           \<lparr>up_kind = Heartbeat, up_session = session, up_job = Some i, up_cwd = sj_cwd old,
                            up_schedule = schedule, up_interval = interval, up_prompt = None,
                            up_instruction = (case non_blank (get_str params ''instruction'') of
                                                None \<Rightarrow> sj_instruction old | Some s \<Rightarrow> Some s),
                            up_delivery = (case json_get params ''delivery_mode'' of
                                             None \<Rightarrow> sj_delivery old | Some v \<Rightarrow> kernel_delivery_mode (Some v)),
                            up_label = (case json_get params ''label'' of
                                          None \<Rightarrow> sj_label old | Some v \<Rightarrow> non_blank (json_str v))\<rparr> jobs))
                     in case non_blank (get_str params ''interval'') of
                          None \<Rightarrow> upserted (sj_schedule old) (sj_interval old)
                        | Some s \<Rightarrow>
                            (case parse_interval_ms s of
                               None \<Rightarrow> (Inl (IntervalInvalid s), jobs)
                             | Some ms \<Rightarrow> upserted (Some (normalize_every_schedule s)) (Some ms))))))"

definition heartbeat_delete :: "time \<Rightarrow> string \<Rightarrow> json \<Rightarrow> schedule_job list \<Rightarrow>
    (kernel_error + schedule_job) \<times> schedule_job list" where
  "heartbeat_delete now session params jobs =
     (case Option.bind (first_present params [''id'', ''job_id'', ''jobId'']) json_str of
        None \<Rightarrow> (Inl IdMissing, jobs)
      | Some i \<Rightarrow>
          (case require_session_heartbeat session i jobs of
             None \<Rightarrow> (Inl (NotThisSessions i), jobs)
           | Some _ \<Rightarrow> kernel_result (delete_job now i jobs)))"

text \<open>The interval as it is shown: the written one, or the largest unit that divides it.\<close>

definition shown_interval :: "schedule_job \<Rightarrow> string option" where
  "shown_interval j =
     (case Option.bind (Option.bind (sj_schedule j) (strip_prefix ''every '')) (\<lambda>s. some_text (trim s)) of
        Some s \<Rightarrow> Some s
      | None \<Rightarrow>
          map_option (\<lambda>ms. if ms mod 3600000 = 0 then decimal (ms div 3600000) @ ''h''
                           else if ms mod 60000 = 0 then decimal (ms div 60000) @ ''m''
                           else decimal (ms div 1000) @ ''s'') (sj_interval j))"

section \<open>The user's heartbeat is one slot per session\<close>

type_synonym slot = "string option \<times> string option \<times> delivery_mode \<times> bool"

definition slot_of :: "schedule_job \<Rightarrow> slot" where
  "slot_of j = (sj_schedule j, sj_instruction j, sj_delivery j, sj_status j = JobPaused)"

definition heartbeat_slot :: "string \<Rightarrow> schedule_job list \<Rightarrow> slot option" where
  "heartbeat_slot session jobs = map_option slot_of (find_user_heartbeat session jobs)"

fun slot_step :: "heartbeat_command \<Rightarrow> slot option \<Rightarrow> slot option" where
  "slot_step CmdStatus x = x"
| "slot_step CmdPause x = map_option (\<lambda>(a, b, c, p). (a, b, c, True)) x"
| "slot_step CmdResume x = map_option (\<lambda>(a, b, c, p). (a, b, c, False)) x"
| "slot_step CmdClear x = None"
| "slot_step (CmdSet schedule instruction mode) x = Some (Some schedule, some_text instruction, mode, False)"

definition one_heartbeat :: "string \<Rightarrow> schedule_job list \<Rightarrow> bool" where
  "one_heartbeat session jobs \<longleftrightarrow> length (filter (user_heartbeat session) jobs) \<le> 1"

lemma find_user_heartbeat_eq: "find_user_heartbeat s jobs = find (user_heartbeat s) (rev jobs)"
proof -
  have "find P (filter Q xs) = find (\<lambda>x. Q x \<and> P x) xs" for P Q and xs :: "schedule_job list"
    by (induction xs) auto
  moreover have "(\<lambda>j. (sj_status j \<noteq> JobStopped \<and> sj_session j = s) \<and> sj_kind j = Heartbeat \<and>
      unlabeled (sj_label j) \<and> sj_status j \<in> {JobActive, JobPaused}) = user_heartbeat s"
    by (auto simp: user_heartbeat_def fun_eq_iff)
  ultimately show ?thesis
    by (simp add: find_user_heartbeat_def list_filtered_def rev_filter)
qed

lemma find_rev_filter: "find P (rev xs) = (if filter P xs = [] then None else Some (last (filter P xs)))"
  by (induction xs rule: rev_induct) auto

lemma find_append: "find P (xs @ ys) = (case find P xs of None \<Rightarrow> find P ys | Some x \<Rightarrow> Some x)"
  by (induction xs) auto

lemma find_none: "\<forall>x\<in>set xs. \<not> P x \<Longrightarrow> find P xs = None"
  by (induction xs) auto

lemma update_first_split: "\<lbrakk>\<forall>u\<in>set us. \<not> Q u; Q j\<rbrakk> \<Longrightarrow> update_first Q f (us @ j # vs) = us @ f j # vs"
  by (induction us) auto

lemma update_last_split: "\<lbrakk>\<forall>v\<in>set vs. \<not> Q v; Q j\<rbrakk> \<Longrightarrow> update_last Q f (us @ j # vs) = us @ f j # vs"
  by (simp add: update_last_def update_first_split)

lemma remove_first_split: "\<lbrakk>\<forall>u\<in>set us. \<not> Q u; Q j\<rbrakk> \<Longrightarrow> remove_first Q (us @ j # vs) = us @ vs"
  by (induction us) auto

lemma find_split: "\<lbrakk>\<forall>u\<in>set us. \<not> Q u; Q j\<rbrakk> \<Longrightarrow> find Q (us @ j # vs) = Some j"
  by (induction us) auto

text \<open>The user's heartbeat and the jobs around it.\<close>

lemma one_heartbeat_cases:
  assumes "one_heartbeat s jobs" "distinct (map sj_id jobs)"
  obtains (none) "find_user_heartbeat s jobs = None" "filter (user_heartbeat s) jobs = []"
  | (one) us j vs where "jobs = us @ j # vs" "find_user_heartbeat s jobs = Some j" "user_heartbeat s j"
      "\<forall>u\<in>set (us @ vs). \<not> user_heartbeat s u \<and> sj_id u \<noteq> sj_id j"
proof (cases "filter (user_heartbeat s) jobs")
  case Nil
  then show ?thesis using none by (simp add: find_user_heartbeat_eq find_rev_filter)
next
  case (Cons j js)
  then have js: "js = []" using assms(1) by (simp add: one_heartbeat_def)
  then obtain us vs where "jobs = us @ j # vs" "\<forall>u\<in>set us. \<not> user_heartbeat s u" "user_heartbeat s j"
      "filter (user_heartbeat s) vs = []"
    using Cons by (auto simp: filter_eq_Cons_iff)
  moreover from this have "\<forall>u\<in>set (us @ vs). sj_id u \<noteq> sj_id j" using assms(2) by (force simp: image_iff)
  ultimately show ?thesis using Cons js
    by (intro one [of us j vs]) (auto simp: find_user_heartbeat_eq find_rev_filter filter_empty_conv simp del: rev_append)
qed

lemma slot_split:
  assumes "\<forall>u\<in>set (us @ vs). \<not> user_heartbeat s u"
  shows "heartbeat_slot s (us @ j # vs) = (if user_heartbeat s j then Some (slot_of j) else None)"
    and "one_heartbeat s (us @ j # vs)" and "heartbeat_slot s (us @ vs) = None" and "one_heartbeat s (us @ vs)"
  using assms
  by (auto simp: heartbeat_slot_def find_user_heartbeat_eq find_append find_none one_heartbeat_def filter_False)

definition others :: "string \<Rightarrow> schedule_job list \<Rightarrow> schedule_job list" where
  "others session jobs = filter (\<lambda>j. sj_session j \<noteq> session) jobs"

text \<open>One job of the session is changed in place.\<close>

lemma slot_replace:
  assumes "\<forall>u\<in>set (us @ vs). \<not> user_heartbeat s u" "sj_session j = s" "user_heartbeat s j'"
  shows "heartbeat_slot s (us @ j' # vs) = Some (slot_of j') \<and> one_heartbeat s (us @ j' # vs) \<and>
    others s (us @ j' # vs) = others s (us @ j # vs)"
  using assms slot_split(1,2) [OF assms(1), of j'] by (simp add: others_def user_heartbeat_def)

lemma set_heartbeat:
  assumes "one_heartbeat s jobs" "distinct (map sj_id jobs)"
    and up: "upsert tmax now fresh (set_params s cwd schedule ins mode) jobs = (Inr j, jobs')"
  shows "heartbeat_slot s jobs' = Some (Some schedule, some_text ins, mode, False) \<and> one_heartbeat s jobs' \<and>
    others s jobs' = others s jobs"
proof -
  let ?p = "set_params s cwd schedule ins mode"
  obtain ms t where ms: "upsert_interval ?p = Some ms" "next_run_from_interval tmax (Some ms) now = Some t"
    using up by (auto simp: upsert_def split: option.splits)
  show ?thesis using assms(1,2)
  proof (cases rule: one_heartbeat_cases)
    case none
    let ?n = "new_job fresh ?p (upsert_text ?p) (Some ms) (Some t) now"
    have "jobs' = jobs @ [?n]"
      using up ms none by (auto simp: upsert_def set_params_def unlabeled_def find_user_heartbeat_eq Let_def)
    moreover have "user_heartbeat s ?n" by (simp add: user_heartbeat_def new_job_def set_params_def unlabeled_def)
    ultimately show ?thesis
      using none slot_split(1,2) [of jobs "[]" s ?n]
      by (auto simp: filter_empty_conv others_def slot_of_def new_job_def set_params_def upsert_text_def)
  next
    case (one us h vs)
    let ?h = "replace_heartbeat ?p (upsert_text ?p) (Some ms) (Some t) now h"
    have "jobs' = us @ ?h # vs"
      using up ms one update_last_split [of vs "user_heartbeat s" h "replace_heartbeat ?p (upsert_text ?p) (Some ms) (Some t) now" us]
      by (auto simp: upsert_def set_params_def unlabeled_def find_user_heartbeat_eq Let_def)
    moreover have "user_heartbeat s ?h"
      using one(3) by (simp add: user_heartbeat_def replace_heartbeat_def set_params_def unlabeled_def)
    ultimately show ?thesis
      using one slot_replace [of us vs s h ?h]
      by (simp add: user_heartbeat_def slot_of_def replace_heartbeat_def set_params_def upsert_text_def)
  qed
qed


definition paused_heartbeat :: schedule_job where
  "paused_heartbeat = sample_job\<lparr>sj_kind := Heartbeat, sj_status := JobPaused, sj_instruction := Some ''look'', sj_next := None\<rparr>"


section \<open>A kernel changes only the heartbeats of its session\<close>

datatype kernel_request = KernelCreate json | KernelUpdate json | KernelDelete json

fun kernel_step :: "time \<Rightarrow> time \<Rightarrow> string \<Rightarrow> string \<Rightarrow> kernel_request \<Rightarrow> schedule_job list \<Rightarrow>
    (kernel_error + schedule_job) \<times> schedule_job list" where
  "kernel_step tmax now fresh s (KernelCreate v) jobs = heartbeat_create tmax now fresh s v jobs"
| "kernel_step tmax now fresh s (KernelUpdate v) jobs = heartbeat_update tmax now fresh s v jobs"
| "kernel_step tmax now fresh s (KernelDelete v) jobs = heartbeat_delete now s v jobs"

definition own_heartbeat :: "string \<Rightarrow> schedule_job \<Rightarrow> bool" where
  "own_heartbeat s j \<longleftrightarrow> sj_session j = s \<and> sj_kind j = Heartbeat"

definition foreign_jobs :: "string \<Rightarrow> schedule_job list \<Rightarrow> schedule_job list" where
  "foreign_jobs s jobs = filter (\<lambda>j. \<not> own_heartbeat s j) jobs"

lemma foreign_update_first:
  "\<lbrakk>\<And>x. \<lbrakk>x \<in> set jobs; P x\<rbrakk> \<Longrightarrow> own_heartbeat s x \<and> own_heartbeat s (f x)\<rbrakk> \<Longrightarrow>
   foreign_jobs s (update_first P f jobs) = foreign_jobs s jobs"
  by (induction jobs) (auto simp: foreign_jobs_def)

lemma foreign_update_last:
  assumes "\<And>x. \<lbrakk>x \<in> set jobs; P x\<rbrakk> \<Longrightarrow> own_heartbeat s x \<and> own_heartbeat s (f x)"
  shows "foreign_jobs s (update_last P f jobs) = foreign_jobs s jobs"
proof -
  have "foreign_jobs s (rev xs) = rev (foreign_jobs s xs)" for xs by (simp add: foreign_jobs_def rev_filter)
  then show ?thesis using foreign_update_first [of "rev jobs" P s f] assms by (simp add: update_last_def)
qed

lemma foreign_remove_first:
  "(\<And>x. \<lbrakk>x \<in> set jobs; P x\<rbrakk> \<Longrightarrow> own_heartbeat s x) \<Longrightarrow> foreign_jobs s (remove_first P jobs) = foreign_jobs s jobs"
  by (induction jobs) (auto simp: foreign_jobs_def)

lemma required_is_own:
  assumes "require_session_heartbeat s i jobs = Some j" "distinct (map sj_id jobs)" "x \<in> set jobs" "sj_id x = i"
  shows "own_heartbeat s x"
proof -
  have "j \<in> set jobs" "sj_id j = i" "own_heartbeat s j"
    using find_SomeD [OF assms(1) [unfolded require_session_heartbeat_def]] by (auto simp: list_filtered_def own_heartbeat_def)
  then show ?thesis using assms(2-4) by (metis inj_on_eq_iff distinct_map)
qed

lemma upsert_foreign:
  assumes "up_kind p = Heartbeat" "up_session p = s"
    and "\<And>i x. \<lbrakk>up_job p = Some i; x \<in> set jobs; sj_id x = i\<rbrakk> \<Longrightarrow> own_heartbeat s x"
  shows "foreign_jobs s (snd (upsert tmax now fresh p jobs)) = foreign_jobs s jobs"
proof -
  have new: "own_heartbeat s (new_job fresh p b i t now)" for b i t
    using assms(1,2) by (simp add: own_heartbeat_def new_job_def)
  have over: "own_heartbeat s (overwrite_job p b i t now j)" for b i t j
    using assms(1,2) by (simp add: own_heartbeat_def overwrite_job_def Let_def)
  have repl: "own_heartbeat s (replace_heartbeat p b i t now j) = own_heartbeat s j" for b i t j
    by (simp add: own_heartbeat_def replace_heartbeat_def)
  have user: "own_heartbeat s x" if "user_heartbeat s x" for x
    using that by (simp add: user_heartbeat_def own_heartbeat_def)
  have created: "foreign_jobs s (jobs @ [new_job fresh p b i t now]) = foreign_jobs s jobs" for b i t
    using new by (simp add: foreign_jobs_def)
  show ?thesis using assms over repl user created
    by (auto simp: upsert_def Let_def foreign_update_first foreign_update_last split: option.split)
qed

lemma update_foreign:
  assumes "\<And>x. \<lbrakk>x \<in> set jobs; sj_id x = i\<rbrakk> \<Longrightarrow> own_heartbeat s x"
  shows "foreign_jobs s (snd (update_job tmax now i a jobs)) = foreign_jobs s jobs"
proof (cases "find (\<lambda>j. sj_id j = i) jobs")
  case (Some j)
  then have "own_heartbeat s j" using assms find_SomeD [OF Some] by auto
  then have "own_heartbeat s (j\<lparr>sj_status := x, sj_next := y, sj_updated := z\<rparr>)" for x y z
    by (simp add: own_heartbeat_def)
  then show ?thesis using Some assms
    by (auto simp: update_job_def Let_def foreign_update_first split: update_action.split option.split)
qed (simp add: update_job_def)

lemma snd_kernel_result: "snd (kernel_result r) = snd r"
  by (cases r) (auto simp: kernel_result_def split: sum.split)

text \<open>
  C23: Whatever a kernel asks for, only heartbeats of its own session are created, changed or
  deleted: every other job, of any kind and session, is left as it is, in its place.
\<close>

theorem kernel_changes_own_heartbeats:
  assumes "distinct (map sj_id jobs)"
  shows "foreign_jobs s (snd (kernel_step tmax now fresh s request jobs)) = foreign_jobs s jobs"
proof (cases request)
  case (KernelCreate v)
  then show ?thesis
    by (auto simp: heartbeat_create_def Let_def snd_kernel_result simp del: first_present.simps
        intro!: upsert_foreign split: option.split)
next
  case (KernelUpdate v)
  then show ?thesis using required_is_own [OF _ assms]
    by (auto simp: heartbeat_update_def Let_def snd_kernel_result update_foreign simp del: first_present.simps
        intro!: upsert_foreign split: option.split)
next
  case (KernelDelete v)
  then show ?thesis using required_is_own [OF _ assms]
    by (auto simp: heartbeat_delete_def snd_kernel_result delete_job_def foreign_remove_first split: option.split)
qed

theorem kernel_changes_own_heartbeats_witness:
  "foreign_jobs ''other'' (snd (kernel_step 1000000000000000 0 ''job2'' ''other''
     (KernelDelete (JObj [(''id'', JStr ''job1'')])) [paused_heartbeat])) = [paused_heartbeat]"
proof -
  have "\<not> own_heartbeat ''other'' paused_heartbeat"
    by (simp add: own_heartbeat_def paused_heartbeat_def sample_job_def)
  then show ?thesis using kernel_changes_own_heartbeats [of "[paused_heartbeat]" "''other''"]
    by (simp add: foreign_jobs_def del: kernel_step.simps)
qed

section \<open>Smaller facts\<close>

text \<open>A whole number of seconds without a schedule string is shown so that it reads back.\<close>

lemma shown_interval_reads_back:
  assumes "sj_schedule j = None" "sj_interval j = Some ms" "ms mod 1000 = 0" "ms \<le> u64_max"
  shows "Option.bind (shown_interval j) parse_interval_ms = Some ms"
proof -
  have units: "unit_multiplier ''h'' = Some 3600000" "unit_multiplier ''m'' = Some 60000" "unit_multiplier ''s'' = Some 1000"
    by (simp_all add: unit_multiplier_def)
  have read: "parse_interval_ms (decimal (ms div m) @ u) = Some ms" if "unit_multiplier u = Some m" "ms mod m = 0" for u m
    using number_and_unit_read [OF that(1), of "[]" "[]" "ms div m"] that(2) assms(4)
    by (simp add: mod_eq_0_iff_dvd)
  show ?thesis using assms read [OF units(1)] read [OF units(2)] read [OF units(3)]
    by (simp add: shown_interval_def)
qed

text \<open>
  A command whose seventh byte lies inside a character panics: the text is cut there to compare
  it with the flag.
\<close>

lemma heartbeat_panics_inside_character:
  "parse_heartbeat_command (''abcdef'' @ [char_of (233 :: nat)]) = None"
  by code_simp

text \<open>An interval without an instruction becomes the instruction, at the default interval.\<close>

lemma interval_alone_is_instruction:
  "parse_heartbeat_command ''every 30s'' = Some (Inr (CmdSet ''every 5m'' ''every 30s'' DeliverSteer))"
  "parse_heartbeat_command ''30s'' = Some (Inl HeartbeatUsage)"
  by code_simp+

text \<open>The lines of an instruction are joined.\<close>

lemma instruction_lines_are_joined:
  "parse_heartbeat_command (''run'' @ [LF] @ ''test'') = Some (Inr (CmdSet ''every 5m'' ''run test'' DeliverSteer))"
  by code_simp

text \<open>A kernel that blanks the label of a heartbeat makes a second one that is the user's.\<close>

lemma kernel_makes_second_user_heartbeat:
  "\<not> one_heartbeat ''s'' (snd (kernel_step 100000000 0 ''job3'' ''s''
      (KernelUpdate (JObj [(''id'', JStr ''job2''), (''label'', JStr '' '')]))
      [paused_heartbeat, paused_heartbeat\<lparr>sj_id := ''job2'', sj_interval := Some 3, sj_label := Some ''build''\<rparr>]))"
  by (simp add: heartbeat_update_def get_str_def non_blank_def require_session_heartbeat_def list_filtered_def
      upsert_def upsert_interval_def next_run_from_interval_def overwrite_job_def kernel_result_def one_heartbeat_def
      user_heartbeat_def unlabeled_def paused_heartbeat_def sample_job_def some_text_def trim_def trim_start_def
      trim_end_def is_ws_def Let_def)

end
