(* ===== verification/Turn_Queue.thy ===== *)
theory Turn_Queue
  imports Native_Items "HOL-Library.Product_Lexorder" "HOL-Library.Countable"
begin

text \<open>
  The inputs that wait for a session (\<open>server/src/runtime/handlers/queue.rs\<close>): the turn queue and
  the steer queue in memory, the rows of \<open>pending_messages\<close> that mirror them in the database
  (\<open>server/src/db.rs\<close>), the end of a turn (\<open>core/src/session.rs\<close>,
  \<open>server/src/runtime/turn_exec/finalize.rs\<close>), the drain
  (\<open>server/src/runtime/turn_exec/followup.rs\<close>) and the restart
  (\<open>server/src/runtime/lifecycle.rs\<close>).

  The two queues are behind their own locks, so every operation is a step on the state of one
  session; where an operation takes a lock twice it is two steps. The identifier of a new item is
  part of the item. A time is a number of nanoseconds.
\<close>

section \<open>Items and their rows\<close>

datatype prompt_image = PromptImage (pm_mime: string) (pm_data: string)

datatype pending_kind =
    PendText string
  | PendInput "user_input list" string string "string list" "prompt_image list"
  | PendBlocked string string
  | PendBudget

record pending_item =
  pi_id :: string
  pi_kind :: pending_kind
  pi_metadata :: "json option"
  pi_created :: int

text \<open>How inputs and images are written as JSON is a parameter.\<close>

record input_codec =
  ic_input :: "user_input list \<Rightarrow> json"
  ic_read_input :: "json \<Rightarrow> user_input list option"
  ic_images :: "prompt_image list \<Rightarrow> json"
  ic_read_images :: "json \<Rightarrow> prompt_image list option"

definition pending_kind_parts :: "json_lib \<Rightarrow> input_codec \<Rightarrow> pending_kind \<Rightarrow> string \<times> string" where
  "pending_kind_parts L C k =
     (case k of
        PendText t \<Rightarrow> (''user_text'', t)
      | PendInput inp display prompt msgs imgs \<Rightarrow>
          (''user_input'', lib_print L (JObj
             [(''input'', ic_input C inp), (''display_text'', JStr display), (''prompt_text'', JStr prompt),
              (''prompt_messages'', JArr (map JStr msgs)), (''prompt_images'', ic_images C imgs)]))
      | PendBlocked i r \<Rightarrow>
          (''tool_call_blocked'', lib_print L (JObj [(''tool_use_id'', JStr i), (''reason'', JStr r)]))
      | PendBudget \<Rightarrow> (''budget_limit'', []))"

definition str_or_empty :: "json option \<Rightarrow> string" where
  "str_or_empty v = (case Option.bind v json_str of None \<Rightarrow> [] | Some s \<Rightarrow> s)"

fun json_strings :: "json \<Rightarrow> string list option" where
  "json_strings (JArr xs) = those (map json_str xs)"
| "json_strings _ = None"

definition read_user_input :: "input_codec \<Rightarrow> json \<Rightarrow> pending_kind option" where
  "read_user_input C v =
     (case (Option.bind (json_get v ''input'') (ic_read_input C), json_get v ''display_text'', json_get v ''prompt_text'') of
        (Some inp, Some d, Some p) \<Rightarrow>
          Some (PendInput inp (str_or_empty (Some d)) (str_or_empty (Some p))
            (case Option.bind (json_get v ''prompt_messages'') json_strings of None \<Rightarrow> [] | Some ms \<Rightarrow> ms)
            (case Option.bind (json_get v ''prompt_images'') (ic_read_images C) of None \<Rightarrow> [] | Some is \<Rightarrow> is))
      | _ \<Rightarrow> None)"

definition pending_kind_from_row :: "json_lib \<Rightarrow> input_codec \<Rightarrow> string \<Rightarrow> string \<Rightarrow> pending_kind" where
  "pending_kind_from_row L C kind content =
     (if kind = ''user_text'' then PendText content
      else if kind = ''user_input'' then
        (case lib_parse L content of
           Inl _ \<Rightarrow> PendText content
         | Inr v \<Rightarrow> (case read_user_input C v of None \<Rightarrow> PendText content | Some k \<Rightarrow> k))
      else if kind = ''tool_call_blocked'' then
        (let v = (case lib_parse L content of Inl _ \<Rightarrow> JNull | Inr v \<Rightarrow> v)
         in PendBlocked (str_or_empty (json_get v ''tool_use_id'')) (str_or_empty (json_get v ''reason'')))
      else if kind = ''budget_limit'' then PendBudget
      else PendText content)"

text \<open>The columns of a row; the time is kept in seconds.\<close>

record pending_row =
  pr_row :: nat
  pr_position :: nat
  pr_item_id :: string
  pr_kind :: string
  pr_content :: string
  pr_metadata :: "string option"
  pr_created :: int

definition row_of :: "json_lib \<Rightarrow> input_codec \<Rightarrow> nat \<Rightarrow> nat \<Rightarrow> pending_item \<Rightarrow> pending_row" where
  "row_of L C r pos x =
     \<lparr>pr_row = r, pr_position = pos, pr_item_id = pi_id x, pr_kind = fst (pending_kind_parts L C (pi_kind x)),
      pr_content = snd (pending_kind_parts L C (pi_kind x)), pr_metadata = map_option (lib_print L) (pi_metadata x),
      pr_created = pi_created x div 1000000000\<rparr>"

definition pending_input_from_row :: "json_lib \<Rightarrow> input_codec \<Rightarrow> pending_row \<Rightarrow> pending_item" where
  "pending_input_from_row L C r =
     \<lparr>pi_id = pr_item_id r, pi_kind = pending_kind_from_row L C (pr_kind r) (pr_content r),
      pi_metadata = Option.bind (pr_metadata r) (\<lambda>s. case lib_parse L s of Inl _ \<Rightarrow> None | Inr v \<Rightarrow> Some v),
      pi_created = pr_created r * 1000000000\<rparr>"

text \<open>The item as the database gives it back: its time is cut to seconds.\<close>

definition on_disk :: "pending_item \<Rightarrow> pending_item" where
  "on_disk x = x\<lparr>pi_created := pi_created x div 1000000000 * 1000000000\<rparr>"

section \<open>The database\<close>

text \<open>The rows of one queue of one session; the row number is taken from the table's counter.\<close>

definition push_pending :: "json_lib \<Rightarrow> input_codec \<Rightarrow> nat \<Rightarrow> pending_item \<Rightarrow> pending_row list \<Rightarrow> pending_row list" where
  "push_pending L C r x rows = rows @ [row_of L C r (Max (insert 0 (pr_position ` set rows)) + 1) x]"

definition update_pending_content :: "json_lib \<Rightarrow> input_codec \<Rightarrow> pending_item \<Rightarrow> pending_row list \<Rightarrow> pending_row list" where
  "update_pending_content L C x rows =
     map (\<lambda>r. if pr_item_id r = pi_id x
              then r\<lparr>pr_kind := fst (pending_kind_parts L C (pi_kind x)),
                     pr_content := snd (pending_kind_parts L C (pi_kind x)),
                     pr_metadata := map_option (lib_print L) (pi_metadata x)\<rparr>
              else r) rows"

definition set_position :: "string \<Rightarrow> nat \<Rightarrow> pending_row list \<Rightarrow> pending_row list" where
  "set_position i pos rows = map (\<lambda>r. if pr_item_id r = i then r\<lparr>pr_position := pos\<rparr> else r) rows"

fun set_positions_from :: "nat \<Rightarrow> string list \<Rightarrow> pending_row list \<Rightarrow> pending_row list" where
  "set_positions_from n [] rows = rows"
| "set_positions_from n (i # is) rows = set_positions_from (Suc n) is (set_position i n rows)"

definition set_pending_positions :: "string list \<Rightarrow> pending_row list \<Rightarrow> pending_row list" where
  "set_pending_positions ids rows = set_positions_from 1 ids rows"

definition row_key :: "pending_row \<Rightarrow> nat \<times> nat" where
  "row_key r = (pr_position r, pr_row r)"

definition list_pending :: "json_lib \<Rightarrow> input_codec \<Rightarrow> pending_row list \<Rightarrow> pending_item list" where
  "list_pending L C rows = map (pending_input_from_row L C) (sort_key row_key rows)"

definition drain_pending :: "json_lib \<Rightarrow> input_codec \<Rightarrow> pending_row list \<Rightarrow> pending_item list \<times> pending_row list" where
  "drain_pending L C rows = (list_pending L C rows, [])"

definition remove_pending_by_id :: "string \<Rightarrow> pending_row list \<Rightarrow> pending_row list" where
  "remove_pending_by_id i rows = filter (\<lambda>r. pr_item_id r \<noteq> i) rows"

section \<open>The queues of a session\<close>

record session_queues =
  sq_queue :: "pending_item list"
  sq_steer :: "pending_item list"
  sq_rows :: "pending_row list"
  sq_steer_rows :: "pending_row list"
  sq_counter :: nat
  sq_ephemeral :: bool

definition store_turn_row :: "json_lib \<Rightarrow> input_codec \<Rightarrow> pending_item \<Rightarrow> session_queues \<Rightarrow> session_queues" where
  "store_turn_row L C x st =
     st\<lparr>sq_rows := push_pending L C (sq_counter st) x (sq_rows st), sq_counter := Suc (sq_counter st)\<rparr>"

definition store_steer_row :: "json_lib \<Rightarrow> input_codec \<Rightarrow> pending_item \<Rightarrow> session_queues \<Rightarrow> session_queues" where
  "store_steer_row L C x st =
     st\<lparr>sq_steer_rows := push_pending L C (sq_counter st) x (sq_steer_rows st), sq_counter := Suc (sq_counter st)\<rparr>"

text \<open>
  An input for a session whose turn runs: it is persisted first; when that fails, an input with a
  client identifier is refused and another one is only queued in memory.
\<close>

definition enqueue_input :: "json_lib \<Rightarrow> input_codec \<Rightarrow> bool \<Rightarrow> string option \<Rightarrow> pending_item \<Rightarrow> session_queues \<Rightarrow>
    bool \<times> session_queues" where
  "enqueue_input L C db_ok client x st =
     (if sq_ephemeral st then (True, st\<lparr>sq_queue := sq_queue st @ [x]\<rparr>)
      else if db_ok then (True, (store_turn_row L C x st)\<lparr>sq_queue := sq_queue st @ [x]\<rparr>)
      else if client \<noteq> None then (False, st)
      else (True, st\<lparr>sq_queue := sq_queue st @ [x]\<rparr>))"

datatype turn_kind = RegularTurn | CompactionTurn | GoalContinuationTurn

datatype steer_outcome =
    SteerInjected
  | SteerDegraded
  | SteerMismatch
  | SteerNotSteerable
  | SteerNotPersisted

definition inject_steer :: "json_lib \<Rightarrow> input_codec \<Rightarrow> bool \<Rightarrow> pending_item \<Rightarrow> session_queues \<Rightarrow>
    steer_outcome \<times> session_queues" where
  "inject_steer L C db_ok x st =
     (if \<not> sq_ephemeral st \<and> \<not> db_ok then (SteerNotPersisted, st)
      else (let st' = (if sq_ephemeral st then st else store_steer_row L C x st)
            in (SteerInjected, st'\<lparr>sq_steer := sq_steer st' @ [x]\<rparr>)))"

definition degrade_steer_to_queue :: "json_lib \<Rightarrow> input_codec \<Rightarrow> bool \<Rightarrow> pending_item \<Rightarrow> session_queues \<Rightarrow>
    steer_outcome \<times> session_queues" where
  "degrade_steer_to_queue L C db_ok x st =
     (if \<not> sq_ephemeral st \<and> \<not> db_ok then (SteerNotPersisted, st)
      else (let st' = (if sq_ephemeral st then st else store_turn_row L C x st)
            in (SteerDegraded, st'\<lparr>sq_queue := sq_queue st' @ [x]\<rparr>)))"

text \<open>
  Where an accepted steer goes: \<open>active\<close> is the turn that runs, \<open>terminal\<close> says which turns have
  a recorded terminal status, \<open>parked\<close> that an approval is pending.
\<close>

definition turn_steer :: "json_lib \<Rightarrow> input_codec \<Rightarrow> bool \<Rightarrow> (string \<times> turn_kind) option \<Rightarrow> (string \<Rightarrow> bool) \<Rightarrow> bool \<Rightarrow>
    string \<Rightarrow> pending_item \<Rightarrow> session_queues \<Rightarrow> steer_outcome \<times> session_queues" where
  "turn_steer L C db_ok active terminal parked expected x st =
     (case active of
        None \<Rightarrow> degrade_steer_to_queue L C db_ok x st
      | Some (t, kind) \<Rightarrow>
          (if t \<noteq> expected then
             (if terminal expected \<or> terminal t then degrade_steer_to_queue L C db_ok x st
              else (SteerMismatch, st))
           else if kind \<noteq> RegularTurn then
             (if kind = GoalContinuationTurn then degrade_steer_to_queue L C db_ok x st
              else (SteerNotSteerable, st))
           else if parked then degrade_steer_to_queue L C db_ok x st
           else inject_steer L C db_ok x st))"

fun index_of :: "('a \<Rightarrow> bool) \<Rightarrow> 'a list \<Rightarrow> nat option" where
  "index_of P [] = None"
| "index_of P (x # xs) = (if P x then Some 0 else map_option Suc (index_of P xs))"

definition insert_at :: "nat \<Rightarrow> 'a \<Rightarrow> 'a list \<Rightarrow> 'a list" where
  "insert_at n x xs = take n xs @ x # drop n xs"

text \<open>
  \<open>session/queue/update\<close>: the change in memory (\<open>None\<close>: the item is no longer queued), and then
  the mirror, which takes the lock again and panics (\<open>None\<close>) when the item is gone by then.
\<close>

definition queue_update_memory :: "string \<Rightarrow> pending_kind option \<Rightarrow> nat option \<Rightarrow> session_queues \<Rightarrow> session_queues option" where
  "queue_update_memory i kind position st =
     (case index_of (\<lambda>x. pi_id x = i) (sq_queue st) of
        None \<Rightarrow> None
      | Some n \<Rightarrow>
          (let q1 = (case kind of None \<Rightarrow> sq_queue st | Some k \<Rightarrow> (sq_queue st)[n := (sq_queue st ! n)\<lparr>pi_kind := k\<rparr>]);
               q2 = (case position of
                       None \<Rightarrow> q1
                     | Some p \<Rightarrow> (let rest = take n q1 @ drop (Suc n) q1
                                 in insert_at (min (p - 1) (length rest)) (q1 ! n) rest))
           in Some (st\<lparr>sq_queue := q2\<rparr>)))"

definition queue_update_persist :: "json_lib \<Rightarrow> input_codec \<Rightarrow> bool \<Rightarrow> string \<Rightarrow> nat option \<Rightarrow> session_queues \<Rightarrow>
    session_queues option" where
  "queue_update_persist L C db_ok i position st =
     (if sq_ephemeral st then Some st
      else case find (\<lambda>x. pi_id x = i) (sq_queue st) of
             None \<Rightarrow> None
           | Some x \<Rightarrow>
               (if \<not> db_ok then Some st
                else (let rows = update_pending_content L C x (sq_rows st)
                      in Some (st\<lparr>sq_rows := (case position of
                                               None \<Rightarrow> rows
                                             | Some _ \<Rightarrow> set_pending_positions (map pi_id (sq_queue st)) rows)\<rparr>))))"

definition queue_remove :: "bool \<Rightarrow> string \<Rightarrow> session_queues \<Rightarrow> session_queues option" where
  "queue_remove db_ok i st =
     (case index_of (\<lambda>x. pi_id x = i) (sq_queue st) of
        None \<Rightarrow> None
      | Some n \<Rightarrow>
          (let st' = st\<lparr>sq_queue := take n (sq_queue st) @ drop (Suc n) (sq_queue st)\<rparr>
           in Some (if sq_ephemeral st \<or> \<not> db_ok then st'
                    else st'\<lparr>sq_rows := remove_pending_by_id i (sq_rows st)\<rparr>)))"

text \<open>
  The next input for a turn. Only texts and inputs become turns; any other kind is taken from the
  queue and nothing is returned, so its row is not removed either.
\<close>

fun drains :: "pending_kind \<Rightarrow> bool" where
  "drains (PendText _) = True"
| "drains (PendInput _ _ _ _ _) = True"
| "drains _ = False"

definition pop_next_queued_turn_input :: "bool \<Rightarrow> bool \<Rightarrow> bool \<Rightarrow> session_queues \<Rightarrow> pending_item option \<times> session_queues" where
  "pop_next_queued_turn_input db_ok require_idle active st =
     (if require_idle \<and> active then (None, st)
      else case sq_queue st of
             [] \<Rightarrow> (None, st)
           | x # xs \<Rightarrow>
               (if \<not> drains (pi_kind x) then (None, st\<lparr>sq_queue := xs\<rparr>)
                else (Some x, st\<lparr>sq_queue := xs,
                                 sq_rows := (if db_ok then remove_pending_by_id (pi_id x) (sq_rows st) else sq_rows st)\<rparr>)))"

text \<open>The running turn takes the steers at a request boundary.\<close>

definition drain_steer_input_queue :: "session_queues \<Rightarrow> pending_item list \<times> session_queues" where
  "drain_steer_input_queue st = (sq_steer st, st\<lparr>sq_steer := []\<rparr>)"

definition end_turn_queues :: "session_queues \<Rightarrow> session_queues" where
  "end_turn_queues st = st\<lparr>sq_queue := sq_queue st @ sq_steer st, sq_steer := []\<rparr>"

text \<open>Steer rows whose items are queued become turn rows, the others are dropped.\<close>

fun move_steer_rows :: "json_lib \<Rightarrow> input_codec \<Rightarrow> pending_item list \<Rightarrow> session_queues \<Rightarrow> session_queues" where
  "move_steer_rows L C [] st = st"
| "move_steer_rows L C (x # xs) st =
     move_steer_rows L C xs (if pi_id x \<in> pi_id ` set (sq_queue st) then store_turn_row L C x st else st)"

definition clear_steer_input_queue :: "json_lib \<Rightarrow> input_codec \<Rightarrow> session_queues \<Rightarrow> session_queues" where
  "clear_steer_input_queue L C st =
     (let st1 = end_turn_queues st
      in if sq_ephemeral st then st1
         else (case drain_pending L C (sq_steer_rows st1) of
                 (items, rows) \<Rightarrow> move_steer_rows L C items (st1\<lparr>sq_steer_rows := rows\<rparr>)))"

section \<open>What a queued input carries\<close>

text \<open>\<open>normalize_user_inputs\<close>: inline images become files (the parameter), audio is refused.\<close>

fun normalize_user_inputs :: "(string \<Rightarrow> string option \<Rightarrow> string + string) \<Rightarrow> user_input list \<Rightarrow> string + user_input list" where
  "normalize_user_inputs W [] = Inr []"
| "normalize_user_inputs W (u # us) =
     (case (case u of
              UserImage uri mime detail \<Rightarrow> (case W uri mime of Inl e \<Rightarrow> Inl e | Inr path \<Rightarrow> Inr (UserLocalImage path detail))
            | UserAudio uri mime \<Rightarrow> Inl (''unsupported input modality for queue: '' @ uri)
            | _ \<Rightarrow> Inr u) of
        Inl e \<Rightarrow> Inl e
      | Inr v \<Rightarrow> (case normalize_user_inputs W us of Inl e \<Rightarrow> Inl e | Inr vs \<Rightarrow> Inr (v # vs)))"

record queue_entry =
  qe_item :: string
  qe_position :: nat
  qe_input :: "user_input list"
  qe_preview :: string
  qe_enqueued :: int

definition entry_of :: "nat \<Rightarrow> pending_item \<Rightarrow> queue_entry" where
  "entry_of index x =
     \<lparr>qe_item = pi_id x, qe_position = index + 1,
      qe_input = (case pi_kind x of PendText t \<Rightarrow> [UserText t] | PendInput inp _ _ _ _ \<Rightarrow> inp | _ \<Rightarrow> []),
      qe_preview =
        (let display = (case pi_kind x of PendText t \<Rightarrow> t | PendInput _ d _ _ _ \<Rightarrow> d | _ \<Rightarrow> [])
         in take 80 (case rust_lines display of [] \<Rightarrow> [] | l # _ \<Rightarrow> l)),
      qe_enqueued = pi_created x\<rparr>"

definition native_queue_entries :: "pending_item list \<Rightarrow> queue_entry list" where
  "native_queue_entries q = map (\<lambda>(i, x). entry_of i x) (enumerate 0 q)"

datatype collaboration_mode = Build | Plan

fun mode_json :: "collaboration_mode \<Rightarrow> json" where
  "mode_json Build = JStr ''build''"
| "mode_json Plan = JStr ''plan''"

definition read_mode :: "json \<Rightarrow> collaboration_mode option" where
  "read_mode v = (if v = JStr ''build'' then Some Build else if v = JStr ''plan'' then Some Plan else None)"

definition pending_turn_metadata :: "collaboration_mode \<Rightarrow> string option \<Rightarrow> string option \<Rightarrow> string option \<Rightarrow> json option" where
  "pending_turn_metadata mode model binding client =
     (let fields = (if mode \<noteq> Build then [(''collaboration_mode'', mode_json mode)] else []) @
                   (case binding of None \<Rightarrow> [] | Some b \<Rightarrow> [(''model_binding_id'', JStr b)]) @
                   (case model of None \<Rightarrow> [] | Some m \<Rightarrow> [(''model'', JStr m)]) @
                   (case client of None \<Rightarrow> [] | Some c \<Rightarrow> [(''clientUserMessageId'', JStr c)])
      in if fields = [] then None else Some (JObj fields))"

record queued_turn_input =
  qt_item :: string
  qt_client :: "string option"
  qt_display :: string
  qt_prompt :: string
  qt_messages :: "string list"
  qt_images :: "prompt_image list"
  qt_image_paths :: "string list"
  qt_mode :: collaboration_mode
  qt_model :: "string option"
  qt_owner :: "(string \<times> string option) option"

definition client_user_message_id_from_metadata :: "json option \<Rightarrow> string option" where
  "client_user_message_id_from_metadata m = Option.bind (Option.bind m (\<lambda>v. json_get v ''clientUserMessageId'')) json_str"

definition collaboration_mode_from_metadata :: "json option \<Rightarrow> collaboration_mode" where
  "collaboration_mode_from_metadata m =
     (case Option.bind (case Option.bind m (\<lambda>v. json_get v ''collaboration_mode'') of
              Some x \<Rightarrow> Some x | None \<Rightarrow> Option.bind m (\<lambda>v. json_get v ''interaction_mode'')) read_mode of
        None \<Rightarrow> Build | Some mode \<Rightarrow> mode)"

definition string_field_from_metadata :: "json option \<Rightarrow> string \<Rightarrow> string option" where
  "string_field_from_metadata m key =
     Option.bind (Option.bind (Option.bind m (\<lambda>v. json_get v key)) json_str)
       (\<lambda>s. if trim s = [] then None else Some (trim s))"

definition model_selection_from_metadata :: "json option \<Rightarrow> string option" where
  "model_selection_from_metadata m =
     (case string_field_from_metadata m ''model_binding_id'' of
        Some b \<Rightarrow> Some b | None \<Rightarrow> string_field_from_metadata m ''model'')"

definition subagent_usage_owner_from_metadata :: "json option \<Rightarrow> (string \<times> string option) option" where
  "subagent_usage_owner_from_metadata m =
     map_option (\<lambda>s. (s, string_field_from_metadata m ''devo_subagent_usage_parent_turn_id''))
       (string_field_from_metadata m ''devo_subagent_usage_parent_session_id'')"

definition pop_queued_turn_input_data :: "pending_item \<Rightarrow> queued_turn_input option" where
  "pop_queued_turn_input_data x =
     (let data = (\<lambda>display prompt msgs imgs paths. Some
            \<lparr>qt_item = pi_id x, qt_client = client_user_message_id_from_metadata (pi_metadata x), qt_display = display,
             qt_prompt = prompt, qt_messages = msgs, qt_images = imgs, qt_image_paths = paths,
             qt_mode = collaboration_mode_from_metadata (pi_metadata x),
             qt_model = model_selection_from_metadata (pi_metadata x),
             qt_owner = subagent_usage_owner_from_metadata (pi_metadata x)\<rparr>)
      in case pi_kind x of
           PendText t \<Rightarrow> data t t [] [] []
         | PendInput inp display prompt msgs imgs \<Rightarrow>
             data display prompt msgs imgs
               (List.map_filter (\<lambda>u. case u of UserLocalImage p _ \<Rightarrow> Some p | _ \<Rightarrow> None) inp)
         | _ \<Rightarrow> None)"

lemma pop_data_drains: "pop_queued_turn_input_data x = None \<longleftrightarrow> \<not> drains (pi_kind x)"
  by (cases "pi_kind x") (simp_all add: pop_queued_turn_input_data_def)

text \<open>The choices that are stored with a queued input are the ones its turn starts with.\<close>

lemma metadata_get:
  "Option.bind (pending_turn_metadata mode model binding client) (\<lambda>v. json_get v k) =
     (if k = ''collaboration_mode'' \<and> mode \<noteq> Build then Some (mode_json mode)
      else if k = ''model_binding_id'' then map_option JStr binding
      else if k = ''model'' then map_option JStr model
      else if k = ''clientUserMessageId'' then map_option JStr client else None)"
  by (cases model; cases binding; cases client) (auto simp: pending_turn_metadata_def)

definition plain_choice :: "string option \<Rightarrow> bool" where
  "plain_choice c = (case c of None \<Rightarrow> True | Some s \<Rightarrow> trim s = s \<and> s \<noteq> [])"

lemma string_field_plain:
  "\<lbrakk>Option.bind m (\<lambda>v. json_get v k) = map_option JStr c; plain_choice c\<rbrakk> \<Longrightarrow> string_field_from_metadata m k = c"
  by (cases c) (simp_all add: string_field_from_metadata_def plain_choice_def)

lemma queued_choices_are_kept:
  assumes "pi_metadata x = pending_turn_metadata mode model binding client" "plain_choice model" "plain_choice binding"
    and "pop_queued_turn_input_data x = Some d"
  shows "qt_mode d = mode \<and> qt_client d = client \<and> qt_model d = (case binding of Some b \<Rightarrow> Some b | None \<Rightarrow> model) \<and>
    qt_owner d = None"
proof -
  let ?m = "pending_turn_metadata mode model binding client"
  have "client_user_message_id_from_metadata ?m = client"
    unfolding client_user_message_id_from_metadata_def metadata_get by (cases client) simp_all
  moreover have "collaboration_mode_from_metadata ?m = mode"
    unfolding collaboration_mode_from_metadata_def metadata_get by (cases mode) (simp_all add: read_mode_def)
  moreover have "string_field_from_metadata ?m ''model_binding_id'' = binding" "string_field_from_metadata ?m ''model'' = model"
    using assms(2,3) by (simp_all add: string_field_plain metadata_get)
  then have "model_selection_from_metadata ?m = (case binding of Some b \<Rightarrow> Some b | None \<Rightarrow> model)"
    by (cases binding) (simp_all add: model_selection_from_metadata_def)
  moreover have "subagent_usage_owner_from_metadata ?m = None"
    by (simp add: subagent_usage_owner_from_metadata_def string_field_from_metadata_def metadata_get)
  ultimately show ?thesis using assms(1,4)
    by (cases "pi_kind x") (auto simp: pop_queued_turn_input_data_def)
qed

text \<open>The entries number the queue from one, in its order.\<close>

lemma queue_entries_in_order:
  "map qe_item (native_queue_entries q) = map pi_id q"
  "map qe_position (native_queue_entries q) = [1..<length q + 1]"
  by (auto simp: native_queue_entries_def entry_of_def nth_enumerate_eq intro!: nth_equalityI simp del: upt_Suc)

section \<open>Restart\<close>

definition first_line_text :: "user_input list \<Rightarrow> string option" where
  "first_line_text content =
     (let texts = List.map_filter (\<lambda>u. case u of
          UserText t \<Rightarrow> (case rust_lines t of [] \<Rightarrow> None | l # _ \<Rightarrow> (if trim l = [] then None else Some (trim l)))
        | _ \<Rightarrow> None) content
      in case texts of [] \<Rightarrow> None | t # _ \<Rightarrow> Some t)"

record steer_keys =
  sk_texts :: "string list"
  sk_ids :: "string list"

definition materialized_steer_keys :: "item_envelope list \<Rightarrow> steer_keys" where
  "materialized_steer_keys items =
     foldl (\<lambda>k e. case en_item e of
              UserMessageItem client content entry \<Rightarrow>
                (if entry = EntrySteer then
                   \<lparr>sk_texts = (case first_line_text content of None \<Rightarrow> sk_texts k | Some t \<Rightarrow> t # sk_texts k),
                    sk_ids = (case client of None \<Rightarrow> sk_ids k | Some i \<Rightarrow> i # sk_ids k)\<rparr>
                 else k)
            | _ \<Rightarrow> k) \<lparr>sk_texts = [], sk_ids = []\<rparr> items"

fun pending_input_preview_text :: "pending_kind \<Rightarrow> string option" where
  "pending_input_preview_text (PendText t) = Some t"
| "pending_input_preview_text (PendInput _ d _ _ _) = Some d"
| "pending_input_preview_text _ = None"

definition pending_client_user_message_id :: "pending_item \<Rightarrow> string option" where
  "pending_client_user_message_id x =
     Option.bind (pi_metadata x) (\<lambda>m.
       Option.bind (case json_get m ''clientUserMessageId'' of
                      Some v \<Rightarrow> Some v | None \<Rightarrow> json_get m ''client_user_message_id'') json_str)"

definition steer_already_materialized :: "steer_keys \<Rightarrow> pending_item \<Rightarrow> bool" where
  "steer_already_materialized k x \<longleftrightarrow>
     (case pending_client_user_message_id x of None \<Rightarrow> False | Some i \<Rightarrow> i \<in> set (sk_ids k)) \<or>
     (case pending_input_preview_text (pi_kind x) of None \<Rightarrow> False | Some t \<Rightarrow> t \<in> set (sk_texts k))"

fun restore_steers :: "json_lib \<Rightarrow> input_codec \<Rightarrow> steer_keys \<Rightarrow> pending_item list \<Rightarrow> session_queues \<Rightarrow> session_queues" where
  "restore_steers L C k [] st = st"
| "restore_steers L C k (x # xs) st =
     restore_steers L C k xs
       (if steer_already_materialized k x then st
        else (store_turn_row L C x st)\<lparr>sq_queue := sq_queue st @ [x]\<rparr>)"

definition restore_queues :: "json_lib \<Rightarrow> input_codec \<Rightarrow> steer_keys \<Rightarrow> session_queues \<Rightarrow> session_queues" where
  "restore_queues L C k st =
     (case drain_pending L C (sq_steer_rows st) of
        (steers, rows) \<Rightarrow>
          restore_steers L C k steers
            (st\<lparr>sq_queue := list_pending L C (sq_rows st), sq_steer := [], sq_steer_rows := rows\<rparr>))"

section \<open>Rows read back\<close>

definition reads_back :: "json_lib \<Rightarrow> input_codec \<Rightarrow> pending_item \<Rightarrow> bool" where
  "reads_back L C x \<longleftrightarrow> pending_input_from_row L C (row_of L C 0 0 x) = on_disk x"

lemma those_strings [simp]: "those (map (json_str \<circ> JStr) xs) = Some xs"
  by (induction xs) auto

text \<open>
  An item that is written to the database is read back as it was, whatever its kind and its
  metadata, with its time cut to seconds: the library reads the values it prints and the inputs
  and images convert to JSON and back.
\<close>

theorem pending_row_roundtrip:
  assumes "\<forall>v. lib_parse L (lib_print L v) = Inr v"
    and "\<forall>x. ic_read_input C (ic_input C x) = Some x" "\<forall>x. ic_read_images C (ic_images C x) = Some x"
  shows "pending_input_from_row L C (row_of L C r pos x) = on_disk x"
proof -
  have "pending_kind_from_row L C (fst (pending_kind_parts L C k)) (snd (pending_kind_parts L C k)) = k" for k
    using assms by (cases k) (auto simp: pending_kind_from_row_def pending_kind_parts_def read_user_input_def
        str_or_empty_def Let_def)
  moreover have "Option.bind (map_option (lib_print L) m) (\<lambda>s. case lib_parse L s of Inl _ \<Rightarrow> None | Inr v \<Rightarrow> Some v) = m" for m
    using assms(1) by (cases m) auto
  ultimately show ?thesis by (simp add: pending_input_from_row_def row_of_def on_disk_def)
qed

text \<open>A library that reads what it prints: values are countable.\<close>

instance image_detail :: countable by countable_datatype

instance user_input :: countable by countable_datatype

instance prompt_image :: countable by countable_datatype

definition count_lib :: json_lib where
  "count_lib =
     \<lparr>lib_parse = (\<lambda>s. Inr (from_nat (length s))), lib_print = (\<lambda>v. replicate (to_nat v) (CHR ''1''))\<rparr>"

definition count_codec :: input_codec where
  "count_codec =
     \<lparr>ic_input = (\<lambda>x. JInt (int (to_nat x))),
      ic_read_input = (\<lambda>v. case v of JInt n \<Rightarrow> Some (from_nat (nat n)) | _ \<Rightarrow> None),
      ic_images = (\<lambda>x. JInt (int (to_nat x))),
      ic_read_images = (\<lambda>v. case v of JInt n \<Rightarrow> Some (from_nat (nat n)) | _ \<Rightarrow> None)\<rparr>"

definition sample_input :: pending_item where
  "sample_input =
     \<lparr>pi_id = ''q1'', pi_kind = PendInput [UserText ''run''] ''run'' ''run'' [''ctx''] [],
      pi_metadata = Some (JObj [(''clientUserMessageId'', JStr ''m1'')]), pi_created = 1500000000\<rparr>"

theorem pending_row_roundtrip_witness:
  "pending_input_from_row count_lib count_codec (row_of count_lib count_codec 1 1 sample_input) =
     sample_input\<lparr>pi_created := 1000000000\<rparr>"
  using pending_row_roundtrip [of count_lib count_codec 1 1 sample_input]
  by (simp add: count_lib_def count_codec_def on_disk_def sample_input_def)

section \<open>The rows are the queue\<close>

definition columns :: "pending_row \<Rightarrow> string \<times> string \<times> string \<times> string option \<times> int" where
  "columns r = (pr_item_id r, pr_kind r, pr_content r, pr_metadata r, pr_created r)"

definition item_columns :: "json_lib \<Rightarrow> input_codec \<Rightarrow> pending_item \<Rightarrow> string \<times> string \<times> string \<times> string option \<times> int" where
  "item_columns L C x = columns (row_of L C 0 0 x)"

lemma columns_row_of [simp]: "columns (row_of L C r pos x) = item_columns L C x"
  by (simp add: item_columns_def columns_def row_of_def)

lemma row_of_fields [simp]:
  "pr_item_id (row_of L C r pos x) = pi_id x" "pr_row (row_of L C r pos x) = r" "pr_position (row_of L C r pos x) = pos"
  by (simp_all add: row_of_def)

lemma from_row_columns: "columns r = columns r' \<Longrightarrow> pending_input_from_row L C r = pending_input_from_row L C r'"
  by (simp add: columns_def pending_input_from_row_def)

definition same_order :: "session_queues \<Rightarrow> bool" where
  "same_order st \<longleftrightarrow> map pr_item_id (sort_key row_key (sq_rows st)) = map pi_id (sq_queue st)"

definition same_content :: "json_lib \<Rightarrow> input_codec \<Rightarrow> session_queues \<Rightarrow> bool" where
  "same_content L C st \<longleftrightarrow>
     (\<forall>r\<in>set (sq_rows st). \<forall>x\<in>set (sq_queue st). pr_item_id r = pi_id x \<longrightarrow> columns r = item_columns L C x)"

definition queue_mirrored :: "json_lib \<Rightarrow> input_codec \<Rightarrow> session_queues \<Rightarrow> bool" where
  "queue_mirrored L C st \<longleftrightarrow>
     same_order st \<and> same_content L C st \<and> distinct (map pi_id (sq_queue st)) \<and>
     list_all (drains \<circ> pi_kind) (sq_queue st) \<and> \<not> sq_ephemeral st"

text \<open>Sorting commutes with the changes of the table.\<close>

lemma sort_key_snoc: "\<forall>y\<in>set xs. f y \<le> f x \<Longrightarrow> sort_key f (xs @ [x]) = sort_key f xs @ [x]"
proof -
  assume le: "\<forall>y\<in>set xs. f y \<le> f x"
  have "mset (sort_key f xs @ [x]) = mset (xs @ [x])" by simp
  moreover have "sorted (map f (sort_key f xs @ [x]))" using le by (simp add: sorted_append)
  moreover have "filter (\<lambda>z. f k = f z) (sort_key f xs @ [x]) = filter (\<lambda>z. f k = f z) (xs @ [x])" for k
  proof -
    have "(\<lambda>z. f k = f z) = (\<lambda>z. f z = f k)" by auto
    then show ?thesis by (simp add: sort_key_stable)
  qed
  ultimately show ?thesis by (intro properties_for_sort_key) auto
qed

lemma sort_key_map: "(\<And>x. f (g x) = f x) \<Longrightarrow> sort_key f (map g xs) = map g (sort_key f xs)"
proof -
  assume eq: "\<And>x. f (g x) = f x"
  have "insort_key f (g x) (map g ys) = map g (insort_key f x ys)" for x ys
    by (induction ys) (simp_all add: eq)
  then show ?thesis by (induction xs) simp_all
qed

lemma sort_rows_ids: "set (map pr_item_id (sort_key row_key rows)) = pr_item_id ` set rows"
  by simp

lemma same_ids: "same_order st \<Longrightarrow> pr_item_id ` set (sq_rows st) = pi_id ` set (sq_queue st)"
  unfolding same_order_def using sort_rows_ids [of "sq_rows st"] by (metis list.set_map)

lemma push_sorted:
  "sort_key row_key (push_pending L C r x rows) =
     sort_key row_key rows @ [row_of L C r (Max (insert 0 (pr_position ` set rows)) + 1) x]"
proof -
  have "pr_position y < Max (insert 0 (pr_position ` set rows)) + 1" if "y \<in> set rows" for y
    using that by (simp add: le_imp_less_Suc)
  then show ?thesis
    by (auto simp: push_pending_def row_key_def less_eq_prod_def intro!: sort_key_snoc)
qed

lemma mirror_push:
  assumes "queue_mirrored L C st" "pi_id x \<notin> pi_id ` set (sq_queue st)" "drains (pi_kind x)"
  shows "queue_mirrored L C ((store_turn_row L C x st)\<lparr>sq_queue := sq_queue st @ [x]\<rparr>)"
proof -
  have "pr_item_id ` set (sq_rows st) = pi_id ` set (sq_queue st)"
    using assms(1) same_ids by (simp add: queue_mirrored_def)
  then have fresh: "\<forall>r\<in>set (sq_rows st). pr_item_id r \<noteq> pi_id x" using assms(2) by (metis imageI)
  then show ?thesis using assms
    by (auto simp: queue_mirrored_def same_order_def same_content_def store_turn_row_def push_sorted)
      (auto simp: push_pending_def image_iff)
qed

lemma index_of_split: "\<lbrakk>\<forall>u\<in>set us. \<not> P u; P x\<rbrakk> \<Longrightarrow> index_of P (us @ x # vs) = Some (length us)"
  by (induction us) auto

lemma index_of_Some:
  "index_of P xs = Some n \<Longrightarrow> \<exists>us x vs. xs = us @ x # vs \<and> length us = n \<and> P x \<and> (\<forall>u\<in>set us. \<not> P u)"
proof (induction xs arbitrary: n)
  case (Cons y ys)
  show ?case
  proof (cases "P y")
    case True
    then show ?thesis using Cons.prems by (intro exI [of _ "[]"]) auto
  next
    case False
    then obtain m where m: "index_of P ys = Some m" "n = Suc m" using Cons.prems by auto
    from Cons.IH [OF m(1)] obtain us x vs where "ys = us @ x # vs" "length us = m" "P x" "\<forall>u\<in>set us. \<not> P u" by blast
    then show ?thesis using False m(2) by (intro exI [of _ "y # us"]) auto
  qed
qed simp

lemma index_of_None: "index_of P xs = None \<longleftrightarrow> (\<forall>x\<in>set xs. \<not> P x)"
  by (induction xs) auto

text \<open>The item of an identifier, and the queue around it.\<close>

lemma queue_split:
  assumes "index_of (\<lambda>x. pi_id x = i) q = Some n" "distinct (map pi_id q)"
  obtains us x vs where "q = us @ x # vs" "n = length us" "pi_id x = i" "\<forall>u\<in>set (us @ vs). pi_id u \<noteq> i"
proof -
  from index_of_Some [OF assms(1)] obtain us x vs
    where split: "q = us @ x # vs" "length us = n" "pi_id x = i" by blast
  then have "\<forall>u\<in>set (us @ vs). pi_id u \<noteq> i" using assms(2) by (auto simp: image_iff)
  then show ?thesis using split by (intro that [of us x vs]) auto
qed

lemma remove_sorted: "sort_key row_key (remove_pending_by_id i rows) = filter (\<lambda>r. pr_item_id r \<noteq> i) (sort_key row_key rows)"
  by (simp add: remove_pending_by_id_def filter_sort)

lemma mirror_remove:
  assumes "queue_mirrored L C st" "sq_queue st = us @ x # vs" "\<forall>u\<in>set (us @ vs). pi_id u \<noteq> pi_id x"
  shows "queue_mirrored L C (st\<lparr>sq_queue := us @ vs, sq_rows := remove_pending_by_id (pi_id x) (sq_rows st)\<rparr>)"
proof -
  have "filter (\<lambda>u. pi_id u \<noteq> pi_id x) (us @ x # vs) = us @ vs"
    using assms(3) by (auto simp: filter_id_conv)
  moreover have "map pr_item_id (filter (\<lambda>r. pr_item_id r \<noteq> pi_id x) (sort_key row_key (sq_rows st))) =
      filter (\<lambda>i. i \<noteq> pi_id x) (map pr_item_id (sort_key row_key (sq_rows st)))"
    by (simp add: filter_map comp_def)
  moreover have "filter (\<lambda>i. i \<noteq> pi_id x) (map pi_id (us @ x # vs)) = map pi_id (filter (\<lambda>u. pi_id u \<noteq> pi_id x) (us @ x # vs))"
    by (simp only: filter_map comp_def)
  ultimately show ?thesis using assms
    by (auto simp: queue_mirrored_def same_order_def same_content_def filter_sort remove_pending_by_id_def)
qed

lemma update_content_sorted:
  "sort_key row_key (update_pending_content L C x rows) = update_pending_content L C x (sort_key row_key rows)"
  unfolding update_pending_content_def by (rule sort_key_map) (simp add: row_key_def)

lemma update_content_ids [simp]: "map pr_item_id (update_pending_content L C x rows) = map pr_item_id rows"
  by (simp add: update_pending_content_def)

lemma mirror_update_content:
  assumes "queue_mirrored L C st" "sq_queue st = us @ x # vs" "drains k"
  shows "queue_mirrored L C (st\<lparr>sq_queue := us @ x\<lparr>pi_kind := k\<rparr> # vs,
      sq_rows := update_pending_content L C (x\<lparr>pi_kind := k\<rparr>) (sq_rows st)\<rparr>)"
proof -
  have "columns r = item_columns L C y"
    if "r \<in> set (update_pending_content L C (x\<lparr>pi_kind := k\<rparr>) (sq_rows st))" "y \<in> set (us @ x\<lparr>pi_kind := k\<rparr> # vs)"
      "pr_item_id r = pi_id y" for r y
  proof -
    let ?f = "\<lambda>r. if pr_item_id r = pi_id x
        then r\<lparr>pr_kind := fst (pending_kind_parts L C k), pr_content := snd (pending_kind_parts L C k),
               pr_metadata := map_option (lib_print L) (pi_metadata x)\<rparr> else r"
    have eq: "update_pending_content L C (x\<lparr>pi_kind := k\<rparr>) (sq_rows st) = map ?f (sq_rows st)"
      by (simp add: update_pending_content_def)
    have "r \<in> ?f ` set (sq_rows st)" using that(1) unfolding eq set_map .
    then obtain r0 where r0: "r = ?f r0" "r0 \<in> set (sq_rows st)" by (rule imageE)
    then have id0: "pr_item_id r0 = pr_item_id r" by simp
    show ?thesis
    proof (cases "pr_item_id r = pi_id x")
      case True
      then have "y = x\<lparr>pi_kind := k\<rparr>" using assms(1,2) that(2,3) by (auto simp: queue_mirrored_def image_iff)
      moreover have "columns r0 = item_columns L C x"
        using assms(1,2) r0(2) id0 True by (auto simp: queue_mirrored_def same_content_def)
      moreover have "pr_item_id r0 = pi_id x" using id0 True by (rule trans)
      with r0(1) have "r = r0\<lparr>pr_kind := fst (pending_kind_parts L C k), pr_content := snd (pending_kind_parts L C k),
          pr_metadata := map_option (lib_print L) (pi_metadata x)\<rparr>" by (simp only: refl if_True)
      ultimately show ?thesis by (simp add: columns_def item_columns_def row_of_def)
    next
      case False
      then have "pr_item_id r0 \<noteq> pi_id x" using id0 by metis
      with r0(1) have "r = r0" by (simp only: if_False)
      moreover have "y \<in> set (sq_queue st)" using that(2,3) False assms(2) by auto
      ultimately show ?thesis using assms(1) r0(2) that(3) by (simp add: queue_mirrored_def same_content_def)
    qed
  qed
  then show ?thesis using assms
    by (simp add: queue_mirrored_def same_order_def same_content_def update_content_sorted)
qed

text \<open>New positions: every row gets the place of its item.\<close>

lemma set_positions_from_eq:
  "distinct ids \<Longrightarrow> set_positions_from n ids rows =
     map (\<lambda>r. case index_of (\<lambda>i. i = pr_item_id r) ids of None \<Rightarrow> r | Some k \<Rightarrow> r\<lparr>pr_position := n + k\<rparr>) rows"
proof (induction ids arbitrary: n rows)
  case (Cons i ids)
  have "index_of (\<lambda>j. j = i) ids = None" using Cons.prems by (auto simp: index_of_None)
  then show ?case using Cons
    by (auto simp: set_position_def split: option.split)
qed simp

lemma index_of_nth: "\<lbrakk>distinct ids; k < length ids\<rbrakk> \<Longrightarrow> index_of (\<lambda>i. i = ids ! k) ids = Some k"
proof (induction ids arbitrary: k)
  case (Cons i ids)
  then show ?case by (cases k) auto
qed simp

lemma index_of_bound: "index_of P xs = Some k \<Longrightarrow> k < length xs \<and> P (xs ! k)"
  by (auto dest!: index_of_Some simp: nth_append)

text \<open>Rows that are sorted by position stand in the order of the identifiers.\<close>

lemma sorted_positions:
  assumes "distinct ids" "set (map pr_item_id rows) = set ids" "distinct (map pr_item_id rows)"
  shows "map pr_item_id (sort_key row_key (set_pending_positions ids rows)) = ids"
proof -
  let ?rows = "set_pending_positions ids rows"
  let ?zs = "sort_key row_key ?rows"
  have eq: "?rows = map (\<lambda>r. case index_of (\<lambda>i. i = pr_item_id r) ids of None \<Rightarrow> r | Some k \<Rightarrow> r\<lparr>pr_position := 1 + k\<rparr>) rows"
    unfolding set_pending_positions_def by (rule set_positions_from_eq [OF assms(1)])
  have place: "1 \<le> pr_position r \<and> pr_position r - 1 < length ids \<and> ids ! (pr_position r - 1) = pr_item_id r"
    if "r \<in> set ?rows" for r
  proof -
    obtain r0 where r0: "r0 \<in> set rows"
      "r = (case index_of (\<lambda>i. i = pr_item_id r0) ids of None \<Rightarrow> r0 | Some k \<Rightarrow> r0\<lparr>pr_position := 1 + k\<rparr>)"
      using \<open>r \<in> set ?rows\<close> unfolding eq by auto
    have "pr_item_id r0 \<in> set ids" using r0(1) assms(2) by auto
    then have "index_of (\<lambda>i. i = pr_item_id r0) ids \<noteq> None" by (auto simp: index_of_None)
    then obtain k where k: "index_of (\<lambda>i. i = pr_item_id r0) ids = Some k" by auto
    then show ?thesis using r0(2) index_of_bound [OF k] by simp
  qed
  have ids: "map pr_item_id ?rows = map pr_item_id rows"
    unfolding eq by (auto split: option.split)
  have zs: "set ?zs = set ?rows" "mset ?zs = mset ?rows" by simp_all
  have dist_ids: "distinct (map pr_item_id ?zs)"
    using assms(3) ids zs(2) by (metis mset_eq_imp_distinct_iff mset_map)
  have lookup: "map (\<lambda>p. ids ! (p - 1)) (map pr_position ?zs) = map pr_item_id ?zs"
    using place zs(1) by simp
  have "distinct (map pr_position ?zs)"
    using dist_ids unfolding lookup [symmetric] by (blast dest: distinct_map [THEN iffD1])
  moreover have "sorted (map pr_position ?zs)"
  proof -
    have "sorted (map row_key ?zs)" by simp
    then show ?thesis by (auto simp: sorted_iff_nth_mono row_key_def less_eq_prod_def)
        (metis (no_types, lifting) less_eq_prod_def fst_conv order_le_less)
  qed
  moreover have "set (map pr_position ?zs) = {1..<1 + length ids}"
  proof (rule card_subset_eq)
    show "set (map pr_position ?zs) \<subseteq> {1..<1 + length ids}" using place zs(1) by fastforce
    have "length ?zs = length ids"
      using assms ids by (metis distinct_card length_map length_sort)
    then show "card (set (map pr_position ?zs)) = card {1..<1 + length ids}"
      using calculation(1) by (simp add: distinct_card del: set_map)
  qed simp
  ultimately have "map pr_position ?zs = [1..<1 + length ids]"
    by (intro sorted_distinct_set_unique) (auto simp del: upt_Suc)
  then have "map pr_item_id ?zs = map (\<lambda>p. ids ! (p - 1)) [1..<1 + length ids]" using lookup by metis
  also have "\<dots> = ids" by (rule nth_equalityI) (auto simp del: upt_Suc)
  finally show ?thesis .
qed

lemma set_positions_columns: "map columns (set_positions_from n ids rows) = map columns rows"
proof (induction ids arbitrary: n rows)
  case (Cons i ids)
  have "map columns (set_position i n rows) = map columns rows" by (simp add: set_position_def columns_def)
  then show ?case using Cons by simp
qed simp

lemma mirror_reorder:
  assumes "queue_mirrored L C st" "mset q = mset (sq_queue st)"
  shows "queue_mirrored L C (st\<lparr>sq_queue := q, sq_rows := set_pending_positions (map pi_id q) (sq_rows st)\<rparr>)"
proof -
  have set_eq: "set q = set (sq_queue st)" using assms(2) by (metis set_mset_mset)
  have dist: "distinct (map pi_id q)"
    using assms by (metis queue_mirrored_def mset_eq_imp_distinct_iff mset_map)
  have rows: "distinct (map pr_item_id (sq_rows st))"
  proof -
    have "map pr_item_id (sort_key row_key (sq_rows st)) = map pi_id (sq_queue st)" "distinct (map pi_id (sq_queue st))"
      using assms(1) by (simp_all add: queue_mirrored_def same_order_def)
    then show ?thesis by (metis mset_eq_imp_distinct_iff mset_map mset_sort)
  qed
  have "set (map pr_item_id (sq_rows st)) = set (map pi_id q)"
    using assms(1) same_ids set_eq by (simp add: queue_mirrored_def)
  then have "same_order (st\<lparr>sq_queue := q, sq_rows := set_pending_positions (map pi_id q) (sq_rows st)\<rparr>)"
    using sorted_positions [OF dist _ rows] by (simp add: same_order_def)
  moreover have "columns r = item_columns L C x"
    if "r \<in> set (set_pending_positions (map pi_id q) (sq_rows st))" "x \<in> set q" "pr_item_id r = pi_id x" for r x
  proof -
    have "columns r \<in> set (map columns (set_pending_positions (map pi_id q) (sq_rows st)))" using that(1) by simp
    then have "columns r \<in> set (map columns (sq_rows st))" by (simp only: set_pending_positions_def set_positions_columns)
    then obtain r0 where "r0 \<in> set (sq_rows st)" "columns r = columns r0" by auto
    moreover from this have "pr_item_id r0 = pi_id x" using that(3) by (simp add: columns_def)
    ultimately show ?thesis using assms(1) that(2) set_eq by (simp add: queue_mirrored_def same_content_def)
  qed
  ultimately show ?thesis using assms(1) dist set_eq
    by (simp add: queue_mirrored_def same_content_def list_all_iff)
qed

datatype queue_op =
    QEnqueue "string option" pending_item
  | QDegrade pending_item
  | QUpdate string "pending_kind option" "nat option"
  | QRemove string
  | QPop bool bool

text \<open>The operations while the database works.\<close>

fun apply_queue_op :: "json_lib \<Rightarrow> input_codec \<Rightarrow> session_queues \<Rightarrow> queue_op \<Rightarrow> session_queues" where
  "apply_queue_op L C st (QEnqueue client x) = snd (enqueue_input L C True client x st)"
| "apply_queue_op L C st (QDegrade x) = snd (degrade_steer_to_queue L C True x st)"
| "apply_queue_op L C st (QUpdate i kind position) =
     (case queue_update_memory i kind position st of
        None \<Rightarrow> st
      | Some st' \<Rightarrow> (case queue_update_persist L C True i position st' of None \<Rightarrow> st' | Some st'' \<Rightarrow> st''))"
| "apply_queue_op L C st (QRemove i) = (case queue_remove True i st of None \<Rightarrow> st | Some st' \<Rightarrow> st')"
| "apply_queue_op L C st (QPop require_idle active) = snd (pop_next_queued_turn_input True require_idle active st)"

text \<open>A new item has an identifier of its own, and texts and inputs are queued.\<close>

fun op_fits :: "session_queues \<Rightarrow> queue_op \<Rightarrow> bool" where
  "op_fits st (QEnqueue client x) \<longleftrightarrow> pi_id x \<notin> pi_id ` set (sq_queue st) \<and> drains (pi_kind x)"
| "op_fits st (QDegrade x) \<longleftrightarrow> pi_id x \<notin> pi_id ` set (sq_queue st) \<and> drains (pi_kind x)"
| "op_fits st (QUpdate i kind position) \<longleftrightarrow> (case kind of None \<Rightarrow> True | Some k \<Rightarrow> drains k)"
| "op_fits st _ \<longleftrightarrow> True"

fun ops_fit :: "json_lib \<Rightarrow> input_codec \<Rightarrow> session_queues \<Rightarrow> queue_op list \<Rightarrow> bool" where
  "ops_fit L C st [] \<longleftrightarrow> True"
| "ops_fit L C st (x # xs) \<longleftrightarrow> op_fits st x \<and> ops_fit L C (apply_queue_op L C st x) xs"

lemma mset_move: "mset (insert_at m x (us @ vs)) = mset (us @ x # vs)"
proof -
  have "mset (insert_at m x ys) = add_mset x (mset ys)" for ys
    by (metis append_take_drop_id insert_at_def mset_append mset.simps(2) union_mset_add_mset_right)
  then show ?thesis by simp
qed

lemma mirror_update:
  assumes mir: "queue_mirrored L C st" and fits: "op_fits st (QUpdate i kind position)"
  shows "queue_mirrored L C (apply_queue_op L C st (QUpdate i kind position))"
proof (cases "index_of (\<lambda>x. pi_id x = i) (sq_queue st)")
  case None
  then show ?thesis using mir by (simp add: queue_update_memory_def)
next
  case (Some n)
  obtain us x vs where q: "sq_queue st = us @ x # vs" "n = length us" "pi_id x = i" "\<forall>u\<in>set (us @ vs). pi_id u \<noteq> i"
    using queue_split [OF Some] mir by (auto simp: queue_mirrored_def)
  define y where "y = (case kind of None \<Rightarrow> x | Some k \<Rightarrow> x\<lparr>pi_kind := k\<rparr>)"
  define k where "k = (case kind of None \<Rightarrow> pi_kind x | Some k \<Rightarrow> k)"
  have y: "y = x\<lparr>pi_kind := k\<rparr>" "pi_id y = i" by (cases kind; simp add: y_def k_def q(3))+
  have k: "drains k" using mir fits q(1) by (cases kind) (auto simp: k_def queue_mirrored_def)
  let ?mid = "st\<lparr>sq_queue := us @ y # vs, sq_rows := update_pending_content L C y (sq_rows st)\<rparr>"
  have mid: "queue_mirrored L C ?mid" using mirror_update_content [OF mir q(1) k] by (simp add: y)
  have q1: "(case kind of None \<Rightarrow> sq_queue st | Some k \<Rightarrow> (sq_queue st)[n := (sq_queue st ! n)\<lparr>pi_kind := k\<rparr>]) = us @ y # vs"
    by (cases kind) (simp_all add: q y_def nth_append list_update_append)
  show ?thesis
  proof (cases position)
    case None
    then have "queue_update_memory i kind position st = Some (st\<lparr>sq_queue := us @ y # vs\<rparr>)"
      by (simp add: queue_update_memory_def Some q1 del: append.simps)
    moreover have "find (\<lambda>x. pi_id x = i) (us @ y # vs) = Some y"
      using q(4) y(2) by (induction us) auto
    ultimately have "apply_queue_op L C st (QUpdate i kind position) = ?mid"
      using mir by (simp add: queue_update_persist_def None queue_mirrored_def)
    then show ?thesis using mid by simp
  next
    case (Some p)
    define q2 where "q2 = insert_at (min (p - 1) (length (us @ vs))) y (us @ vs)"
    have "queue_update_memory i kind position st = Some (st\<lparr>sq_queue := q2\<rparr>)"
      using \<open>index_of _ _ = Some n\<close> by (simp add: queue_update_memory_def q1 [unfolded q(2)] q2_def Some q(2) Let_def)
    moreover have q2: "mset q2 = mset (us @ y # vs)" by (simp only: q2_def mset_move)
    moreover have "find (\<lambda>x. pi_id x = i) q2 = Some y"
    proof -
      have set2: "set q2 = set (us @ y # vs)" using q2 by (rule mset_eq_setD)
      then have "find (\<lambda>x. pi_id x = i) q2 \<noteq> None" using y(2) by (auto simp: find_None_iff)
      then obtain z where z: "find (\<lambda>x. pi_id x = i) q2 = Some z" by blast
      then have "z = y" using find_SomeD [OF z] set2 q(4) by auto
      with z show ?thesis by simp
    qed
    ultimately have "apply_queue_op L C st (QUpdate i kind position) =
        ?mid\<lparr>sq_queue := q2, sq_rows := set_pending_positions (map pi_id q2) (sq_rows ?mid)\<rparr>"
      using mir by (simp add: queue_update_persist_def Some queue_mirrored_def)
    then show ?thesis using mirror_reorder [OF mid, of q2] q2 by simp
  qed
qed

lemma mirror_op:
  assumes "queue_mirrored L C st" "op_fits st x"
  shows "queue_mirrored L C (apply_queue_op L C st x)"
proof (cases x)
  case (QEnqueue client y)
  then show ?thesis using assms mirror_push [of L C st y] by (simp add: enqueue_input_def queue_mirrored_def)
next
  case (QDegrade y)
  then show ?thesis using assms mirror_push [of L C st y]
    by (simp add: degrade_steer_to_queue_def queue_mirrored_def Let_def store_turn_row_def)
next
  case (QUpdate i kind position)
  then show ?thesis using mirror_update assms by blast
next
  case (QRemove i)
  show ?thesis
  proof (cases "index_of (\<lambda>x. pi_id x = i) (sq_queue st)")
    case None
    then show ?thesis using assms by (simp add: QRemove queue_remove_def)
  next
    case (Some n)
    obtain us y vs where q: "sq_queue st = us @ y # vs" "n = length us" "pi_id y = i" "\<forall>u\<in>set (us @ vs). pi_id u \<noteq> i"
      using queue_split [OF Some] assms(1) by (auto simp: queue_mirrored_def)
    then show ?thesis using mirror_remove [OF assms(1) q(1)] assms(1) Some
      by (simp add: QRemove queue_remove_def queue_mirrored_def)
  qed
next
  case (QPop require_idle active)
  show ?thesis
  proof (cases "sq_queue st")
    case (Cons y ys)
    then have "\<forall>u\<in>set ([] @ ys). pi_id u \<noteq> pi_id y" using assms(1) by (auto simp: queue_mirrored_def image_iff)
    moreover have "drains (pi_kind y)" using assms(1) Cons by (simp add: queue_mirrored_def)
    ultimately show ?thesis using mirror_remove [OF assms(1), of "[]" y ys] assms(1) Cons
      by (simp add: QPop pop_next_queued_turn_input_def)
  qed (simp add: QPop pop_next_queued_turn_input_def assms(1))
qed

lemma mirror_run:
  "\<lbrakk>queue_mirrored L C st; ops_fit L C st xs\<rbrakk> \<Longrightarrow> queue_mirrored L C (foldl (apply_queue_op L C) st xs)"
  by (induction xs arbitrary: st) (simp_all add: mirror_op)

lemma mirrored_list:
  assumes "queue_mirrored L C st" "list_all (reads_back L C) (sq_queue st)"
  shows "list_pending L C (sq_rows st) = map on_disk (sq_queue st)"
proof -
  let ?zs = "sort_key row_key (sq_rows st)"
  have ids: "map pr_item_id ?zs = map pi_id (sq_queue st)"
    using assms(1) by (simp add: queue_mirrored_def same_order_def)
  have len: "length ?zs = length (sq_queue st)" using ids by (metis length_map)
  have "pending_input_from_row L C (?zs ! n) = on_disk (sq_queue st ! n)" if "n < length (sq_queue st)" for n
  proof -
    have "?zs ! n \<in> set (sq_rows st)" using that len by (metis nth_mem set_sort)
    moreover have "pr_item_id (?zs ! n) = pi_id (sq_queue st ! n)" using ids that len by (metis nth_map)
    ultimately have "columns (?zs ! n) = columns (row_of L C 0 0 (sq_queue st ! n))"
      using assms(1) that by (simp add: queue_mirrored_def same_content_def)
    then have "pending_input_from_row L C (?zs ! n) = pending_input_from_row L C (row_of L C 0 0 (sq_queue st ! n))"
      by (rule from_row_columns)
    then show ?thesis using assms(2) that by (simp add: list_all_length reads_back_def)
  qed
  then show ?thesis using len by (simp add: list_pending_def list_eq_iff_nth_eq)
qed

definition empty_queues :: session_queues where
  "empty_queues = \<lparr>sq_queue = [], sq_steer = [], sq_rows = [], sq_steer_rows = [], sq_counter = 0, sq_ephemeral = False\<rparr>"


section \<open>No accepted input is lost\<close>

datatype session_op =
    SQueue queue_op
  | SSteer pending_item
  | STakeSteers
  | SEndTurn
  | SClearSteers

fun apply_session_op :: "json_lib \<Rightarrow> input_codec \<Rightarrow> session_queues \<Rightarrow> session_op \<Rightarrow> session_queues" where
  "apply_session_op L C st (SQueue x) = apply_queue_op L C st x"
| "apply_session_op L C st (SSteer x) = snd (inject_steer L C True x st)"
| "apply_session_op L C st STakeSteers = snd (drain_steer_input_queue st)"
| "apply_session_op L C st SEndTurn = end_turn_queues st"
| "apply_session_op L C st SClearSteers = clear_steer_input_queue L C st"

definition known_ids :: "session_queues \<Rightarrow> string set" where
  "known_ids st = pi_id ` set (sq_queue st) \<union> pi_id ` set (sq_steer st) \<union> pr_item_id ` set (sq_rows st) \<union>
     pr_item_id ` set (sq_steer_rows st)"

fun session_op_fits :: "session_queues \<Rightarrow> session_op \<Rightarrow> bool" where
  "session_op_fits st (SQueue (QEnqueue client x)) \<longleftrightarrow> pi_id x \<notin> known_ids st \<and> drains (pi_kind x)"
| "session_op_fits st (SQueue (QDegrade x)) \<longleftrightarrow> pi_id x \<notin> known_ids st \<and> drains (pi_kind x)"
| "session_op_fits st (SQueue (QUpdate i kind position)) \<longleftrightarrow> (case kind of None \<Rightarrow> True | Some k \<Rightarrow> drains k)"
| "session_op_fits st (SSteer x) \<longleftrightarrow> pi_id x \<notin> known_ids st \<and> drains (pi_kind x)"
| "session_op_fits st _ \<longleftrightarrow> True"

fun session_ops_fit :: "json_lib \<Rightarrow> input_codec \<Rightarrow> session_queues \<Rightarrow> session_op list \<Rightarrow> bool" where
  "session_ops_fit L C st [] \<longleftrightarrow> True"
| "session_ops_fit L C st (x # xs) \<longleftrightarrow> session_op_fits st x \<and> session_ops_fit L C (apply_session_op L C st x) xs"

text \<open>
  Every queued item has a row, in the turn rows or still in the steer rows, every steer has a steer
  row, and no identifier has two rows.
\<close>

definition inputs_kept :: "session_queues \<Rightarrow> bool" where
  "inputs_kept st \<longleftrightarrow>
     distinct (map pi_id (sq_queue st @ sq_steer st)) \<and> distinct (map pr_item_id (sq_rows st @ sq_steer_rows st)) \<and>
     pr_item_id ` set (sq_rows st) \<subseteq> pi_id ` set (sq_queue st) \<and>
     pi_id ` set (sq_queue st) \<subseteq> pr_item_id ` set (sq_rows st) \<union> pr_item_id ` set (sq_steer_rows st) \<and>
     pi_id ` set (sq_steer st) \<subseteq> pr_item_id ` set (sq_steer_rows st) \<and>
     list_all (drains \<circ> pi_kind) (sq_queue st @ sq_steer st) \<and> \<not> sq_ephemeral st"

lemma inputs_keptI:
  "\<lbrakk>distinct (map pi_id (sq_queue st @ sq_steer st)); distinct (map pr_item_id (sq_rows st @ sq_steer_rows st));
    pr_item_id ` set (sq_rows st) \<subseteq> pi_id ` set (sq_queue st);
    pi_id ` set (sq_queue st) \<subseteq> pr_item_id ` set (sq_rows st) \<union> pr_item_id ` set (sq_steer_rows st);
    pi_id ` set (sq_steer st) \<subseteq> pr_item_id ` set (sq_steer_rows st);
    list_all (drains \<circ> pi_kind) (sq_queue st @ sq_steer st); \<not> sq_ephemeral st\<rbrakk> \<Longrightarrow> inputs_kept st"
  by (simp add: inputs_kept_def)

lemma update_memory_shape:
  assumes "queue_update_memory i kind position st = Some st'" "op_fits st (QUpdate i kind position)"
    and "list_all (drains \<circ> pi_kind) (sq_queue st)"
  shows "\<exists>q. st' = st\<lparr>sq_queue := q\<rparr> \<and> mset (map pi_id q) = mset (map pi_id (sq_queue st)) \<and> list_all (drains \<circ> pi_kind) q"
proof -
  obtain n where n: "index_of (\<lambda>x. pi_id x = i) (sq_queue st) = Some n"
    using assms(1) by (auto simp: queue_update_memory_def split: option.splits)
  from index_of_Some [OF n] obtain us x vs where q: "sq_queue st = us @ x # vs" "length us = n" by blast
  define y where "y = (case kind of None \<Rightarrow> x | Some k \<Rightarrow> x\<lparr>pi_kind := k\<rparr>)"
  have q1: "(case kind of None \<Rightarrow> sq_queue st | Some k \<Rightarrow> (sq_queue st)[n := (sq_queue st ! n)\<lparr>pi_kind := k\<rparr>]) = us @ y # vs"
    using q by (cases kind) (auto simp: y_def nth_append list_update_append)
  have y: "pi_id y = pi_id x" "drains (pi_kind y)"
    using assms(2,3) q(1) by (cases kind; simp add: y_def)+
  show ?thesis
  proof (cases position)
    case None
    then show ?thesis using assms(1,3) n q y by (auto simp: queue_update_memory_def q1 intro!: exI [of _ "us @ y # vs"])
  next
    case (Some p)
    define q2 where "q2 = insert_at (min (p - 1) (length (us @ vs))) y (us @ vs)"
    have st': "st' = st\<lparr>sq_queue := q2\<rparr>"
      using assms(1) n q(2) [symmetric] by (simp add: queue_update_memory_def q1 [unfolded q(2) [symmetric]] q2_def Some Let_def)
    have m: "mset q2 = mset (us @ y # vs)" by (simp only: q2_def mset_move)
    then have "set q2 = set (us @ y # vs)" by (rule mset_eq_setD)
    then have "list_all (drains \<circ> pi_kind) q2" using assms(3) q(1) y(2) by (auto simp: list_all_iff)
    then show ?thesis using st' m y(1) q(1) by (intro exI [of _ q2]) simp
  qed
qed

lemma set_positions_ids [simp]: "map pr_item_id (set_pending_positions ids rows) = map pr_item_id rows"
  unfolding set_pending_positions_def using arg_cong [OF set_positions_columns [of 1 ids rows], of "map fst"]
  by (simp add: columns_def comp_def)

lemma update_persist_shape:
  assumes "queue_update_persist L C True i position st = Some st'"
  shows "\<exists>rows. st' = st\<lparr>sq_rows := rows\<rparr> \<and> map pr_item_id rows = map pr_item_id (sq_rows st)"
proof (cases "sq_ephemeral st")
  case True
  then show ?thesis using assms by (intro exI [of _ "sq_rows st"]) (simp add: queue_update_persist_def)
next
  case False
  then show ?thesis using assms by (cases position) (auto simp: queue_update_persist_def Let_def split: option.splits)
qed

lemma kept_permuted:
  assumes "inputs_kept st" "mset (map pi_id q) = mset (map pi_id (sq_queue st))" "list_all (drains \<circ> pi_kind) q"
    and "map pr_item_id rows = map pr_item_id (sq_rows st)"
  shows "inputs_kept (st\<lparr>sq_queue := q, sq_rows := rows\<rparr>)"
proof -
  have "mset (map pi_id (q @ sq_steer st)) = mset (map pi_id (sq_queue st @ sq_steer st))" using assms(2) by simp
  then have "distinct (map pi_id (q @ sq_steer st)) = distinct (map pi_id (sq_queue st @ sq_steer st))"
    by (rule mset_eq_imp_distinct_iff)
  moreover have "pi_id ` set q = pi_id ` set (sq_queue st)" using mset_eq_setD [OF assms(2)] by simp
  moreover have "pr_item_id ` set rows = pr_item_id ` set (sq_rows st)" using arg_cong [OF assms(4), of set] by simp
  ultimately show ?thesis using assms(1,3,4) by (simp add: inputs_kept_def)
qed

lemma push_ids [simp]: "map pr_item_id (push_pending L C r x rows) = map pr_item_id rows @ [pi_id x]"
  by (simp add: push_pending_def)

lemma push_ids_set [simp]: "pr_item_id ` set (push_pending L C r x rows) = insert (pi_id x) (pr_item_id ` set rows)"
  by (simp add: push_pending_def)

lemma kept_push:
  assumes "inputs_kept st" "pi_id x \<notin> known_ids st" "drains (pi_kind x)"
  shows "inputs_kept ((store_turn_row L C x st)\<lparr>sq_queue := sq_queue st @ [x]\<rparr>)"
  using assms by (auto simp: inputs_kept_def known_ids_def store_turn_row_def)

lemma remove_ids [simp]:
  "pr_item_id ` set (remove_pending_by_id i rows) = pr_item_id ` set rows - {i}"
  "map pr_item_id (remove_pending_by_id i rows) = filter (\<lambda>j. j \<noteq> i) (map pr_item_id rows)"
  by (auto simp: remove_pending_by_id_def filter_map comp_def)

lemma kept_without:
  assumes "inputs_kept st" "sq_queue st = us @ x # vs"
  shows "inputs_kept (st\<lparr>sq_queue := us @ vs, sq_rows := remove_pending_by_id (pi_id x) (sq_rows st)\<rparr>)"
proof -
  have dist: "distinct (map pi_id ((us @ x # vs) @ sq_steer st))" using assms by (simp add: inputs_kept_def)
  then have fresh: "pi_id x \<notin> pi_id ` set us" "pi_id x \<notin> pi_id ` set vs" and dist': "distinct (map pi_id ((us @ vs) @ sq_steer st))"
    by simp_all
  have ids: "pi_id ` set (us @ vs) = pi_id ` set (sq_queue st) - {pi_id x}"
    using fresh by (simp add: assms(2) image_Un)
  have rows: "distinct (map pr_item_id (remove_pending_by_id (pi_id x) (sq_rows st) @ sq_steer_rows st))"
    using assms(1) unfolding map_append remove_ids(2) by (auto simp: inputs_kept_def distinct_filter)
  have fits: "list_all (drains \<circ> pi_kind) ((us @ vs) @ sq_steer st)" using assms by (simp add: inputs_kept_def)
  have subset: "pr_item_id ` set (sq_rows st) \<subseteq> pi_id ` set (sq_queue st)"
    "pi_id ` set (sq_queue st) \<subseteq> pr_item_id ` set (sq_rows st) \<union> pr_item_id ` set (sq_steer_rows st)"
    "pi_id ` set (sq_steer st) \<subseteq> pr_item_id ` set (sq_steer_rows st)" "\<not> sq_ephemeral st"
    using assms(1) by (simp_all add: inputs_kept_def)
  let ?st = "st\<lparr>sq_queue := us @ vs, sq_rows := remove_pending_by_id (pi_id x) (sq_rows st)\<rparr>"
  have queue: "pi_id ` set (sq_queue ?st) = pi_id ` set (sq_queue st) - {pi_id x}" using ids by simp
  have kept_rows: "pr_item_id ` set (sq_rows ?st) = pr_item_id ` set (sq_rows st) - {pi_id x}" by simp
  show ?thesis
  proof (rule inputs_keptI)
    show "pr_item_id ` set (sq_rows ?st) \<subseteq> pi_id ` set (sq_queue ?st)"
      using subset unfolding queue kept_rows by blast
    show "pi_id ` set (sq_queue ?st) \<subseteq> pr_item_id ` set (sq_rows ?st) \<union> pr_item_id ` set (sq_steer_rows ?st)"
      using subset unfolding queue kept_rows by auto
  qed (use dist' rows fits subset in simp_all)
qed

lemma move_steer_rows_shape:
  "sq_queue (move_steer_rows L C xs st) = sq_queue st \<and> sq_steer (move_steer_rows L C xs st) = sq_steer st \<and>
   sq_steer_rows (move_steer_rows L C xs st) = sq_steer_rows st \<and>
   sq_ephemeral (move_steer_rows L C xs st) = sq_ephemeral st \<and>
   map pr_item_id (sq_rows (move_steer_rows L C xs st)) =
     map pr_item_id (sq_rows st) @ filter (\<lambda>i. i \<in> pi_id ` set (sq_queue st)) (map pi_id xs)"
  by (induction xs arbitrary: st) (simp_all add: store_turn_row_def)

lemma restore_steers_shape:
  "sq_queue (restore_steers L C k xs st) = sq_queue st @ filter (\<lambda>x. \<not> steer_already_materialized k x) xs"
  by (induction xs arbitrary: st) (simp_all add: store_turn_row_def)

lemma from_row_id [simp]: "pi_id (pending_input_from_row L C r) = pr_item_id r"
  by (simp add: pending_input_from_row_def)

lemma list_pending_ids: "set (map pi_id (list_pending L C rows)) = pr_item_id ` set rows"
  by (simp add: list_pending_def image_image)

lemma list_pending_distinct: "distinct (map pr_item_id rows) \<Longrightarrow> distinct (map pi_id (list_pending L C rows))"
proof -
  assume "distinct (map pr_item_id rows)"
  then have "distinct (map pr_item_id (sort_key row_key rows))"
    by (metis mset_eq_imp_distinct_iff mset_map mset_sort)
  then show ?thesis by (simp add: list_pending_def comp_def)
qed

lemma kept_clear:
  assumes "inputs_kept st"
  shows "inputs_kept (clear_steer_input_queue L C st)"
proof -
  let ?xs = "list_pending L C (sq_steer_rows st)"
  let ?st1 = "(end_turn_queues st)\<lparr>sq_steer_rows := []\<rparr>"
  let ?st2 = "move_steer_rows L C ?xs ?st1"
  have st2: "clear_steer_input_queue L C st = ?st2"
    using assms by (simp add: clear_steer_input_queue_def end_turn_queues_def drain_pending_def inputs_kept_def)
  have shape: "sq_queue ?st2 = sq_queue st @ sq_steer st" "sq_steer ?st2 = []" "sq_steer_rows ?st2 = []"
    "map pr_item_id (sq_rows ?st2) =
       map pr_item_id (sq_rows st) @ filter (\<lambda>i. i \<in> pi_id ` set (sq_queue st @ sq_steer st)) (map pi_id ?xs)"
    using move_steer_rows_shape [of L C ?xs ?st1] by (simp_all add: end_turn_queues_def)
  have steer_rows: "distinct (map pi_id ?xs)" "pi_id ` set ?xs = pr_item_id ` set (sq_steer_rows st)"
    using list_pending_distinct [of "sq_steer_rows st"] list_pending_ids [of L C "sq_steer_rows st"] assms
    by (simp_all add: inputs_kept_def)
  have set_rows: "pr_item_id ` set (sq_rows ?st2) =
      pr_item_id ` set (sq_rows st) \<union> (pi_id ` set ?xs \<inter> pi_id ` set (sq_queue st @ sq_steer st))"
    using arg_cong [OF shape(4), of set] by auto
  have "distinct (map pr_item_id (sq_rows ?st2))"
    unfolding shape(4) using steer_rows assms by (auto simp: inputs_kept_def)
  moreover have "sq_ephemeral ?st2 = False"
    using move_steer_rows_shape [of L C ?xs ?st1] assms by (simp add: end_turn_queues_def inputs_kept_def)
  ultimately show ?thesis
    using assms shape(1-3) set_rows steer_rows(2) unfolding st2
    by (auto simp: inputs_kept_def)
qed

lemma kept_op:
  assumes "inputs_kept st" "session_op_fits st x"
  shows "inputs_kept (apply_session_op L C st x)"
proof (cases x)
  case (SSteer y)
  then show ?thesis using assms
    by (auto simp: inject_steer_def Let_def store_steer_row_def inputs_kept_def known_ids_def)
next
  case STakeSteers
  then show ?thesis using assms by (simp add: drain_steer_input_queue_def inputs_kept_def)
next
  case SEndTurn
  then show ?thesis using assms by (auto simp: end_turn_queues_def inputs_kept_def)
next
  case SClearSteers
  then show ?thesis using assms kept_clear by simp
next
  case (SQueue op)
  have not_ephemeral: "\<not> sq_ephemeral st" and drains: "list_all (drains \<circ> pi_kind) (sq_queue st)"
    using assms(1) by (simp_all add: inputs_kept_def)
  show ?thesis
  proof (cases op)
    case (QEnqueue client y)
    then show ?thesis using assms kept_push [of st y] not_ephemeral by (simp add: SQueue enqueue_input_def)
  next
    case (QDegrade y)
    then show ?thesis using assms kept_push [of st y] not_ephemeral
      by (simp add: SQueue degrade_steer_to_queue_def Let_def store_turn_row_def)
  next
    case (QUpdate i kind position)
    show ?thesis
    proof (cases "queue_update_memory i kind position st")
      case None
      then show ?thesis using assms by (simp add: SQueue QUpdate)
    next
      case (Some st')
      then obtain q where q: "st' = st\<lparr>sq_queue := q\<rparr>" "mset (map pi_id q) = mset (map pi_id (sq_queue st))"
        "list_all (drains \<circ> pi_kind) q"
        using update_memory_shape [OF Some _ drains] assms(2) by (auto simp: SQueue QUpdate)
      then have mid: "inputs_kept st'" using kept_permuted [OF assms(1) q(2,3) refl] by simp
      show ?thesis
      proof (cases "queue_update_persist L C True i position st'")
        case None
        then show ?thesis using mid Some by (simp add: SQueue QUpdate)
      next
        case (Some st'')
        then obtain rows where "st'' = st'\<lparr>sq_rows := rows\<rparr>" "map pr_item_id rows = map pr_item_id (sq_rows st)"
          using update_persist_shape [OF Some] q(1) by auto
        then show ?thesis using kept_permuted [OF assms(1) q(2,3)] q(1) Some \<open>queue_update_memory _ _ _ _ = _\<close>
          by (simp add: SQueue QUpdate)
      qed
    qed
  next
    case (QRemove i)
    show ?thesis
    proof (cases "index_of (\<lambda>x. pi_id x = i) (sq_queue st)")
      case None
      then show ?thesis using assms by (simp add: SQueue QRemove queue_remove_def)
    next
      case (Some n)
      from index_of_Some [OF Some] obtain us y vs where "sq_queue st = us @ y # vs" "length us = n" "pi_id y = i" by blast
      then show ?thesis using kept_without [OF assms(1), of us y vs] Some not_ephemeral
        by (auto simp: SQueue QRemove queue_remove_def)
    qed
  next
    case (QPop require_idle active)
    show ?thesis
    proof (cases "sq_queue st")
      case (Cons y ys)
      then show ?thesis using kept_without [OF assms(1), of "[]" y ys] assms(1) drains
        by (auto simp: SQueue QPop pop_next_queued_turn_input_def)
    qed (use assms in \<open>simp add: SQueue QPop pop_next_queued_turn_input_def\<close>)
  qed
qed

lemma kept_run:
  "\<lbrakk>inputs_kept st; session_ops_fit L C st xs\<rbrakk> \<Longrightarrow> inputs_kept (foldl (apply_session_op L C) st xs)"
  by (induction xs arbitrary: st) (simp_all add: kept_op)


section \<open>Witnesses and gaps\<close>

definition plain_item :: "string \<Rightarrow> string \<Rightarrow> pending_item" where
  "plain_item i t = \<lparr>pi_id = i, pi_kind = PendText t, pi_metadata = None, pi_created = 0\<rparr>"

definition sample_ops :: "queue_op list" where
  "sample_ops =
     [QEnqueue None (plain_item ''a'' ''one''), QEnqueue None (plain_item ''b'' ''two''),
      QEnqueue None (plain_item ''c'' ''three''), QUpdate ''c'' (Some (PendText ''first'')) (Some 1), QPop False True,
      QRemove ''a'']"

lemmas queue_step_defs = enqueue_input_def store_turn_row_def push_pending_def row_of_def pending_kind_parts_def
  queue_update_memory_def queue_update_persist_def update_pending_content_def set_pending_positions_def set_position_def
  insert_at_def pop_next_queued_turn_input_def remove_pending_by_id_def queue_remove_def inject_steer_def
  store_steer_row_def end_turn_queues_def clear_steer_input_queue_def drain_pending_def list_pending_def
  pending_input_from_row_def pending_kind_from_row_def row_key_def empty_queues_def plain_item_def Let_def


definition sample_session_ops :: "session_op list" where
  "sample_session_ops =
     [SQueue (QEnqueue None (plain_item ''a'' ''one'')), SSteer (plain_item ''s'' ''also''), SEndTurn, SClearSteers]"


text \<open>
  Between the change in memory and the mirror of an update the item may be drained: the second
  look into the queue then panics.
\<close>

lemma update_panics_after_drain:
  assumes "queue_update_memory ''a'' None (Some 1) st = Some st'" "sq_queue st' = [plain_item ''a'' ''one'']" "\<not> sq_ephemeral st'"
  shows "queue_update_persist L C db_ok ''a'' (Some 1) (snd (pop_next_queued_turn_input True False True st')) = None"
  using assms(2,3) by (simp add: pop_next_queued_turn_input_def queue_update_persist_def plain_item_def)

text \<open>
  An input that is queued between the end of a turn and the move of its steer rows is before the
  steers in the database and behind them in memory.
\<close>

lemma late_steer_changes_order:
  "let st = foldl (apply_session_op L C) empty_queues
       [SSteer (plain_item ''s'' ''also''), SEndTurn, SQueue (QEnqueue None (plain_item ''a'' ''one'')), SClearSteers]
   in map pi_id (sq_queue st) = [''s'', ''a''] \<and>
      map pi_id (sq_queue (restore_queues L C keys st)) = [''a'', ''s'']"
  by (simp add: queue_step_defs restore_queues_def)

text \<open>Rows that are not listed do not move behind the listed ones.\<close>

lemma unlisted_rows_stay_in_front:
  "map pi_id (list_pending L C (set_pending_positions [''b'', ''c'']
     (push_pending L C 3 (plain_item ''c'' ''3'') (push_pending L C 2 (plain_item ''b'' ''2'')
       (push_pending L C 1 (plain_item ''a'' ''1'') []))))) = [''a'', ''b'', ''c'']"
  by (simp add: queue_step_defs)

text \<open>
  A steer whose text is the first line of an earlier steer in the history is dropped on restart
  although its own client identifier is not there.
\<close>

lemma steer_with_known_text_is_dropped:
  "sq_queue (restore_queues L C \<lparr>sk_texts = [''continue''], sk_ids = [''m1'']\<rparr>
     (apply_session_op L C empty_queues
        (SSteer ((plain_item ''s'' ''continue'')\<lparr>pi_metadata := Some (JObj [(''clientUserMessageId'', JStr ''m2'')])\<rparr>)))) = []"
  by (simp add: queue_step_defs restore_queues_def steer_already_materialized_def)

end
