(* ===== verification/Schedule_Dispatch.thy ===== *)
theory Schedule_Dispatch
  imports Schedule_Store Turn_Queue
begin

text \<open>
  The wake loop of the scheduler (\<open>server/src/runtime/handlers/schedule.rs\<close>): a pass claims the
  jobs that are due and takes every pending occurrence of the outbox to its session.

  What a pass sees of a session and how the session answers to a delivery is a parameter, the
  view of the occurrence; a failure to read or write the files of the store ends a pass and is
  outside the model.
\<close>

section \<open>One occurrence\<close>

datatype load_result = Loaded | SessionGone | LoadFailed

text \<open>
  The identifiers of the user messages in the history, whether the actor answered, the queues in
  memory and in the database, the active turn and its texts, and the answers of the handlers;
  what could not be read is \<open>None\<close>.
\<close>

record occurrence_view =
  ov_load :: load_result
  ov_history :: "string list option"
  ov_reserved :: bool
  ov_queue :: "pending_item list"
  ov_steer :: "pending_item list"
  ov_turn_rows :: "pending_item list option"
  ov_steer_rows :: "pending_item list option"
  ov_active :: "string option"
  ov_texts :: "string list"
  ov_steered :: steer_outcome
  ov_pushed :: bool
  ov_now :: time

definition second :: time where
  "second = 1000000000"

definition occurrence_prompt :: "occurrence \<Rightarrow> string" where
  "occurrence_prompt x =
     (case sj_prompt (oc_job x) of
        Some p \<Rightarrow> p
      | None \<Rightarrow> (case sj_instruction (oc_job x) of Some p \<Rightarrow> p | None \<Rightarrow> ''Scheduled heartbeat.''))"

definition occurrence_materialized :: "string \<Rightarrow> occurrence_view \<Rightarrow> bool option" where
  "occurrence_materialized i v = map_option (\<lambda>ids. i \<in> set ids) (ov_history v)"

definition carries :: "string \<Rightarrow> pending_item list \<Rightarrow> bool" where
  "carries i q = list_ex (\<lambda>x. pending_client_user_message_id x = Some i) q"

definition occurrence_pending :: "string \<Rightarrow> occurrence_view \<Rightarrow> bool option" where
  "occurrence_pending i v =
     (if carries i (ov_queue v) \<or> carries i (ov_steer v) then Some True
      else case ov_turn_rows v of
             None \<Rightarrow> None
           | Some rows \<Rightarrow> (if carries i rows then Some True else map_option (carries i) (ov_steer_rows v)))"

definition prompt_known :: "string \<Rightarrow> occurrence_view \<Rightarrow> bool" where
  "prompt_known p v \<longleftrightarrow>
     (ov_active v \<noteq> None \<and> p \<in> set (ov_texts v)) \<or>
     list_ex (\<lambda>x. pending_input_preview_text (pi_kind x) = Some p) (ov_queue v @ ov_steer v)"

datatype dispatch_outcome =
    Discarded
  | Retired
  | RetryLater
  | Unreadable
  | AlreadyMaterialized
  | AwaitingQueue
  | AwaitingTurn
  | Coalesced
  | NotHeld
  | Delivered

definition retry_schedule_occurrence :: "string \<Rightarrow> time \<Rightarrow> schedule_store \<Rightarrow> schedule_store" where
  "retry_schedule_occurrence i now st = snd (retry_occurrence i (now + 15 * second) st)"

definition retry_unless_inflight :: "string \<Rightarrow> time \<Rightarrow> schedule_store \<Rightarrow> schedule_store" where
  "retry_unless_inflight i now st = (if ss_inflight st i = None then retry_schedule_occurrence i now st else st)"

text \<open>The delivery: a follow-up is queued, a steer goes to the active turn and falls back to the queue.\<close>

definition delivery_accepted :: "delivery_mode \<Rightarrow> occurrence_view \<Rightarrow> bool" where
  "delivery_accepted mode v =
     (case mode of
        DeliverFollowUp \<Rightarrow> ov_pushed v
      | DeliverSteer \<Rightarrow>
          (case ov_active v of
             None \<Rightarrow> ov_pushed v
           | Some t \<Rightarrow>
               (if ov_steered v \<in> {SteerNotSteerable, SteerMismatch} then ov_pushed v
                else ov_steered v \<in> {SteerInjected, SteerDegraded})))"

definition deliver_occurrence :: "occurrence_view \<Rightarrow> occurrence \<Rightarrow> schedule_store \<Rightarrow> dispatch_outcome \<times> schedule_store" where
  "deliver_occurrence v x st =
     (case try_reserve (oc_id x) (ov_now v) st of
        (False, _) \<Rightarrow> (AwaitingTurn, st)
      | (True, st1) \<Rightarrow>
          (case mark_delivery_attempted (oc_id x) (ov_now v) st1 of
             (False, _) \<Rightarrow> (NotHeld, clear_inflight (oc_id x) st1)
           | (True, st2) \<Rightarrow>
               (if delivery_accepted (sj_delivery (oc_job x)) v then (Delivered, st2)
                else (RetryLater, retry_schedule_occurrence (oc_id x) (ov_now v) st2))))"

definition dispatch_reachable :: "occurrence_view \<Rightarrow> occurrence \<Rightarrow> schedule_store \<Rightarrow> dispatch_outcome \<times> schedule_store" where
  "dispatch_reachable v x st =
     (let i = oc_id x;
          stale = (case ss_inflight st i of None \<Rightarrow> True | Some t \<Rightarrow> ov_active v = None \<and> 30 * second \<le> ov_now v - t)
      in if \<not> stale then (AwaitingTurn, st)
         else (let st1 = clear_inflight i st in
               if prompt_known (occurrence_prompt x) v then
                 (if oc_attempted x \<noteq> None then (AwaitingTurn, mark_inflight i (ov_now v) st1)
                  else (Coalesced, snd (acknowledge_occurrence i st1)))
               else deliver_occurrence v x st1))"

definition dispatch_occurrence :: "occurrence_view \<Rightarrow> occurrence \<Rightarrow> schedule_store \<Rightarrow> dispatch_outcome \<times> schedule_store" where
  "dispatch_occurrence v x st =
     (let i = oc_id x in
      if \<not> (case get_job (sj_id (oc_job x)) (ss_jobs st) of None \<Rightarrow> False | Some j \<Rightarrow> sj_status j = JobActive) then
        (Discarded, snd (acknowledge_occurrence i st))
      else case ov_load v of
        SessionGone \<Rightarrow>
          (Retired, snd (acknowledge_occurrence i
             (st\<lparr>ss_jobs := snd (delete_job (ov_now v) (sj_id (oc_job x)) (ss_jobs st))\<rparr>)))
      | LoadFailed \<Rightarrow> (RetryLater, retry_schedule_occurrence i (ov_now v) st)
      | Loaded \<Rightarrow>
          (case occurrence_materialized i v of
             None \<Rightarrow> (Unreadable, retry_unless_inflight i (ov_now v) st)
           | Some True \<Rightarrow> (AlreadyMaterialized, snd (acknowledge_occurrence i st))
           | Some False \<Rightarrow>
               (if \<not> ov_reserved v then (RetryLater, retry_schedule_occurrence i (ov_now v) st)
                else case occurrence_pending i v of
                       None \<Rightarrow> (Unreadable, retry_unless_inflight i (ov_now v) st)
                     | Some True \<Rightarrow>
                         (AwaitingQueue, snd (mark_delivery_attempted i (ov_now v) (mark_inflight i (ov_now v) st)))
                     | Some False \<Rightarrow> dispatch_reachable v x st)))"

section \<open>A pass\<close>

fun dispatch_all :: "(string \<Rightarrow> occurrence_view) \<Rightarrow> occurrence list \<Rightarrow> schedule_store \<Rightarrow>
    (string \<times> dispatch_outcome) list \<times> schedule_store" where
  "dispatch_all V [] st = ([], st)"
| "dispatch_all V (x # xs) st =
     (case dispatch_occurrence (V (oc_id x)) x st of (out, st1) \<Rightarrow>
        (case dispatch_all V xs st1 of (outs, st2) \<Rightarrow> ((oc_id x, out) # outs, st2)))"

definition dispatch_due_schedule_jobs :: "time \<Rightarrow> time \<Rightarrow> (string \<Rightarrow> occurrence_view) \<Rightarrow> schedule_store \<Rightarrow>
    (string \<times> dispatch_outcome) list \<times> schedule_store" where
  "dispatch_due_schedule_jobs tmax now V st =
     (let st1 = claim_due_with_outbox tmax now False st in dispatch_all V (pending_occurrences now st1) st1)"

definition delivered_ids :: "(string \<times> dispatch_outcome) list \<Rightarrow> string list" where
  "delivered_ids outs = map fst (filter (\<lambda>(i, out). out = Delivered) outs)"

section \<open>When an occurrence is delivered and when it is dropped\<close>

text \<open>The session already holds the message: it must not be sent again.\<close>

definition session_items :: "occurrence_view \<Rightarrow> pending_item list" where
  "session_items v =
     ov_queue v @ ov_steer v @ concat (List.map_filter id [ov_turn_rows v, ov_steer_rows v])"

definition session_holds :: "occurrence \<Rightarrow> occurrence_view \<Rightarrow> bool" where
  "session_holds x v \<longleftrightarrow>
     (case ov_history v of None \<Rightarrow> False | Some ids \<Rightarrow> oc_id x \<in> set ids) \<or>
     (\<exists>y\<in>set (session_items v). pending_client_user_message_id y = Some (oc_id x)) \<or>
     prompt_known (occurrence_prompt x) v"

lemma held_is_known:
  "session_holds x v \<Longrightarrow> occurrence_materialized (oc_id x) v = Some True \<or> occurrence_pending (oc_id x) v \<noteq> Some False \<or>
     prompt_known (occurrence_prompt x) v"
  by (cases "ov_history v"; cases "ov_turn_rows v"; cases "ov_steer_rows v")
    (auto simp: session_holds_def session_items_def occurrence_materialized_def occurrence_pending_def carries_def
      List.map_filter_def list_ex_iff split: if_splits)

definition job_active :: "occurrence \<Rightarrow> schedule_store \<Rightarrow> bool" where
  "job_active x st \<longleftrightarrow>
     (case get_job (sj_id (oc_job x)) (ss_jobs st) of None \<Rightarrow> False | Some j \<Rightarrow> sj_status j = JobActive)"

definition inflight_stale :: "occurrence \<Rightarrow> occurrence_view \<Rightarrow> schedule_store \<Rightarrow> bool" where
  "inflight_stale x v st \<longleftrightarrow>
     (case ss_inflight st (oc_id x) of None \<Rightarrow> True | Some t \<Rightarrow> ov_active v = None \<and> 30 * second \<le> ov_now v - t)"

definition held_ids :: "schedule_store \<Rightarrow> string set" where
  "held_ids st = oc_id ` set (ss_outbox st)"

lemmas dispatch_defs = dispatch_occurrence_def dispatch_reachable_def deliver_occurrence_def Let_def

lemma reserve_cleared [simp]:
  "try_reserve i t (clear_inflight i st) = (True, st\<lparr>ss_inflight := (ss_inflight st)(i \<mapsto> t)\<rparr>)"
  by (simp add: try_reserve_def clear_inflight_def)

lemma attempted_held:
  "fst (mark_delivery_attempted i t st) \<longleftrightarrow> i \<in> held_ids st"
  by (simp add: mark_delivery_attempted_def held_ids_def holds_id)

lemma deliver_outcome:
  "fst (deliver_occurrence v x (clear_inflight (oc_id x) st)) =
     (if oc_id x \<notin> held_ids st then NotHeld
      else if delivery_accepted (sj_delivery (oc_job x)) v then Delivered else RetryLater)"
  using attempted_held [of "oc_id x" "ov_now v" "st\<lparr>ss_inflight := (ss_inflight st)(oc_id x \<mapsto> ov_now v)\<rparr>"]
  by (auto simp: deliver_occurrence_def held_ids_def split: prod.splits bool.splits)

lemma reachable_delivered:
  "fst (dispatch_reachable v x st) = Delivered \<longleftrightarrow>
     inflight_stale x v st \<and> \<not> prompt_known (occurrence_prompt x) v \<and> oc_id x \<in> held_ids st \<and>
     delivery_accepted (sj_delivery (oc_job x)) v"
  using deliver_outcome [of v x st]
  by (cases "inflight_stale x v st"; cases "prompt_known (occurrence_prompt x) v"; cases "oc_attempted x")
    (simp_all add: dispatch_reachable_def inflight_stale_def Let_def)

lemma dispatch_cases:
  "dispatch_occurrence v x st =
     (if \<not> job_active x st then (Discarded, snd (acknowledge_occurrence (oc_id x) st))
      else case ov_load v of
        SessionGone \<Rightarrow> (Retired, snd (acknowledge_occurrence (oc_id x)
             (st\<lparr>ss_jobs := snd (delete_job (ov_now v) (sj_id (oc_job x)) (ss_jobs st))\<rparr>)))
      | LoadFailed \<Rightarrow> (RetryLater, retry_schedule_occurrence (oc_id x) (ov_now v) st)
      | Loaded \<Rightarrow>
          (if occurrence_materialized (oc_id x) v = None then (Unreadable, retry_unless_inflight (oc_id x) (ov_now v) st)
           else if occurrence_materialized (oc_id x) v = Some True then (AlreadyMaterialized, snd (acknowledge_occurrence (oc_id x) st))
           else if \<not> ov_reserved v then (RetryLater, retry_schedule_occurrence (oc_id x) (ov_now v) st)
           else if occurrence_pending (oc_id x) v = None then (Unreadable, retry_unless_inflight (oc_id x) (ov_now v) st)
           else if occurrence_pending (oc_id x) v = Some True then
             (AwaitingQueue, snd (mark_delivery_attempted (oc_id x) (ov_now v) (mark_inflight (oc_id x) (ov_now v) st)))
           else dispatch_reachable v x st))"
  by (simp add: dispatch_occurrence_def job_active_def Let_def split: load_result.split option.split bool.split)

lemma delivered_exactly:
  "fst (dispatch_occurrence v x st) = Delivered \<longleftrightarrow>
     job_active x st \<and> ov_load v = Loaded \<and> ov_reserved v \<and>
     occurrence_materialized (oc_id x) v = Some False \<and> occurrence_pending (oc_id x) v = Some False \<and>
     \<not> prompt_known (occurrence_prompt x) v \<and> inflight_stale x v st \<and> oc_id x \<in> held_ids st \<and>
     delivery_accepted (sj_delivery (oc_job x)) v"
  by (cases "ov_load v"; cases "occurrence_materialized (oc_id x) v"; cases "occurrence_pending (oc_id x) v";
      auto simp: dispatch_cases reachable_delivered)


lemma held_not_delivered: "session_holds x v \<Longrightarrow> fst (dispatch_occurrence v x st) \<noteq> Delivered"
  using held_is_known [of x v] delivered_exactly [of v x st] by auto

lemma clear_held [simp]: "held_ids (clear_inflight i st) = held_ids st"
  by (simp add: held_ids_def clear_inflight_def)

lemma filter_same_length: "length (filter P xs) = length xs \<Longrightarrow> filter P xs = xs"
proof (induction xs)
  case (Cons x xs)
  then show ?case using length_filter_le [of P xs] by (cases "P x") auto
qed simp

lemma ack_outbox [simp]: "ss_outbox (snd (acknowledge_occurrence i st)) = filter (\<lambda>x. oc_id x \<noteq> i) (ss_outbox st)"
  by (simp add: acknowledge_occurrence_def Let_def clear_inflight_def filter_same_length)

lemma ack_held: "held_ids (snd (acknowledge_occurrence i st)) = held_ids st - {i}"
  by (auto simp: held_ids_def)

lemma update_held:
  "(\<And>x. oc_id (f x) = oc_id x) \<Longrightarrow> oc_id ` set (update_first P f xs) = oc_id ` set xs"
  using update_first_map [of oc_id f P xs] by (metis list.set_map)

lemma attempt_held [simp]: "held_ids (snd (mark_delivery_attempted i t st)) = held_ids st"
  by (simp add: mark_delivery_attempted_def held_ids_def update_held)

lemma retry_held [simp]: "held_ids (snd (retry_occurrence i t st)) = held_ids st"
  by (simp add: retry_occurrence_def clear_inflight_def held_ids_def update_held)

lemma inflight_held [simp]: "held_ids (mark_inflight i t st) = held_ids st"
  "held_ids (st\<lparr>ss_inflight := m\<rparr>) = held_ids st" "held_ids (st\<lparr>ss_jobs := js\<rparr>) = held_ids st"
  by (simp_all add: mark_inflight_def held_ids_def)

lemma deliver_held [simp]: "held_ids (snd (deliver_occurrence v x (clear_inflight (oc_id x) st))) = held_ids st"
proof (cases "mark_delivery_attempted (oc_id x) (ov_now v) (st\<lparr>ss_inflight := (ss_inflight st)(oc_id x \<mapsto> ov_now v)\<rparr>)")
  case (Pair b st2)
  then have "held_ids st2 = held_ids st"
    using attempt_held [of "oc_id x" "ov_now v" "st\<lparr>ss_inflight := (ss_inflight st)(oc_id x \<mapsto> ov_now v)\<rparr>"] by simp
  then show ?thesis using Pair
    by (simp add: deliver_occurrence_def retry_schedule_occurrence_def split: bool.split)
qed

text \<open>
  An occurrence leaves the outbox only when its job is not active any more, its session is
  gone, the history of the session holds its message, or its prompt is already active or queued
  before any delivery was attempted; no other occurrence leaves with it.
\<close>

theorem dropped_only_for_a_reason:
  assumes "i \<in> held_ids st" "i \<notin> held_ids (snd (dispatch_occurrence v x st))"
  shows "i = oc_id x \<and> (\<not> job_active x st \<or> ov_load v = SessionGone \<or> occurrence_materialized i v = Some True \<or>
    (prompt_known (occurrence_prompt x) v \<and> oc_attempted x = None))"
proof (cases "ov_load v")
  case Loaded
  have "held_ids (snd (dispatch_reachable v x st)) =
      (if inflight_stale x v st \<and> prompt_known (occurrence_prompt x) v \<and> oc_attempted x = None
       then held_ids st - {oc_id x} else held_ids st)"
    by (simp add: dispatch_reachable_def inflight_stale_def Let_def ack_held)
  then show ?thesis using assms Loaded
    by (auto simp: dispatch_cases ack_held retry_schedule_occurrence_def retry_unless_inflight_def split: if_splits)
qed (use assms in \<open>auto simp: dispatch_cases ack_held retry_schedule_occurrence_def split: if_splits\<close>)

section \<open>At most one delivery\<close>

abbreviation outbox_distinct :: "schedule_store \<Rightarrow> bool" where
  "outbox_distinct st \<equiv> distinct (map oc_id (ss_outbox st))"

lemma distinct_steps [simp]:
  "outbox_distinct (clear_inflight i st) = outbox_distinct st"
  "outbox_distinct (mark_inflight i t st) = outbox_distinct st"
  "outbox_distinct (snd (mark_delivery_attempted i t st)) = outbox_distinct st"
  "outbox_distinct (snd (retry_occurrence i t st)) = outbox_distinct st"
  "outbox_distinct st \<Longrightarrow> outbox_distinct (snd (acknowledge_occurrence i st))"
  by (simp_all add: clear_inflight_def mark_inflight_def mark_delivery_attempted_def retry_occurrence_def
      update_first_map distinct_map_filter)

lemma clear_outbox [simp]: "ss_outbox (clear_inflight i st) = ss_outbox st"
  by (simp add: clear_inflight_def)

lemma retry_distinct [simp]:
  "outbox_distinct (retry_schedule_occurrence i t st) = outbox_distinct st"
  "outbox_distinct (retry_unless_inflight i t st) = outbox_distinct st"
  by (simp_all add: retry_schedule_occurrence_def retry_unless_inflight_def)

lemma deliver_distinct: "outbox_distinct st \<Longrightarrow> outbox_distinct (snd (deliver_occurrence v x (clear_inflight (oc_id x) st)))"
proof (cases "mark_delivery_attempted (oc_id x) (ov_now v) (st\<lparr>ss_inflight := (ss_inflight st)(oc_id x \<mapsto> ov_now v)\<rparr>)")
  case (Pair b st2)
  assume "outbox_distinct st"
  then have "outbox_distinct st2"
    using distinct_steps(3) [of "oc_id x" "ov_now v" "st\<lparr>ss_inflight := (ss_inflight st)(oc_id x \<mapsto> ov_now v)\<rparr>"] Pair by simp
  then show ?thesis using Pair \<open>outbox_distinct st\<close>
    by (simp add: deliver_occurrence_def split: bool.split)
qed

lemma reachable_distinct: "outbox_distinct st \<Longrightarrow> outbox_distinct (snd (dispatch_reachable v x st))"
  by (simp add: dispatch_reachable_def Let_def deliver_distinct distinct_map_filter)

lemma dispatch_distinct: "outbox_distinct st \<Longrightarrow> outbox_distinct (snd (dispatch_occurrence v x st))"
  by (cases "ov_load v") (simp_all add: dispatch_cases reachable_distinct distinct_map_filter)

lemma dispatch_all_distinct: "outbox_distinct st \<Longrightarrow> outbox_distinct (snd (dispatch_all V xs st))"
proof (induction xs arbitrary: st)
  case (Cons x xs)
  obtain out st1 where one: "dispatch_occurrence (V (oc_id x)) x st = (out, st1)" by fastforce
  obtain outs st2 where rest: "dispatch_all V xs st1 = (outs, st2)" by fastforce
  have "outbox_distinct st1" using dispatch_distinct [OF Cons.prems, of "V (oc_id x)" x] one by simp
  then have "outbox_distinct st2" using Cons.IH [of st1] rest by simp
  then show ?case using one rest by simp
qed simp

lemma delivered_of_pass:
  "set (delivered_ids (fst (dispatch_all V xs st))) \<subseteq> {oc_id x |x. x \<in> set xs \<and> \<not> session_holds x (V (oc_id x))}"
proof (induction xs arbitrary: st)
  case (Cons x xs)
  obtain out st1 where one: "dispatch_occurrence (V (oc_id x)) x st = (out, st1)" by fastforce
  obtain outs st2 where rest: "dispatch_all V xs st1 = (outs, st2)" by fastforce
  have held: "\<not> session_holds x (V (oc_id x))" if "out = Delivered"
    using that held_not_delivered [of x "V (oc_id x)" st] one by auto
  have IH: "set (delivered_ids outs) \<subseteq> {oc_id x |x. x \<in> set xs \<and> \<not> session_holds x (V (oc_id x))}"
    using Cons.IH [of st1] rest by simp
  have ids: "delivered_ids (fst (dispatch_all V (x # xs) st)) =
      (if out = Delivered then oc_id x # delivered_ids outs else delivered_ids outs)"
    using one rest by (simp add: delivered_ids_def)
  show ?case
  proof
    fix i assume "i \<in> set (delivered_ids (fst (dispatch_all V (x # xs) st)))"
    then consider "out = Delivered" "i = oc_id x" | "i \<in> set (delivered_ids outs)"
      unfolding ids by (auto split: if_splits)
    then show "i \<in> {oc_id y |y. y \<in> set (x # xs) \<and> \<not> session_holds y (V (oc_id y))}"
    proof cases
      case 1
      then show ?thesis using held by fastforce
    next
      case 2
      then show ?thesis using IH by auto
    qed
  qed
qed (simp add: delivered_ids_def)

lemma delivered_distinct:
  "distinct (map oc_id xs) \<Longrightarrow> distinct (delivered_ids (fst (dispatch_all V xs st)))"
proof (induction xs arbitrary: st)
  case (Cons x xs)
  obtain out st1 where one: "dispatch_occurrence (V (oc_id x)) x st = (out, st1)" by fastforce
  obtain outs st2 where rest: "dispatch_all V xs st1 = (outs, st2)" by fastforce
  have "oc_id x \<notin> set (delivered_ids outs)"
    using delivered_of_pass [of V xs st1] rest Cons.prems by auto
  moreover have "distinct (delivered_ids outs)" using Cons.IH [of st1] Cons.prems rest by simp
  ultimately show ?case using one rest by (simp add: delivered_ids_def)
qed (simp add: delivered_ids_def)

text \<open>
  Passes of the wake loop and operations on the store between them. A session keeps what it
  accepted: whenever a later pass looks at an occurrence that was delivered, the session holds it.
\<close>

datatype schedule_step = Pass time "string \<Rightarrow> occurrence_view" | StoreOp store_op

fun run_schedule :: "time \<Rightarrow> schedule_store \<Rightarrow> schedule_step list \<Rightarrow> string list" where
  "run_schedule tmax st [] = []"
| "run_schedule tmax st (Pass now V # steps) =
     (case dispatch_due_schedule_jobs tmax now V st of (outs, st') \<Rightarrow> delivered_ids outs @ run_schedule tmax st' steps)"
| "run_schedule tmax st (StoreOp x # steps) = run_schedule tmax (apply_op tmax st x) steps"

fun sessions_keep :: "time \<Rightarrow> string set \<Rightarrow> schedule_store \<Rightarrow> schedule_step list \<Rightarrow> bool" where
  "sessions_keep tmax sent st [] \<longleftrightarrow> True"
| "sessions_keep tmax sent st (Pass now V # steps) \<longleftrightarrow>
     list_all (\<lambda>x. oc_id x \<in> sent \<longrightarrow> session_holds x (V (oc_id x)))
       (ss_outbox (claim_due_with_outbox tmax now False st)) \<and>
     (case dispatch_due_schedule_jobs tmax now V st of
        (outs, st') \<Rightarrow> sessions_keep tmax (sent \<union> set (delivered_ids outs)) st' steps)"
| "sessions_keep tmax sent st (StoreOp x # steps) \<longleftrightarrow> sessions_keep tmax sent (apply_op tmax st x) steps"

lemma apply_op_distinct: "outbox_distinct st \<Longrightarrow> outbox_distinct (apply_op tmax st x)"
  by (cases x) (simp_all add: claim_distinct try_reserve_def restart_store_def distinct_map_filter)

lemma pending_sub: "set (pending_occurrences now st) \<subseteq> set (ss_outbox st)"
  by (auto simp: pending_occurrences_def)

lemma pending_distinct: "outbox_distinct st \<Longrightarrow> distinct (map oc_id (pending_occurrences now st))"
  using mset_eq_imp_distinct_iff [of "map oc_id (pending_occurrences now st)"
      "map oc_id (filter (\<lambda>x. case oc_retry x of None \<Rightarrow> True | Some t \<Rightarrow> t \<le> now) (ss_outbox st))"]
  by (simp add: pending_occurrences_def distinct_map_filter)

lemma run_apart:
  assumes "outbox_distinct st" "sessions_keep tmax sent st steps"
  shows "distinct (run_schedule tmax st steps) \<and> set (run_schedule tmax st steps) \<inter> sent = {}"
  using assms
proof (induction steps arbitrary: st sent)
  case (Cons a steps)
  show ?case
  proof (cases a)
    case (StoreOp x)
    then show ?thesis using Cons apply_op_distinct by simp
  next
    case (Pass now V)
    let ?st1 = "claim_due_with_outbox tmax now False st"
    let ?xs = "pending_occurrences now ?st1"
    obtain outs st' where pass: "dispatch_due_schedule_jobs tmax now V st = (outs, st')" by fastforce
    then have all: "dispatch_all V ?xs ?st1 = (outs, st')" by (simp add: dispatch_due_schedule_jobs_def Let_def)
    have claimed: "outbox_distinct ?st1" using Cons.prems(1) by (rule claim_distinct)
    have later: "distinct (run_schedule tmax st' steps)" "set (run_schedule tmax st' steps) \<inter> (sent \<union> set (delivered_ids outs)) = {}"
      using Cons.IH [of st' "sent \<union> set (delivered_ids outs)"] Cons.prems(2) dispatch_all_distinct [OF claimed, of V ?xs] all pass
      by (auto simp: Pass)
    have "distinct (delivered_ids outs)" using delivered_distinct [OF pending_distinct [OF claimed], of V now ?st1] all by simp
    moreover have "set (delivered_ids outs) \<inter> sent = {}"
    proof -
      have "session_holds x (V (oc_id x))" if "x \<in> set ?xs" "oc_id x \<in> sent" for x
        using Cons.prems(2) that pending_sub [of now ?st1] by (auto simp: Pass pass list_all_iff)
      then show ?thesis using delivered_of_pass [of V ?xs ?st1] all by auto
    qed
    ultimately show ?thesis using later pass by (auto simp: Pass)
  qed
qed simp

text \<open>
  C5: As long as sessions keep the messages they accepted, no occurrence is delivered twice,
  whatever passes, claims that were cut off, restarts, retries and changes of the jobs follow one
  another.
\<close>

theorem occurrences_delivered_once:
  assumes "outbox_distinct st" "sessions_keep tmax {} st steps"
  shows "distinct (run_schedule tmax st steps)"
  using run_apart [OF assms] by simp

definition idle_view :: "time \<Rightarrow> string list \<Rightarrow> occurrence_view" where
  "idle_view now history =
     \<lparr>ov_load = Loaded, ov_history = Some history, ov_reserved = True, ov_queue = [], ov_steer = [],
      ov_turn_rows = Some [], ov_steer_rows = Some [], ov_active = None, ov_texts = [],
      ov_steered = SteerDegraded, ov_pushed = True, ov_now = now\<rparr>"

theorem occurrences_delivered_once_witness:
  "distinct (run_schedule 10000000000000 sample_store
     [Pass 7000 (\<lambda>_. idle_view 7000 []), StoreOp OpRestart, Pass 8000 (\<lambda>i. idle_view 8000 [i])])"
proof -
  have "sessions_keep 10000000000000 {} sample_store
      [Pass 7000 (\<lambda>_. idle_view 7000 []), StoreOp OpRestart, Pass 8000 (\<lambda>i. idle_view 8000 [i])]"
    by (auto simp: session_holds_def idle_view_def list_all_iff split: prod.split)
  then show ?thesis by (intro occurrences_delivered_once) (simp_all add: sample_store_def)
qed

text \<open>An occurrence whose job was stopped is dropped, next to one that stays.\<close>

definition two_occurrences :: schedule_store where
  "two_occurrences =
     \<lparr>ss_jobs = [sample_job\<lparr>sj_status := JobStopped\<rparr>],
      ss_outbox = [new_occurrence sample_job 1000, new_occurrence (sample_job\<lparr>sj_id := ''job2''\<rparr>) 1000],
      ss_inflight = Map.empty\<rparr>"

theorem dropped_only_for_a_reason_witness:
  "\<not> job_active (new_occurrence sample_job 1000) two_occurrences"
proof -
  have id: "oc_id (new_occurrence sample_job 1000) \<in> held_ids two_occurrences"
    by (simp add: held_ids_def two_occurrences_def)
  have gone: "oc_id (new_occurrence sample_job 1000) \<notin>
      held_ids (snd (dispatch_occurrence (idle_view 2000 []) (new_occurrence sample_job 1000) two_occurrences))"
    by (simp add: dispatch_cases job_active_def two_occurrences_def get_job_def new_occurrence_def sample_job_def ack_held)
  show ?thesis using dropped_only_for_a_reason [OF id gone]
    by (simp add: idle_view_def occurrence_materialized_def prompt_known_def)
qed

text \<open>
  A prompt of blanks is accepted by the store and refused by every session: its occurrence stays
  in the outbox and is tried again at every pass.
\<close>

lemma blank_prompt_is_accepted:
  "fst (upsert 100000000 0 ''job'' \<lparr>up_kind = Cron, up_session = ''s'', up_job = None, up_cwd = None,
       up_schedule = None, up_interval = Some 3, up_prompt = Some '' '', up_instruction = None,
       up_delivery = DeliverFollowUp, up_label = None\<rparr> []) \<in> range Inr"
  by (auto simp: upsert_def upsert_interval_def next_run_from_interval_def Let_def)

end
