(* ===== verification/Tool_Permissions.thy ===== *)
theory Tool_Permissions
  imports Shell_Access Native_Items
begin

text \<open>
  The permission request of a tool call (\<open>core/src/tools/router.rs\<close>): the resource it touches, its
  path, host and command, the sandbox permissions it asks for, and the command prefix and pattern
  that an approval may be widened to.

  Splitting a command into words as a shell does is the parameter \<open>split\<close>, the printer of JSON
  values the parameter \<open>L\<close>. Of the request the summary for the user and the identifiers of session
  and turn are left out.
\<close>

section \<open>Resources and sandbox permissions\<close>

datatype resource_kind = ResFileRead | ResFileWrite | ResShellExec | ResNetwork | ResCustom string

datatype capability_tag = ReadFiles | WriteFiles | ExecuteProcess | NetworkAccess | SearchWorkspace | ReadImages

definition resource_kind_for_tool :: "string \<Rightarrow> capability_tag list \<Rightarrow> resource_kind" where
  "resource_kind_for_tool tool tags =
     (if NetworkAccess \<in> set tags then ResNetwork
      else if ExecuteProcess \<in> set tags then ResShellExec
      else if WriteFiles \<in> set tags then ResFileWrite
      else if ReadFiles \<in> set tags \<or> SearchWorkspace \<in> set tags then ResFileRead
      else ResCustom tool)"

fun resource_requires_permission :: "resource_kind \<Rightarrow> bool" where
  "resource_requires_permission (ResCustom _) = False"
| "resource_requires_permission _ = True"

record sandbox_overlay =
  so_network :: bool
  so_read :: "string list"
  so_write :: "string list"

datatype sandbox_request = SandboxDefault | AdditionalPermissions sandbox_overlay | FullEscalation

definition requests_escalation :: "sandbox_request \<Rightarrow> bool" where
  "requests_escalation s \<longleftrightarrow> s \<noteq> SandboxDefault"

definition bypasses_sandbox :: "sandbox_request \<Rightarrow> bool" where
  "bypasses_sandbox s \<longleftrightarrow> s = FullEscalation"

definition overlay_of :: "sandbox_request \<Rightarrow> sandbox_overlay option" where
  "overlay_of s = (case s of AdditionalPermissions p \<Rightarrow> Some p | _ \<Rightarrow> None)"

record permission_grant =
  pg_bypass :: bool
  pg_approved :: bool
  pg_overlay :: "sandbox_overlay option"

definition grant_from_approval :: "sandbox_request \<Rightarrow> permission_grant" where
  "grant_from_approval s = \<lparr>pg_bypass = bypasses_sandbox s, pg_approved = True, pg_overlay = overlay_of s\<rparr>"

section \<open>The sandbox permissions of an input\<close>

definition sandbox_permissions_from_input :: "json \<Rightarrow> string" where
  "sandbox_permissions_from_input v =
     (case Option.bind (json_get v ''sandbox_permissions'') json_str of None \<Rightarrow> [] | Some s \<Rightarrow> s)"

text \<open>Paths are ordered and compared by their components.\<close>

fun component_key :: "component \<Rightarrow> nat \<times> string" where
  "component_key RootDir = (1, [])"
| "component_key CurDir = (2, [])"
| "component_key ParentDir = (3, [])"
| "component_key (Normal n) = (4, n)"

definition path_key :: "string \<Rightarrow> (nat \<times> string) list" where
  "path_key p = map component_key (path_parts p)"

fun dedup_paths :: "string list \<Rightarrow> string list" where
  "dedup_paths (p # q # ps) = (if path_parts p = path_parts q then dedup_paths (p # ps) else p # dedup_paths (q # ps))"
| "dedup_paths ps = ps"

fun read_absolute_paths :: "string \<Rightarrow> json list \<Rightarrow> string + string list" where
  "read_absolute_paths field [] = Inr []"
| "read_absolute_paths field (v # vs) =
     (case json_str v of
        None \<Rightarrow> Inl (field @ '' entries must be strings'')
      | Some p \<Rightarrow>
          (if \<not> path_is_absolute p then Inl (field @ '' entries must be absolute paths'')
           else case read_absolute_paths field vs of Inl e \<Rightarrow> Inl e | Inr ps \<Rightarrow> Inr (p # ps)))"

definition parse_absolute_permission_paths :: "json option \<Rightarrow> string \<Rightarrow> string + string list" where
  "parse_absolute_permission_paths v field =
     (case v of
        None \<Rightarrow> Inr []
      | Some (JArr vs) \<Rightarrow>
          (case read_absolute_paths field vs of Inl e \<Rightarrow> Inl e | Inr ps \<Rightarrow> Inr (dedup_paths (sort_key path_key ps)))
      | Some _ \<Rightarrow> Inl (field @ '' must be an array''))"

definition only_keys :: "string list \<Rightarrow> (string \<times> json) list \<Rightarrow> bool" where
  "only_keys ks kvs = list_all (\<lambda>(k, _). k \<in> set ks) kvs"

definition parse_network_permission :: "json option \<Rightarrow> string + bool" where
  "parse_network_permission v =
     (case v of
        None \<Rightarrow> Inr False
      | Some (JObj kvs) \<Rightarrow>
          (if \<not> only_keys [''enabled''] kvs then Inl ''additional_permissions.network contains an unknown field''
           else case map_of kvs ''enabled'' of
                  None \<Rightarrow> Inr False
                | Some (JBool b) \<Rightarrow> Inr b
                | Some _ \<Rightarrow> Inl ''additional_permissions.network.enabled must be a boolean'')
      | Some _ \<Rightarrow> Inl ''additional_permissions.network must be an object'')"

definition parse_file_system :: "json option \<Rightarrow> string + (string list \<times> string list)" where
  "parse_file_system v =
     (case v of
        Some (JObj kvs) \<Rightarrow>
          (if \<not> only_keys [''read'', ''write''] kvs then
             Inl ''additional_permissions.file_system contains an unknown field''
           else case parse_absolute_permission_paths (map_of kvs ''read'') ''additional_permissions.file_system.read'' of
                  Inl e \<Rightarrow> Inl e
                | Inr reads \<Rightarrow>
                    (case parse_absolute_permission_paths (map_of kvs ''write'') ''additional_permissions.file_system.write'' of
                       Inl e \<Rightarrow> Inl e | Inr writes \<Rightarrow> Inr (reads, writes)))
      | Some _ \<Rightarrow> Inl ''additional_permissions.file_system must be an object''
      | None \<Rightarrow> Inr ([], []))"

definition parse_additional_sandbox_permissions :: "json \<Rightarrow> string + sandbox_overlay" where
  "parse_additional_sandbox_permissions v =
     (case v of
        JObj kvs \<Rightarrow>
          (if \<not> only_keys [''network'', ''file_system''] kvs then Inl ''additional_permissions contains an unknown field''
           else case parse_network_permission (map_of kvs ''network'') of
                  Inl e \<Rightarrow> Inl e
                | Inr net \<Rightarrow>
                    (case parse_file_system (map_of kvs ''file_system'') of
                       Inl e \<Rightarrow> Inl e
                     | Inr (reads, writes) \<Rightarrow> Inr \<lparr>so_network = net, so_read = reads, so_write = writes\<rparr>))
      | _ \<Rightarrow> Inl ''additional_permissions must be an object'')"

definition sandbox_permission_request_from_input :: "json \<Rightarrow> string + sandbox_request" where
  "sandbox_permission_request_from_input v =
     (let mode = sandbox_permissions_from_input v; additional = json_get v ''additional_permissions'' in
      if mode = ''require_escalated'' then
        (if additional \<noteq> None then Inl ''require_escalated cannot be combined with additional_permissions''
         else Inr FullEscalation)
      else if mode \<notin> {[], ''use_default'', ''with_additional_permissions''} then
        Inl (''unsupported sandbox_permissions value: '' @ mode)
      else if mode = ''with_additional_permissions'' \<and> additional = None then
        Inl ''with_additional_permissions requires a non-empty additional_permissions object''
      else case additional of
             None \<Rightarrow> Inr SandboxDefault
           | Some a \<Rightarrow>
               (case parse_additional_sandbox_permissions a of
                  Inl e \<Rightarrow> Inl e
                | Inr p \<Rightarrow>
                    (if \<not> so_network p \<and> so_read p = [] \<and> so_write p = [] then Inr SandboxDefault
                     else Inr (AdditionalPermissions p))))"

definition or_null :: "json option \<Rightarrow> json" where
  "or_null v = (case v of None \<Rightarrow> JNull | Some x \<Rightarrow> x)"

text \<open>The key under which an approval of escalated permissions is remembered.\<close>

definition sandbox_permission_cache_key_from_input :: "json_lib \<Rightarrow> json \<Rightarrow> string" where
  "sandbox_permission_cache_key_from_input L v =
     (case sandbox_permission_request_from_input v of
        Inr SandboxDefault \<Rightarrow> ''default''
      | Inr FullEscalation \<Rightarrow> ''full_escalation''
      | Inr (AdditionalPermissions p) \<Rightarrow>
          lib_print L (JObj [(''tier'', JStr ''additional_permissions''), (''network'', JBool (so_network p)),
            (''read_paths'', JArr (map JStr (so_read p))), (''write_paths'', JArr (map JStr (so_write p)))])
      | Inl _ \<Rightarrow>
          lib_print L (JObj [(''invalid'', or_null (json_get v ''sandbox_permissions'')),
            (''additional_permissions'', or_null (json_get v ''additional_permissions''))]))"

section \<open>What a call touches\<close>

definition get_string :: "json \<Rightarrow> string \<Rightarrow> string option" where
  "get_string v k = Option.bind (json_get v k) json_str"

fun first_string :: "json \<Rightarrow> string list \<Rightarrow> string option" where
  "first_string v [] = None"
| "first_string v (k # ks) = (case get_string v k of Some s \<Rightarrow> Some s | None \<Rightarrow> first_string v ks)"

text \<open>Of the command only the first key that is present counts, even when it is not a string.\<close>

definition first_value_string :: "json \<Rightarrow> string \<Rightarrow> string \<Rightarrow> string option" where
  "first_value_string v a b =
     Option.bind (case json_get v a of Some x \<Rightarrow> Some x | None \<Rightarrow> json_get v b) json_str"

definition or_dot :: "string option \<Rightarrow> string option" where
  "or_dot s = (case s of None \<Rightarrow> Some ''.'' | _ \<Rightarrow> s)"

definition path_for_tool_input :: "string \<Rightarrow> json \<Rightarrow> string \<Rightarrow> string option" where
  "path_for_tool_input tool input cwd =
     map_option (path_join cwd)
       (if tool \<in> {''read'', ''write'', ''edit''} then first_string input [''filePath'', ''path'']
        else if tool = ''lsp'' then or_dot (first_string input [''filePath'', ''path'', ''file_path''])
        else if tool \<in> {''find'', ''grep'', ''glob''} then or_dot (first_string input [''path''])
        else None)"

definition fetch_tools :: "string set" where
  "fetch_tools = {''webfetch'', ''web_fetch'', ''web-fetch'', ''fetch_url'', ''fetch-url''}"

definition search_tools :: "string set" where
  "search_tools = {''web_search'', ''websearch'', ''web-search''}"

definition host_from_url :: "string \<Rightarrow> string option" where
  "host_from_url url =
     (let after = (case find_str ''://'' url of None \<Rightarrow> url | Some n \<Rightarrow> drop (n + 3) url);
          host = takeWhile (\<lambda>c. c \<noteq> CHR ''/'') after
      in if host = [] then None else Some host)"

definition host_for_tool_input :: "string \<Rightarrow> json \<Rightarrow> string option" where
  "host_for_tool_input tool input =
     (if tool \<in> fetch_tools then Option.bind (get_string input ''url'') host_from_url
      else if tool \<in> search_tools then map_option (\<lambda>_. ''web_search'') (get_string input ''query'')
      else None)"

definition command_str_for_tool_input :: "string \<Rightarrow> json \<Rightarrow> string option" where
  "command_str_for_tool_input tool input =
     (if tool \<in> {''bash'', ''shell_command''} then first_value_string input ''command'' ''cmd''
      else if tool = ''exec_command'' then first_value_string input ''cmd'' ''command''
      else None)"

definition target_for_tool_input :: "string \<Rightarrow> json \<Rightarrow> string option" where
  "target_for_tool_input tool input =
     (if tool \<in> fetch_tools then get_string input ''url''
      else if tool \<in> search_tools then get_string input ''query''
      else command_str_for_tool_input tool input)"

definition justification_for_tool_input :: "json \<Rightarrow> string option" where
  "justification_for_tool_input input = first_value_string input ''justification'' ''description''"

section \<open>Words of a command\<close>

definition command_contains_line_separators :: "string \<Rightarrow> bool" where
  "command_contains_line_separators c = list_ex (\<lambda>x. x \<in> {LF, CR, CHR 0x0B, CHR 0x0C}) c"

definition token_is_background_ampersand :: "string \<Rightarrow> bool" where
  "token_is_background_ampersand t \<longleftrightarrow> t \<noteq> ''&&'' \<and> (t = ''&'' \<or> ends_with t ''&'')"

definition command_contains_standalone_ampersand :: "(string \<Rightarrow> string list option) \<Rightarrow> string \<Rightarrow> bool" where
  "command_contains_standalone_ampersand split c =
     (case split c of None \<Rightarrow> False | Some argv \<Rightarrow> list_ex token_is_background_ampersand argv)"

definition shell_token_requires_user_scope :: "(string \<Rightarrow> string list option) \<Rightarrow> string \<Rightarrow> string \<Rightarrow> bool" where
  "shell_token_requires_user_scope split c t \<longleftrightarrow>
     contains_any t ''|;><*?$()'' \<or> contains_str t ''$('' \<or> contains_str c ''&&'' \<or> contains_str c ''||'' \<or>
     contains_str c ''$('' \<or> contains_str c ''`'' \<or> command_contains_standalone_ampersand split c"

definition name_char :: "char \<Rightarrow> bool" where
  "name_char c \<longleftrightarrow> c = CHR ''_'' \<or> is_ascii_alpha c \<or> is_ascii_digit c"

definition looks_like_env_assignment :: "string \<Rightarrow> bool" where
  "looks_like_env_assignment t =
     (let name = takeWhile (\<lambda>c. c \<noteq> CHR ''='') t; rest = dropWhile (\<lambda>c. c \<noteq> CHR ''='') t in
      rest \<noteq> [] \<and> name \<noteq> [] \<and> tl rest \<noteq> [] \<and> list_all name_char name \<and> \<not> is_ascii_digit (hd name))"

definition safe_shell_argv :: "(string \<Rightarrow> string list option) \<Rightarrow> string \<Rightarrow> string list option" where
  "safe_shell_argv split c =
     (if command_contains_line_separators c then None
      else case split c of
             None \<Rightarrow> None
           | Some argv \<Rightarrow>
               (if list_ex (shell_token_requires_user_scope split c) argv \<or>
                   (argv \<noteq> [] \<and> looks_like_env_assignment (hd argv)) then None
                else Some argv))"

section \<open>Prefixes and patterns\<close>

definition banned_prefixes :: "string list list" where
  "banned_prefixes =
     [[''python3''], [''python3'', ''-''], [''python3'', ''-c''], [''python''], [''python'', ''-''], [''python'', ''-c''],
      [''py''], [''py'', ''-3''], [''pythonw''], [''pyw''], [''pypy''], [''pypy3''], [''git''], [''bash''], [''bash'', ''-lc''],
      [''sh''], [''sh'', ''-c''], [''sh'', ''-lc''], [''zsh''], [''zsh'', ''-lc''], [''/bin/zsh''], [''/bin/zsh'', ''-lc''],
      [''/bin/bash''], [''/bin/bash'', ''-lc''], [''pwsh''], [''pwsh'', ''-Command''], [''pwsh'', ''-c''], [''powershell''],
      [''powershell'', ''-Command''], [''powershell'', ''-c''], [''powershell.exe''], [''powershell.exe'', ''-Command''],
      [''powershell.exe'', ''-c''], [''env''], [''sudo''], [''node''], [''node'', ''-e''], [''perl''], [''perl'', ''-e''],
      [''ruby''], [''ruby'', ''-e''], [''php''], [''php'', ''-r''], [''lua''], [''lua'', ''-e''], [''osascript''], [''rm''],
      [''dd''], [''mkfs''], [''shred'']]"

definition is_banned_prefix_suggestion :: "string list \<Rightarrow> bool" where
  "is_banned_prefix_suggestion p \<longleftrightarrow> p = [] \<or> p \<in> set banned_prefixes"

fun prefix_rule_from_value :: "json \<Rightarrow> string list option" where
  "prefix_rule_from_value (JArr vs) =
     (case those (map json_str vs) of Some p \<Rightarrow> (if p = [] then None else Some p) | None \<Rightarrow> None)"
| "prefix_rule_from_value _ = None"

definition prefix_from_argv :: "string list \<Rightarrow> string list option" where
  "prefix_from_argv argv =
     (case argv of
        [] \<Rightarrow> None
      | program # args \<Rightarrow>
          (case find (\<lambda>t. \<not> starts_with t ''-'') args of None \<Rightarrow> Some [program] | Some t \<Rightarrow> Some [program, t]))"

definition command_prefix_for_tool_input :: "(string \<Rightarrow> string list option) \<Rightarrow> string \<Rightarrow> json \<Rightarrow> string list option" where
  "command_prefix_for_tool_input split tool input =
     (case (if tool \<in> {''bash'', ''shell_command'', ''exec_command''}
            then Option.bind (json_get input ''prefix_rule'') prefix_rule_from_value else None) of
        Some p \<Rightarrow> (if is_banned_prefix_suggestion p then None else Some p)
      | None \<Rightarrow>
          Option.bind (command_str_for_tool_input tool input)
            (\<lambda>c. Option.bind (safe_shell_argv split c) prefix_from_argv))"

definition COMMAND_PATTERN_MAX_TOKENS :: nat where "COMMAND_PATTERN_MAX_TOKENS = 16"
definition COMMAND_PATTERN_MAX_WILDCARDS :: nat where "COMMAND_PATTERN_MAX_WILDCARDS = 8"

definition pattern_program_blocklist :: "string list" where
  "pattern_program_blocklist =
     [''sudo'', ''doas'', ''run0'', ''sh'', ''bash'', ''zsh'', ''fish'', ''env'', ''xargs'', ''find'', ''eval'', ''rm'', ''rmdir'',
      ''dd'', ''mkfs'', ''shred'', ''wipe'', ''chmod'', ''chown'', ''chgrp'', ''mv'', ''python'', ''python3'', ''perl'', ''ruby'',
      ''node'', ''php'', ''lua'', ''osascript'']"

definition program_basename :: "string \<Rightarrow> string" where
  "program_basename p = rev (takeWhile (\<lambda>c. c \<noteq> CHR ''/'' \<and> c \<noteq> CHR 0x5C) (rev p))"

definition ascii_lower_letter :: "char \<Rightarrow> bool" where
  "ascii_lower_letter c \<longleftrightarrow> is_ascii_alpha c \<and> ascii_lower c = c"

definition is_subcommand_word :: "string \<Rightarrow> bool" where
  "is_subcommand_word t =
     (case t of
        [] \<Rightarrow> False
      | c # cs \<Rightarrow> ascii_lower_letter c \<and> utf8_len t \<le> 32 \<and>
          list_all (\<lambda>x. ascii_lower_letter x \<or> is_ascii_digit x \<or> x = CHR ''-'' \<or> x = CHR ''_'') cs)"

text \<open>The loop over the arguments: whether a value was seen, and the wildcards so far.\<close>

fun pattern_args :: "bool \<Rightarrow> nat \<Rightarrow> string list \<Rightarrow> string list option" where
  "pattern_args started n [] = Some []"
| "pattern_args started n (t # ts) =
     (if starts_with t ''-'' \<or> (\<not> started \<and> is_subcommand_word t) then map_option ((#) t) (pattern_args started n ts)
      else if n + 1 > COMMAND_PATTERN_MAX_WILDCARDS then None
      else map_option ((#) ''*'') (pattern_args True (n + 1) ts))"

definition command_pattern_from_argv :: "string list \<Rightarrow> string list option" where
  "command_pattern_from_argv argv =
     (if argv = [] \<or> length argv > COMMAND_PATTERN_MAX_TOKENS then None
      else if program_basename (hd argv) \<in> set pattern_program_blocklist then None
      else map_option ((#) (hd argv)) (pattern_args False 0 (tl argv)))"

definition generalize_command_pattern :: "(string \<Rightarrow> string list option) \<Rightarrow> string \<Rightarrow> string list option" where
  "generalize_command_pattern split c = Option.bind (safe_shell_argv split c) command_pattern_from_argv"

fun command_pattern_matches :: "string list \<Rightarrow> string list \<Rightarrow> bool" where
  "command_pattern_matches [] args = (args = [])"
| "command_pattern_matches (t # ts) args =
     (if t = ''*'' then (if ts = [] then args \<noteq> []
                         else case args of [] \<Rightarrow> False | a # as \<Rightarrow> command_pattern_matches ts as)
      else case args of [] \<Rightarrow> False | a # as \<Rightarrow> a = t \<and> command_pattern_matches ts as)"

section \<open>The request\<close>

record tool_request =
  tr_id :: string
  tr_tool :: string
  tr_input :: json
  tr_cwd :: string
  tr_resource :: resource_kind
  tr_justification :: "string option"
  tr_path :: "string option"
  tr_host :: "string option"
  tr_target :: "string option"
  tr_prefix :: "string list option"
  tr_argv :: "string list option"
  tr_pattern :: "string list option"
  tr_sandbox :: sandbox_request

record tool_spec_entry =
  ts_tags :: "capability_tag list"
  ts_mutating :: bool

definition permission_request_for_call ::
  "(string \<Rightarrow> string list option) \<Rightarrow> (string \<Rightarrow> tool_spec_entry option) \<Rightarrow> string \<Rightarrow> string \<Rightarrow> string \<Rightarrow> json \<Rightarrow>
   string + tool_request option" where
  "permission_request_for_call split specs cwd i tool input =
     (case specs tool of
        None \<Rightarrow> Inr None
      | Some spec \<Rightarrow>
          (let resource = resource_kind_for_tool tool (ts_tags spec); command = command_str_for_tool_input tool input in
           if \<not> ts_mutating spec \<and> \<not> resource_requires_permission resource then Inr None
           else case sandbox_permission_request_from_input input of
                  Inl e \<Rightarrow> Inl e
                | Inr s \<Rightarrow>
                    Inr (Some \<lparr>tr_id = i, tr_tool = tool, tr_input = input, tr_cwd = cwd, tr_resource = resource,
                      tr_justification = justification_for_tool_input input,
                      tr_path = path_for_tool_input tool input cwd, tr_host = host_for_tool_input tool input,
                      tr_target = target_for_tool_input tool input,
                      tr_prefix = command_prefix_for_tool_input split tool input,
                      tr_argv = Option.bind command (safe_shell_argv split),
                      tr_pattern = Option.bind command (generalize_command_pattern split), tr_sandbox = s\<rparr>)))"

definition command_str_for_permission_request :: "tool_request \<Rightarrow> string option" where
  "command_str_for_permission_request r =
     (case (case tr_target r of Some c \<Rightarrow> Some c | None \<Rightarrow> command_str_for_tool_input (tr_tool r) (tr_input r)) of
        None \<Rightarrow> None
      | Some c \<Rightarrow> (if c = [] then None else Some c))"

section \<open>What a pattern covers\<close>

lemma pattern_args_length: "pattern_args b n ts = Some ps \<Longrightarrow> length ps = length ts"
  by (induction b n ts arbitrary: ps rule: pattern_args.induct) (auto split: if_splits)

lemma pattern_args_matches: "pattern_args b n ts = Some ps \<Longrightarrow> command_pattern_matches ps ts"
proof (induction b n ts arbitrary: ps rule: pattern_args.induct)
  case (2 b n t ts)
  then show ?case
    using pattern_args_length [of True "n + 1" ts]
    by (cases "starts_with t ''-'' \<or> (\<not> b \<and> is_subcommand_word t)")
      (auto simp: starts_with_def is_subcommand_word_def ascii_lower_letter_def is_ascii_alpha_def split: if_splits)
qed simp

lemma pattern_args_kept:
  "\<lbrakk>pattern_args b n ts = Some ps; i < length ts; starts_with (ts ! i) ''-''\<rbrakk> \<Longrightarrow> ps ! i = ts ! i"
proof (induction b n ts arbitrary: ps i rule: pattern_args.induct)
  case (2 b n t ts)
  then show ?case by (cases i) (auto split: if_splits)
qed simp

text \<open>What a pattern says of the arguments it matches.\<close>

lemma matches_verbatim:
  "command_pattern_matches ps args \<Longrightarrow>
   length ps \<le> length args \<and> (\<forall>i<length ps. ps ! i \<noteq> ''*'' \<longrightarrow> args ! i = ps ! i) \<and>
   (length ps < length args \<longrightarrow> ps \<noteq> [] \<and> last ps = ''*'')"
proof (induction ps args rule: command_pattern_matches.induct)
  case (2 t ts args)
  show ?case
  proof (cases args)
    case (Cons a as)
    show ?thesis
    proof (cases "t = ''*'' \<and> ts = []")
      case False
      then have IH: "length ts \<le> length as \<and> (\<forall>i<length ts. ts ! i \<noteq> ''*'' \<longrightarrow> as ! i = ts ! i) \<and>
          (length ts < length as \<longrightarrow> ts \<noteq> [] \<and> last ts = ''*'')" and head: "t \<noteq> ''*'' \<longrightarrow> a = t"
        using 2 Cons by (auto split: if_splits)
      show ?thesis
      proof (intro conjI allI impI)
        fix i assume "i < length (t # ts)" "(t # ts) ! i \<noteq> ''*''"
        then show "args ! i = (t # ts) ! i" using IH head Cons by (cases i) auto
      qed (use IH Cons in auto)
    qed (use Cons in simp)
  next
    case Nil
    then show ?thesis using "2.prems" by (simp split: if_splits)
  qed
qed simp



section \<open>The key of escalated permissions\<close>

lemma same_key_same_permissions:
  assumes "\<forall>v. lib_parse L (lib_print L v) = Inr v"
    and "lib_parse L ''default'' \<notin> range Inr" "lib_parse L ''full_escalation'' \<notin> range Inr"
    and "sandbox_permission_request_from_input v = Inr s" "sandbox_permission_request_from_input w = Inr t"
    and "sandbox_permission_cache_key_from_input L v = sandbox_permission_cache_key_from_input L w"
  shows "s = t"
proof -
  have inj: "lib_print L x = lib_print L y \<Longrightarrow> x = y" for x y
    using assms(1) by (metis Inr_inject)
  have plain: "lib_print L x \<noteq> ''default''" "lib_print L x \<noteq> ''full_escalation''" for x
    using assms(1-3) by (metis rangeI)+
  have strings: "map JStr xs = map JStr ys \<Longrightarrow> xs = ys" for xs ys
    by (metis inj_map_eq_map injI json.inject(4))
  show ?thesis using assms(4-6) plain plain [symmetric]
    by (cases s; cases t)
      (auto simp: sandbox_permission_cache_key_from_input_def dest!: inj strings)
qed

text \<open>
  Two inputs with the same key ask for the same sandbox permissions, so an approval that is
  remembered under its key is never used for other permissions.
\<close>

theorem permission_key_identifies_permissions:
  assumes "\<forall>v. lib_parse L (lib_print L v) = Inr v"
    and "lib_parse L ''default'' \<notin> range Inr" "lib_parse L ''full_escalation'' \<notin> range Inr"
    and "sandbox_permission_request_from_input v = Inr s" "sandbox_permission_request_from_input w = Inr t"
    and "sandbox_permission_cache_key_from_input L v = sandbox_permission_cache_key_from_input L w"
  shows "s = t"
  by (rule same_key_same_permissions [OF assms])

text \<open>A library that prints a value in unary and reads nothing else.\<close>

definition unary_lib :: json_lib where
  "unary_lib =
     \<lparr>lib_parse = (\<lambda>s. if list_all (\<lambda>c. c = CHR ''1'') s then Inr (from_nat (length s)) else Inl JsonEof),
      lib_print = (\<lambda>v. replicate (to_nat v) (CHR ''1''))\<rparr>"

lemma unary_reads: "lib_parse unary_lib (lib_print unary_lib v) = Inr v"
  by (simp add: unary_lib_def list_all_iff)

definition escalated_input :: json where
  "escalated_input = JObj [(''sandbox_permissions'', JStr ''require_escalated'')]"

definition network_input :: json where
  "network_input = JObj [(''additional_permissions'', JObj [(''network'', JObj [(''enabled'', JBool True)])])]"

theorem permission_key_identifies_permissions_witness:
  "sandbox_permission_cache_key_from_input unary_lib escalated_input \<noteq>
   sandbox_permission_cache_key_from_input unary_lib network_input"
proof
  assume same: "sandbox_permission_cache_key_from_input unary_lib escalated_input =
    sandbox_permission_cache_key_from_input unary_lib network_input"
  have v: "sandbox_permission_request_from_input escalated_input = Inr FullEscalation" by code_simp
  have w: "sandbox_permission_request_from_input network_input =
      Inr (AdditionalPermissions \<lparr>so_network = True, so_read = [], so_write = []\<rparr>)" by code_simp
  have "lib_parse unary_lib ''default'' \<notin> range Inr" "lib_parse unary_lib ''full_escalation'' \<notin> range Inr"
    by (auto simp: unary_lib_def)
  from permission_key_identifies_permissions [OF _ this v w same] show False
    by (simp add: unary_reads)
qed

section \<open>The permissions that are read\<close>

lemma read_absolute: "read_absolute_paths field vs = Inr ps \<Longrightarrow> vs = map JStr ps \<and> list_all path_is_absolute ps"
proof (induction field vs arbitrary: ps rule: read_absolute_paths.induct)
  case (2 field v vs)
  then show ?case by (cases v) (auto split: if_splits sum.splits)
qed simp

lemma dedup_set: "path_parts ` set (dedup_paths ps) = path_parts ` set ps"
  by (induction ps rule: dedup_paths.induct) auto

lemma dedup_sub: "set (dedup_paths ps) \<subseteq> set ps"
  by (induction ps rule: dedup_paths.induct) auto

lemma inj_component_key: "inj component_key"
proof (rule injI)
  fix a b show "component_key a = component_key b \<Longrightarrow> a = b" by (cases a; cases b) auto
qed

lemma path_key_eq: "path_key p = path_key q \<longleftrightarrow> path_parts p = path_parts q"
  by (simp add: path_key_def inj_map_eq_map [OF inj_component_key])

lemma dedup_strict: "sorted (map path_key ps) \<Longrightarrow> sorted_wrt (<) (map path_key (dedup_paths ps))"
proof (induction ps rule: dedup_paths.induct)
  case (1 p q ps)
  show ?case
  proof (cases "path_parts p = path_parts q")
    case False
    have "path_key p < path_key x" if "x \<in> set (dedup_paths (q # ps))" for x
    proof -
      have "path_key q \<le> path_key x" using 1(3) that dedup_sub [of "q # ps"] by auto
      moreover have "path_key p < path_key q" using 1(3) False by (auto simp: less_le path_key_eq)
      ultimately show ?thesis by simp
    qed
    then show ?thesis using 1 False by simp
  qed (use 1 in auto)
qed simp_all

lemma permission_paths_read:
  assumes "parse_absolute_permission_paths v field = Inr ps"
  shows "list_all path_is_absolute ps \<and> sorted_wrt (<) (map path_key ps) \<and>
    path_parts ` set ps = path_parts ` {p. \<exists>vs. v = Some (JArr vs) \<and> JStr p \<in> set vs}"
proof (cases v)
  case (Some j)
  then obtain vs qs where j: "j = JArr vs" and qs: "read_absolute_paths field vs = Inr qs"
    and ps: "ps = dedup_paths (sort_key path_key qs)"
    using assms by (auto simp: parse_absolute_permission_paths_def split: json.splits sum.splits)
  have "list_all path_is_absolute ps"
    using read_absolute [OF qs] dedup_sub [of "sort_key path_key qs"] ps by (auto simp: list_all_iff)
  moreover have "sorted_wrt (<) (map path_key ps)" unfolding ps by (rule dedup_strict) simp
  moreover have "path_parts ` set ps = path_parts ` {p. \<exists>vs. v = Some (JArr vs) \<and> JStr p \<in> set vs}"
    using read_absolute [OF qs] Some j by (auto simp: ps dedup_set)
  ultimately show ?thesis by blast
qed (use assms in \<open>simp add: parse_absolute_permission_paths_def\<close>)

text \<open>
  Additional permissions that are accepted ask for something, and each of their lists holds
  exactly the paths that were asked for, all absolute, each once and in order.
\<close>

theorem additional_permissions_normal:
  assumes "sandbox_permission_request_from_input v = Inr (AdditionalPermissions p)"
  shows "(so_network p \<or> so_read p \<noteq> [] \<or> so_write p \<noteq> []) \<and>
    list_all path_is_absolute (so_read p @ so_write p) \<and>
    sorted_wrt (<) (map path_key (so_read p)) \<and> sorted_wrt (<) (map path_key (so_write p)) \<and>
    (\<exists>kvs files. json_get v ''additional_permissions'' = Some (JObj kvs) \<and>
       files = (case map_of kvs ''file_system'' of Some f \<Rightarrow> f | None \<Rightarrow> JObj []) \<and>
       path_parts ` set (so_read p) = path_parts ` {q. \<exists>vs. json_get files ''read'' = Some (JArr vs) \<and> JStr q \<in> set vs} \<and>
       path_parts ` set (so_write p) = path_parts ` {q. \<exists>vs. json_get files ''write'' = Some (JArr vs) \<and> JStr q \<in> set vs})"
proof -
  obtain a where a: "json_get v ''additional_permissions'' = Some a" "parse_additional_sandbox_permissions a = Inr p"
    and some: "so_network p \<or> so_read p \<noteq> [] \<or> so_write p \<noteq> []"
    using assms by (auto simp: sandbox_permission_request_from_input_def Let_def split: if_splits option.splits sum.splits)
  obtain kvs where kvs: "a = JObj kvs"
    using a(2) by (cases a) (auto simp: parse_additional_sandbox_permissions_def)
  have fs: "parse_file_system (map_of kvs ''file_system'') = Inr (so_read p, so_write p)"
    using a(2) kvs by (auto simp: parse_additional_sandbox_permissions_def split: if_splits sum.splits)
  let ?files = "case map_of kvs ''file_system'' of Some f \<Rightarrow> f | None \<Rightarrow> JObj []"
  have "\<exists>f1 f2. parse_absolute_permission_paths (json_get ?files ''read'') f1 = Inr (so_read p) \<and>
      parse_absolute_permission_paths (json_get ?files ''write'') f2 = Inr (so_write p)"
    using fs by (auto simp: parse_file_system_def parse_absolute_permission_paths_def [of None]
        split: option.splits json.splits if_splits sum.splits)
  then obtain f1 f2 where "parse_absolute_permission_paths (json_get ?files ''read'') f1 = Inr (so_read p)"
    "parse_absolute_permission_paths (json_get ?files ''write'') f2 = Inr (so_write p)" by blast
  then show ?thesis using some a(1) kvs permission_paths_read by (intro conjI exI [of _ kvs] exI [of _ ?files]) auto
qed

theorem additional_permissions_normal_witness:
  "so_read (\<lparr>so_network = False, so_read = [''/a'', ''/b''], so_write = []\<rparr>) \<noteq> [] \<and>
   sorted_wrt (<) (map path_key [''/a'', ''/b''])"
proof -
  have "sandbox_permission_request_from_input
      (JObj [(''additional_permissions'', JObj [(''file_system'', JObj [(''read'', JArr [JStr ''/b'', JStr ''/a'', JStr ''/b/''])])])]) =
      Inr (AdditionalPermissions \<lparr>so_network = False, so_read = [''/a'', ''/b''], so_write = []\<rparr>)"
    by code_simp
  from additional_permissions_normal [OF this] show ?thesis by simp
qed

end
