(* ===== verification/Approvals.thy ===== *)
theory Approvals
  imports Tool_Permissions Exec_Policy
begin

text \<open>
  Approvals (\<open>server/src/runtime/approval.rs\<close>, \<open>session_actor/approval_scope.rs\<close>,
  \<open>server/src/approval_reviewer.rs\<close>, \<open>server/src/json_extract.rs\<close>): what the user grants is kept in two caches, one for the
  session and one for the turn; a tool call is authorised by the mode, the caches, the policy, the
  reviewer or the user, in this order.

  Parameters are the split into words, the grammar and file system behind the shell analysis, which
  paths are directories, the plain commands of a script, JSON with its repair, and the answers
  of hooks, reviewer and user. The platform is not Windows. Messages, persisted items and the
  delivery of credentials to a kernel are left out.
\<close>

section \<open>Paths\<close>

fun permission_path_step :: "component list \<Rightarrow> component \<Rightarrow> component list" where
  "permission_path_step cs CurDir = cs"
| "permission_path_step cs ParentDir = (case pop_component cs of Some cs' \<Rightarrow> cs' | None \<Rightarrow> cs @ [ParentDir])"
| "permission_path_step cs RootDir = [RootDir]"
| "permission_path_step cs (Normal n) = cs @ [Normal n]"

text \<open>Paths are equal when their components are.\<close>

definition normalize_permission_path :: "component list \<Rightarrow> component list" where
  "normalize_permission_path cs = foldl permission_path_step [] cs"

definition path_prefix_grant_root :: "(string \<Rightarrow> bool) \<Rightarrow> string \<Rightarrow> string" where
  "path_prefix_grant_root is_dir p =
     (if is_dir p then p else case path_parent p of None \<Rightarrow> p | Some q \<Rightarrow> q)"

definition path_matches_any_prefix :: "string \<Rightarrow> component list set \<Rightarrow> bool" where
  "path_matches_any_prefix p qs \<longleftrightarrow>
     (\<exists>q\<in>qs. prefix (normalize_permission_path q) (normalize_permission_path (path_parts p)))"

section \<open>The caches\<close>

type_synonym bypass_key = "string \<times> component list \<times> string"

record approval_cache =
  ac_tools :: "string set"
  ac_hosts :: "string set"
  ac_read_prefixes :: "component list set"
  ac_write_prefixes :: "component list set"
  ac_read_exact :: "component list set"
  ac_write_exact :: "component list set"
  ac_command_prefixes :: "string list set"
  ac_command_patterns :: "string list set"
  ac_exact_commands :: "(string \<times> component list) set"
  ac_bypass :: "bypass_key set"

definition empty_cache :: approval_cache where
  "empty_cache =
     \<lparr>ac_tools = {}, ac_hosts = {}, ac_read_prefixes = {}, ac_write_prefixes = {}, ac_read_exact = {},
      ac_write_exact = {}, ac_command_prefixes = {}, ac_command_patterns = {}, ac_exact_commands = {}, ac_bypass = {}\<rparr>"

record pending_approval =
  pa_tool :: string
  pa_resource :: "resource_kind option"
  pa_path :: "string option"
  pa_host :: "string option"
  pa_prefix :: "string list option"
  pa_pattern :: "string list option"
  pa_escalates :: bool
  pa_command :: "string option"
  pa_cwd :: string
  pa_key :: string

definition pending_of :: "json_lib \<Rightarrow> tool_request \<Rightarrow> pending_approval" where
  "pending_of L r =
     \<lparr>pa_tool = tr_tool r, pa_resource = Some (tr_resource r), pa_path = tr_path r, pa_host = tr_host r,
      pa_prefix = tr_prefix r, pa_pattern = tr_pattern r, pa_escalates = requests_escalation (tr_sandbox r),
      pa_command = command_str_for_permission_request r, pa_cwd = tr_cwd r,
      pa_key = sandbox_permission_cache_key_from_input L (tr_input r)\<rparr>"

definition sandbox_bypass_key_from_pending :: "pending_approval \<Rightarrow> bypass_key option" where
  "sandbox_bypass_key_from_pending p = map_option (\<lambda>c. (c, path_parts (pa_cwd p), pa_key p)) (pa_command p)"

definition sandbox_bypass_key_from_request :: "json_lib \<Rightarrow> tool_request \<Rightarrow> bypass_key option" where
  "sandbox_bypass_key_from_request L r =
     map_option (\<lambda>c. (c, path_parts (tr_cwd r), sandbox_permission_cache_key_from_input L (tr_input r)))
       (command_str_for_permission_request r)"

definition insert_exact_file_path_grant :: "resource_kind option \<Rightarrow> string \<Rightarrow> approval_cache \<Rightarrow> approval_cache" where
  "insert_exact_file_path_grant res p c =
     (let g = normalize_permission_path (path_parts p) in
      if res = Some ResFileWrite then c\<lparr>ac_write_exact := insert g (ac_write_exact c)\<rparr>
      else c\<lparr>ac_read_exact := insert g (ac_read_exact c)\<rparr>)"

definition insert_path_prefix_grant :: "(string \<Rightarrow> bool) \<Rightarrow> resource_kind option \<Rightarrow> string \<Rightarrow> approval_cache \<Rightarrow> approval_cache" where
  "insert_path_prefix_grant is_dir res p c =
     (let g = path_parts (path_prefix_grant_root is_dir p) in
      if res = Some ResFileWrite then c\<lparr>ac_write_prefixes := insert g (ac_write_prefixes c)\<rparr>
      else c\<lparr>ac_read_prefixes := insert g (ac_read_prefixes c)\<rparr>)"

definition insert_option :: "'a option \<Rightarrow> 'a set \<Rightarrow> 'a set" where
  "insert_option x S = (case x of None \<Rightarrow> S | Some a \<Rightarrow> insert a S)"

definition session_grant :: "pending_approval \<Rightarrow> approval_cache \<Rightarrow> approval_cache" where
  "session_grant p c =
     (case pa_command p of
        Some cmd \<Rightarrow> c\<lparr>ac_exact_commands := insert (cmd, path_parts (pa_cwd p)) (ac_exact_commands c)\<rparr>
      | None \<Rightarrow>
          (case pa_pattern p of
             Some pt \<Rightarrow> c\<lparr>ac_command_patterns := insert pt (ac_command_patterns c)\<rparr>
           | None \<Rightarrow>
               (case pa_path p of
                  Some q \<Rightarrow> insert_exact_file_path_grant (pa_resource p) q c
                | None \<Rightarrow> c\<lparr>ac_tools := insert (pa_tool p) (ac_tools c)\<rparr>)))"

text \<open>The caches of the session and of the turn after an approval.\<close>

definition apply_scope :: "(string \<Rightarrow> bool) \<Rightarrow> approval_scope \<Rightarrow> pending_approval \<Rightarrow>
    approval_cache \<times> approval_cache \<Rightarrow> approval_cache \<times> approval_cache" where
  "apply_scope is_dir scope p caches =
     (case caches of (s, t) \<Rightarrow>
        (case scope of
           ScopeOnce \<Rightarrow> (s, t)
         | ScopeTurn \<Rightarrow> (s, t\<lparr>ac_tools := insert (pa_tool p) (ac_tools t)\<rparr>)
         | ScopeSession \<Rightarrow> (session_grant p s, t)
         | ScopePathPrefix \<Rightarrow>
             ((case pa_path p of None \<Rightarrow> s | Some q \<Rightarrow> insert_path_prefix_grant is_dir (pa_resource p) q s), t)
         | ScopePathPrefixPersist \<Rightarrow>
             ((case pa_path p of None \<Rightarrow> s | Some q \<Rightarrow> insert_path_prefix_grant is_dir (pa_resource p) q s), t)
         | ScopeHost \<Rightarrow> (s\<lparr>ac_hosts := insert_option (pa_host p) (ac_hosts s)\<rparr>, t)
         | ScopeHostPersist \<Rightarrow> (s\<lparr>ac_hosts := insert_option (pa_host p) (ac_hosts s)\<rparr>, t)
         | ScopeTool \<Rightarrow> (s, t\<lparr>ac_tools := insert (pa_tool p) (ac_tools t)\<rparr>)
         | ScopeCommandPrefix \<Rightarrow> (s\<lparr>ac_command_prefixes := insert_option (pa_prefix p) (ac_command_prefixes s)\<rparr>, t)
         | ScopeCommandPrefixPersist \<Rightarrow>
             (s\<lparr>ac_command_prefixes := insert_option (pa_prefix p) (ac_command_prefixes s)\<rparr>, t)))"

definition apply_approval_scope_to_state :: "(string \<Rightarrow> bool) \<Rightarrow> approval_scope \<Rightarrow> pending_approval \<Rightarrow>
    approval_cache \<times> approval_cache \<Rightarrow> approval_cache \<times> approval_cache" where
  "apply_approval_scope_to_state is_dir scope p caches =
     (case apply_scope is_dir scope p caches of (s, t) \<Rightarrow>
        if pa_escalates p \<and> scope = ScopeSession
        then (s\<lparr>ac_bypass := insert_option (sandbox_bypass_key_from_pending p) (ac_bypass s)\<rparr>, t) else (s, t))"

definition permission_cache_matches :: "approval_cache \<Rightarrow> tool_request \<Rightarrow> bool" where
  "permission_cache_matches c r \<longleftrightarrow>
     tr_tool r \<in> ac_tools c \<or>
     (case tr_host r of None \<Rightarrow> False | Some h \<Rightarrow> h \<in> ac_hosts c) \<or>
     (case command_str_for_permission_request r of
        None \<Rightarrow> False | Some cmd \<Rightarrow> (cmd, path_parts (tr_cwd r)) \<in> ac_exact_commands c) \<or>
     (case tr_path r of
        None \<Rightarrow> False
      | Some p \<Rightarrow>
          (case tr_resource r of
             ResFileWrite \<Rightarrow> normalize_permission_path (path_parts p) \<in> ac_write_exact c
           | ResFileRead \<Rightarrow> normalize_permission_path (path_parts p) \<in> ac_read_exact c
           | _ \<Rightarrow> False) \<or>
          path_matches_any_prefix p (if tr_resource r = ResFileWrite then ac_write_prefixes c else ac_read_prefixes c)) \<or>
     (case tr_prefix r of None \<Rightarrow> False | Some cp \<Rightarrow> (\<exists>q\<in>ac_command_prefixes c. prefix q cp)) \<or>
     (case tr_argv r of None \<Rightarrow> False | Some argv \<Rightarrow> (\<exists>pt\<in>ac_command_patterns c. command_pattern_matches pt argv))"

definition cache_grant :: "json_lib \<Rightarrow> approval_cache \<Rightarrow> tool_request \<Rightarrow> permission_grant option" where
  "cache_grant L c r =
     (if requests_escalation (tr_sandbox r) then
        (case sandbox_bypass_key_from_request L r of
           None \<Rightarrow> None
         | Some k \<Rightarrow> (if k \<in> ac_bypass c then Some (grant_from_approval (tr_sandbox r)) else None))
      else if permission_cache_matches c r then Some (grant_from_approval SandboxDefault) else None)"

definition session_cache_grant :: "json_lib \<Rightarrow> approval_cache \<times> approval_cache \<Rightarrow> tool_request \<Rightarrow> permission_grant option" where
  "session_cache_grant L caches r =
     (case cache_grant L (fst caches) r of Some g \<Rightarrow> Some g | None \<Rightarrow> cache_grant L (snd caches) r)"

section \<open>Permission profiles\<close>

datatype permission_preset = PresetDefault | PresetAutoReview | PresetFullAccess

record runtime_profile =
  pp_preset :: permission_preset
  pp_auto_review :: bool
  pp_readable :: "string list"
  pp_writable :: "string list"
  pp_shell :: bool
  pp_network :: bool
  pp_yolo :: bool

definition profile_from_preset :: "permission_preset \<Rightarrow> string \<Rightarrow> runtime_profile" where
  "profile_from_preset preset workspace =
     \<lparr>pp_preset = preset, pp_auto_review = (preset = PresetAutoReview), pp_readable = [workspace],
      pp_writable = (if preset = PresetFullAccess then [] else [workspace]), pp_shell = True,
      pp_network = (preset = PresetFullAccess), pp_yolo = (preset = PresetFullAccess)\<rparr>"

text \<open>The roots form a set; here a list in the order of insertion.\<close>

definition insert_root :: "string \<Rightarrow> string list \<Rightarrow> string list" where
  "insert_root p ps = (if path_parts p \<in> path_parts ` set ps then ps else ps @ [p])"

definition grant_writable_root :: "string \<Rightarrow> runtime_profile \<Rightarrow> runtime_profile" where
  "grant_writable_root p f = f\<lparr>pp_readable := insert_root p (pp_readable f), pp_writable := insert_root p (pp_writable f)\<rparr>"

definition grant_readable_root :: "string \<Rightarrow> runtime_profile \<Rightarrow> runtime_profile" where
  "grant_readable_root p f = f\<lparr>pp_readable := insert_root p (pp_readable f)\<rparr>"

definition apply_path_scope_to_permission_profile :: "(string \<Rightarrow> bool) \<Rightarrow> approval_scope \<Rightarrow> pending_approval \<Rightarrow>
    runtime_profile \<Rightarrow> runtime_profile" where
  "apply_path_scope_to_permission_profile is_dir scope p f =
     (if scope \<notin> {ScopePathPrefix, ScopePathPrefixPersist} then f
      else case pa_path p of
             None \<Rightarrow> f
           | Some q \<Rightarrow>
               (let g = path_prefix_grant_root is_dir q in
                if pa_resource p = Some ResFileWrite then grant_writable_root g f else grant_readable_root g f))"

datatype credential_access = CredentialRead | CredentialWrite

definition credential_delivery_root :: "(string \<Rightarrow> bool) \<Rightarrow> approval_scope \<Rightarrow> pending_approval \<Rightarrow>
    (string \<times> credential_access) option" where
  "credential_delivery_root is_dir scope p =
     (if scope \<notin> {ScopePathPrefix, ScopePathPrefixPersist} then None
      else case (if pa_resource p = Some ResFileWrite then Some CredentialWrite
                 else if pa_resource p = Some ResFileRead then Some CredentialRead else None) of
             None \<Rightarrow> None
           | Some a \<Rightarrow> map_option (\<lambda>q. (path_prefix_grant_root is_dir q, a)) (pa_path p))"

section \<open>The caches hold what was approved\<close>

text \<open>
  What one approval covers: \<open>covers_session\<close> for the rest of the conversation, \<open>covers_turn\<close> for the
  rest of the turn.
\<close>

definition below :: "string \<Rightarrow> string \<Rightarrow> bool" where
  "below root p \<longleftrightarrow>
     prefix (normalize_permission_path (path_parts root)) (normalize_permission_path (path_parts p))"

definition same_file :: "string \<Rightarrow> string \<Rightarrow> bool" where
  "same_file p q \<longleftrightarrow> normalize_permission_path (path_parts p) = normalize_permission_path (path_parts q)"

definition covers_session :: "(string \<Rightarrow> bool) \<Rightarrow> approval_scope \<Rightarrow> pending_approval \<Rightarrow> tool_request \<Rightarrow> bool" where
  "covers_session is_dir scope p r \<longleftrightarrow>
     (case scope of
        ScopeSession \<Rightarrow>
          (case pa_command p of
             Some cmd \<Rightarrow> command_str_for_permission_request r = Some cmd \<and> path_parts (tr_cwd r) = path_parts (pa_cwd p)
           | None \<Rightarrow>
               (case pa_pattern p of
                  Some pt \<Rightarrow> (\<exists>argv. tr_argv r = Some argv \<and> command_pattern_matches pt argv)
                | None \<Rightarrow>
                    (case pa_path p of
                       Some q \<Rightarrow>
                         (\<exists>f. tr_path r = Some f \<and> same_file q f) \<and> tr_resource r \<in> {ResFileRead, ResFileWrite} \<and>
                         (pa_resource p = Some ResFileWrite \<longleftrightarrow> tr_resource r = ResFileWrite)
                     | None \<Rightarrow> tr_tool r = pa_tool p)))
      | _ \<Rightarrow>
          (if scope \<in> {ScopePathPrefix, ScopePathPrefixPersist} then
             (\<exists>q f. pa_path p = Some q \<and> tr_path r = Some f \<and> below (path_prefix_grant_root is_dir q) f) \<and>
             (pa_resource p = Some ResFileWrite \<longleftrightarrow> tr_resource r = ResFileWrite)
           else if scope \<in> {ScopeHost, ScopeHostPersist} then pa_host p \<noteq> None \<and> tr_host r = pa_host p
           else if scope \<in> {ScopeCommandPrefix, ScopeCommandPrefixPersist} then
             (\<exists>q cp. pa_prefix p = Some q \<and> tr_prefix r = Some cp \<and> prefix q cp)
           else False))"

definition covers_turn :: "approval_scope \<Rightarrow> pending_approval \<Rightarrow> tool_request \<Rightarrow> bool" where
  "covers_turn scope p r \<longleftrightarrow> scope \<in> {ScopeTurn, ScopeTool} \<and> tr_tool r = pa_tool p"

lemma permission_cache_matches_iff:
  "permission_cache_matches c r \<longleftrightarrow>
     tr_tool r \<in> ac_tools c \<or>
     (\<exists>h. tr_host r = Some h \<and> h \<in> ac_hosts c) \<or>
     (\<exists>cmd. command_str_for_permission_request r = Some cmd \<and> (cmd, path_parts (tr_cwd r)) \<in> ac_exact_commands c) \<or>
     (\<exists>p. tr_path r = Some p \<and>
        (tr_resource r = ResFileWrite \<and>
           (normalize_permission_path (path_parts p) \<in> ac_write_exact c \<or> path_matches_any_prefix p (ac_write_prefixes c)) \<or>
         tr_resource r = ResFileRead \<and> normalize_permission_path (path_parts p) \<in> ac_read_exact c \<or>
         tr_resource r \<noteq> ResFileWrite \<and> path_matches_any_prefix p (ac_read_prefixes c))) \<or>
     (\<exists>cp. tr_prefix r = Some cp \<and> (\<exists>q\<in>ac_command_prefixes c. prefix q cp)) \<or>
     (\<exists>argv. tr_argv r = Some argv \<and> (\<exists>pt\<in>ac_command_patterns c. command_pattern_matches pt argv))"
  by (auto simp: permission_cache_matches_def split: option.splits resource_kind.splits)

lemma match_tools: "permission_cache_matches (c\<lparr>ac_tools := insert x (ac_tools c)\<rparr>) r \<longleftrightarrow>
    permission_cache_matches c r \<or> tr_tool r = x"
  by (simp add: permission_cache_matches_iff) blast

lemma match_hosts: "permission_cache_matches (c\<lparr>ac_hosts := insert x (ac_hosts c)\<rparr>) r \<longleftrightarrow>
    permission_cache_matches c r \<or> tr_host r = Some x"
  by (simp add: permission_cache_matches_iff) blast

lemma match_commands: "permission_cache_matches (c\<lparr>ac_exact_commands := insert x (ac_exact_commands c)\<rparr>) r \<longleftrightarrow>
    permission_cache_matches c r \<or> (command_str_for_permission_request r = Some (fst x) \<and> path_parts (tr_cwd r) = snd x)"
  by (cases x; simp add: permission_cache_matches_iff) blast

lemma match_command_prefixes:
  "permission_cache_matches (c\<lparr>ac_command_prefixes := insert x (ac_command_prefixes c)\<rparr>) r \<longleftrightarrow>
     permission_cache_matches c r \<or> (\<exists>cp. tr_prefix r = Some cp \<and> prefix x cp)"
  by (simp add: permission_cache_matches_iff) blast

lemma match_command_patterns:
  "permission_cache_matches (c\<lparr>ac_command_patterns := insert x (ac_command_patterns c)\<rparr>) r \<longleftrightarrow>
     permission_cache_matches c r \<or> (\<exists>argv. tr_argv r = Some argv \<and> command_pattern_matches x argv)"
  by (simp add: permission_cache_matches_iff) blast

lemma match_write_exact:
  "permission_cache_matches (c\<lparr>ac_write_exact := insert x (ac_write_exact c)\<rparr>) r \<longleftrightarrow>
     permission_cache_matches c r \<or>
     (\<exists>f. tr_path r = Some f \<and> tr_resource r = ResFileWrite \<and> normalize_permission_path (path_parts f) = x)"
  by (simp add: permission_cache_matches_iff) blast

lemma match_read_exact:
  "permission_cache_matches (c\<lparr>ac_read_exact := insert x (ac_read_exact c)\<rparr>) r \<longleftrightarrow>
     permission_cache_matches c r \<or>
     (\<exists>f. tr_path r = Some f \<and> tr_resource r = ResFileRead \<and> normalize_permission_path (path_parts f) = x)"
  by (simp add: permission_cache_matches_iff) blast

lemma matches_insert:
  "path_matches_any_prefix p (insert q qs) \<longleftrightarrow>
     prefix (normalize_permission_path q) (normalize_permission_path (path_parts p)) \<or> path_matches_any_prefix p qs"
  by (simp add: path_matches_any_prefix_def)

lemma match_write_prefixes:
  "permission_cache_matches (c\<lparr>ac_write_prefixes := insert x (ac_write_prefixes c)\<rparr>) r \<longleftrightarrow>
     permission_cache_matches c r \<or>
     (\<exists>f. tr_path r = Some f \<and> tr_resource r = ResFileWrite \<and>
        prefix (normalize_permission_path x) (normalize_permission_path (path_parts f)))"
  by (simp add: permission_cache_matches_iff matches_insert) blast

lemma match_read_prefixes:
  "permission_cache_matches (c\<lparr>ac_read_prefixes := insert x (ac_read_prefixes c)\<rparr>) r \<longleftrightarrow>
     permission_cache_matches c r \<or>
     (\<exists>f. tr_path r = Some f \<and> tr_resource r \<noteq> ResFileWrite \<and>
        prefix (normalize_permission_path x) (normalize_permission_path (path_parts f)))"
  by (simp add: permission_cache_matches_iff matches_insert) blast

lemma match_bypass: "permission_cache_matches (c\<lparr>ac_bypass := b\<rparr>) r = permission_cache_matches c r"
  by (simp add: permission_cache_matches_iff)

lemmas match_updates =
  match_tools match_hosts match_commands match_command_prefixes match_command_patterns
  match_write_exact match_read_exact match_write_prefixes match_read_prefixes match_bypass

lemma session_grant_matches:
  "permission_cache_matches (session_grant p s) r \<longleftrightarrow>
     permission_cache_matches s r \<or> covers_session is_dir ScopeSession p r"
  by (cases "pa_command p"; cases "pa_pattern p"; cases "pa_path p"; cases "pa_resource p = Some ResFileWrite")
    (auto simp: match_updates same_file_def session_grant_def covers_session_def insert_exact_file_path_grant_def)

lemma path_prefix_grant_matches:
  "permission_cache_matches (insert_path_prefix_grant is_dir res q s) r \<longleftrightarrow>
     permission_cache_matches s r \<or>
     (\<exists>f. tr_path r = Some f \<and> below (path_prefix_grant_root is_dir q) f) \<and>
     (res = Some ResFileWrite \<longleftrightarrow> tr_resource r = ResFileWrite)"
  by (cases "res = Some ResFileWrite") (auto simp: insert_path_prefix_grant_def match_updates below_def)

lemma apply_scope_session:
  "permission_cache_matches (fst (apply_scope is_dir scope p (s, t))) r \<longleftrightarrow>
     permission_cache_matches s r \<or> covers_session is_dir scope p r"
  by (cases scope; cases "pa_path p"; cases "pa_host p"; cases "pa_prefix p")
    (auto simp: apply_scope_def session_grant_matches [of p s r is_dir] path_prefix_grant_matches match_updates
       insert_option_def covers_session_def)

lemma apply_scope_turn:
  "permission_cache_matches (snd (apply_scope is_dir scope p (s, t))) r \<longleftrightarrow>
     permission_cache_matches t r \<or> covers_turn scope p r"
  by (cases scope) (auto simp: apply_scope_def match_updates covers_turn_def)

lemma apply_approval_matches:
  "permission_cache_matches (fst (apply_approval_scope_to_state is_dir scope p caches)) r \<longleftrightarrow>
     permission_cache_matches (fst caches) r \<or> covers_session is_dir scope p r"
  "permission_cache_matches (snd (apply_approval_scope_to_state is_dir scope p caches)) r \<longleftrightarrow>
     permission_cache_matches (snd caches) r \<or> covers_turn scope p r"
  using apply_scope_session [of is_dir scope p "fst caches" "snd caches" r]
    apply_scope_turn [of is_dir scope p "fst caches" "snd caches" r]
  by (auto simp: apply_approval_scope_to_state_def match_bypass split: prod.splits if_splits)

lemma empty_cache_matches [simp]: "\<not> permission_cache_matches empty_cache r"
  by (simp add: permission_cache_matches_iff path_matches_any_prefix_def empty_cache_def)

section \<open>A conversation\<close>

text \<open>
  The events that change the caches: an approval of a scope, the start of a turn, which forgets what
  was approved for the turn before (\<open>runtime/turn_exec/mod.rs\<close>), and a change of the permission
  profile, which forgets everything (\<open>session_actor/actor_loop.rs\<close>).
\<close>

datatype approval_event = Approve approval_scope pending_approval | NewTurn | NewProfile

fun approval_step :: "(string \<Rightarrow> bool) \<Rightarrow> approval_cache \<times> approval_cache \<Rightarrow> approval_event \<Rightarrow>
    approval_cache \<times> approval_cache" where
  "approval_step is_dir caches (Approve scope p) = apply_approval_scope_to_state is_dir scope p caches"
| "approval_step is_dir (s, t) NewTurn = (s, empty_cache)"
| "approval_step is_dir caches NewProfile = (empty_cache, empty_cache)"

definition approval_run :: "(string \<Rightarrow> bool) \<Rightarrow> approval_event list \<Rightarrow> approval_cache \<times> approval_cache" where
  "approval_run is_dir es = foldl (approval_step is_dir) (empty_cache, empty_cache) es"

text \<open>The approvals in force, from the log alone: those since the last change of profile, or of turn.\<close>

definition since :: "approval_event set \<Rightarrow> approval_event list \<Rightarrow> (approval_scope \<times> pending_approval) set" where
  "since resets es = {(scope, p). Approve scope p \<in> set (takeWhile (\<lambda>e. e \<notin> resets) (rev es))}"

definition approved_as_is :: "(string \<Rightarrow> bool) \<Rightarrow> approval_event list \<Rightarrow> tool_request \<Rightarrow> bool" where
  "approved_as_is is_dir es r \<longleftrightarrow>
     (\<exists>(scope, p)\<in>since {NewProfile} es. covers_session is_dir scope p r) \<or>
     (\<exists>(scope, p)\<in>since {NewProfile, NewTurn} es. covers_turn scope p r)"

definition approved_escalated :: "json_lib \<Rightarrow> approval_event list \<Rightarrow> tool_request \<Rightarrow> bool" where
  "approved_escalated L es r \<longleftrightarrow>
     (\<exists>p. (ScopeSession, p) \<in> since {NewProfile} es \<and> pa_escalates p \<and>
        pa_command p \<noteq> None \<and> pa_command p = command_str_for_permission_request r \<and>
        path_parts (pa_cwd p) = path_parts (tr_cwd r) \<and>
        pa_key p = sandbox_permission_cache_key_from_input L (tr_input r))"

lemma approval_run_simps [simp]:
  "approval_run is_dir [] = (empty_cache, empty_cache)"
  "approval_run is_dir (es @ [e]) = approval_step is_dir (approval_run is_dir es) e"
  by (simp_all add: approval_run_def)

lemma since_simps [simp]:
  "since resets [] = {}"
  "since resets (es @ [e]) =
     (if e \<in> resets then {} else (case e of Approve scope p \<Rightarrow> insert (scope, p) | _ \<Rightarrow> id) (since resets es))"
  by (auto simp: since_def split: approval_event.splits)

lemma run_matches:
  "permission_cache_matches (fst (approval_run is_dir es)) r \<longleftrightarrow>
     (\<exists>(scope, p)\<in>since {NewProfile} es. covers_session is_dir scope p r)"
  "permission_cache_matches (snd (approval_run is_dir es)) r \<longleftrightarrow>
     (\<exists>(scope, p)\<in>since {NewProfile, NewTurn} es. covers_turn scope p r)"
proof (induction es rule: rev_induct)
  case (snoc e es)
  note IH = snoc
  case 1 show ?case using IH
    by (cases e; cases "approval_run is_dir es") (auto simp: apply_approval_matches)
next
  case (snoc e es)
  note IH = snoc
  case 2 show ?case using IH
    by (cases e; cases "approval_run is_dir es") (auto simp: apply_approval_matches)
qed simp_all

lemma apply_scope_bypass [simp]:
  "ac_bypass (fst (apply_scope is_dir scope p (s, t))) = ac_bypass s"
  "ac_bypass (snd (apply_scope is_dir scope p (s, t))) = ac_bypass t"
  by (auto simp: apply_scope_def session_grant_def insert_exact_file_path_grant_def insert_path_prefix_grant_def Let_def
      split: approval_scope.split option.split)

lemma apply_approval_bypass:
  "k \<in> ac_bypass (fst (apply_approval_scope_to_state is_dir scope p caches)) \<longleftrightarrow>
     k \<in> ac_bypass (fst caches) \<or>
     pa_escalates p \<and> scope = ScopeSession \<and> sandbox_bypass_key_from_pending p = Some k"
  "ac_bypass (snd (apply_approval_scope_to_state is_dir scope p caches)) = ac_bypass (snd caches)"
  using apply_scope_bypass [of is_dir scope p "fst caches" "snd caches"]
  by (auto simp: apply_approval_scope_to_state_def insert_option_def simp del: apply_scope_bypass
      split: prod.splits if_splits option.splits)

lemma run_bypass:
  "k \<in> ac_bypass (fst (approval_run is_dir es)) \<longleftrightarrow>
     (\<exists>p. (ScopeSession, p) \<in> since {NewProfile} es \<and> pa_escalates p \<and> sandbox_bypass_key_from_pending p = Some k)"
  "ac_bypass (snd (approval_run is_dir es)) = {}"
proof (induction es rule: rev_induct)
  case (snoc e es)
  note IH = snoc
  case 1 show ?case using IH
    by (cases e; cases "approval_run is_dir es") (auto simp: apply_approval_bypass empty_cache_def)
next
  case (snoc e es)
  note IH = snoc
  case 2 show ?case using IH
    by (cases e; cases "approval_run is_dir es") (auto simp: apply_approval_bypass empty_cache_def)
qed (simp_all add: empty_cache_def)

lemma bypass_key_approved:
  "(\<exists>k p. sandbox_bypass_key_from_request L r = Some k \<and> (ScopeSession, p) \<in> since {NewProfile} es \<and> pa_escalates p \<and>
      sandbox_bypass_key_from_pending p = Some k) \<longleftrightarrow> approved_escalated L es r"
  by (force simp: approved_escalated_def sandbox_bypass_key_from_request_def sandbox_bypass_key_from_pending_def)

lemma cache_decides:
  "session_cache_grant L (approval_run is_dir es) r =
     (if requests_escalation (tr_sandbox r)
      then (if approved_escalated L es r then Some (grant_from_approval (tr_sandbox r)) else None)
      else (if approved_as_is is_dir es r then Some (grant_from_approval SandboxDefault) else None))"
proof (cases "requests_escalation (tr_sandbox r)")
  case True
  then show ?thesis
    using bypass_key_approved [of L r es]
    by (auto simp: session_cache_grant_def cache_grant_def run_bypass split: option.splits)
next
  case False
  then show ?thesis
    by (simp add: session_cache_grant_def cache_grant_def approved_as_is_def run_matches)
qed

text \<open>
  C7: After any sequence of approvals, turns and changes of the profile the caches grant a call
  exactly when an approval that is still in force covers it: for a call that stays in the sandbox one
  of its tool in this turn, or of its command, files, host, prefix or pattern since the profile was
  last changed; for a call that asks for more than the sandbox gives, only one for the session of a
  call that asked for more, with the same command, directory and permissions.
\<close>

theorem approvals_exactly_cover:
  "session_cache_grant L (approval_run is_dir es) r =
     (if requests_escalation (tr_sandbox r)
      then (if approved_escalated L es r then Some (grant_from_approval (tr_sandbox r)) else None)
      else (if approved_as_is is_dir es r then Some (grant_from_approval SandboxDefault) else None))"
  by (rule cache_decides)

section \<open>Where granted files lie\<close>

text \<open>The names a path leads through, when no link is followed.\<close>

fun lexical_step :: "string list \<Rightarrow> component \<Rightarrow> string list" where
  "lexical_step ns RootDir = []"
| "lexical_step ns CurDir = ns"
| "lexical_step ns ParentDir = butlast ns"
| "lexical_step ns (Normal n) = ns @ [n]"

definition lexical :: "string \<Rightarrow> string list" where
  "lexical p = foldl lexical_step [] (path_parts p)"

text \<open>Above the root one step up may remain; the names after it are the lexical ones.\<close>

definition names_of :: "component list \<Rightarrow> string list \<Rightarrow> bool" where
  "names_of cs ns \<longleftrightarrow> cs = RootDir # map Normal ns \<or> cs = RootDir # ParentDir # map Normal ns"

lemma names_of_step: "names_of cs ns \<Longrightarrow> names_of (permission_path_step cs c) (lexical_step ns c)"
  by (cases c; cases ns rule: rev_cases)
    (auto simp: names_of_def pop_component_def butlast_append)

lemma names_of_normalized:
  "path_is_absolute p \<Longrightarrow> names_of (normalize_permission_path (path_parts p)) (lexical p)"
proof -
  assume "path_is_absolute p"
  then obtain cs where cs: "path_parts p = RootDir # cs"
    by (auto simp: path_is_absolute_def path_parts_def Let_def)
  have "names_of (foldl permission_path_step ds cs) (foldl lexical_step ns cs)" if "names_of ds ns" for ds ns
    using that by (induction cs arbitrary: ds ns) (auto intro: names_of_step)
  then show ?thesis by (simp add: normalize_permission_path_def lexical_def cs names_of_def)
qed

lemma prefix_Normal: "prefix (map Normal ms) (map Normal ns) \<longleftrightarrow> prefix ms ns"
proof (induction ms arbitrary: ns)
  case (Cons m ms)
  then show ?case by (cases ns) auto
qed simp

lemma prefix_lexical:
  "\<lbrakk>path_is_absolute p; path_is_absolute q;
    prefix (normalize_permission_path (path_parts q)) (normalize_permission_path (path_parts p))\<rbrakk>
   \<Longrightarrow> prefix (lexical q) (lexical p)"
  using names_of_normalized [of p] names_of_normalized [of q]
  by (cases "lexical q"; cases "lexical p") (auto simp: names_of_def prefix_Normal)

lemma same_lexical:
  "\<lbrakk>path_is_absolute p; path_is_absolute q;
    normalize_permission_path (path_parts q) = normalize_permission_path (path_parts p)\<rbrakk>
   \<Longrightarrow> lexical q = lexical p"
  using prefix_lexical [of p q] prefix_lexical [of q p] by (simp add: prefix_order.eq_iff)

lemma grant_root_absolute:
  assumes "path_is_absolute p" shows "path_is_absolute (path_prefix_grant_root is_dir p)"
proof -
  obtain cs where cs: "path_parts p = RootDir # cs"
    using assms by (auto simp: path_is_absolute_def path_parts_def Let_def)
  show ?thesis using assms
    by (cases cs rule: rev_cases)
      (auto simp: path_prefix_grant_root_def path_parent_def pop_component_def cs render_components_def
         path_is_absolute_def starts_with_def butlast_append)
qed

definition path_scopes :: "approval_scope set" where
  "path_scopes = {ScopePathPrefix, ScopePathPrefixPersist}"

definition file_call :: "tool_request \<Rightarrow> string \<Rightarrow> bool" where
  "file_call r f \<longleftrightarrow>
     tr_path r = Some f \<and> path_is_absolute f \<and> tr_resource r \<in> {ResFileRead, ResFileWrite} \<and>
     \<not> requests_escalation (tr_sandbox r) \<and> tr_host r = None \<and> tr_prefix r = None \<and> tr_argv r = None \<and>
     command_str_for_permission_request r = None"

definition approves_tool :: "approval_scope \<Rightarrow> pending_approval \<Rightarrow> string \<Rightarrow> bool" where
  "approves_tool scope p t \<longleftrightarrow>
     pa_tool p = t \<and>
     (scope \<in> {ScopeTurn, ScopeTool} \<or>
      scope = ScopeSession \<and> pa_command p = None \<and> pa_pattern p = None \<and> pa_path p = None)"

lemma file_call_covered:
  assumes "covers_session is_dir scope p r" "file_call r f" "\<not> approves_tool scope p (tr_tool r)"
    "\<And>q. pa_path p = Some q \<Longrightarrow> path_is_absolute q"
  shows "(pa_resource p = Some ResFileWrite \<longleftrightarrow> tr_resource r = ResFileWrite) \<and>
    (\<exists>q. pa_path p = Some q \<and>
       (scope = ScopeSession \<and> lexical q = lexical f \<or>
        scope \<in> path_scopes \<and> prefix (lexical (path_prefix_grant_root is_dir q)) (lexical f)))"
proof (cases "scope = ScopeSession")
  case True
  then show ?thesis using assms
    by (auto simp: covers_session_def file_call_def same_file_def approves_tool_def intro!: same_lexical split: option.splits)
next
  case False
  then have "scope \<in> path_scopes" "\<exists>q. pa_path p = Some q \<and> below (path_prefix_grant_root is_dir q) f"
    "pa_resource p = Some ResFileWrite \<longleftrightarrow> tr_resource r = ResFileWrite"
    using assms(1,2)
    by (auto simp: covers_session_def file_call_def path_scopes_def split: approval_scope.splits)
  then show ?thesis using assms(2,4) prefix_lexical [OF _ grant_root_absolute]
    by (auto simp: below_def file_call_def)
qed

lemma since_subset: "(scope, p) \<in> since resets es \<Longrightarrow> Approve scope p \<in> set es"
  by (auto simp: since_def dest: set_takeWhileD)

definition absolute_paths :: "approval_event list \<Rightarrow> bool" where
  "absolute_paths es \<longleftrightarrow>
     (\<forall>scope p q. Approve scope p \<in> set es \<and> pa_path p = Some q \<longrightarrow> path_is_absolute q)"

text \<open>
  C16: A file call that the caches grant is on a file that the user approved, by name or by a directory
  at or above it, for the same kind of access, whatever dots the path has; or the user approved the
  tool itself.
\<close>

theorem granted_files_below_approved:
  assumes "session_cache_grant L (approval_run is_dir es) r \<noteq> None" "file_call r f" "absolute_paths es"
  shows "\<exists>scope p. Approve scope p \<in> set es \<and>
    (approves_tool scope p (tr_tool r) \<or>
     (pa_resource p = Some ResFileWrite \<longleftrightarrow> tr_resource r = ResFileWrite) \<and>
     (\<exists>q. pa_path p = Some q \<and>
        (scope = ScopeSession \<and> lexical q = lexical f \<or>
         scope \<in> path_scopes \<and> prefix (lexical (path_prefix_grant_root is_dir q)) (lexical f))))"
proof -
  have "approved_as_is is_dir es r"
    using assms(1,2) by (auto simp: cache_decides file_call_def split: if_splits)
  then consider scope p where "(scope, p) \<in> since {NewProfile} es" "covers_session is_dir scope p r"
    | scope p where "(scope, p) \<in> since {NewProfile, NewTurn} es" "covers_turn scope p r"
    by (auto simp: approved_as_is_def)
  then show ?thesis
  proof cases
    case 1
    then have e: "Approve scope p \<in> set es" by (blast dest: since_subset)
    have "path_is_absolute q" if "pa_path p = Some q" for q
      using assms(3) e that by (auto simp: absolute_paths_def)
    then show ?thesis
      using file_call_covered [OF 1(2) assms(2)] e by (cases "approves_tool scope p (tr_tool r)") blast+
  next
    case 2
    then show ?thesis using since_subset by (fastforce simp: covers_turn_def approves_tool_def)
  qed
qed

definition file_request :: "string \<Rightarrow> resource_kind \<Rightarrow> tool_request" where
  "file_request f res =
     \<lparr>tr_id = [], tr_tool = ''write'', tr_input = JObj [], tr_cwd = ''/w'', tr_resource = res,
      tr_justification = None, tr_path = Some f, tr_host = None, tr_target = None, tr_prefix = None,
      tr_argv = None, tr_pattern = None, tr_sandbox = SandboxDefault\<rparr>"

definition approved_directory :: "approval_event list" where
  "approved_directory = [Approve ScopePathPrefix (pending_of unary_lib (file_request ''/w/a.txt'' ResFileWrite))]"

theorem granted_files_below_approved_witness:
  "\<exists>p. Approve ScopePathPrefix p \<in> set approved_directory \<and>
     prefix (lexical (path_prefix_grant_root (\<lambda>_. False) ''/w/a.txt'')) (lexical ''/w/b/../c.txt'')"
proof -
  let ?r = "file_request ''/w/b/../c.txt'' ResFileWrite"
  have call: "file_call ?r ''/w/b/../c.txt''"
    by (simp add: file_call_def file_request_def requests_escalation_def path_is_absolute_def starts_with_def
        command_str_for_permission_request_def command_str_for_tool_input_def)
  have paths: "absolute_paths approved_directory"
    by (simp add: absolute_paths_def approved_directory_def pending_of_def file_request_def path_is_absolute_def
        starts_with_def)
  have norm: "prefix (normalize_permission_path (path_parts (path_prefix_grant_root (\<lambda>_. False) ''/w/a.txt'')))
      (normalize_permission_path (path_parts ''/w/b/../c.txt''))" by code_simp
  have "since {NewProfile} approved_directory =
      {(ScopePathPrefix, pending_of unary_lib (file_request ''/w/a.txt'' ResFileWrite))}"
    by (auto simp: since_def approved_directory_def)
  then have "approved_as_is (\<lambda>_. False) approved_directory ?r"
    using norm
    by (simp add: approved_as_is_def covers_session_def pending_of_def file_request_def below_def)
  then have "session_cache_grant unary_lib (approval_run (\<lambda>_. False) approved_directory) ?r \<noteq> None"
    by (simp add: cache_decides file_request_def requests_escalation_def)
  from granted_files_below_approved [OF this call paths] show ?thesis
    by (auto simp: approved_directory_def pending_of_def file_request_def approves_tool_def path_scopes_def)
qed

section \<open>Escalated permissions\<close>

definition well_read :: "tool_request \<Rightarrow> bool" where
  "well_read r \<longleftrightarrow> sandbox_permission_request_from_input (tr_input r) = Inr (tr_sandbox r)"

lemma requests_well_read:
  "permission_request_for_call split specs cwd i tool input = Inr (Some r) \<Longrightarrow> well_read r"
  by (auto simp: permission_request_for_call_def well_read_def Let_def split: option.splits if_splits sum.splits)

definition pending_log :: "json_lib \<Rightarrow> approval_event list \<Rightarrow> bool" where
  "pending_log L es \<longleftrightarrow> (\<forall>scope p. Approve scope p \<in> set es \<longrightarrow> (\<exists>q. well_read q \<and> p = pending_of L q))"

text \<open>
  C14: More than the sandbox gives is granted from the caches only after the user approved, for the
  session, a call that asked for the very same permissions, with the same command in the same
  directory; and what is granted is what that call asked for.
\<close>

theorem escalation_needs_same_permissions:
  assumes "\<forall>v. lib_parse L (lib_print L v) = Inr v"
    and "lib_parse L ''default'' \<notin> range Inr" "lib_parse L ''full_escalation'' \<notin> range Inr"
    and "pending_log L es" "well_read r" "requests_escalation (tr_sandbox r)"
    and "session_cache_grant L (approval_run is_dir es) r = Some g"
  shows "\<exists>q. Approve ScopeSession (pending_of L q) \<in> set es \<and> tr_sandbox q = tr_sandbox r \<and>
    command_str_for_permission_request q = command_str_for_permission_request r \<and>
    command_str_for_permission_request r \<noteq> None \<and> path_parts (tr_cwd q) = path_parts (tr_cwd r) \<and>
    g = grant_from_approval (tr_sandbox q)"
proof -
  have "approved_escalated L es r" "g = grant_from_approval (tr_sandbox r)"
    using assms(6,7) by (auto simp: cache_decides split: if_splits)
  then obtain p where p: "(ScopeSession, p) \<in> since {NewProfile} es" "pa_command p \<noteq> None"
      "pa_command p = command_str_for_permission_request r" "path_parts (pa_cwd p) = path_parts (tr_cwd r)"
      "pa_key p = sandbox_permission_cache_key_from_input L (tr_input r)"
    by (auto simp: approved_escalated_def)
  have e: "Approve ScopeSession p \<in> set es" using p(1) by (rule since_subset)
  then obtain q where q: "well_read q" "p = pending_of L q" using assms(4) by (auto simp: pending_log_def)
  have "tr_sandbox q = tr_sandbox r"
    using same_key_same_permissions [OF assms(1-3), of "tr_input q" "tr_sandbox q" "tr_input r" "tr_sandbox r"]
      q p(5) assms(5) by (simp add: well_read_def pending_of_def)
  moreover have "Approve ScopeSession (pending_of L q) \<in> set es" using e q by simp
  ultimately show ?thesis using p(2-4) q(2) \<open>g = _\<close> by (intro exI [of _ q]) (auto simp: pending_of_def)
qed

definition escalated_request :: tool_request where
  "escalated_request =
     \<lparr>tr_id = [], tr_tool = ''bash'', tr_input = escalated_input, tr_cwd = ''/w'', tr_resource = ResShellExec,
      tr_justification = None, tr_path = None, tr_host = None, tr_target = Some ''make'', tr_prefix = None,
      tr_argv = None, tr_pattern = None, tr_sandbox = FullEscalation\<rparr>"

definition approved_escalation :: "approval_event list" where
  "approved_escalation = [Approve ScopeSession (pending_of unary_lib escalated_request)]"

theorem escalation_needs_same_permissions_witness:
  "\<exists>q. Approve ScopeSession (pending_of unary_lib q) \<in> set approved_escalation \<and> tr_sandbox q = FullEscalation"
proof -
  have read: "well_read escalated_request"
    by (simp add: well_read_def escalated_request_def escalated_input_def sandbox_permission_request_from_input_def
        sandbox_permissions_from_input_def)
  have log: "pending_log unary_lib approved_escalation"
    using read by (auto simp: pending_log_def approved_escalation_def)
  have "since {NewProfile} approved_escalation = {(ScopeSession, pending_of unary_lib escalated_request)}"
    by (auto simp: since_def approved_escalation_def)
  then have "approved_escalated unary_lib approved_escalation escalated_request"
    by (simp add: approved_escalated_def pending_of_def requests_escalation_def escalated_request_def
        command_str_for_permission_request_def)
  then have "session_cache_grant unary_lib (approval_run (\<lambda>_. False) approved_escalation) escalated_request =
      Some (grant_from_approval FullEscalation)"
    by (simp add: cache_decides escalated_request_def requests_escalation_def)
  moreover have "lib_parse unary_lib ''default'' \<notin> range Inr" "lib_parse unary_lib ''full_escalation'' \<notin> range Inr"
    by (auto simp: unary_lib_def)
  moreover have "requests_escalation (tr_sandbox escalated_request)" "tr_sandbox escalated_request = FullEscalation"
    by (simp_all add: escalated_request_def requests_escalation_def)
  ultimately show ?thesis
    using escalation_needs_same_permissions [OF _ _ _ log read] by (metis unary_reads)
qed

section \<open>A prefix is taken from the call\<close>

text \<open>
  The prefix that a call may be covered by is the one it names itself in \<open>prefix_rule\<close>; it is not
  compared with the command.
\<close>

definition claiming_input :: json where
  "claiming_input =
     JObj [(''command'', JStr ''rm -r src''), (''prefix_rule'', JArr [JStr ''git'', JStr ''status''])]"

lemma claimed_prefix_is_granted:
  assumes "permission_request_for_call split specs ''/w'' i ''bash'' claiming_input = Inr (Some r)"
    and "Approve ScopeCommandPrefix p \<in> set es" "NewProfile \<notin> set es" "pa_prefix p = Some [''git'', ''status'']"
  shows "tr_target r = Some ''rm -r src'' \<and>
    session_cache_grant L (approval_run is_dir es) r = Some (grant_from_approval SandboxDefault)"
proof -
  have r: "tr_prefix r = Some [''git'', ''status'']" "tr_target r = Some ''rm -r src''" "tr_sandbox r = SandboxDefault"
    using assms(1)
    by (auto simp: permission_request_for_call_def claiming_input_def command_prefix_for_tool_input_def
        is_banned_prefix_suggestion_def banned_prefixes_def target_for_tool_input_def command_str_for_tool_input_def
        first_value_string_def fetch_tools_def search_tools_def sandbox_permission_request_from_input_def
        sandbox_permissions_from_input_def Let_def split: option.splits if_splits)
  have all: "takeWhile (\<lambda>e. e \<notin> {NewProfile}) (rev es) = rev es"
    unfolding takeWhile_eq_all_conv using assms(3) by auto
  then have "(ScopeCommandPrefix, p) \<in> since {NewProfile} es" using assms(2)
    unfolding since_def all by simp
  moreover have "covers_session is_dir ScopeCommandPrefix p r" using r assms(4) by (simp add: covers_session_def)
  ultimately have "approved_as_is is_dir es r" by (auto simp: approved_as_is_def)
  then show ?thesis using r by (simp add: cache_decides requests_escalation_def)
qed

end
