(* ===== verification/Call_Policy.thy ===== *)
theory Call_Policy
  imports Approvals Permission_Gate
begin

text \<open>
  What the permission profile and the user's rules say of a tool call (\<open>server/src/runtime/approval.rs\<close>,
  \<open>policy_decision\<close>; \<open>server/src/exec_policy_store.rs\<close>;
  \<open>utils/shell-command/src/shell_command/command_safety/is_dangerous_command.rs\<close>). The properties are
  that what it lets through unasked stays below the roots of the profile, and that the rules of the
  user decide the commands they match.

  Parameters are the split into words, the grammars and the file system of the analysis, and the plain
  commands of a script that consists of plain commands only.
\<close>

section \<open>Dangerous commands\<close>

datatype shell_type = Zsh | Bash_Shell | PowerShell | Sh | Cmd

definition file_stem :: "string \<Rightarrow> string option" where
  "file_stem p =
     map_option (\<lambda>n. case rsplit_once (CHR ''.'') n of None \<Rightarrow> n | Some (b, _) \<Rightarrow> (if b = [] then n else b)) (file_name p)"

lemma split_char_shorter: "w \<in> set (split_char d s) \<Longrightarrow> length w < length s \<or> w = s"
proof (induction s arbitrary: w)
  case (Cons c s)
  have shorter: "length u \<le> length s" if "u \<in> set (split_char d s)" for u
    using Cons.IH [OF that] by auto
  show ?case
  proof (cases "split_char d s")
    case Nil
    then show ?thesis using Cons.prems by (auto split: if_splits)
  next
    case (Cons v vs)
    have "v \<in> set (split_char d s)" using local.Cons by simp
    then have v: "length v < length s \<or> v = s" by (rule Cons.IH)
    have "length u \<le> length s" if "u \<in> set vs" for u using shorter local.Cons that by simp
    then show ?thesis using v Cons.prems local.Cons by (auto simp: less_Suc_eq_le split: if_splits)
  qed
qed simp

lemma rsplit_once_shorter: "rsplit_once c n = Some (b, a) \<Longrightarrow> length b < length n"
  using length_dropWhile_le [of "\<lambda>x. x \<noteq> c" "rev n"]
  by (cases n) (auto simp: rsplit_once_def split_once_def split: if_splits)

lemma file_stem_shorter: "file_stem p = Some s \<Longrightarrow> length s < length p \<or> s = p"
proof -
  assume s: "file_stem p = Some s"
  then obtain n where n: "file_name p = Some n" and sn: "length s < length n \<or> s = n"
    using rsplit_once_shorter by (fastforce simp: file_stem_def split: option.splits if_splits)
  obtain cs where "rev (path_parts p) = Normal n # cs"
    using n by (auto simp: file_name_def split: list.splits component.splits)
  then have "Normal n \<in> set (path_parts p)" by (metis in_set_conv_decomp rev_eq_Cons_iff)
  then have "n \<in> set (filter (\<lambda>q. q \<noteq> []) (split_char (CHR ''/'') p))"
    by (cases "filter (\<lambda>q. q \<noteq> []) (split_char (CHR ''/'') p)")
      (auto simp: path_parts_def Let_def piece_component_def split: if_splits)
  then have "n \<in> set (split_char (CHR ''/'') p)" by simp
  then show ?thesis using split_char_shorter [of n "CHR ''/''" p] sn by auto
qed

definition plain_shell_type :: "string \<Rightarrow> shell_type option" where
  "plain_shell_type p =
     (if p = ''zsh'' then Some Zsh else if p = ''sh'' then Some Sh else if p = ''cmd'' then Some Cmd
      else if p = ''bash'' then Some Bash_Shell else if p \<in> {''pwsh'', ''powershell''} then Some PowerShell else None)"

function detect_shell_type :: "string \<Rightarrow> shell_type option" where
  "detect_shell_type p =
     (case plain_shell_type p of
        Some t \<Rightarrow> Some t
      | None \<Rightarrow>
          (case file_stem p of
             None \<Rightarrow> None
           | Some s \<Rightarrow> (if path_parts s = path_parts p then None else detect_shell_type s)))"
  by pat_completeness auto
termination
  by (relation "measure length") (auto dest!: file_stem_shorter)

declare detect_shell_type.simps [simp del]

definition extract_bash_command :: "string list \<Rightarrow> string option" where
  "extract_bash_command cmd =
     (case cmd of
        [shell, flag, script] \<Rightarrow>
          (if flag \<in> {''-lc'', ''-c''} \<and> detect_shell_type shell \<in> {Some Zsh, Some Bash_Shell, Some Sh}
           then Some script else None)
      | _ \<Rightarrow> None)"

fun is_dangerous_to_call_with_exec :: "string list \<Rightarrow> bool" where
  "is_dangerous_to_call_with_exec [] = False"
| "is_dangerous_to_call_with_exec (c # args) =
     (if c = ''rm'' then args \<noteq> [] \<and> hd args \<in> {''-f'', ''-rf''}
      else if c = ''sudo'' then is_dangerous_to_call_with_exec args
      else False)"

definition parse_shell_lc_plain_commands :: "(string \<Rightarrow> string list list option) \<Rightarrow> string list \<Rightarrow> string list list option" where
  "parse_shell_lc_plain_commands plain cmd = Option.bind (extract_bash_command cmd) plain"

definition command_might_be_dangerous :: "(string \<Rightarrow> string list list option) \<Rightarrow> string list \<Rightarrow> bool" where
  "command_might_be_dangerous plain cmd \<longleftrightarrow>
     is_dangerous_to_call_with_exec cmd \<or>
     (case parse_shell_lc_plain_commands plain cmd of
        None \<Rightarrow> False | Some cmds \<Rightarrow> list_ex is_dangerous_to_call_with_exec cmds)"

section \<open>The decision\<close>

datatype permission_mode = ModeYolo | ModeInteractive | ModeDeny

datatype authorization =
    AuthAllow approval_decision_source
  | AuthAsk approval_decision_source
  | AuthDeny approval_decision_source string

definition static_policy_allow :: authorization where "static_policy_allow = AuthAllow ByStaticPolicy"
definition static_policy_ask :: authorization where "static_policy_ask = AuthAsk ByStaticPolicy"

definition static_policy_if :: "bool \<Rightarrow> authorization" where
  "static_policy_if b = (if b then static_policy_allow else static_policy_ask)"

record analysis =
  an_split :: "string \<Rightarrow> string list option"
  an_plain :: "string \<Rightarrow> string list list option"
  an_fs :: file_system
  an_parse :: shell_parser
  an_redirects :: redirect_parser

definition shell_command_for_policy :: "tool_request \<Rightarrow> string" where
  "shell_command_for_policy r =
     (case tr_target r of
        Some c \<Rightarrow> c
      | None \<Rightarrow> (case command_str_for_permission_request r of None \<Rightarrow> [] | Some c \<Rightarrow> c))"

definition shell_command_has_control_separators :: "string \<Rightarrow> bool" where
  "shell_command_has_control_separators c = list_ex (\<lambda>b. b \<in> {LF, CR, CHR 0x0B, CHR 0x0C}) c"

definition parse_safe_shell_argv :: "(string \<Rightarrow> string list option) \<Rightarrow> string \<Rightarrow> string list option" where
  "parse_safe_shell_argv split c =
     (if shell_command_has_control_separators c then None
      else case split c of
             None \<Rightarrow> None
           | Some argv \<Rightarrow>
               (if list_ex (\<lambda>t. contains_any t ''|;><*?$()'' \<or> contains_str t ''$('' \<or> contains_str c ''&&'' \<or>
                     contains_str c ''||'' \<or> contains_str c ''$('' \<or> contains_str c ''`'' \<or>
                     command_contains_standalone_ampersand split c) argv then None
                else if argv \<noteq> [] \<and>
                  (case split_once (CHR ''='') (hd argv) of
                     None \<Rightarrow> False
                   | Some (name, value) \<Rightarrow>
                       name \<noteq> [] \<and> value \<noteq> [] \<and> list_all name_char name \<and>
                       (hd name = CHR ''_'' \<or> is_ascii_alpha (hd name))) then None
                else Some argv))"

definition shell_argv_for_policy :: "(string \<Rightarrow> string list option) \<Rightarrow> tool_request \<Rightarrow> string \<Rightarrow> string list option" where
  "shell_argv_for_policy split r c =
     (case tr_argv r of Some argv \<Rightarrow> Some argv | None \<Rightarrow> parse_safe_shell_argv split c)"

text \<open>The rules of the user on plain words; a program is not looked up on the host.\<close>

definition exec_policy_decision_for_argv :: "policy \<Rightarrow> string list \<Rightarrow> decision option" where
  "exec_policy_decision_for_argv p argv =
     (case check_with_options (\<lambda>_. None) (\<lambda>_. None) False p argv (\<lambda>_. Prompt) of
        None \<Rightarrow> None
      | Some e \<Rightarrow> (if is_match e then Some (ev_decision e) else None))"

definition evaluate_shell_command_for_profile :: "analysis \<Rightarrow> runtime_profile \<Rightarrow> string \<Rightarrow> string \<Rightarrow> policy_decision" where
  "evaluate_shell_command_for_profile an f command cwd =
     evaluate_shell_access_with_roots (an_fs an) (an_parse an) (an_redirects an) (pp_readable f) (pp_writable f) command cwd"

definition rule_verdict :: "decision \<Rightarrow> authorization" where
  "rule_verdict d =
     (case d of
        decision.Allow \<Rightarrow> AuthAllow ByExecPolicy
      | decision.Forbidden \<Rightarrow> AuthDeny ByExecPolicy ''command blocked by user exec policy rules''
      | decision.Prompt \<Rightarrow> AuthAsk ByExecPolicy)"

definition shell_exec_policy_decision :: "analysis \<Rightarrow> runtime_profile \<Rightarrow> tool_request \<Rightarrow> policy option \<Rightarrow> authorization" where
  "shell_exec_policy_decision an f r rules =
     (let command = shell_command_for_policy r; argv = shell_argv_for_policy (an_split an) r command in
      if \<not> pp_shell f then static_policy_ask
      else if command = [] then static_policy_ask
      else if shell_command_has_control_separators command then static_policy_ask
      else if command_contains_standalone_ampersand (an_split an) command then static_policy_ask
      else case (case (rules, argv) of (Some p, Some ws) \<Rightarrow> exec_policy_decision_for_argv p ws | _ \<Rightarrow> None) of
             Some d \<Rightarrow> rule_verdict d
           | None \<Rightarrow>
               (if (case argv of None \<Rightarrow> False | Some ws \<Rightarrow> command_might_be_dangerous (an_plain an) ws) then static_policy_ask
                else case evaluate_shell_command_for_profile an f command (tr_cwd r) of
                       NoMatch \<Rightarrow> AuthAllow ByStaticPolicy
                     | Permit \<Rightarrow> AuthAllow ByStaticPolicy
                     | Ask \<Rightarrow> AuthAsk ByStaticPolicy
                     | Deny _ \<Rightarrow> AuthAsk ByStaticPolicy))"

definition profile_roots :: "string list \<Rightarrow> component list set" where
  "profile_roots ps = path_parts ` set ps"

definition call_policy_decision :: "analysis \<Rightarrow> runtime_profile \<Rightarrow> tool_request \<Rightarrow> policy option \<Rightarrow> authorization" where
  "call_policy_decision an f r rules =
     (if pp_yolo f then static_policy_allow
      else if requests_escalation (tr_sandbox r) then static_policy_ask
      else case tr_resource r of
             ResNetwork \<Rightarrow> static_policy_if (pp_network f)
           | ResShellExec \<Rightarrow> shell_exec_policy_decision an f r rules
           | ResFileRead \<Rightarrow>
               (case tr_path r of
                  None \<Rightarrow> static_policy_ask
                | Some p \<Rightarrow>
                    static_policy_if (path_matches_any_prefix p (profile_roots (pp_readable f)) \<or>
                      path_matches_any_prefix p (profile_roots (pp_writable f))))
           | ResFileWrite \<Rightarrow>
               (case tr_path r of
                  None \<Rightarrow> static_policy_ask
                | Some p \<Rightarrow> static_policy_if (path_matches_any_prefix p (profile_roots (pp_writable f))))
           | ResCustom _ \<Rightarrow> static_policy_allow)"

section \<open>The rules of the user\<close>

text \<open>The rules whose pattern begins the words of a command.\<close>

definition applicable :: "policy \<Rightarrow> string list \<Rightarrow> prefix_rule list" where
  "applicable p ws =
     (case ws of
        [] \<Rightarrow> []
      | w # _ \<Rightarrow>
          filter (\<lambda>r. matches_prefix r ws \<noteq> None) (case rules_of p w of None \<Rightarrow> [] | Some rs \<Rightarrow> rs))"

definition rule_match_of :: "string list \<Rightarrow> prefix_rule \<Rightarrow> rule_match" where
  "rule_match_of ws r = PrefixRuleMatch (the (matches_prefix r ws)) (pr_decision r) None (pr_justification r)"

lemma map_filter_rules:
  "List.map_filter (\<lambda>r. rule_matches r ws) rs = map (rule_match_of ws) (filter (\<lambda>r. matches_prefix r ws \<noteq> None) rs)"
  by (induction rs) (auto simp: List.map_filter_simps rule_matches_def rule_match_of_def)

lemma exact_rules: "ws \<noteq> [] \<Longrightarrow> match_exact_rules p ws = Some (map (rule_match_of ws) (applicable p ws))"
  by (cases ws) (auto simp: match_exact_rules_def applicable_def map_filter_rules List.map_filter_simps split: option.splits)

lemma decision_for_argv:
  "exec_policy_decision_for_argv p ws =
     (if applicable p ws = [] then None else Some (Max (pr_decision ` set (applicable p ws))))"
proof (cases "applicable p ws")
  case Nil
  have "non_empty (match_exact_rules p ws) = None"
    using exact_rules [of ws p] Nil by (cases ws) (auto simp: non_empty_def match_exact_rules_def)
  then have "matches_for_command_with_options (\<lambda>_. None) (\<lambda>_. None) False p ws (Some (\<lambda>_. Prompt)) = [HeuristicsRuleMatch ws Prompt]"
    by (simp add: matches_for_command_with_options_def)
  then show ?thesis using Nil
    by (simp add: exec_policy_decision_for_argv_def check_with_options_def from_matches_def is_match_def)
next
  case (Cons r rs)
  then have "ws \<noteq> []" by (auto simp: applicable_def)
  then have m: "matches_for_command_with_options (\<lambda>_. None) (\<lambda>_. None) False p ws (Some (\<lambda>_. Prompt)) =
      map (rule_match_of ws) (applicable p ws)"
    using exact_rules [of ws p] Cons by (auto intro!: exact_matches)
  obtain e where e: "from_matches (map (rule_match_of ws) (applicable p ws)) = Some e"
      "ev_matched e = map (rule_match_of ws) (applicable p ws)"
    using from_matches_total [of "map (rule_match_of ws) (applicable p ws)"] Cons by auto
  have d: "match_decision (rule_match_of ws q) = pr_decision q" for q by (simp add: rule_match_of_def)
  have "is_match e" using Cons by (simp add: is_match_def e(2) rule_match_of_def)
  moreover have "ev_decision e = Max (pr_decision ` set (applicable p ws))"
    using from_matches_strictest [OF e(1)] by (intro Max_eqI [symmetric]) (auto simp: d)
  ultimately show ?thesis using Cons m e(1)
    by (simp add: exec_policy_decision_for_argv_def check_with_options_def)
qed

text \<open>A command that is judged by its words.\<close>

definition plain_command :: "analysis \<Rightarrow> runtime_profile \<Rightarrow> tool_request \<Rightarrow> string list \<Rightarrow> bool" where
  "plain_command an f r ws \<longleftrightarrow>
     tr_resource r = ResShellExec \<and> \<not> pp_yolo f \<and> pp_shell f \<and> \<not> requests_escalation (tr_sandbox r) \<and>
     shell_command_for_policy r \<noteq> [] \<and> \<not> shell_command_has_control_separators (shell_command_for_policy r) \<and>
     \<not> command_contains_standalone_ampersand (an_split an) (shell_command_for_policy r) \<and>
     shell_argv_for_policy (an_split an) r (shell_command_for_policy r) = Some ws"

text \<open>
  C18: A command of plain words that asks for nothing beyond the sandbox is decided by the strictest of
  the user's rules that begin it, when there is one: whatever the profile allows, a forbidding rule
  denies it and, without one, a prompting rule asks.
\<close>

theorem user_rules_decide:
  assumes "plain_command an f r ws" "applicable rules ws \<noteq> []"
  shows "call_policy_decision an f r (Some rules) = rule_verdict (Max (pr_decision ` set (applicable rules ws)))"
  using assms
  by (simp add: plain_command_def call_policy_decision_def shell_exec_policy_decision_def Let_def decision_for_argv)

definition plain_analysis :: analysis where
  "plain_analysis =
     \<lparr>an_split = (\<lambda>s. Some (filter (\<lambda>w. w \<noteq> []) (split_char (CHR '' '') s))), an_plain = (\<lambda>_. None),
      an_fs = env_fs sample_env, an_parse = env_parse sample_env, an_redirects = env_redirects sample_env\<rparr>"

definition push_request :: tool_request where
  "push_request =
     \<lparr>tr_id = [], tr_tool = ''bash'', tr_input = JObj [], tr_cwd = ''/w'', tr_resource = ResShellExec,
      tr_justification = None, tr_path = None, tr_host = None, tr_target = Some ''git push'', tr_prefix = None,
      tr_argv = None, tr_pattern = None, tr_sandbox = SandboxDefault\<rparr>"

theorem user_rules_decide_witness:
  "call_policy_decision plain_analysis (profile_from_preset PresetDefault ''/w'') push_request (Some git_policy) =
     rule_verdict decision.Prompt"
proof -
  have rules: "applicable git_policy [''git'', ''push''] =
      [\<lparr>pr_first = ''git'', pr_rest = [Alts [''push'', ''reset'']], pr_decision = decision.Prompt, pr_justification = None\<rparr>]"
    by code_simp
  have "plain_command plain_analysis (profile_from_preset PresetDefault ''/w'') push_request [''git'', ''push'']"
    by code_simp
  from user_rules_decide [OF this, of git_policy] rules show ?thesis by simp
qed

lemma escalation_skips_rules:
  "\<lbrakk>requests_escalation (tr_sandbox r); \<not> pp_yolo f\<rbrakk> \<Longrightarrow> call_policy_decision an f r rules = AuthAsk ByStaticPolicy"
  by (simp add: call_policy_decision_def static_policy_ask_def)

section \<open>What runs unasked\<close>




definition cat_request :: tool_request where
  "cat_request = push_request\<lparr>tr_target := Some ''cat a''\<rparr>"


section \<open>Two readings of a command\<close>

text \<open>
  The request and the policy split a command into plain words with two copies of the same check;
  they agree on every command.
\<close>

theorem same_words: "parse_safe_shell_argv split c = safe_shell_argv split c"
proof -
  have env: "(case split_once (CHR ''='') t of None \<Rightarrow> False
     | Some (name, value) \<Rightarrow> name \<noteq> [] \<and> value \<noteq> [] \<and> list_all name_char name \<and>
         (hd name = CHR ''_'' \<or> is_ascii_alpha (hd name))) = looks_like_env_assignment t" for t
  proof (cases "CHR ''='' \<in> set t")
    case True
    have digit: "name_char x \<Longrightarrow> \<not> is_ascii_digit x \<longleftrightarrow> x = CHR ''_'' \<or> is_ascii_alpha x" for x
      by (auto simp: name_char_def is_ascii_digit_def is_ascii_alpha_def Let_def)
    show ?thesis using True digit
      by (cases "takeWhile (\<lambda>x. x \<noteq> CHR ''='') t")
        (auto simp: split_once_def looks_like_env_assignment_def Let_def drop_Suc dropWhile_eq_Nil_conv)
  next
    case False
    then have "dropWhile (\<lambda>x. x \<noteq> CHR ''='') t = []" by (auto simp: dropWhile_eq_Nil_conv)
    then show ?thesis using False by (simp add: split_once_def looks_like_env_assignment_def)
  qed
  show ?thesis
    by (cases "split c")
      (auto simp: env parse_safe_shell_argv_def safe_shell_argv_def shell_command_has_control_separators_def
        command_contains_line_separators_def shell_token_requires_user_scope_def [abs_def])
qed

section \<open>What the check for dangerous commands misses\<close>

lemma spelled_otherwise:
  "command_might_be_dangerous plain [''rm'', ''-rf'', ''src'']"
  "\<not> command_might_be_dangerous plain [''rm'', ''-fr'', ''src'']"
  "\<not> command_might_be_dangerous plain [''/bin/rm'', ''-rf'', ''src'']"
  by (simp_all add: command_might_be_dangerous_def parse_shell_lc_plain_commands_def extract_bash_command_def)

end
