(* ===== verification/Authorization.thy ===== *)
theory Authorization
  imports Call_Policy
begin

text \<open>
  The authorisation of a tool call (\<open>server/src/runtime/approval.rs\<close>, \<open>authorize_tool_request\<close>): the
  permission mode, the caches, the policy, the hook, the automatic reviewer
  (\<open>server/src/approval_reviewer.rs\<close>, \<open>server/src/json_extract.rs\<close>) and the user decide in this order.

  The sessions are maps from their identifiers: caches, parent, live mode and profile. Parameters are
  JSON and its repair, what hook, reviewer and user answer, whether the request reaches a client, and
  whether a sandbox profile allows unsandboxed execution. Traces, persisted items and the hooks run
  on a denial are left out.
\<close>

section \<open>The reviewer's answer\<close>

text \<open>
  One byte of the scan for the end of an object: nesting, inside a string, after a backslash; \<open>None\<close>
  at the brace that ends it. The nesting is an \<open>i32\<close>, which no text in memory exceeds.
\<close>

fun scan_step :: "int \<times> bool \<times> bool \<Rightarrow> char \<Rightarrow> (int \<times> bool \<times> bool) option" where
  "scan_step (depth, in_string, escape) c =
     (if in_string then
        (if escape then Some (depth, True, False)
         else if c = CHR 0x5C then Some (depth, True, True)
         else Some (depth, c \<noteq> CHR 0x22, False))
      else if c = CHR 0x22 then Some (depth, True, escape)
      else if c = CHR ''{'' then Some (depth + 1, False, escape)
      else if c = CHR ''}'' then (if depth - 1 = 0 then None else Some (depth - 1, False, escape))
      else Some (depth, False, escape))"

fun scan_object :: "int \<times> bool \<times> bool \<Rightarrow> string \<Rightarrow> string option" where
  "scan_object st [] = None"
| "scan_object st (c # cs) =
     map_option ((#) c) (case scan_step st c of None \<Rightarrow> Some [] | Some st' \<Rightarrow> scan_object st' cs)"

definition extract_json_object :: "string \<Rightarrow> string option" where
  "extract_json_object raw =
     (case dropWhile (\<lambda>c. c \<noteq> CHR ''{'') raw of [] \<Rightarrow> None | text \<Rightarrow> scan_object (0, False, False) text)"

datatype reviewer_risk = RiskLow | RiskMedium | RiskHigh

definition allows_without_user :: "reviewer_risk \<Rightarrow> bool" where
  "allows_without_user k \<longleftrightarrow> k \<in> {RiskLow, RiskMedium}"

record reviewer_assessment =
  ra_risk :: reviewer_risk
  ra_rationale :: string

definition assessment_from_value :: "json \<Rightarrow> reviewer_assessment option" where
  "assessment_from_value v =
     (let rationale = trim (case get_string v ''rationale'' of None \<Rightarrow> [] | Some s \<Rightarrow> s) in
      case get_string v ''risk'' of
        None \<Rightarrow> None
      | Some s \<Rightarrow>
          (let k = map ascii_lower (trim s) in
           if k = ''low'' then Some \<lparr>ra_risk = RiskLow, ra_rationale = rationale\<rparr>
           else if k = ''medium'' then Some \<lparr>ra_risk = RiskMedium, ra_rationale = rationale\<rparr>
           else if k = ''high'' then Some \<lparr>ra_risk = RiskHigh, ra_rationale = rationale\<rparr>
           else None))"

record review_libs =
  rv_json :: json_lib
  rv_repair :: "string \<Rightarrow> json option"

definition assessment_from_json_text :: "review_libs \<Rightarrow> string \<Rightarrow> reviewer_assessment option" where
  "assessment_from_json_text R raw =
     Option.bind (case lib_parse (rv_json R) raw of Inr v \<Rightarrow> Some v | Inl _ \<Rightarrow> rv_repair R raw) assessment_from_value"

definition parse_reviewer_text :: "review_libs \<Rightarrow> string \<Rightarrow> reviewer_assessment option" where
  "parse_reviewer_text R raw =
     (let trimmed = trim raw in
      if trimmed = [] then None
      else case assessment_from_json_text R trimmed of
             Some a \<Rightarrow> Some a
           | None \<Rightarrow> Option.bind (extract_json_object trimmed) (assessment_from_json_text R))"

text \<open>A block of the reply is its text, or nothing when it is of another kind.\<close>

definition parse_reviewer_decision :: "review_libs \<Rightarrow> string option list \<Rightarrow> reviewer_assessment option" where
  "parse_reviewer_decision R content =
     parse_reviewer_text R (concat (map (\<lambda>b. case b of None \<Rightarrow> [] | Some t \<Rightarrow> t @ [LF]) content))"

datatype auto_review_outcome = ReviewApprove | ReviewAskUser

text \<open>One retry when the first completion fails; \<open>ready\<close> is whether the session can be read.\<close>

definition auto_review_tool_request :: "review_libs \<Rightarrow> bool \<Rightarrow> string option list option \<Rightarrow> string option list option \<Rightarrow>
    auto_review_outcome" where
  "auto_review_tool_request R ready first second =
     (if \<not> ready then ReviewAskUser
      else case (case first of Some c \<Rightarrow> Some c | None \<Rightarrow> second) of
             None \<Rightarrow> ReviewAskUser
           | Some content \<Rightarrow>
               (case parse_reviewer_decision R content of
                  None \<Rightarrow> ReviewAskUser
                | Some a \<Rightarrow> (if allows_without_user (ra_risk a) then ReviewApprove else ReviewAskUser)))"

section \<open>Sessions\<close>

record world =
  w_caches :: "string \<Rightarrow> (approval_cache \<times> approval_cache) option"
  w_parents :: "(string \<times> string) list"
  w_mode :: "string \<Rightarrow> permission_mode option"
  w_profile :: "string \<Rightarrow> runtime_profile option"
  w_sandbox :: "string \<Rightarrow> string option"
  w_rules :: "policy option"
  w_unsandboxed :: "string \<Rightarrow> string \<Rightarrow> bool"

definition session_approval_cache_grant :: "json_lib \<Rightarrow> world \<Rightarrow> string \<Rightarrow> tool_request \<Rightarrow> permission_grant option" where
  "session_approval_cache_grant L w sid r = Option.bind (w_caches w sid) (\<lambda>c. session_cache_grant L c r)"

definition approval_cache_grant :: "json_lib \<Rightarrow> world \<Rightarrow> string \<Rightarrow> tool_request \<Rightarrow> permission_grant option" where
  "approval_cache_grant L w sid r =
     (case session_approval_cache_grant L w sid r of
        Some g \<Rightarrow> Some g
      | None \<Rightarrow>
          (case map_of (w_parents w) sid of
             None \<Rightarrow> None
           | Some parent \<Rightarrow> session_approval_cache_grant L w parent r))"

definition live_permission_profile :: "world \<Rightarrow> string \<Rightarrow> runtime_profile option" where
  "live_permission_profile w sid =
     (case w_profile w sid of
        Some f \<Rightarrow> Some f
      | None \<Rightarrow> (case map_of (w_parents w) sid of None \<Rightarrow> None | Some parent \<Rightarrow> w_profile w parent))"

definition check_escalation_unsandboxed_forbidden :: "world \<Rightarrow> string \<Rightarrow> string \<Rightarrow> string + unit" where
  "check_escalation_unsandboxed_forbidden w sid cwd =
     (case w_sandbox w sid of
        None \<Rightarrow> Inr ()
      | Some name \<Rightarrow>
          (if name = ''off'' then Inr ()
           else if \<not> w_unsandboxed w name cwd then
             Inl ''unsandboxed execution is forbidden when the session sandbox profile has deny-read paths configured''
           else Inr ()))"

text \<open>The walk up the parents stops where one comes up again.\<close>

function host_walk :: "(string \<times> string) list \<Rightarrow> string list \<Rightarrow> string \<Rightarrow> string" where
  "host_walk parents visited host =
     (case map_of parents host of
        None \<Rightarrow> host
      | Some parent \<Rightarrow> (if parent \<in> set visited then host else host_walk parents (parent # visited) parent))"
  by pat_completeness auto
termination
proof (relation "measure (\<lambda>(parents, visited, _). card (snd ` set parents - set visited))")
  fix parents :: "(string \<times> string) list" and visited host parent
  assume "map_of parents host = Some parent" "parent \<notin> set visited"
  then have "parent \<in> snd ` set parents - set visited" by (force dest: map_of_SomeD)
  then show "((parents, parent # visited, parent), (parents, visited, host)) \<in>
      measure (\<lambda>(parents, visited, _). card (snd ` set parents - set visited))"
    by (auto intro!: psubset_card_mono simp del: card_Diff_insert simp flip: Diff_insert2)
qed simp

declare host_walk.simps [simp del]

definition permission_host_session_id :: "world \<Rightarrow> string \<Rightarrow> string" where
  "permission_host_session_id w sid = host_walk (w_parents w) [sid] sid"

section \<open>Asking the user\<close>

datatype user_decision = DecisionApprove | DecisionDeny | DecisionCancel

definition windows_path_prefix_unsupported :: "bool \<Rightarrow> bool \<Rightarrow> approval_scope \<Rightarrow> string option" where
  "windows_path_prefix_unsupported is_windows approved scope =
     (if is_windows \<and> approved \<and> scope \<in> {ScopePathPrefix, ScopePathPrefixPersist} then
        Some (''Windows native file PathPrefix approvals are unsupported: the elevated sandbox '' @
          ''cannot safely deliver the required directory credential; choose Once or Session '' @
          ''for mediated file access instead'')
      else None)"

definition admit_live_approval_scope :: "bool \<Rightarrow> string + user_decision \<times> approval_scope \<Rightarrow>
    string + user_decision \<times> approval_scope" where
  "admit_live_approval_scope is_windows answer =
     (case answer of
        Inl e \<Rightarrow> Inl e
      | Inr (d, scope) \<Rightarrow>
          (case windows_path_prefix_unsupported is_windows (d = DecisionApprove) scope of
             Some e \<Rightarrow> Inl e | None \<Rightarrow> Inr (d, scope)))"

record answers =
  as_windows :: bool
  as_hook :: "string option"
  as_ready :: bool
  as_first :: "string option list option"
  as_second :: "string option list option"
  as_checkpoint :: "string + unit"
  as_user :: "string + user_decision \<times> approval_scope"
  as_published :: "string + unit"

text \<open>The result, and the approval that the caches of the host session take up.\<close>

definition request_tool_approval :: "json_lib \<Rightarrow> answers \<Rightarrow> tool_request \<Rightarrow>
    (string + permission_grant) \<times> approval_event option" where
  "request_tool_approval L a r =
     (case as_checkpoint a of
        Inl e \<Rightarrow> (Inl (''failed to persist approval checkpoint: '' @ e), None)
      | Inr _ \<Rightarrow>
          (case admit_live_approval_scope (as_windows a) (as_user a) of
             Inl e \<Rightarrow> (Inl (''permission request failed: '' @ e), None)
           | Inr (d, scope) \<Rightarrow>
               (case as_published a of
                  Inl e \<Rightarrow> (Inl (''permission request failed: '' @ e), None)
                | Inr _ \<Rightarrow>
                    (case d of
                       DecisionApprove \<Rightarrow> (Inr (grant_from_approval (tr_sandbox r)), Some (Approve scope (pending_of L r)))
                     | DecisionDeny \<Rightarrow> (Inl ''rejected by user'', None)
                     | DecisionCancel \<Rightarrow> (Inl ''cancelled by user'', None)))))"

section \<open>The decision\<close>

definition permission_mode_authorization :: "permission_mode \<Rightarrow> authorization option" where
  "permission_mode_authorization m =
     (case m of
        ModeYolo \<Rightarrow> Some static_policy_allow
      | ModeDeny \<Rightarrow> Some (AuthDeny ByStaticPolicy ''approval policy is deny'')
      | ModeInteractive \<Rightarrow> None)"

definition escalation_permission_grant :: "tool_request \<Rightarrow> permission_grant" where
  "escalation_permission_grant r =
     \<lparr>pg_bypass = bypasses_sandbox (tr_sandbox r), pg_approved = False, pg_overlay = overlay_of (tr_sandbox r)\<rparr>"

definition or_else :: "'a option \<Rightarrow> 'a \<Rightarrow> 'a" where
  "or_else x d = (case x of Some y \<Rightarrow> y | None \<Rightarrow> d)"

definition resolve_policy :: "review_libs \<Rightarrow> answers \<Rightarrow> runtime_profile \<Rightarrow> tool_request \<Rightarrow> authorization \<Rightarrow>
    (string + permission_grant) \<times> approval_event option" where
  "resolve_policy R a f r verdict =
     (case verdict of
        AuthAllow _ \<Rightarrow> (Inr (escalation_permission_grant r), None)
      | AuthDeny _ reason \<Rightarrow> (Inl reason, None)
      | AuthAsk _ \<Rightarrow>
          (case as_hook a of
             Some reason \<Rightarrow> (Inl (''blocked by PermissionRequest hook: '' @ reason), None)
           | None \<Rightarrow>
               (if pp_auto_review f \<and> auto_review_tool_request R (as_ready a) (as_first a) (as_second a) = ReviewApprove
                then (Inr (grant_from_approval (tr_sandbox r)), None)
                else request_tool_approval (rv_json R) a r)))"

definition authorize_tool_request :: "review_libs \<Rightarrow> analysis \<Rightarrow> world \<Rightarrow> answers \<Rightarrow> string \<Rightarrow> permission_mode \<Rightarrow>
    runtime_profile \<Rightarrow> tool_request \<Rightarrow> (string + permission_grant) \<times> approval_event option" where
  "authorize_tool_request R an w a sid mode profile r =
     (case permission_mode_authorization (or_else (w_mode w sid) mode) of
        Some (AuthDeny _ reason) \<Rightarrow> (Inl reason, None)
      | Some _ \<Rightarrow>
          (let g = escalation_permission_grant r in
           case (if pg_bypass g then check_escalation_unsandboxed_forbidden w sid (tr_cwd r) else Inr ()) of
             Inl reason \<Rightarrow> (Inl reason, None)
           | Inr _ \<Rightarrow> (Inr g, None))
      | None \<Rightarrow>
          (case (if bypasses_sandbox (tr_sandbox r) then check_escalation_unsandboxed_forbidden w sid (tr_cwd r) else Inr ()) of
             Inl reason \<Rightarrow> (Inl reason, None)
           | Inr _ \<Rightarrow>
               (case approval_cache_grant (rv_json R) w sid r of
                  Some g \<Rightarrow> (Inr g, None)
                | None \<Rightarrow>
                    (let f = or_else (live_permission_profile w sid) profile in
                     resolve_policy R a f r (call_policy_decision an f r (w_rules w))))))"

section \<open>Options of the client\<close>

fun approval_scope_wire_string :: "approval_scope \<Rightarrow> string" where
  "approval_scope_wire_string ScopeOnce = ''once''"
| "approval_scope_wire_string ScopeTurn = ''turn''"
| "approval_scope_wire_string ScopeSession = ''session''"
| "approval_scope_wire_string ScopePathPrefix = ''pathPrefix''"
| "approval_scope_wire_string ScopeHost = ''host''"
| "approval_scope_wire_string ScopeTool = ''tool''"
| "approval_scope_wire_string ScopeCommandPrefix = ''commandPrefix''"
| "approval_scope_wire_string ScopeCommandPrefixPersist = ''commandPrefixPersist''"
| "approval_scope_wire_string ScopePathPrefixPersist = ''pathPrefixPersist''"
| "approval_scope_wire_string ScopeHostPersist = ''hostPersist''"

definition scopes_for_request :: "tool_request \<Rightarrow> approval_scope list" where
  "scopes_for_request r =
     [ScopeOnce, ScopeTurn] @
     (if tr_tool r \<in> {''bash'', ''shell_command'', ''exec_command''} \<and>
         command_str_for_permission_request r = None \<and> tr_pattern r = None then [] else [ScopeSession]) @
     (if tr_path r = None then [] else [ScopePathPrefix, ScopePathPrefixPersist]) @
     (if tr_host r = None then [] else [ScopeHost, ScopeHostPersist]) @
     (case tr_prefix r of
        None \<Rightarrow> []
      | Some p \<Rightarrow> ScopeCommandPrefix # (if is_banned_prefix_suggestion p then [] else [ScopeCommandPrefixPersist])) @
     [ScopeTool]"

definition approval_scopes_for_request :: "tool_request \<Rightarrow> string list" where
  "approval_scopes_for_request r = map approval_scope_wire_string (scopes_for_request r)"

definition acp_permission_options :: "string list \<Rightarrow> tool_request \<Rightarrow> string list" where
  "acp_permission_options scopes r =
     [''allow_once''] @
     (if ''session'' \<in> set scopes then [''allow_session''] else []) @
     (if (''commandPrefixPersist'' \<in> set scopes \<or> ''command_prefix_persist'' \<in> set scopes) \<and> tr_prefix r \<noteq> None
      then [''allow_prefix_rule''] else []) @
     (if (''pathPrefix'' \<in> set scopes \<or> ''path_prefix'' \<in> set scopes) \<and> tr_path r \<noteq> None
      then [''allow_path_prefix''] else []) @
     (if ''host'' \<in> set scopes \<and> tr_host r \<noteq> None then [''allow_host''] else []) @
     (if (''pathPrefixPersist'' \<in> set scopes \<or> ''path_prefix_persist'' \<in> set scopes) \<and> tr_path r \<noteq> None
      then [''allow_path_prefix_persist''] else []) @
     (if (''hostPersist'' \<in> set scopes \<or> ''host_persist'' \<in> set scopes) \<and> tr_host r \<noteq> None
      then [''allow_host_persist''] else []) @
     [''reject_once'']"

text \<open>\<open>None\<close> is the outcome of a cancelled request.\<close>

definition approval_decision_from_acp_outcome :: "string option \<Rightarrow> string + user_decision \<times> approval_scope" where
  "approval_decision_from_acp_outcome outcome =
     (case outcome of
        None \<Rightarrow> Inr (DecisionCancel, ScopeOnce)
      | Some i \<Rightarrow>
          (if i = ''allow_once'' then Inr (DecisionApprove, ScopeOnce)
           else if i = ''allow_session'' then Inr (DecisionApprove, ScopeSession)
           else if i = ''allow_prefix_rule'' then Inr (DecisionApprove, ScopeCommandPrefixPersist)
           else if i = ''allow_path_prefix'' then Inr (DecisionApprove, ScopePathPrefix)
           else if i = ''allow_host'' then Inr (DecisionApprove, ScopeHost)
           else if i = ''reject_once'' then Inr (DecisionDeny, ScopeOnce)
           else Inl (''unknown permission option selected: '' @ i)))"

section \<open>Who decides\<close>

definition decided_mode :: "world \<Rightarrow> string \<Rightarrow> permission_mode \<Rightarrow> permission_mode" where
  "decided_mode w sid mode = or_else (w_mode w sid) mode"

definition decided_policy :: "analysis \<Rightarrow> world \<Rightarrow> string \<Rightarrow> runtime_profile \<Rightarrow> tool_request \<Rightarrow> authorization" where
  "decided_policy an w sid profile r =
     call_policy_decision an (or_else (live_permission_profile w sid) profile) r (w_rules w)"

definition within_request :: "world \<Rightarrow> string \<Rightarrow> tool_request \<Rightarrow> permission_grant \<Rightarrow> bool" where
  "within_request w sid r g \<longleftrightarrow>
     (pg_bypass g \<longrightarrow>
        tr_sandbox r = FullEscalation \<and> check_escalation_unsandboxed_forbidden w sid (tr_cwd r) = Inr ()) \<and>
     (pg_overlay g = None \<or> pg_overlay g = overlay_of (tr_sandbox r))"

lemma session_cache_grant_cases:
  "session_cache_grant L c r = Some g \<Longrightarrow> g = grant_from_approval (tr_sandbox r) \<or> g = grant_from_approval SandboxDefault"
  by (auto simp: session_cache_grant_def cache_grant_def split: option.splits if_splits)

lemma cached_cases:
  "approval_cache_grant L w sid r = Some g \<Longrightarrow>
   g = grant_from_approval (tr_sandbox r) \<or> g = grant_from_approval SandboxDefault"
  by (auto simp: approval_cache_grant_def session_approval_cache_grant_def bind_eq_Some_conv
      dest!: session_cache_grant_cases split: option.splits)

lemma grant_within:
  "\<lbrakk>g \<in> {grant_from_approval (tr_sandbox r), grant_from_approval SandboxDefault, escalation_permission_grant r};
    bypasses_sandbox (tr_sandbox r) \<Longrightarrow> check_escalation_unsandboxed_forbidden w sid (tr_cwd r) = Inr ()\<rbrakk>
   \<Longrightarrow> within_request w sid r g"
  by (auto simp: within_request_def grant_from_approval_def escalation_permission_grant_def bypasses_sandbox_def
      overlay_of_def)

lemma resolve_policy_grants:
  assumes "fst (resolve_policy R a f r verdict) = Inr g"
  shows "g \<in> {grant_from_approval (tr_sandbox r), escalation_permission_grant r}"
    and "(\<exists>src. verdict = AuthAllow src) \<or>
      (\<exists>src. verdict = AuthAsk src) \<and> as_hook a = None \<and>
      (pp_auto_review f \<and> auto_review_tool_request R (as_ready a) (as_first a) (as_second a) = ReviewApprove \<or>
       (\<exists>scope. as_user a = Inr (DecisionApprove, scope)))"
  using assms
  by (auto simp: resolve_policy_def request_tool_approval_def admit_live_approval_scope_def
      split: authorization.splits option.splits sum.splits user_decision.splits if_splits)

lemma interactive:
  assumes "decided_mode w sid mode = ModeInteractive"
    and "bypasses_sandbox (tr_sandbox r) \<Longrightarrow> check_escalation_unsandboxed_forbidden w sid (tr_cwd r) = Inr ()"
  shows "authorize_tool_request R an w a sid mode profile r =
    (case approval_cache_grant (rv_json R) w sid r of
       Some g \<Rightarrow> (Inr g, None)
     | None \<Rightarrow> resolve_policy R a (or_else (live_permission_profile w sid) profile) r (decided_policy an w sid profile r))"
  using assms
  by (auto simp: authorize_tool_request_def decided_mode_def decided_policy_def permission_mode_authorization_def Let_def
      split: sum.splits option.splits)

text \<open>
  C2: A tool call that is authorised never gets more than it asked for, leaves the sandbox only when it
  asked to and the sandbox profile allows it, and has one of these reasons: the mode that allows
  everything; or, in the interactive mode, an approval in a cache, the policy, or, when the policy asks
  and no hook blocks, a reviewer that rates the risk low or medium, or the approval of the user.
\<close>

theorem authorised_for_a_reason:
  assumes "fst (authorize_tool_request R an w a sid mode profile r) = Inr g"
  shows "within_request w sid r g \<and>
    (decided_mode w sid mode = ModeYolo \<or>
     decided_mode w sid mode = ModeInteractive \<and>
     (approval_cache_grant (rv_json R) w sid r = Some g \<or>
      (\<exists>src. decided_policy an w sid profile r = AuthAllow src) \<or>
      (\<exists>src. decided_policy an w sid profile r = AuthAsk src) \<and> as_hook a = None \<and>
      (pp_auto_review (or_else (live_permission_profile w sid) profile) \<and>
         auto_review_tool_request R (as_ready a) (as_first a) (as_second a) = ReviewApprove \<or>
       (\<exists>scope. as_user a = Inr (DecisionApprove, scope)))))"
proof (cases "decided_mode w sid mode")
  case ModeYolo
  then have "g = escalation_permission_grant r"
    "pg_bypass g \<Longrightarrow> check_escalation_unsandboxed_forbidden w sid (tr_cwd r) = Inr ()"
    using assms
    by (auto simp: authorize_tool_request_def decided_mode_def permission_mode_authorization_def static_policy_allow_def
        Let_def split: sum.splits if_splits)
  then show ?thesis using ModeYolo grant_within [of g r w sid]
    by (auto simp: escalation_permission_grant_def)
next
  case ModeDeny
  then show ?thesis using assms
    by (simp add: authorize_tool_request_def decided_mode_def permission_mode_authorization_def)
next
  case ModeInteractive
  have ok: "check_escalation_unsandboxed_forbidden w sid (tr_cwd r) = Inr ()" if "bypasses_sandbox (tr_sandbox r)"
    using assms ModeInteractive that
    by (auto simp: authorize_tool_request_def decided_mode_def permission_mode_authorization_def split: sum.splits)
  show ?thesis
  proof (cases "approval_cache_grant (rv_json R) w sid r")
    case (Some h)
    then have "h = g" using assms interactive [OF ModeInteractive ok] by simp
    then show ?thesis using Some ModeInteractive grant_within [of g r w sid] ok cached_cases [OF Some] by auto
  next
    case None
    then have "fst (resolve_policy R a (or_else (live_permission_profile w sid) profile) r
        (decided_policy an w sid profile r)) = Inr g"
      using assms interactive [OF ModeInteractive ok] by simp
    from resolve_policy_grants [OF this] show ?thesis
      using ModeInteractive grant_within [of g r w sid] ok by auto
  qed
qed

definition quiet_answers :: answers where
  "quiet_answers =
     \<lparr>as_windows = False, as_hook = None, as_ready = False, as_first = None, as_second = None,
      as_checkpoint = Inr (), as_user = Inr (DecisionApprove, ScopeSession), as_published = Inr ()\<rparr>"

definition lone_session :: world where
  "lone_session =
     \<lparr>w_caches = (\<lambda>_. Some (empty_cache, empty_cache)), w_parents = [], w_mode = (\<lambda>_. None), w_profile = (\<lambda>_. None),
      w_sandbox = (\<lambda>_. None), w_rules = Some git_policy, w_unsandboxed = (\<lambda>_ _. False)\<rparr>"

definition unary_review :: review_libs where
  "unary_review = \<lparr>rv_json = unary_lib, rv_repair = (\<lambda>_. None)\<rparr>"

lemma push_asks:
  "decided_policy plain_analysis lone_session ''s'' (profile_from_preset PresetDefault ''/w'') push_request =
     AuthAsk ByExecPolicy"
proof -
  have "call_policy_decision plain_analysis (profile_from_preset PresetDefault ''/w'') push_request (Some git_policy) =
      AuthAsk ByExecPolicy" by code_simp
  then show ?thesis
    by (simp add: decided_policy_def lone_session_def live_permission_profile_def or_else_def)
qed

lemma push_uncached: "approval_cache_grant L lone_session ''s'' push_request = None"
  by (simp add: approval_cache_grant_def session_approval_cache_grant_def session_cache_grant_def cache_grant_def
      lone_session_def push_request_def requests_escalation_def)

lemma push_approved:
  "authorize_tool_request unary_review plain_analysis lone_session quiet_answers ''s'' ModeInteractive
     (profile_from_preset PresetDefault ''/w'') push_request =
   (Inr (grant_from_approval SandboxDefault), Some (Approve ScopeSession (pending_of unary_lib push_request)))"
proof -
  have mode: "decided_mode lone_session ''s'' ModeInteractive = ModeInteractive"
    by (simp add: decided_mode_def lone_session_def or_else_def)
  have "\<not> bypasses_sandbox (tr_sandbox push_request)" by (simp add: push_request_def bypasses_sandbox_def)
  then show ?thesis using interactive [OF mode, of push_request] push_asks push_uncached
    by (simp add: resolve_policy_def quiet_answers_def or_else_def live_permission_profile_def lone_session_def
        profile_from_preset_def request_tool_approval_def admit_live_approval_scope_def
        windows_path_prefix_unsupported_def unary_review_def push_request_def)
qed

theorem authorised_for_a_reason_witness:
  "within_request lone_session ''s'' push_request (grant_from_approval SandboxDefault) \<and>
   (\<exists>scope. as_user quiet_answers = Inr (DecisionApprove, scope))"
proof -
  have "fst (authorize_tool_request unary_review plain_analysis lone_session quiet_answers ''s'' ModeInteractive
      (profile_from_preset PresetDefault ''/w'') push_request) = Inr (grant_from_approval SandboxDefault)"
    by (simp add: push_approved)
  from authorised_for_a_reason [OF this] show ?thesis
    using push_asks push_uncached by (simp add: quiet_answers_def)
qed

section \<open>What the caches learn\<close>



text \<open>A call whose approval for the session covers the call itself.\<close>

definition session_coverable :: "tool_request \<Rightarrow> bool" where
  "session_coverable r \<longleftrightarrow>
     command_str_for_permission_request r \<noteq> None \<or>
     \<not> requests_escalation (tr_sandbox r) \<and> tr_pattern r = None \<and>
     (tr_path r = None \<or> tr_resource r \<in> {ResFileRead, ResFileWrite})"

lemma covers_itself:
  "session_coverable r \<Longrightarrow> covers_session is_dir ScopeSession (pending_of L r) r"
  by (auto simp: session_coverable_def covers_session_def pending_of_def same_file_def split: option.splits)

lemma session_approval_grants:
  assumes "session_coverable r"
  shows "session_cache_grant L (apply_approval_scope_to_state is_dir ScopeSession (pending_of L r) caches) r =
    Some (grant_from_approval (if requests_escalation (tr_sandbox r) then tr_sandbox r else SandboxDefault))"
proof (cases "requests_escalation (tr_sandbox r)")
  case True
  then obtain k where k: "sandbox_bypass_key_from_request L r = Some k"
    "sandbox_bypass_key_from_pending (pending_of L r) = Some k"
    using assms
    by (auto simp: session_coverable_def sandbox_bypass_key_from_request_def sandbox_bypass_key_from_pending_def
        pending_of_def)
  then show ?thesis using True apply_approval_bypass(1) [of k is_dir ScopeSession "pending_of L r" caches]
    by (simp add: session_cache_grant_def cache_grant_def) (simp add: pending_of_def)
next
  case False
  then show ?thesis using covers_itself [OF assms]
    by (simp add: session_cache_grant_def cache_grant_def apply_approval_matches)
qed


definition after_approval :: world where
  "after_approval =
     lone_session\<lparr>w_caches := (\<lambda>_. Some (apply_approval_scope_to_state (\<lambda>_. False) ScopeSession
       (pending_of unary_lib push_request) (empty_cache, empty_cache)))\<rparr>"


text \<open>A tool the user approved is not held to the rules: the caches are read before them.\<close>

lemma cached_skips_rules:
  "\<lbrakk>approval_cache_grant (rv_json R) w sid r = Some g; decided_mode w sid mode = ModeInteractive;
    \<not> bypasses_sandbox (tr_sandbox r)\<rbrakk>
   \<Longrightarrow> authorize_tool_request R an w a sid mode profile r = (Inr g, None)"
  using interactive [of w sid mode r] by simp

section \<open>The session that is asked\<close>

definition parent_of :: "(string \<times> string) list \<Rightarrow> (string \<times> string) set" where
  "parent_of parents = {(c, p). map_of parents c = Some p}"

lemma host_walk_end:
  "\<lbrakk>\<forall>v\<in>set visited. (v, host) \<in> (parent_of parents)\<^sup>*\<rbrakk>
   \<Longrightarrow> (host, host_walk parents visited host) \<in> (parent_of parents)\<^sup>* \<and>
      (acyclic (parent_of parents) \<longrightarrow> map_of parents (host_walk parents visited host) = None)"
proof (induction parents visited host rule: host_walk.induct)
  case (1 parents visited host)
  show ?case
  proof (cases "map_of parents host")
    case None
    then show ?thesis by (simp add: host_walk.simps)
  next
    case (Some parent)
    then have up: "(host, parent) \<in> parent_of parents" by (simp add: parent_of_def)
    show ?thesis
    proof (cases "parent \<in> set visited")
      case True
      then have "(parent, host) \<in> (parent_of parents)\<^sup>*" using 1(2) by blast
      then have "\<not> acyclic (parent_of parents)"
        using up by (auto simp: acyclic_def dest: rtrancl_into_trancl1)
      then show ?thesis using Some True by (simp add: host_walk.simps)
    next
      case False
      have "\<forall>v\<in>set (parent # visited). (v, parent) \<in> (parent_of parents)\<^sup>*"
        using 1(2) up by (auto intro: rtrancl_into_rtrancl)
      from 1(1) [OF Some False this] show ?thesis
        using Some False up by (auto simp: host_walk.simps [of parents visited host] intro: converse_rtrancl_into_rtrancl)
    qed
  qed
qed

text \<open>
  The walk up the parents always ends, in an ancestor of the session or the session itself; when no
  session is its own ancestor, this is the root, which has no parent.
\<close>

theorem host_is_root:
  "(sid, permission_host_session_id w sid) \<in> (parent_of (w_parents w))\<^sup>* \<and>
   (acyclic (parent_of (w_parents w)) \<longrightarrow> map_of (w_parents w) (permission_host_session_id w sid) = None)"
  unfolding permission_host_session_id_def by (rule host_walk_end) simp

theorem host_is_root_witness:
  "permission_host_session_id (lone_session\<lparr>w_parents := [(''c'', ''p''), (''p'', ''r'')]\<rparr>) ''c'' = ''r'' \<and>
   map_of (w_parents (lone_session\<lparr>w_parents := [(''c'', ''p''), (''p'', ''r'')]\<rparr>)) ''r'' = None"
proof -
  let ?w = "lone_session\<lparr>w_parents := [(''c'', ''p''), (''p'', ''r'')]\<rparr>"
  have r: "permission_host_session_id ?w ''c'' = ''r''"
    by (simp add: permission_host_session_id_def host_walk.simps)
  have rel: "parent_of (w_parents ?w) = {(''c'', ''p''), (''p'', ''r'')}"
    by (auto simp: parent_of_def split: if_splits)
  have "acyclic (parent_of (w_parents ?w))"
    unfolding rel by (auto simp: acyclic_insert rtrancl_insert wf_acyclic)
  then show ?thesis using host_is_root [of "''c''" ?w] r by simp
qed

text \<open>What the user approves for a call further down is kept at the root, where the call does not look.\<close>

lemma grants_of_the_root_unseen:
  assumes "root \<noteq> sid" "map_of (w_parents w) sid \<noteq> Some root"
  shows "approval_cache_grant L (w\<lparr>w_caches := (w_caches w)(root := c)\<rparr>) sid r = approval_cache_grant L w sid r"
  using assms by (auto simp: approval_cache_grant_def session_approval_cache_grant_def split: option.splits)

section \<open>What the client may choose\<close>

lemma offered_scope:
  "approval_scope_wire_string x \<in> set (approval_scopes_for_request r) \<longleftrightarrow> x \<in> set (scopes_for_request r)"
proof -
  have "approval_scope_wire_string x = approval_scope_wire_string y \<Longrightarrow> x = y" for x y
    by (cases x; cases y) simp_all
  then show ?thesis by (auto simp: approval_scopes_for_request_def)
qed

lemmas offered_names = offered_scope [of ScopeSession, simplified] offered_scope [of ScopeCommandPrefixPersist, simplified]
  offered_scope [of ScopePathPrefix, simplified] offered_scope [of ScopeHost, simplified]

text \<open>
  Every option that a client is offered for a call, but the two that save a rule for a directory or
  a host, is read back as an answer whose scope was offered for the call.
\<close>

theorem offered_options_understood:
  "list_all (\<lambda>i. i \<in> {''allow_path_prefix_persist'', ''allow_host_persist''} \<or>
     (\<exists>d scope. approval_decision_from_acp_outcome (Some i) = Inr (d, scope) \<and> scope \<in> set (scopes_for_request r)))
   (acp_permission_options (approval_scopes_for_request r) r)"
proof -
  have wire: "approval_scope_wire_string x \<notin> {''command_prefix_persist'', ''path_prefix''}" for x
    by (cases x) simp_all
  have other: "''command_prefix_persist'' \<notin> set (approval_scopes_for_request r)"
    "''path_prefix'' \<notin> set (approval_scopes_for_request r)"
    using wire by (force simp: approval_scopes_for_request_def)+
  have once: "ScopeOnce \<in> set (scopes_for_request r)" by (simp add: scopes_for_request_def)
  show ?thesis using other once
    by (simp add: acp_permission_options_def approval_decision_from_acp_outcome_def offered_names)
qed

text \<open>The two that are offered and not understood.\<close>

lemma saved_rules_not_understood:
  assumes "tr_path r = Some f" "tr_host r = Some h"
  shows "i \<in> {''allow_path_prefix_persist'', ''allow_host_persist''} \<Longrightarrow>
    i \<in> set (acp_permission_options (approval_scopes_for_request r) r) \<and>
    approval_decision_from_acp_outcome (Some i) = Inl (''unknown permission option selected: '' @ i)"
  using assms
  by (auto simp: acp_permission_options_def approval_decision_from_acp_outcome_def approval_scopes_for_request_def
      scopes_for_request_def)

section \<open>The object in the reply\<close>

lemma scan_step_end: "scan_step st c = None \<Longrightarrow> c = CHR ''}''"
  by (cases st) (auto split: if_splits)

lemma scan_object_prefix:
  "scan_object st cs = Some s \<Longrightarrow>
   (\<exists>rest. cs = s @ rest) \<and> s \<noteq> [] \<and> last s = CHR ''}'' \<and> (\<forall>rest. scan_object st (s @ rest) = Some s)"
proof (induction st cs arbitrary: s rule: scan_object.induct)
  case (2 st c cs)
  then show ?case using scan_step_end [of st c] by (cases "scan_step st c") auto
qed simp

lemma object_cut:
  assumes "extract_json_object raw = Some s"
  shows "raw = takeWhile (\<lambda>c. c \<noteq> CHR ''{'') raw @ s @ drop (length (takeWhile (\<lambda>c. c \<noteq> CHR ''{'') raw @ s)) raw \<and>
    hd s = CHR ''{'' \<and> last s = CHR ''}'' \<and>
    (\<forall>rest. extract_json_object (takeWhile (\<lambda>c. c \<noteq> CHR ''{'') raw @ s @ rest) = Some s)"
proof -
  let ?before = "takeWhile (\<lambda>c. c \<noteq> CHR ''{'') raw" and ?text = "dropWhile (\<lambda>c. c \<noteq> CHR ''{'') raw"
  have t: "?text \<noteq> []" "scan_object (0, False, False) ?text = Some s"
    using assms by (cases ?text; simp add: extract_json_object_def del: scan_object.simps)+
  note cut = scan_object_prefix [OF t(2)]
  obtain rest where rest: "?text = s @ rest" using cut by blast
  have brace: "hd s = CHR ''{''" using hd_dropWhile [OF t(1)] rest cut by (simp add: hd_append)
  have raw: "raw = ?before @ s @ rest" using rest by (metis takeWhile_dropWhile_id)
  have "extract_json_object (?before @ s @ more) = Some s" for more
  proof -
    have "dropWhile (\<lambda>c. c \<noteq> CHR ''{'') (?before @ s @ more) = s @ more"
      using cut brace by (cases s) (auto simp: dropWhile_append dest: set_takeWhileD)
    moreover have "scan_object (0, False, False) (s @ more) = Some s" using cut by blast
    ultimately show ?thesis using cut by (cases "s @ more") (simp_all add: extract_json_object_def del: scan_object.simps)
  qed
  moreover have "drop (length (?before @ s)) raw = rest" by (subst raw) simp
  ultimately show ?thesis using raw cut brace by simp
qed

text \<open>
  The object that is cut out of a reply begins with the first opening brace of the reply, ends with a
  closing one, and does not depend on the text behind it.
\<close>

theorem extracted_object:
  assumes "extract_json_object raw = Some s"
  shows "raw = takeWhile (\<lambda>c. c \<noteq> CHR ''{'') raw @ s @ drop (length (takeWhile (\<lambda>c. c \<noteq> CHR ''{'') raw @ s)) raw \<and>
    hd s = CHR ''{'' \<and> last s = CHR ''}'' \<and>
    (\<forall>rest. extract_json_object (takeWhile (\<lambda>c. c \<noteq> CHR ''{'') raw @ s @ rest) = Some s)"
  by (rule object_cut [OF assms])

theorem extracted_object_witness:
  "extract_json_object (''so: '' @ [CHR ''{'', CHR 0x22, CHR ''}'', CHR 0x22, CHR ''}''] @ ''}}'') =
     Some [CHR ''{'', CHR 0x22, CHR ''}'', CHR 0x22, CHR ''}'']"
proof -
  have "extract_json_object (''so: '' @ [CHR ''{'', CHR 0x22, CHR ''}'', CHR 0x22, CHR ''}'']) =
      Some [CHR ''{'', CHR 0x22, CHR ''}'', CHR 0x22, CHR ''}'']" by code_simp
  from extracted_object [OF this] show ?thesis by simp
qed

end
