(* ===== verification/Spec2Isabelle.thy ===== *)
theory Spec2Isabelle
  imports Head_Tail_Buffer Compaction Patch_Exec Active_Turns Goal_Prompts Exec_Policy Permission_Gate
    Rollout_Writer Rollout_File Tree_Facts Turn_Recovery Subagents Usage_Ledger Heartbeats Schedule_Dispatch
    Authorization
begin

text \<open>
  A verification library for Devo, an agent runtime written in Rust (\<open>src/crates\<close>). A local server
  keeps sessions; a session is a conversation with a language model that calls tools. The library
  models the parts of the server that decide what is sent to the model, what a tool may do, what
  is written to disk and what survives a crash, and proves for each what the rest relies on.

  The parts, the theories that model them, and what their lemmas show:

  \<^item> Conversation (\<open>protocol/src/conversation.rs\<close>, \<open>core/src/response_item.rs\<close>,
    \<open>core/src/history/\<close>, \<open>protocol/src/request_normalize.rs\<close>): \<open>Response_Items\<close> has the messages, flat
    items and provider requests with their conversions; \<open>Request_Normalize\<close>, \<open>History_Normalize\<close> and
    \<open>History\<close> have the passes that make a request out of a history. Every request pairs each tool
    result with its call, nothing the user wrote is lost, and the fast path of \<open>for_prompt\<close> agrees
    with the slow one. \<open>Compaction\<close> summarises a prefix: the cut never separates a call from its
    results, what is kept is a suffix that fits the window, and the retries of the summariser end.
  \<^item> Editing (\<open>core/src/tools/apply_patch.rs\<close>): \<open>Patch_Parse\<close>, \<open>Patch_Apply\<close> and \<open>Patch_Exec\<close> parse a
    patch, locate its hunks and write the files. Printed patches are parsed back, an applied hunk
    replaces exactly the lines it names, and a patch that passes validation is applied as a whole.
  \<^item> Turns (\<open>server/src/runtime/active_turn.rs\<close>, \<open>turn_reservation.rs\<close>): \<open>Active_Turns\<close> has the registry that admits one turn
    per session, hands deferred goal work over exactly once and reports how turns ended.
  \<^item> Goals (\<open>protocol/src/goal.rs\<close>, \<open>server/src/goal.rs\<close>, \<open>goal_durable.rs\<close>, \<open>runtime/goal_*.rs\<close>):
    \<open>Goals\<close> has the store, its transitions, the accounting of tokens and time against the budget and
    the durable log; \<open>Goal_Prompts\<close> the prompts of a continuation. The store refines a small state
    machine, replaying the log restores the goal, and the text of an objective adds no markup.
  \<^item> Permissions (\<open>execpolicy/src\<close>, \<open>safety/src/permission\<close>, \<open>config/src/permission.rs\<close>): \<open>Exec_Policy\<close>
    evaluates command rules and the overlay of a session; \<open>Permission_Rules\<close>, \<open>Shell_Split\<close>,
    \<open>Permission_Policy\<close>, \<open>File_Access\<close>, \<open>Shell_Access\<close> and \<open>Permission_Gate\<close> compile rules, take shell
    commands apart, find the files they touch and combine the verdicts. A deny rule reaches every
    nested command and file, the order of rules does not matter, and overlays never loosen.
  \<^item> Approvals (\<open>core/src/tools/router.rs\<close>, \<open>server/src/runtime/approval.rs\<close>,
    \<open>session_actor/approval_scope.rs\<close>, \<open>approval_reviewer.rs\<close>): \<open>Tool_Permissions\<close> has the request of a
    tool call, \<open>Approvals\<close> the caches of what the user granted, \<open>Call_Policy\<close> what profile and rules say of
    a call, and \<open>Authorization\<close> the order in which mode, caches, policy, reviewer and user decide. The
    caches grant exactly what approvals in force cover, what runs unasked stays below the roots of the
    profile, and no call gets more than it asked for or leaves the sandbox against its profile.
  \<^item> Rollout files (\<open>core/src/conversation\<close>): \<open>Native_Items\<close> and \<open>Rollout\<close> have the items, the
    versioned lines and their builders, \<open>Rollout_Writer\<close> the state of the writer, \<open>Canonical_History\<close>
    the readers, \<open>Session_Tree\<close> and \<open>Tree_Facts\<close> the transcript tree with its active path, and
    \<open>Context_Occupancy\<close> the figures shown for the context window. Lines are numbered without gaps, a
    restarted writer continues as the old one would, and the readers that skip lines agree with the
    one that reads all.
  \<^item> Execution journal (\<open>core/src/durable_execution.rs\<close>, \<open>server/src/runtime/turn_exec\<close>):
    \<open>Execution_Replay\<close>, \<open>Tool_Journal\<close> and \<open>Turn_Recovery\<close> have the facts of a turn, the journal that
    writes them before a tool runs, and the resumption of a turn that was cut off. The file holds
    exactly the acknowledged facts, and attempts are counted until the user cancels.
  \<^item> Subagents (\<open>server/src/subagent.rs\<close>, \<open>runtime/agents/coordinator.rs\<close>): \<open>Subagents\<close> has the registry
    of children, their mailboxes and the waits of a parent, which deliver every event once.
    \<open>Usage_Ledger\<close> (\<open>runtime/subagent_usage.rs\<close>) adds the tokens of children to the turns of their
    parents, with nothing counted twice.
  \<^item> Waiting inputs (\<open>server/src/runtime/handlers/queue.rs\<close>, \<open>server/src/db.rs\<close>): \<open>Turn_Queue\<close> has the
    queue of a session and its steers in memory, their rows in the database, and the restore after
    a restart, which finds every waiting input once and the queue in its order.
  \<^item> Schedules (\<open>server/src/schedule_store.rs\<close>, \<open>server/src/heartbeat_command.rs\<close>,
    \<open>runtime/kernel_host_heartbeat.rs\<close>, \<open>runtime/handlers/schedule.rs\<close>): \<open>Schedule_Store\<close> has the jobs and the outbox
    of their occurrences, \<open>Heartbeats\<close> the commands of users and kernels, \<open>Schedule_Dispatch\<close> the
    pass that takes occurrences to their sessions. Claims that are cut off admit every run once, and
    no occurrence is delivered twice to a session that keeps what it accepted.
  \<^item> \<open>Head_Tail_Buffer\<close> (\<open>core/src/tools/unified_exec/buffer.rs\<close>) keeps the first and last bytes of the
    output of a program; its ring is shown to hold exactly them.

  \<open>Prelude\<close> has what the theories share: the string functions of the Rust library on lists of
  characters, saturating arithmetic, association lists, and the locale of invariants that guarded
  steps keep, which the registries interpret.

  How the code is represented. Structs are records, enums datatypes, a fallible function returns a
  sum or an option with the code's errors, a method with \<open>&mut self\<close> returns the state it leaves
  behind, and a method under one lock is one step. Strings are lists of characters and byte counts
  count characters, so the models speak of text whose characters are one byte long. Integers are
  naturals with the code's saturation or checks written out, and words or a wrap-around where the
  code can reach the end of its type.

  Parameters. What the repository only calls is an argument: the parser, printer and derived decoder
  of JSON, the grammar that splits a shell script, the glob, URL and diff libraries, the file
  system, the summariser and the token counter, clocks, time formats and fresh identifiers.
  Theorems name what they need of them as hypotheses, and their witnesses instantiate them.

  Bounds and fuel. \<open>MAX_NESTING\<close> (8 shells inside each other) and \<open>MAX_SYMLINK_DEPTH\<close> (40) are the
  code's own; the unwrapping of command wrappers stops after the code's 8 rounds. The recursion
  that assembles the transcript tree takes the number of visible items as fuel, which the theorem
  on the tree shows to be enough; the walk to the root of the tree stops at the first repetition
  as the code does. All other recursions are structural or come with a measure.

  Not modelled: the command line, the applications, the providers' wire formats, MCP, the sandboxes
  of the operating systems, the Python kernel, SQLite, and the actors that connect the parts. They
  exchange data with the outside world, and their own decisions are few. What the modelled parts
  leave out is said in the text at the head of each theory.
\<close>

end
